(* ===== verification/VTL_Prelude.thy ===== *)
theory VTL_Prelude
  imports Main "HOL-Library.Word" "HOL-Library.Monad_Syntax"
begin

text \<open>
  Shared vocabulary of the development: the C integer types as words, byte strings, bounds-checked
  little-endian loads and stores (every C memory access of a packet goes through \<open>ld\<close> and \<open>st\<close>;
  \<open>None\<close> is an access outside the packet), and the array maps of the eBPF runtime. The lemma
  collection \<open>mem_simps\<close> carries the memory-safety and frame proofs of the components.
\<close>

unbundle bit_operations_syntax

type_synonym u8 = "8 word"
type_synonym u16 = "16 word"
type_synonym u32 = "32 word"
type_synonym u64 = "64 word"
type_synonym bytes = "u8 list"

named_theorems mem_simps "bounds and frames of loads and stores"

text \<open>The size of an interface name in the C library.\<close>

definition IF_NAMESIZE :: nat where "IF_NAMESIZE = 16"

section \<open>Little-endian encoding\<close>

fun le_get :: "bytes \<Rightarrow> nat" where
  "le_get [] = 0"
| "le_get (b # bs) = unat b + 256 * le_get bs"

fun le_put :: "nat \<Rightarrow> nat \<Rightarrow> bytes" where
  "le_put 0 n = []"
| "le_put (Suc k) n = word_of_nat n # le_put k (n div 256)"

lemma length_le_put [simp]: "length (le_put k n) = k"
  by (induction k arbitrary: n) auto

lemma unat_u8_less: "unat (b :: u8) < 256"
  using unsigned_less [of b, where 'a = nat] by simp

lemma le_get_less: "le_get bs < 256 ^ length bs"
proof (induction bs)
  case Nil
  then show ?case by simp
next
  case (Cons b bs)
  have "unat b < 256" by (rule unat_u8_less)
  moreover have "le_get bs + 1 \<le> 256 ^ length bs" using Cons.IH by simp
  then have "256 * le_get bs + 256 \<le> 256 * 256 ^ length bs"
    by (metis add_mult_distrib2 mult.right_neutral mult_le_mono2)
  ultimately show ?case by simp
qed

lemma le_get_le_put: "le_get (le_put k n) = n mod 256 ^ k"
proof (induction k arbitrary: n)
  case 0
  then show ?case by simp
next
  case (Suc k)
  have "unat (word_of_nat n :: u8) = n mod 256"
    by (simp add: unat_of_nat)
  then show ?case
    using Suc.IH [of "n div 256"] by (simp add: mod_mult2_eq)
qed

lemma le_put_le_get: "le_put (length bs) (le_get bs) = bs"
proof (induction bs)
  case Nil
  then show ?case by simp
next
  case (Cons b bs)
  have "(unat b + 256 * le_get bs) div 256 = le_get bs"
    using unat_u8_less [of b] by simp
  moreover have "(word_of_nat (unat b + 256 * le_get bs) :: u8) = b"
  proof -
    have "(256 :: u8) = 0" by simp
    then have "256 * (word_of_nat (le_get bs) :: u8) = 0" by (metis mult_zero_left)
    then show ?thesis by simp
  qed
  ultimately show ?case using Cons.IH by simp
qed

lemma le_put_le_get_len: "length bs = k \<Longrightarrow> le_put k (le_get bs) = bs"
  using le_put_le_get by blast

lemma le_get_inj: "length as = length bs \<Longrightarrow> le_get as = le_get bs \<longleftrightarrow> as = bs"
  by (metis le_put_le_get)

section \<open>Bounds-checked loads and stores\<close>

definition ld :: "nat \<Rightarrow> nat \<Rightarrow> bytes \<Rightarrow> nat option" where
  "ld off w p = (if off + w \<le> length p then Some (le_get (take w (drop off p))) else None)"

definition st :: "nat \<Rightarrow> nat \<Rightarrow> nat \<Rightarrow> bytes \<Rightarrow> bytes option" where
  "st off w v p =
     (if off + w \<le> length p then Some (take off p @ le_put w v @ drop (off + w) p) else None)"

definition seg :: "nat \<Rightarrow> nat \<Rightarrow> bytes \<Rightarrow> bytes" where
  "seg off w p = take w (drop off p)"

lemma length_seg [simp]: "length (seg off w p) = min w (length p - off)"
  by (simp add: seg_def)

lemma ld_seg: "off + w \<le> length p \<Longrightarrow> ld off w p = Some (le_get (seg off w p))"
  by (simp add: ld_def seg_def)

lemma ld_append_skip: "length pre \<le> off \<Longrightarrow> ld off w (pre @ p) = ld (off - length pre) w p"
  by (auto simp: ld_def)

lemma ld_append_put: "ld 0 w (le_put w v @ p) = Some (v mod 256 ^ w)"
  by (simp add: ld_def le_get_le_put)

lemma ld_in_bounds [mem_simps]: "off + w \<le> length p \<Longrightarrow> \<exists>v. ld off w p = Some v"
  by (simp add: ld_def)

lemma ld_eq_None [simp]: "ld off w p = None \<longleftrightarrow> length p < off + w"
  by (auto simp: ld_def)

lemma st_eq_None [simp]: "st off w v p = None \<longleftrightarrow> length p < off + w"
  by (auto simp: st_def)

lemma ld_bound: "ld off w p = Some v \<Longrightarrow> v < 256 ^ w"
  using le_get_less [of "take w (drop off p)"] by (auto simp: ld_def split: if_splits)

lemma ld_SomeD: "ld off w p = Some v \<Longrightarrow> off + w \<le> length p"
  by (simp add: ld_def split: if_splits)

lemma st_SomeD: "st off w v p = Some q \<Longrightarrow> off + w \<le> length p"
  by (simp add: st_def split: if_splits)

lemma st_length: "st off w v p = Some q \<Longrightarrow> length q = length p"
  by (auto simp: st_def split: if_splits)

lemma st_nth:
  assumes "st off w v p = Some q" and "i < length p" and "i < off \<or> off + w \<le> i"
  shows "q ! i = p ! i"
  using assms by (auto simp: st_def nth_append split: if_splits)

lemma seg_cong:
  assumes "length q = length p" and "\<And>i. off \<le> i \<Longrightarrow> i < off + w \<Longrightarrow> i < length p \<Longrightarrow> q ! i = p ! i"
  shows "seg off w q = seg off w p"
proof (rule nth_equalityI)
  show "length (seg off w q) = length (seg off w p)" using assms(1) by simp
next
  fix i assume "i < length (seg off w q)"
  then have "i < w" "off + i < length p" using assms(1) by auto
  then show "seg off w q ! i = seg off w p ! i"
    using assms(1) assms(2) [of "off + i"] by (simp add: seg_def)
qed

lemma seg_st_disjoint:
  assumes "st off w v p = Some q" and "off + w \<le> off' \<or> off' + w' \<le> off"
  shows "seg off' w' q = seg off' w' p"
  by (rule seg_cong) (use assms in \<open>auto simp: st_length intro!: st_nth [OF assms(1)]\<close>)

lemma seg_st_same: "st off w v p = Some q \<Longrightarrow> seg off w q = le_put w v"
  by (auto simp: st_def seg_def split: if_splits)

lemma ld_st_same: "st off w v p = Some q \<Longrightarrow> ld off w q = Some (v mod 256 ^ w)"
  using seg_st_same [of off w v p q] st_length [of off w v p q] st_SomeD [of off w v p q]
  by (simp add: ld_seg le_get_le_put)

lemma ld_st_disjoint:
  assumes "st off w v p = Some q" and "off + w \<le> off' \<or> off' + w' \<le> off"
  shows "ld off' w' q = ld off' w' p"
proof -
  have "seg off' w' q = seg off' w' p" using assms by (rule seg_st_disjoint)
  then show ?thesis using st_length [OF assms(1)] by (simp add: ld_def seg_def)
qed

lemma drop_st: "st off w v p = Some q \<Longrightarrow> off + w \<le> k \<Longrightarrow> drop k q = drop k p"
  by (rule nth_equalityI) (auto simp: st_length intro!: st_nth)

lemma ld_seg_cong: "length q = length p \<Longrightarrow> seg off w q = seg off w p \<Longrightarrow> ld off w q = ld off w p"
  by (simp add: ld_def seg_def)

lemma seg_concat:
  "(\<And>x. x \<in> set xs \<Longrightarrow> length x = sz) \<Longrightarrow> k < length xs \<Longrightarrow> seg (k * sz) sz (concat xs) = xs ! k"
proof (induction xs arbitrary: k)
  case Nil
  then show ?case by simp
next
  case (Cons x xs)
  then show ?case by (cases k) (auto simp: seg_def)
qed

lemma seg_seg: "o' + w' \<le> w \<Longrightarrow> seg o' w' (seg off w p) = seg (off + o') w' p"
  by (simp add: seg_def drop_take min_def add.commute)

lemma ld_update_above [mem_simps]: "off + w \<le> i \<Longrightarrow> ld off w (p[i := v]) = ld off w p"
  by (simp add: ld_def drop_update_swap take_update_cancel)

lemma ld_take [mem_simps]: "off + w \<le> n \<Longrightarrow> n \<le> length p \<Longrightarrow> ld off w (take n p) = ld off w p"
  by (simp add: ld_def drop_take min_def)

lemma seg_update:
  "off \<le> i \<Longrightarrow> i < off + w \<Longrightarrow> i < length p \<Longrightarrow> seg off w (p[i := v]) = (seg off w p)[i - off := v]"
  by (simp add: seg_def drop_update_swap take_update_swap)

lemma seg_update_outside: "i < off \<or> off + w \<le> i \<Longrightarrow> seg off w (p[i := v]) = seg off w p"
  by (auto simp: seg_def drop_update_cancel drop_update_swap take_update_cancel)

lemma unat_ucast_u8_u16 [simp]: "unat (ucast (x :: u8) :: u16) = unat x"
  using unsigned_less [of x, where 'a = nat]
  by (simp add: unsigned_ucast_eq take_bit_nat_eq_self)

lemma ucast_u8_u16_inj [simp]: "(ucast (x :: u8) :: u16) = ucast y \<longleftrightarrow> x = y"
  by (metis unat_ucast_u8_u16 word_unat_eq_iff)

lemma unat_word_of_nat_u8: "n < 256 \<Longrightarrow> unat (word_of_nat n :: u8) = n"
  by (simp add: unat_of_nat)

lemma unat_word_of_nat_u16: "n < 65536 \<Longrightarrow> unat (word_of_nat n :: u16) = n"
  by (simp add: unat_of_nat)

lemma unat_word_of_nat_u32: "n < 2 ^ 32 \<Longrightarrow> unat (word_of_nat n :: u32) = n"
  by (simp add: unat_of_nat)

lemma unat_word_of_nat_u64: "n < 2 ^ 64 \<Longrightarrow> unat (word_of_nat n :: u64) = n"
  by (simp add: unat_of_nat)

lemma unat_ucast_u32_u16: "unat (ucast (x :: u32) :: u16) = unat x mod 65536"
  by (simp add: unsigned_ucast_eq take_bit_eq_mod)

section \<open>Safe computations\<close>

text \<open>A computation is safe when it performs no access outside the bytes it was given.\<close>

definition safe :: "'a option \<Rightarrow> bool" where
  "safe m \<longleftrightarrow> m \<noteq> None"

lemma safe_Some [simp]: "safe (Some x)"
  by (simp add: safe_def)

lemma safe_ld [simp]: "safe (ld off w p) \<longleftrightarrow> off + w \<le> length p"
  by (auto simp: safe_def)

lemma safe_st [simp]: "safe (st off w v p) \<longleftrightarrow> off + w \<le> length p"
  by (auto simp: safe_def)

lemma safe_map_option [simp]: "safe (map_option f m) = safe m"
  by (simp add: safe_def)

lemma safe_bind: "safe m \<Longrightarrow> (\<And>v. m = Some v \<Longrightarrow> safe (f v)) \<Longrightarrow> safe (m \<bind> f)"
  by (auto simp: safe_def Option.bind_eq_None_conv)

lemma safe_if: "(c \<Longrightarrow> safe a) \<Longrightarrow> (\<not> c \<Longrightarrow> safe b) \<Longrightarrow> safe (if c then a else b)"
  by simp

lemma safe_case_option:
  "(m = None \<Longrightarrow> safe a) \<Longrightarrow> (\<And>v. m = Some v \<Longrightarrow> safe (f v)) \<Longrightarrow>
   safe (case m of None \<Rightarrow> a | Some v \<Rightarrow> f v)"
  by (cases m) auto

lemma safe_case_prod: "(\<And>a b. x = (a, b) \<Longrightarrow> safe (f a b)) \<Longrightarrow> safe (case x of (a, b) \<Rightarrow> f a b)"
  by (cases x) auto

lemma safe_let: "(\<And>v. v = x \<Longrightarrow> safe (f v)) \<Longrightarrow> safe (let v = x in f v)"
  by simp

lemma safeE: "safe m \<Longrightarrow> (\<And>v. m = Some v \<Longrightarrow> P) \<Longrightarrow> P"
  by (auto simp: safe_def)

lemmas safe_intros = safe_Some safe_bind safe_if safe_case_option safe_case_prod safe_let

lemma xor_cancel_left [simp]: "(a :: 'a :: len word) XOR (a XOR b) = b"
  by (simp flip: xor.assoc)

section \<open>Array maps of the eBPF runtime\<close>

text \<open>
  \<open>BPF_MAP_TYPE_ARRAY\<close> as documented in \<open>linux/bpf.h\<close>: all entries exist from the start, a lookup
  past \<open>max_entries\<close> returns NULL, an update there fails with a negative error and changes nothing.
\<close>

definition map_lookup :: "'a list \<Rightarrow> nat \<Rightarrow> 'a option" where
  "map_lookup m k = (if k < length m then Some (m ! k) else None)"

definition map_update :: "'a list \<Rightarrow> nat \<Rightarrow> 'a \<Rightarrow> 'a list \<times> int" where
  "map_update m k v = (if k < length m then (m[k := v], 0) else (m, -7))"

lemma map_lookup_eq_Some [simp]: "map_lookup m k = Some v \<longleftrightarrow> k < length m \<and> m ! k = v"
  by (simp add: map_lookup_def)

lemma map_lookup_eq_None [simp]: "map_lookup m k = None \<longleftrightarrow> length m \<le> k"
  by (auto simp: map_lookup_def)

lemma map_lookup_in [simp]: "k < length m \<Longrightarrow> map_lookup m k = Some (m ! k)"
  by (simp add: map_lookup_def)

lemma map_lookup_out [simp]: "length m \<le> k \<Longrightarrow> map_lookup m k = None"
  by (simp add: map_lookup_def)

lemma length_map_update [simp]: "length (fst (map_update m k v)) = length m"
  by (simp add: map_update_def)

lemma map_update_fst_nth:
  "i < length m \<Longrightarrow> fst (map_update m k v) ! i = (if i = k then v else m ! i)"
  by (simp add: map_update_def nth_list_update)

lemma map_update_ok: "k < length m \<Longrightarrow> map_update m k v = (m[k := v], 0)"
  by (simp add: map_update_def)

end
