(* ===== verification/VTL_Wire.thy ===== *)
theory VTL_Wire
  imports VTL_Prelude
begin

text \<open>
  The packet layout and the inline helpers of \<open>include/vtl.h\<close>: the VTL header fields at their
  offsets in an Ethernet/IPv4 frame, packet types, the XOR checksum \<open>vtl_csum\<close>, the stream cookie
  and the option names; the MAC swap and the NACK rewriting that the ingress grafts share.
  Layout (x86-64 and the bpfel target, little endian): Ethernet 14 bytes, IPv4 20 bytes,
  \<open>vtl_hdr_t\<close> 24 bytes (gid at 0, pkt_type at 4, payload_len at 8, checksum at 16, seq_num at 18,
  four bytes of padding), payload at 58, \<open>ON_WIRE_SIZE\<close> = 58 + \<open>VTL_DATA_SIZE\<close>.
\<close>

section \<open>Constants and enumerations\<close>

definition IPPROTO_VTL :: nat where "IPPROTO_VTL = 0xfd"
definition VTL_DATA_SIZE :: nat where "VTL_DATA_SIZE = 0x400"
definition ON_WIRE_SIZE :: nat where "ON_WIRE_SIZE = 0x43A"
definition MAX_HANDLED_TCP_STREAMS :: nat where "MAX_HANDLED_TCP_STREAMS = 0x10000"
definition MAX_PROFILING_TRIES :: int where "MAX_PROFILING_TRIES = 5"

definition ETH_LEN :: nat where "ETH_LEN = 14"
definition IP_END :: nat where "IP_END = 34"
definition VTL_END :: nat where "VTL_END = 58"

lemmas wire_consts = IPPROTO_VTL_def VTL_DATA_SIZE_def ON_WIRE_SIZE_def
  MAX_HANDLED_TCP_STREAMS_def ETH_LEN_def IP_END_def VTL_END_def

text \<open>The events stored in \<open>sock_state_t.event\<close>.\<close>

definition RECV_ACK :: int where "RECV_ACK = 0"
definition RECV_NACK :: int where "RECV_NACK = 1"
definition TIMEOUT :: int where "TIMEOUT = 2"
definition IDLE :: int where "IDLE = 3"

lemmas event_defs = RECV_ACK_def RECV_NACK_def TIMEOUT_def IDLE_def

record sock_state =
  sk_fd :: u32
  event :: int

datatype negotiation_state = N_ACCEPT | N_REFUSE | N_IDLE

datatype vtl_pkt_type = NEGO | DATA | ACK | NACK | NEGO_ACK | NEGO_NACK

fun pkt_code :: "vtl_pkt_type \<Rightarrow> nat" where
  "pkt_code NEGO = 0"
| "pkt_code DATA = 1"
| "pkt_code ACK = 2"
| "pkt_code NACK = 3"
| "pkt_code NEGO_ACK = 4"
| "pkt_code NEGO_NACK = 5"

lemma pkt_code_eq [simp]: "pkt_code a = pkt_code b \<longleftrightarrow> a = b"
  by (cases a; cases b) simp_all

lemma pkt_code_small: "pkt_code t < 256 ^ 4"
  by (cases t) simp_all

datatype xdp_action = XDP_ABORTED | XDP_DROP | XDP_PASS | XDP_TX | XDP_REDIRECT
datatype tc_action = TC_ACT_OK | TC_ACT_SHOT

section \<open>Header fields\<close>

definition ip_protocol :: "bytes \<Rightarrow> nat option" where "ip_protocol = ld 23 1"
definition ip_saddr :: "bytes \<Rightarrow> nat option" where "ip_saddr = ld 26 4"
definition ip_daddr :: "bytes \<Rightarrow> nat option" where "ip_daddr = ld 30 4"
definition set_ip_saddr :: "nat \<Rightarrow> bytes \<Rightarrow> bytes option" where "set_ip_saddr = st 26 4"
definition set_ip_daddr :: "nat \<Rightarrow> bytes \<Rightarrow> bytes option" where "set_ip_daddr = st 30 4"

definition vtlh_gid :: "bytes \<Rightarrow> int option" where
  "vtlh_gid p = map_option (\<lambda>n. sint (word_of_nat n :: u8)) (ld 34 1 p)"
definition vtlh_pkt_type :: "bytes \<Rightarrow> nat option" where "vtlh_pkt_type = ld 38 4"
definition vtlh_payload_len :: "bytes \<Rightarrow> nat option" where "vtlh_payload_len = ld 42 8"
definition vtlh_checksum :: "bytes \<Rightarrow> nat option" where "vtlh_checksum = ld 50 2"
definition vtlh_seq_num :: "bytes \<Rightarrow> nat option" where "vtlh_seq_num = ld 52 2"

definition set_pkt_type :: "vtl_pkt_type \<Rightarrow> bytes \<Rightarrow> bytes option" where
  "set_pkt_type t = st 38 4 (pkt_code t)"
definition set_checksum :: "u16 \<Rightarrow> bytes \<Rightarrow> bytes option" where
  "set_checksum c = st 50 2 (unat c)"
definition set_seq_num :: "u16 \<Rightarrow> bytes \<Rightarrow> bytes option" where
  "set_seq_num s = st 52 2 (unat s)"

lemmas get_defs = ip_protocol_def ip_saddr_def ip_daddr_def vtlh_gid_def vtlh_pkt_type_def
  vtlh_payload_len_def vtlh_checksum_def vtlh_seq_num_def
lemmas set_defs = set_ip_saddr_def set_ip_daddr_def set_pkt_type_def set_checksum_def
  set_seq_num_def
lemmas field_defs = get_defs set_defs

text \<open>
  A header field as the programs use it: a width and an offset, a reader and a writer. The laws are
  what the graft proofs need of a field; every field of the frame is an instance.
\<close>

locale wire_field =
  fixes off w :: nat
    and get :: "bytes \<Rightarrow> nat option"
    and put :: "nat \<Rightarrow> bytes \<Rightarrow> bytes option"
  assumes get_ok: "off + w \<le> length p \<Longrightarrow> get p \<noteq> None"
    and put_ok: "off + w \<le> length p \<Longrightarrow> put v p \<noteq> None"
    and put_len: "put v p = Some q \<Longrightarrow> length q = length p"
    and get_put: "put v p = Some q \<Longrightarrow> v < 256 ^ w \<Longrightarrow> get q = Some v"
    and get_cong: "length q = length p \<Longrightarrow> seg off w q = seg off w p \<Longrightarrow> get q = get p"
    and put_frame: "put v p = Some q \<Longrightarrow> o' + w' \<le> off \<or> off + w \<le> o' \<Longrightarrow> seg o' w' q = seg o' w' p"
begin

lemma put_then_get:
  "off + w \<le> length p \<Longrightarrow> v < 256 ^ w \<Longrightarrow> \<exists>q. put v p = Some q \<and> get q = Some v \<and> length q = length p"
  using put_ok get_put put_len by blast

end

locale field_pair = a: wire_field o1 w1 get1 put1 + b: wire_field o2 w2 get2 put2
  for o1 w1 get1 put1 o2 w2 get2 put2 +
  assumes disjoint: "o1 + w1 \<le> o2 \<or> o2 + w2 \<le> o1"
begin

lemma get_after_other: "put1 v p = Some q \<Longrightarrow> get2 q = get2 p"
  using a.put_len a.put_frame b.get_cong disjoint by blast

lemma both_written:
  assumes "put1 v p = Some q" and "put2 u q = Some r" and "v < 256 ^ w1" and "u < 256 ^ w2"
  shows "get1 r = Some v \<and> get2 r = Some u"
proof -
  have "seg o1 w1 r = seg o1 w1 q" using b.put_frame [OF assms(2)] disjoint by blast
  then have "get1 r = get1 q" using a.get_cong b.put_len [OF assms(2)] by blast
  then show ?thesis using a.get_put [OF assms(1,3)] b.get_put [OF assms(2,4)] by simp
qed

end

lemma wire_field_ld_st: "wire_field off w (ld off w) (st off w)"
proof
  fix p q :: bytes and v o' w' :: nat
  show "off + w \<le> length p \<Longrightarrow> ld off w p \<noteq> None" by simp
  show "off + w \<le> length p \<Longrightarrow> st off w v p \<noteq> None" by simp
  show "st off w v p = Some q \<Longrightarrow> length q = length p" by (rule st_length)
  show "st off w v p = Some q \<Longrightarrow> v < 256 ^ w \<Longrightarrow> ld off w q = Some v"
    by (simp add: ld_st_same)
  show "length q = length p \<Longrightarrow> seg off w q = seg off w p \<Longrightarrow> ld off w q = ld off w p"
    by (simp add: ld_def seg_def)
  show "st off w v p = Some q \<Longrightarrow> o' + w' \<le> off \<or> off + w \<le> o' \<Longrightarrow> seg o' w' q = seg o' w' p"
    using seg_st_disjoint by blast
qed

interpretation saddr: wire_field 26 4 ip_saddr set_ip_saddr
  unfolding ip_saddr_def set_ip_saddr_def by (rule wire_field_ld_st)

interpretation daddr: wire_field 30 4 ip_daddr set_ip_daddr
  unfolding ip_daddr_def set_ip_daddr_def by (rule wire_field_ld_st)

interpretation ptype: wire_field 38 4 vtlh_pkt_type "st 38 4"
  unfolding vtlh_pkt_type_def by (rule wire_field_ld_st)

interpretation csum: wire_field 50 2 vtlh_checksum "st 50 2"
  unfolding vtlh_checksum_def by (rule wire_field_ld_st)

interpretation seqn: wire_field 52 2 vtlh_seq_num "st 52 2"
  unfolding vtlh_seq_num_def by (rule wire_field_ld_st)

interpretation csum_seq: field_pair 50 2 vtlh_checksum "st 50 2" 52 2 vtlh_seq_num "st 52 2"
  by unfold_locales simp

interpretation src_dst: field_pair 26 4 ip_saddr set_ip_saddr 30 4 ip_daddr set_ip_daddr
  by unfold_locales simp

section \<open>The header walk of the programs\<close>

text \<open>
  Every graft begins by checking \<open>eth + 1\<close>, \<open>iph + 1\<close>, the IP protocol and \<open>vtlh + 1\<close> against
  \<open>data_end\<close>, in this order. \<open>bad\<close> is what the program returns for a malformed frame, \<open>other\<close> for
  a frame of another protocol; \<open>k\<close> is the rest of the program.
\<close>

definition with_vtl_hdr :: "bytes \<Rightarrow> 'a \<Rightarrow> 'a \<Rightarrow> 'a option \<Rightarrow> 'a option" where
  "with_vtl_hdr p bad other k =
     (if length p < ETH_LEN then Some bad
      else if length p < IP_END then Some bad
      else do {
        proto \<leftarrow> ip_protocol p;
        if proto \<noteq> IPPROTO_VTL then Some other
        else if length p < VTL_END then Some bad
        else k })"

definition vtl_frame :: "bytes \<Rightarrow> bool" where
  "vtl_frame p \<longleftrightarrow> VTL_END \<le> length p \<and> ip_protocol p = Some IPPROTO_VTL"

lemma with_vtl_hdr_frame: "vtl_frame p \<Longrightarrow> with_vtl_hdr p bad other k = k"
  by (simp add: with_vtl_hdr_def vtl_frame_def wire_consts)

lemma safe_with_vtl_hdr: "(vtl_frame p \<Longrightarrow> safe k) \<Longrightarrow> safe (with_vtl_hdr p bad other k)"
  by (auto simp: with_vtl_hdr_def vtl_frame_def ip_protocol_def wire_consts intro!: safe_intros)

lemma with_vtl_hdr_cases:
  assumes "with_vtl_hdr p bad other k = Some r"
  obtains (frame) "vtl_frame p" "k = Some r"
    | (bad) "\<not> vtl_frame p" "r = bad"
    | (other) "\<not> vtl_frame p" "IP_END \<le> length p" "ip_protocol p \<noteq> Some IPPROTO_VTL" "r = other"
  using assms
  by (auto simp: with_vtl_hdr_def vtl_frame_def wire_consts Option.bind_eq_Some_conv split: if_splits)

lemma with_vtl_hdr_not_frame:
  "\<not> vtl_frame p \<Longrightarrow> with_vtl_hdr p bad other k = Some bad \<or> with_vtl_hdr p bad other k = Some other"
  by (auto simp: with_vtl_hdr_def vtl_frame_def wire_consts ip_protocol_def ld_def)

section \<open>vtl_csum\<close>

text \<open>
  The loop of \<open>vtl_csum\<close>: \<open>None\<close> is an access outside the frame, \<open>Some None\<close> the return of -1 when
  \<open>block + 1 > data_end\<close>, \<open>Some (Some acc)\<close> the acc. \<open>block = d + y - 1\<close> is at offset
  \<open>VTL_END + y - 1\<close>, as written in the source.
\<close>

function csum_loop :: "bytes \<Rightarrow> nat \<Rightarrow> nat \<Rightarrow> u8 \<Rightarrow> u8 option option" where
  "csum_loop p plen y acc =
     (if y < plen then
        if y > VTL_DATA_SIZE then Some (Some acc)
        else if length p < VTL_END + y - 1 + 1 then Some None
        else do {
          b \<leftarrow> ld (VTL_END + y - 1) 1 p;
          csum_loop p plen (Suc y) (acc XOR word_of_nat b) }
      else Some (Some acc))"
  by pat_completeness auto
termination
  by (relation "measure (\<lambda>(p, plen, y, acc). VTL_DATA_SIZE + 2 - y)") auto

declare csum_loop.simps [simp del]

definition vtl_csum :: "bytes \<Rightarrow> u16 option option" where
  "vtl_csum p =
     with_vtl_hdr p None None
       (if length p < VTL_END + 1 then Some None
        else do {
          plen \<leftarrow> vtlh_payload_len p;
          s \<leftarrow> csum_loop p plen 0 0;
          Some (map_option ucast s) })"

text \<open>The reference: the XOR of a byte string, and the bytes the loop covers.\<close>

fun xor_bytes :: "bytes \<Rightarrow> u8" where
  "xor_bytes [] = 0"
| "xor_bytes (b # bs) = b XOR xor_bytes bs"

definition covered :: "bytes \<Rightarrow> nat \<Rightarrow> bytes" where
  "covered p plen = seg (VTL_END - 1) (min plen (VTL_DATA_SIZE + 1)) p"

lemma xor_bytes_append: "xor_bytes (as @ bs) = xor_bytes as XOR xor_bytes bs"
  by (induction as) (simp_all add: xor.assoc)

lemma xor_bytes_update:
  "i < length bs \<Longrightarrow> xor_bytes (bs[i := v]) = xor_bytes bs XOR (bs ! i) XOR v"
proof (induction bs arbitrary: i)
  case Nil
  then show ?case by simp
next
  case (Cons b bs)
  show ?case
  proof (cases i)
    case 0
    then show ?thesis by (simp add: ac_simps)
  next
    case (Suc j)
    then show ?thesis using Cons by (simp add: xor.assoc)
  qed
qed

lemma ld_byte: "off < length p \<Longrightarrow> ld off 1 p = Some (unat (p ! off))"
  by (simp add: ld_def take_Suc_conv_app_nth [of 0, simplified] hd_drop_conv_nth take_Suc drop_Suc
      flip: Cons_nth_drop_Suc)

lemma ld_byte_Suc [simp]: "off < length p \<Longrightarrow> ld off (Suc 0) p = Some (unat (p ! off))"
  using ld_byte by simp

lemma safe_csum_loop: "safe (csum_loop p plen y acc)"
proof (induction p plen y acc rule: csum_loop.induct)
  case (1 p plen y acc)
  show ?case
    by (subst csum_loop.simps, intro safe_intros "1.IH") (auto simp: VTL_END_def)
qed

lemma csum_loop_spec:
  assumes "y \<le> n" and "n = min plen (VTL_DATA_SIZE + 1)" and "VTL_END - 1 + n \<le> length p"
  shows "csum_loop p plen y acc = Some (Some (acc XOR xor_bytes (seg (VTL_END - 1 + y) (n - y) p)))"
  using assms
proof (induction p plen y acc rule: csum_loop.induct)
  case (1 p plen y acc)
  show ?case
  proof (cases "y < n")
    case True
    let ?o = "VTL_END - 1 + y"
    have c: "y < plen" "\<not> VTL_DATA_SIZE < y" using True "1.prems" by auto
    have o: "?o < length p" using True "1.prems"(3) by linarith
    have l: "ld (VTL_END + y - 1) 1 p = Some (unat (p ! ?o))"
      using o ld_byte [of ?o p] by (simp add: VTL_END_def)
    have "seg ?o (n - y) p = p ! ?o # seg (VTL_END - 1 + Suc y) (n - Suc y) p"
      using True o by (simp add: seg_def take_Cons' flip: Cons_nth_drop_Suc)
    moreover have "csum_loop p plen (Suc y) (acc XOR word_of_nat (unat (p ! ?o))) =
        Some (Some ((acc XOR p ! ?o) XOR xor_bytes (seg (VTL_END - 1 + Suc y) (n - Suc y) p)))"
      using "1.IH" [of "unat (p ! ?o)"] c o l True "1.prems" by (simp add: VTL_END_def)
    ultimately show ?thesis
      using c o l by (simp add: csum_loop.simps [of p plen y acc] VTL_END_def xor.assoc)
  next
    case False
    then have "y = n" using "1.prems"(1) by linarith
    then show ?thesis
      using "1.prems"(2) by (subst csum_loop.simps) (auto simp: seg_def)
  qed
qed

lemma csum_loop_short:
  assumes "n = min plen (VTL_DATA_SIZE + 1)" and "length p < VTL_END - 1 + n" and "y < n"
    and "VTL_END - 1 + y \<le> length p"
  shows "csum_loop p plen y acc = Some None"
  using assms
proof (induction p plen y acc rule: csum_loop.induct)
  case (1 p plen y acc)
  have c: "y < plen" "\<not> VTL_DATA_SIZE < y" using "1.prems" by auto
  show ?case
  proof (cases "length p < VTL_END + y - 1 + 1")
    case True
    then show ?thesis using c by (simp add: csum_loop.simps [of p plen y acc])
  next
    case False
    then have o: "VTL_END + y - 1 < length p" by simp
    have "Suc y < n" using o "1.prems"(2) by (simp add: VTL_END_def)
    moreover have "VTL_END - 1 + Suc y \<le> length p" using o by (simp add: VTL_END_def)
    ultimately have "csum_loop p plen (Suc y) (acc XOR word_of_nat (unat (p ! (VTL_END + y - 1)))) = Some None"
      using "1.IH" [OF c False ld_byte [OF o]] "1.prems"(1,2) by blast
    then show ?thesis using c False o by (simp add: csum_loop.simps [of p plen y acc])
  qed
qed

lemma safe_vtl_csum: "safe (vtl_csum p)"
  unfolding vtl_csum_def
  by (intro safe_intros safe_with_vtl_hdr safe_csum_loop)
    (auto simp: vtl_frame_def vtlh_payload_len_def wire_consts)

definition csum_fits :: "bytes \<Rightarrow> nat \<Rightarrow> bool" where
  "csum_fits p plen \<longleftrightarrow> VTL_END < length p \<and> VTL_END - 1 + min plen (VTL_DATA_SIZE + 1) \<le> length p"

lemma vtl_csum_eq:
  assumes "vtl_frame p" and "vtlh_payload_len p = Some plen"
  shows "vtl_csum p =
    (if csum_fits p plen then Some (Some (ucast (xor_bytes (covered p plen)))) else Some None)"
proof (cases "csum_fits p plen")
  case True
  have "csum_loop p plen 0 0 = Some (Some (xor_bytes (covered p plen)))"
    using csum_loop_spec [of 0 "min plen (VTL_DATA_SIZE + 1)" plen p 0] True
    by (simp add: csum_fits_def covered_def)
  then show ?thesis
    using True assms by (simp add: vtl_csum_def with_vtl_hdr_frame csum_fits_def)
next
  case False
  have "VTL_END < length p \<Longrightarrow> csum_loop p plen 0 0 = Some None"
    using csum_loop_short [of "min plen (VTL_DATA_SIZE + 1)" plen p 0 0] False
    by (simp add: csum_fits_def)
  then show ?thesis
    using False assms by (auto simp: vtl_csum_def with_vtl_hdr_frame csum_fits_def)
qed

lemma vtl_csum_SomeD:
  assumes "vtl_csum p = Some (Some c)"
  obtains plen where "vtl_frame p" "vtlh_payload_len p = Some plen" "csum_fits p plen"
    "c = ucast (xor_bytes (covered p plen))"
proof -
  have f: "vtl_frame p" using assms unfolding vtl_csum_def by (auto elim: with_vtl_hdr_cases)
  then obtain plen where l: "vtlh_payload_len p = Some plen"
    by (auto simp: vtl_frame_def vtlh_payload_len_def wire_consts ld_def)
  show thesis using that [OF f l] assms vtl_csum_eq [OF f l] by (auto split: if_splits)
qed

text \<open>The checksum of two frames agrees when the covered bytes do.\<close>

lemma vtl_csum_cong:
  assumes "length q = length p" and "ip_protocol q = ip_protocol p"
    and "vtlh_payload_len q = vtlh_payload_len p"
    and "\<And>plen. vtlh_payload_len p = Some plen \<Longrightarrow> covered q plen = covered p plen"
  shows "vtl_csum q = vtl_csum p"
proof (cases "vtl_frame p")
  case True
  then obtain plen where l: "vtlh_payload_len p = Some plen"
    by (auto simp: vtl_frame_def vtlh_payload_len_def wire_consts ld_def)
  have "vtl_frame q" using True assms by (simp add: vtl_frame_def)
  then show ?thesis
    using True l assms by (simp add: vtl_csum_eq csum_fits_def)
next
  case False
  then show ?thesis
    using assms by (auto simp: vtl_csum_def with_vtl_hdr_def vtl_frame_def wire_consts split: Option.bind_splits)
qed

section \<open>MAC swap and NACK rewriting\<close>

definition swap_src_dst_mac :: "bytes \<Rightarrow> bytes option" where
  "swap_src_dst_mac p = do {
     dst0 \<leftarrow> ld 0 2 p;
     dst1 \<leftarrow> ld 2 2 p;
     dst2 \<leftarrow> ld 4 2 p;
     s0 \<leftarrow> ld 6 2 p;
     p \<leftarrow> st 0 2 s0 p;
     s1 \<leftarrow> ld 8 2 p;
     p \<leftarrow> st 2 2 s1 p;
     s2 \<leftarrow> ld 10 2 p;
     p \<leftarrow> st 4 2 s2 p;
     p \<leftarrow> st 6 2 dst0 p;
     p \<leftarrow> st 8 2 dst1 p;
     st 10 2 dst2 p }"

definition make_nack :: "bytes \<Rightarrow> bytes option" where
  "make_nack p = do {
     p \<leftarrow> swap_src_dst_mac p;
     temp_ip \<leftarrow> ip_saddr p;
     d \<leftarrow> ip_daddr p;
     p \<leftarrow> set_ip_saddr d p;
     p \<leftarrow> set_ip_daddr temp_ip p;
     set_pkt_type NACK p }"

lemma list_ge12:
  assumes "12 \<le> length p"
  obtains a b c d e f g h i j k l r where "p = a # b # c # d # e # f # g # h # i # j # k # l # r"
proof -
  have "\<exists>xs r. p = xs @ r \<and> length xs = 12"
    using assms by (intro exI [of _ "take 12 p"] exI [of _ "drop 12 p"]) simp
  then show thesis using that by (auto simp: length_Suc_conv eval_nat_numeral)
qed

lemma le_put2_le_get2 [simp]: "le_put 2 (unat a + 256 * unat b) = [a, b]"
  using le_put_le_get [of "[a, b]"] by (simp add: numeral_2_eq_2 del: le_put.simps)

lemma swap_src_dst_mac_eq:
  assumes "12 \<le> length p"
  shows "swap_src_dst_mac p = Some (seg 6 6 p @ seg 0 6 p @ drop 12 p)"
proof -
  from assms obtain a b c d e f g h i j k l r where
    "p = a # b # c # d # e # f # g # h # i # j # k # l # r" by (rule list_ge12)
  then show ?thesis by (simp add: swap_src_dst_mac_def ld_def st_def seg_def)
qed

lemma swap_twice:
  "12 \<le> length p \<Longrightarrow> swap_src_dst_mac p \<bind> swap_src_dst_mac = Some p"
  by (erule list_ge12) (simp add: swap_src_dst_mac_eq seg_def)

lemma swap_src_dst_mac_props:
  assumes "swap_src_dst_mac p = Some q" and "12 \<le> length p"
  shows "length q = length p" and "12 \<le> o' \<Longrightarrow> seg o' w' q = seg o' w' p"
    and "seg 0 6 q = seg 6 6 p" and "seg 6 6 q = seg 0 6 p"
  using assms by (auto simp: swap_src_dst_mac_eq seg_def)

lemma make_nack_spec:
  assumes "vtl_frame p"
  obtains q where "make_nack p = Some q" and "length q = length p"
    and "seg 0 6 q = seg 6 6 p" and "seg 6 6 q = seg 0 6 p"
    and "ip_saddr q = ip_daddr p" and "ip_daddr q = ip_saddr p"
    and "vtlh_pkt_type q = Some (pkt_code NACK)"
    and "\<And>o' w'. 12 \<le> o' \<Longrightarrow> o' + w' \<le> 26 \<Longrightarrow> seg o' w' q = seg o' w' p"
    and "\<And>o' w'. 42 \<le> o' \<Longrightarrow> seg o' w' q = seg o' w' p"
proof -
  have len: "VTL_END \<le> length p" using assms by (simp add: vtl_frame_def)
  have l12: "12 \<le> length p" using len by (simp add: VTL_END_def)
  obtain p1 where p1: "swap_src_dst_mac p = Some p1" using l12 by (simp add: swap_src_dst_mac_eq)
  note sw = swap_src_dst_mac_props [OF p1 l12]
  have a: "ip_saddr p1 = ip_saddr p" "ip_daddr p1 = ip_daddr p"
    by (auto simp: get_defs sw intro!: ld_seg_cong)
  obtain s d where sd: "ip_saddr p = Some s" "ip_daddr p = Some d"
    using len by (auto simp: get_defs VTL_END_def ld_def)
  have bd: "s < 256 ^ 4" "d < 256 ^ 4" using sd by (auto simp: get_defs dest: ld_bound)
  obtain p2 where p2: "set_ip_saddr d p1 = Some p2" and l2: "length p2 = length p1"
    using saddr.put_then_get [of p1 d] len sw(1) bd by (auto simp: VTL_END_def)
  obtain p3 where p3: "set_ip_daddr s p2 = Some p3" and l3: "length p3 = length p2"
    using daddr.put_then_get [of p2 s] len sw(1) l2 bd by (auto simp: VTL_END_def)
  have sd3: "ip_saddr p3 = Some d" "ip_daddr p3 = Some s"
    using src_dst.both_written [OF p2 p3] bd by auto
  obtain q where q: "st 38 4 (pkt_code NACK) p3 = Some q" and lq: "length q = length p3"
    and tq: "vtlh_pkt_type q = Some (pkt_code NACK)"
    using ptype.put_then_get [of p3 "pkt_code NACK"] len sw(1) l2 l3 by (auto simp: VTL_END_def)
  have fr: "seg o' w' q = seg o' w' p1"
    if "o' + w' \<le> 26 \<or> 34 \<le> o' \<and> o' + w' \<le> 38 \<or> 42 \<le> o'" for o' w'
    using that ptype.put_frame [OF q, of o' w'] daddr.put_frame [OF p3, of o' w']
      saddr.put_frame [OF p2, of o' w'] by auto
  have e: "ip_saddr q = ip_saddr p3" "ip_daddr q = ip_daddr p3"
    using ld_st_disjoint [OF q] by (simp_all add: get_defs)
  show thesis
  proof (rule that)
    show "make_nack p = Some q"
      using p1 a sd p2 p3 q by (simp add: make_nack_def set_pkt_type_def)
  qed (use lq l2 l3 sw fr tq e sd3 sd in auto)
qed

lemma make_nack_frame:
  assumes "make_nack p = Some q" and "vtl_frame p"
  shows "vtl_frame q" and "vtlh_seq_num q = vtlh_seq_num p"
    and "vtlh_payload_len q = vtlh_payload_len p" and "vtlh_checksum q = vtlh_checksum p"
    and "vtlh_pkt_type q = Some (pkt_code NACK)"
    and "length q = length p" and "42 \<le> o' \<Longrightarrow> seg o' w' q = seg o' w' p"
    and "ip_saddr q = ip_daddr p" and "ip_daddr q = ip_saddr p"
    and "seg 0 6 q = seg 6 6 p" and "seg 6 6 q = seg 0 6 p"
proof -
  obtain q' where "make_nack p = Some q'" and r: "length q' = length p"
    "seg 0 6 q' = seg 6 6 p" "seg 6 6 q' = seg 0 6 p" "ip_saddr q' = ip_daddr p"
    "ip_daddr q' = ip_saddr p" "vtlh_pkt_type q' = Some (pkt_code NACK)"
    and lo: "\<And>o' w'. 12 \<le> o' \<Longrightarrow> o' + w' \<le> 26 \<Longrightarrow> seg o' w' q' = seg o' w' p"
    and hi: "\<And>o' w'. 42 \<le> o' \<Longrightarrow> seg o' w' q' = seg o' w' p"
    using assms(2) by (rule make_nack_spec) blast
  then have [simp]: "q' = q" using assms(1) by simp
  have "ip_protocol q = ip_protocol p"
    unfolding ip_protocol_def by (rule ld_seg_cong) (use r lo in simp_all)
  then show "vtl_frame q" using assms(2) r by (simp add: vtl_frame_def)
  show "vtlh_seq_num q = vtlh_seq_num p"
    unfolding vtlh_seq_num_def by (rule ld_seg_cong) (use r hi in simp_all)
  show "vtlh_payload_len q = vtlh_payload_len p"
    unfolding vtlh_payload_len_def by (rule ld_seg_cong) (use r hi in simp_all)
  show "vtlh_checksum q = vtlh_checksum p"
    unfolding vtlh_checksum_def by (rule ld_seg_cong) (use r hi in simp_all)
  show "42 \<le> o' \<Longrightarrow> seg o' w' q = seg o' w' p" using hi by simp
  show "vtlh_pkt_type q = Some (pkt_code NACK)" "length q = length p" "ip_saddr q = ip_daddr p"
    "ip_daddr q = ip_saddr p" "seg 0 6 q = seg 6 6 p" "seg 6 6 q = seg 0 6 p"
    using r by simp_all
qed

lemma safe_make_nack: "vtl_frame p \<Longrightarrow> safe (make_nack p)"
  by (erule make_nack_spec) simp

section \<open>Stream cookie and option names\<close>

definition vtl_compute_tcp_stream_cookie :: "u32 \<Rightarrow> u32 \<Rightarrow> u32 \<Rightarrow> u32 \<Rightarrow> u16" where
  "vtl_compute_tcp_stream_cookie src_ip dst_ip src_port dst_port =
     ucast ((src_ip + dst_ip + src_port + dst_port) mod word_of_nat MAX_HANDLED_TCP_STREAMS)"

lemma vtl_compute_tcp_stream_cookie_swap:
  "vtl_compute_tcp_stream_cookie d s dp sp = vtl_compute_tcp_stream_cookie s d sp dp"
  by (simp add: vtl_compute_tcp_stream_cookie_def ac_simps)

lemma unat_cookie:
  "unat (vtl_compute_tcp_stream_cookie a b c d) = (unat a + unat b + unat c + unat d) mod 65536"
proof -
  let ?s = "a + b + c + d"
  have "unat (?s mod 65536) = unat ?s mod 65536" by (simp add: unat_mod)
  moreover have "unat ?s = (unat a + unat b + unat c + unat d) mod 2 ^ 32"
    by (simp add: unat_word_ariths mod_simps)
  ultimately have "unat (?s mod 65536) = (unat a + unat b + unat c + unat d) mod 65536"
    by (simp add: mod_mod_cancel)
  then show ?thesis
    by (simp add: vtl_compute_tcp_stream_cookie_def MAX_HANDLED_TCP_STREAMS_def unat_ucast_u32_u16)
qed

definition vtl_opt_to_string :: "u16 \<Rightarrow> string" where
  "vtl_opt_to_string v =
     (if v = 1 then ''VTL_COMPLIANT''
      else if v = 2 then ''NEGO_OPT''
      else if v = 3 then ''NEGO_ACK_OPT''
      else if v = 4 then ''NEGO_NACK_OPT''
      else if v = 5 then ''CLOSE_OPT''
      else if v = 6 then ''CLOSE_ACK_OPT''
      else if v = 7 then ''VTL_PURE_DATA''
      else ''UNKNOWN_VTL_OPTION'')"

section \<open>What the checksum detects\<close>

lemma fields_update_above:
  assumes "VTL_END - 1 \<le> i"
  shows "ip_protocol (p[i := v]) = ip_protocol p" and "vtlh_payload_len (p[i := v]) = vtlh_payload_len p"
    and "vtlh_checksum (p[i := v]) = vtlh_checksum p" and "vtlh_seq_num (p[i := v]) = vtlh_seq_num p"
    and "vtlh_gid (p[i := v]) = vtlh_gid p" and "vtlh_pkt_type (p[i := v]) = vtlh_pkt_type p"
    and "vtl_frame (p[i := v]) = vtl_frame p"
  using assms by (simp_all add: get_defs vtl_frame_def VTL_END_def mem_simps)

lemma fields_take:
  assumes "VTL_END \<le> n" and "n \<le> length p"
  shows "vtl_frame (take n p) = vtl_frame p" and "vtlh_seq_num (take n p) = vtlh_seq_num p"
    and "vtlh_pkt_type (take n p) = vtlh_pkt_type p" and "ip_saddr (take n p) = ip_saddr p"
    and "ip_daddr (take n p) = ip_daddr p" and "vtlh_gid (take n p) = vtlh_gid p"
  using assms by (simp_all add: get_defs vtl_frame_def VTL_END_def mem_simps)

lemma covered_update:
  assumes "VTL_END - 1 \<le> i" and "i < VTL_END - 1 + min plen (VTL_DATA_SIZE + 1)" and "i < length p"
  shows "xor_bytes (covered (p[i := v]) plen) = xor_bytes (covered p plen) XOR (p ! i) XOR v"
proof -
  let ?w = "min plen (VTL_DATA_SIZE + 1)"
  have b: "i - (VTL_END - 1) < length (seg (VTL_END - 1) ?w p)" using assms by auto
  have "seg (VTL_END - 1) ?w p ! (i - (VTL_END - 1)) = p ! i"
    unfolding seg_def using assms by (subst nth_take) auto
  then show ?thesis
    unfolding covered_def using seg_update [OF assms(1,2,3)] xor_bytes_update [OF b] by simp
qed

lemma vtl_csum_detects_byte:
  assumes "vtl_frame p" and "vtlh_payload_len p = Some plen" and "csum_fits p plen"
    and "VTL_END - 1 \<le> i" and "i < VTL_END - 1 + min plen (VTL_DATA_SIZE + 1)" and "v \<noteq> p ! i"
  shows "vtl_csum (p[i := v]) \<noteq> vtl_csum p"
proof -
  have i: "i < length p" using assms(3,5) by (simp add: csum_fits_def)
  let ?x = "xor_bytes (covered p plen)"
  have "?x XOR (p ! i) XOR v \<noteq> ?x"
  proof
    assume "?x XOR (p ! i) XOR v = ?x"
    then have "(p ! i) XOR v = 0" by (metis xor.assoc xor_cancel_left xor_self_eq)
    then show False using assms(6) by (metis xor.right_neutral xor_cancel_left)
  qed
  then show ?thesis
    using assms i by (simp add: vtl_csum_eq fields_update_above csum_fits_def covered_update)
qed

text \<open>
  A change of any single byte in the checksummed range changes the value of \<open>vtl_csum\<close>, so the
  receiver's comparison with the transmitted checksum fails.
\<close>

theorem vtl_csum_detects_single_byte:
  assumes "vtl_frame p" and "vtlh_payload_len p = Some plen" and "csum_fits p plen"
    and "VTL_END - 1 \<le> i" and "i < VTL_END - 1 + min plen (VTL_DATA_SIZE + 1)" and "v \<noteq> p ! i"
  shows "vtl_csum (p[i := v]) \<noteq> vtl_csum p"
  using assms by (rule vtl_csum_detects_byte)

text \<open>A well-formed frame with an \<open>n\<close>-byte payload, for the witnesses of this and later theories.\<close>

definition sample_frame :: "nat \<Rightarrow> bytes \<Rightarrow> bytes" where
  "sample_frame seq pl =
     replicate 23 0 @ [0xfd] @ replicate 10 0
       @ [255] @ replicate 3 0 @ le_put 4 1 @ le_put 8 (length pl) @ le_put 2 0 @ le_put 2 seq
       @ replicate 4 0 @ pl"

theorem vtl_csum_detects_single_byte_witness:
  "vtl_csum ((sample_frame 0 [1, 2, 3])[58 := 9]) \<noteq> vtl_csum (sample_frame 0 [1, 2, 3])"
  by (rule vtl_csum_detects_single_byte [where plen = 3]) code_simp+

text \<open>
  The loop starts one byte early (\<open>d + y - 1\<close>), so for a payload of at most \<open>VTL_DATA_SIZE\<close> bytes
  the last payload byte is not covered: any change of it leaves \<open>vtl_csum\<close> as it was.
\<close>

theorem vtl_csum_misses_last_byte:
  assumes "vtlh_payload_len p = Some plen" and "0 < plen" and "plen \<le> VTL_DATA_SIZE"
  shows "vtl_csum (p[VTL_END + plen - 1 := v]) = vtl_csum p"
proof (rule vtl_csum_cong)
  show "covered (p[VTL_END + plen - 1 := v]) n = covered p n" if "vtlh_payload_len p = Some n" for n
    using that assms by (simp add: covered_def VTL_END_def seg_update_outside)
qed (use assms in \<open>simp_all add: fields_update_above VTL_END_def\<close>)

theorem vtl_csum_misses_last_byte_witness:
  "vtl_csum ((sample_frame 0 [1, 2, 3])[60 := 9]) = vtl_csum (sample_frame 0 [1, 2, 3])"
proof -
  have "vtlh_payload_len (sample_frame 0 [1, 2, 3]) = Some 3" by code_simp
  from vtl_csum_misses_last_byte [OF this, of 9] show ?thesis by (simp add: wire_consts)
qed

section \<open>Safe field accesses and sealed frames\<close>

lemma safe_vtlh_fields:
  assumes "vtl_frame p"
  shows "safe (vtlh_gid p)" and "safe (vtlh_pkt_type p)" and "safe (vtlh_payload_len p)"
    and "safe (vtlh_checksum p)" and "safe (vtlh_seq_num p)" and "safe (ip_saddr p)"
    and "safe (ip_daddr p)" and "safe (set_pkt_type t p)" and "safe (set_checksum c p)"
    and "safe (set_seq_num n p)"
  using assms by (simp_all add: field_defs vtl_frame_def VTL_END_def)

lemma st_frame:
  assumes "st off w v p = Some q" and "vtl_frame p" and "24 \<le> off"
  shows "vtl_frame q"
  using assms ld_st_disjoint [OF assms(1), of 23 1] st_length [OF assms(1)]
  by (simp add: vtl_frame_def ip_protocol_def)

lemma set_frame:
  "set_pkt_type t p = Some q \<Longrightarrow> vtl_frame p \<Longrightarrow> vtl_frame q"
  "set_checksum c p = Some q \<Longrightarrow> vtl_frame p \<Longrightarrow> vtl_frame q"
  "set_seq_num n p = Some q \<Longrightarrow> vtl_frame p \<Longrightarrow> vtl_frame q"
  by (auto simp: set_defs elim: st_frame)

lemma covered_st:
  assumes "st off w v p = Some q" and "off + w \<le> VTL_END - 1"
  shows "covered q plen = covered p plen"
  unfolding covered_def using seg_st_disjoint [OF assms(1)] assms(2) by simp

text \<open>The frame that leaves an egress function: checksum over the covered bytes, type DATA.\<close>

definition sealed :: "bytes \<Rightarrow> bool" where
  "sealed p \<longleftrightarrow> vtl_frame p \<and> vtlh_pkt_type p = Some (pkt_code DATA) \<and>
     (\<exists>plen. vtlh_payload_len p = Some plen \<and> csum_fits p plen \<and>
        vtlh_checksum p = Some (unat (xor_bytes (covered p plen))))"

lemma seal_fields:
  assumes "vtl_frame p" and "vtlh_payload_len p = Some plen"
    and "set_pkt_type DATA p = Some p1"
    and "set_checksum (ucast (xor_bytes (covered p plen))) p1 = Some q"
  shows "vtl_frame q" and "vtlh_payload_len q = Some plen" and "covered q plen = covered p plen"
    and "vtlh_pkt_type q = Some (pkt_code DATA)"
    and "vtlh_checksum q = Some (unat (xor_bytes (covered p plen)))"
    and "length q = length p" and "vtlh_seq_num q = vtlh_seq_num p" and "drop VTL_END q = drop VTL_END p"
proof -
  note a = assms(3)[unfolded set_pkt_type_def] and b = assms(4)[unfolded set_checksum_def]
  show "vtl_frame q" using st_frame [OF b st_frame [OF a assms(1)]] by simp
  show "vtlh_payload_len q = Some plen"
    using ld_st_disjoint [OF a, of 42 8] ld_st_disjoint [OF b, of 42 8] assms(2)
    by (simp add: vtlh_payload_len_def)
  show "covered q plen = covered p plen"
    using covered_st [OF a] covered_st [OF b] by (simp add: VTL_END_def)
  show "vtlh_pkt_type q = Some (pkt_code DATA)"
    using ld_st_disjoint [OF b, of 38 4] ptype.get_put [OF a] by (simp add: vtlh_pkt_type_def)
  have "unat (xor_bytes (covered p plen)) < 256 ^ 2"
    using unat_u8_less [of "xor_bytes (covered p plen)"] by simp
  then show "vtlh_checksum q = Some (unat (xor_bytes (covered p plen)))"
    using csum.get_put [OF b] by simp
  show "length q = length p" using st_length [OF a] st_length [OF b] by simp
  show "vtlh_seq_num q = vtlh_seq_num p"
    using ld_st_disjoint [OF a, of 52 2] ld_st_disjoint [OF b, of 52 2] by (simp add: vtlh_seq_num_def)
  show "drop VTL_END q = drop VTL_END p"
    using drop_st [OF a, of VTL_END] drop_st [OF b, of VTL_END] by (simp add: VTL_END_def)
qed

lemma csum_loop_fits:
  "csum_fits p plen \<Longrightarrow> csum_loop p plen 0 0 = Some (Some (xor_bytes (covered p plen)))"
  using csum_loop_spec [of 0 "min plen (VTL_DATA_SIZE + 1)" plen p 0]
  by (simp add: csum_fits_def covered_def)

definition sealed_frame :: bytes where
  "sealed_frame = (sample_frame 0 [1, 2, 3])[50 := 3]"

lemma sealed_frame_ok: "sealed sealed_frame" "vtlh_payload_len sealed_frame = Some 3"
proof -
  show l: "vtlh_payload_len sealed_frame = Some 3" by code_simp
  have "vtl_frame sealed_frame \<and> vtlh_pkt_type sealed_frame = Some (pkt_code DATA) \<and>
    csum_fits sealed_frame 3 \<and> vtlh_checksum sealed_frame = Some (unat (xor_bytes (covered sealed_frame 3)))"
    by code_simp
  then show "sealed sealed_frame" unfolding sealed_def using l by blast
qed

end
