(* ===== verification/VTL_Bpf.thy ===== *)
theory VTL_Bpf
  imports VTL_Wire
begin

text \<open>
  What the kernel transport functions (grafts) see of the eBPF runtime: socket buffers, the calls
  they make to kernel helpers, the helpers whose result they use (a parameter of the model: they are
  kernel code outside this repository), and the contract of the programs that listen for
  acknowledgements. The sender programs and the listener share pinned maps; a sender waiting in
  \<open>bpf_vtl_start_timer\<close> is where frames are received and the listener runs.
\<close>

section \<open>Socket buffers and kernel calls\<close>

text \<open>
  \<open>skb_data\<close> is the directly accessible part \<open>[data, data_end)\<close>, \<open>skb_len\<close> the total length.
\<close>

record skb =
  skb_data :: bytes
  skb_len :: u32
  skb_ifindex :: u32

datatype kcall =
    CloneRedirect u32 skb
  | NicTx u32 skb
  | ChangeTail nat
  | StoreBytes nat bytes nat
  | StartTimer nat

fun is_clone :: "kcall \<Rightarrow> bool" where
  "is_clone (CloneRedirect _ _) = True"
| "is_clone _ = False"

definition transmissions :: "kcall list \<Rightarrow> nat" where
  "transmissions log = length (filter is_clone log)"

lemma transmissions_append [simp]: "transmissions (a @ b) = transmissions a + transmissions b"
  by (simp add: transmissions_def)

lemma transmissions_Nil [simp]: "transmissions [] = 0"
  by (simp add: transmissions_def)

lemma transmissions_Cons [simp]:
  "transmissions (c # log) = (if is_clone c then 1 else 0) + transmissions log"
  by (simp add: transmissions_def)

text \<open>What the calls of an egress graft put on the outgoing interface.\<close>

fun sent_frame :: "kcall \<Rightarrow> bytes option" where
  "sent_frame (CloneRedirect _ s) = Some (skb_data s)"
| "sent_frame (NicTx _ s) = Some (skb_data s)"
| "sent_frame _ = None"

definition sent_frames :: "kcall list \<Rightarrow> bytes list" where
  "sent_frames log = List.map_filter sent_frame log"

lemma sent_frames_append [simp]: "sent_frames (a @ b) = sent_frames a @ sent_frames b"
  by (simp add: sent_frames_def map_filter_def)

lemma sent_frames_Nil [simp]: "sent_frames [] = []"
  by (simp add: sent_frames_def map_filter_def)

lemma sent_frames_Cons [simp]:
  "sent_frames (c # log) = (case sent_frame c of Some b \<Rightarrow> b # sent_frames log | None \<Rightarrow> sent_frames log)"
  by (simp add: sent_frames_def map_filter_def split: option.splits)

text \<open>
  Helpers that rewrite the packet or decide a verdict: \<open>bpf_skb_change_tail\<close>,
  \<open>bpf_vtl_store_bytes\<close>, \<open>bpf_xdp_adjust_tail\<close>, \<open>bpf_redirect_map\<close>.
\<close>

record kern =
  k_change_tail :: "skb \<Rightarrow> nat \<Rightarrow> skb"
  k_store_bytes :: "skb \<Rightarrow> nat \<Rightarrow> bytes \<Rightarrow> nat \<Rightarrow> skb"
  k_adjust_tail :: "bytes \<Rightarrow> int \<Rightarrow> bytes"
  k_redirect_map :: "nat \<Rightarrow> xdp_action"

text \<open>
  The documented result of a successful \<open>bpf_skb_change_tail\<close> (\<open>linux/bpf.h\<close>: resize the packet to
  the new length) and of \<open>bpf_xdp_adjust_tail\<close> (move \<open>data_end\<close> by a negative delta).
\<close>

definition change_tail_ok :: "kern \<Rightarrow> bool" where
  "change_tail_ok K \<longleftrightarrow>
     (\<forall>s n. length (skb_data (k_change_tail K s n)) = n \<and> skb_ifindex (k_change_tail K s n) = skb_ifindex s \<and>
        take (min n (length (skb_data s))) (skb_data (k_change_tail K s n)) =
        take (min n (length (skb_data s))) (skb_data s))"

definition adjust_tail_ok :: "kern \<Rightarrow> bool" where
  "adjust_tail_ok K \<longleftrightarrow>
     (\<forall>p d. - int (length p) \<le> d \<and> d \<le> 0 \<longrightarrow> k_adjust_tail K p d = take (nat (int (length p) + d)) p)"

text \<open>
  \<open>bpf_vtl_store_bytes\<close> is called like \<open>bpf_skb_store_bytes\<close>, whose documented effect (store \<open>len\<close>
  bytes into the packet at \<open>offset\<close>) it is taken to have when the range lies in the packet.
\<close>

definition store_bytes_ok :: "kern \<Rightarrow> bool" where
  "store_bytes_ok K \<longleftrightarrow>
     (\<forall>s off from n. off + n \<le> length (skb_data s) \<and> n \<le> length from \<longrightarrow>
        k_store_bytes K s off from n = s\<lparr>skb_data := take off (skb_data s) @ take n from @ drop (off + n) (skb_data s)\<rparr>)"

text \<open>A store outside the packet fails and leaves it as it was, as documented for \<open>bpf_skb_store_bytes\<close>.\<close>

definition store_rejects :: "kern \<Rightarrow> bool" where
  "store_rejects K \<longleftrightarrow> (\<forall>s off from n. length (skb_data s) < off + n \<longrightarrow> k_store_bytes K s off from n = s)"

text \<open>A kernel that does what the documentation says, for the witnesses.\<close>

definition doc_kern :: kern where
  "doc_kern =
     \<lparr>k_change_tail = (\<lambda>s n. s\<lparr>skb_data := take n (skb_data s) @ replicate (n - length (skb_data s)) 0,
                             skb_len := word_of_nat n\<rparr>),
      k_store_bytes = (\<lambda>s off from n. s\<lparr>skb_data := take off (skb_data s) @ take n from @ drop (off + n) (skb_data s)\<rparr>),
      k_adjust_tail = (\<lambda>p d. if - int (length p) \<le> d \<and> d \<le> 0 then take (nat (int (length p) + d)) p else p),
      k_redirect_map = (\<lambda>_. XDP_REDIRECT)\<rparr>"

lemma doc_kern_change_tail_ok: "change_tail_ok doc_kern"
  by (auto simp: change_tail_ok_def doc_kern_def min_def)

lemma doc_kern_store_bytes_ok: "store_bytes_ok doc_kern"
  by (simp add: store_bytes_ok_def doc_kern_def)

lemma doc_kern_adjust_tail_ok: "adjust_tail_ok doc_kern"
  by (simp add: adjust_tail_ok_def doc_kern_def)

definition strict_kern :: kern where
  "strict_kern = doc_kern\<lparr>k_store_bytes := (\<lambda>s off from n.
     if length (skb_data s) < off + n then s else k_store_bytes doc_kern s off from n)\<rparr>"

lemma strict_kern_ok:
  "change_tail_ok strict_kern" "store_bytes_ok strict_kern" "adjust_tail_ok strict_kern" "store_rejects strict_kern"
  using doc_kern_change_tail_ok doc_kern_store_bytes_ok doc_kern_adjust_tail_ok
  by (simp_all add: strict_kern_def change_tail_ok_def store_bytes_ok_def adjust_tail_ok_def store_rejects_def)

text \<open>\<open>xsks_map\<close> (\<open>BPF_MAP_TYPE_XSKMAP\<close>): a lookup is non-NULL where a socket is bound.\<close>

definition xsk_bound :: "bool list \<Rightarrow> nat \<Rightarrow> bool" where
  "xsk_bound xsks i \<longleftrightarrow> map_lookup xsks i = Some True"

text \<open>\<open>-vtlh->payload_len\<close> (a \<open>size_t\<close>) passed as the \<open>int\<close> delta of \<open>bpf_xdp_adjust_tail\<close>.\<close>

definition neg_len_delta :: "nat \<Rightarrow> int" where
  "neg_len_delta plen = sint (word_of_int (- int plen) :: u32)"

lemma neg_len_delta_small: "plen \<le> 2 ^ 31 \<Longrightarrow> neg_len_delta plen = - int plen"
  unfolding neg_len_delta_def
  by (subst sint_sbintrunc', rule signed_take_bit_int_eq_self) auto

section \<open>Listeners for acknowledgements\<close>

type_synonym listener = "bytes \<Rightarrow> sock_state list \<Rightarrow> (xdp_action \<times> sock_state list) option"

definition run_listener :: "listener \<Rightarrow> bytes list \<Rightarrow> sock_state list \<Rightarrow> sock_state list" where
  "run_listener lst ps m =
     fold (\<lambda>p m. case lst p m of Some (_, m') \<Rightarrow> m' | None \<Rightarrow> m) ps m"

text \<open>The shared map after \<open>k\<close> waits, the first of which has number \<open>n\<close>.\<close>

fun waits :: "listener \<Rightarrow> (nat \<Rightarrow> bytes list) \<Rightarrow> nat \<Rightarrow> nat \<Rightarrow> sock_state list \<Rightarrow> sock_state list" where
  "waits lst rx n 0 m = m"
| "waits lst rx n (Suc k) m = waits lst rx (Suc n) k (run_listener lst (rx n) m)"

fun is_timer :: "kcall \<Rightarrow> bool" where
  "is_timer (StartTimer _) = True"
| "is_timer _ = False"

definition timers :: "kcall list \<Rightarrow> nat" where
  "timers log = length (filter is_timer log)"

lemma timers_append [simp]: "timers (a @ b) = timers a + timers b"
  by (simp add: timers_def)

lemma timers_Nil [simp]: "timers [] = 0"
  by (simp add: timers_def)

lemma timers_Cons [simp]: "timers (c # log) = (if is_timer c then 1 else 0) + timers log"
  by (simp add: timers_def)

fun stored_packet :: "kcall \<Rightarrow> bytes option" where
  "stored_packet (StoreBytes _ b _) = Some b"
| "stored_packet _ = None"

definition resent :: "kcall list \<Rightarrow> bytes list" where
  "resent log = List.map_filter stored_packet log"

lemma resent_append [simp]: "resent (a @ b) = resent a @ resent b"
  by (simp add: resent_def map_filter_def)

lemma resent_Nil [simp]: "resent [] = []"
  by (simp add: resent_def map_filter_def)

lemma resent_Cons [simp]:
  "resent (c # log) = (case stored_packet c of Some b \<Rightarrow> b # resent log | None \<Rightarrow> resent log)"
  by (simp add: resent_def map_filter_def split: option.splits)

definition is_nack :: "bytes \<Rightarrow> bool" where
  "is_nack p \<longleftrightarrow> vtlh_pkt_type p = Some (pkt_code NACK)"

text \<open>
  The contract between a sender and its listener: the listener never leaves the packet, keeps the
  map's size, and a VTL frame rewrites the event of exactly one slot (a NACK to \<open>nack_ev\<close>, any other
  frame to \<open>RECV_ACK\<close>). \<open>slot\<close> is the map index the listener uses for a frame.
\<close>

locale ack_listener =
  fixes lst :: listener
    and slot :: "bytes \<Rightarrow> nat"
    and nack_ev :: int
  assumes lst_safe: "safe (lst p m)"
    and lst_hit: "vtl_frame p \<Longrightarrow> slot p < length m \<Longrightarrow> lst p m = Some (a, m') \<Longrightarrow>
      m' = m[slot p := (m ! slot p)\<lparr>event := (if is_nack p then nack_ev else RECV_ACK)\<rparr>]"
    and lst_miss: "\<not> (vtl_frame p \<and> slot p < length m) \<Longrightarrow> lst p m = Some (a, m') \<Longrightarrow> m' = m"
begin

lemma run_Nil [simp]: "run_listener lst [] m = m"
  by (simp add: run_listener_def)

lemma run_append: "run_listener lst (ps @ qs) m = run_listener lst qs (run_listener lst ps m)"
  by (simp add: run_listener_def)

lemma run_Cons_hit:
  assumes "vtl_frame p" "slot p < length m"
  shows "run_listener lst (p # ps) m = run_listener lst ps
     (m[slot p := (m ! slot p)\<lparr>event := (if is_nack p then nack_ev else RECV_ACK)\<rparr>])"
proof -
  obtain a m' where "lst p m = Some (a, m')" using lst_safe [of p m] by (auto elim: safeE)
  with lst_hit [OF assms this] show ?thesis by (simp add: run_listener_def)
qed

lemma run_Cons_miss:
  assumes "\<not> (vtl_frame p \<and> slot p < length m)"
  shows "run_listener lst (p # ps) m = run_listener lst ps m"
proof -
  obtain a m' where "lst p m = Some (a, m')" using lst_safe [of p m] by (auto elim: safeE)
  with lst_miss [OF assms this] show ?thesis by (simp add: run_listener_def)
qed

lemma run_length [simp]: "length (run_listener lst ps m) = length m"
proof (induction ps arbitrary: m)
  case Nil
  then show ?case by simp
next
  case (Cons p ps)
  then show ?case
    by (cases "vtl_frame p \<and> slot p < length m") (auto simp: run_Cons_hit run_Cons_miss)
qed

lemma length_waits [simp]: "length (waits lst rx n k m) = length m"
  by (induction k arbitrary: n m) auto

lemma run_untouched:
  "\<forall>p\<in>set ps. vtl_frame p \<longrightarrow> slot p \<noteq> i \<Longrightarrow> i < length m \<Longrightarrow> run_listener lst ps m ! i = m ! i"
proof (induction ps arbitrary: m)
  case Nil
  then show ?case by simp
next
  case (Cons p ps)
  then show ?case
    by (cases "vtl_frame p \<and> slot p < length m") (auto simp: run_Cons_hit run_Cons_miss)
qed

text \<open>The last frame for a slot decides its event.\<close>

lemma run_last:
  assumes "vtl_frame p" "slot p = i" "i < length m"
    and "\<forall>q\<in>set qs. vtl_frame q \<longrightarrow> slot q \<noteq> i"
  shows "event (run_listener lst (ps @ p # qs) m ! i) = (if is_nack p then nack_ev else RECV_ACK)"
  using assms by (simp add: run_append run_Cons_hit run_untouched)

text \<open>No frame for the slot, or only NACKs: a slot that is not acknowledged stays so.\<close>

lemma run_no_ack:
  assumes "\<forall>p\<in>set ps. vtl_frame p \<longrightarrow> slot p = i \<longrightarrow> is_nack p" and "nack_ev \<noteq> RECV_ACK"
    and "i < length m" and "event (m ! i) \<noteq> RECV_ACK"
  shows "event (run_listener lst ps m ! i) \<noteq> RECV_ACK"
  using assms
proof (induction ps arbitrary: m)
  case Nil
  then show ?case by simp
next
  case (Cons p ps)
  show ?case
  proof (cases "vtl_frame p \<and> slot p < length m")
    case True
    then show ?thesis
      using Cons.prems Cons.IH [of "m[slot p := (m ! slot p)\<lparr>event := (if is_nack p then nack_ev else RECV_ACK)\<rparr>]"]
      by (cases "slot p = i") (auto simp: run_Cons_hit)
  next
    case False
    then show ?thesis using Cons by (simp add: run_Cons_miss)
  qed
qed

lemma run_nacks:
  assumes "\<forall>p\<in>set ps. vtl_frame p \<longrightarrow> is_nack p" and "i < length m"
  shows "event (run_listener lst ps m ! i) \<in> {event (m ! i), nack_ev}"
  using assms
proof (induction ps arbitrary: m)
  case Nil
  then show ?case by simp
next
  case (Cons p ps)
  show ?case
  proof (cases "vtl_frame p \<and> slot p < length m")
    case True
    then show ?thesis
      using Cons.prems Cons.IH [of "m[slot p := (m ! slot p)\<lparr>event := nack_ev\<rparr>]"]
      by (cases "slot p = i") (auto simp: run_Cons_hit)
  next
    case False
    then show ?thesis using Cons by (simp add: run_Cons_miss)
  qed
qed

text \<open>Without NACKs, a slot for which a frame arrives ends up acknowledged.\<close>

lemma run_acks:
  assumes "\<forall>p\<in>set ps. vtl_frame p \<longrightarrow> \<not> is_nack p" and "i < length m"
    and "event (m ! i) = RECV_ACK \<or> (\<exists>p\<in>set ps. vtl_frame p \<and> slot p = i)"
  shows "event (run_listener lst ps m ! i) = RECV_ACK"
  using assms
proof (induction ps arbitrary: m)
  case Nil
  then show ?case by simp
next
  case (Cons p ps)
  show ?case
  proof (cases "vtl_frame p \<and> slot p < length m")
    case True
    then show ?thesis
      using Cons.prems Cons.IH [of "m[slot p := (m ! slot p)\<lparr>event := RECV_ACK\<rparr>]"]
      by (cases "slot p = i") (auto simp: run_Cons_hit)
  next
    case False
    then show ?thesis using Cons by (auto simp: run_Cons_miss)
  qed
qed

end

section \<open>Retransmission bound and sample data\<close>

definition RETX_MAX :: nat where "RETX_MAX = 10"

definition sample_skb :: skb where
  "sample_skb = \<lparr>skb_data = sample_frame 0 [1, 2, 3], skb_len = 61, skb_ifindex = 3\<rparr>"

definition idle_slot :: sock_state where
  "idle_slot = \<lparr>sk_fd = 0, event = IDLE\<rparr>"

lemma sample_skb_ok:
  "vtl_frame (skb_data sample_skb)" "vtlh_payload_len (skb_data sample_skb) = Some 3"
  "csum_fits (skb_data sample_skb) 3"
  by code_simp+

end
