(* ===== verification/Graft_Cano.thy ===== *)
theory Graft_Cano
  imports VTL_Bpf
begin

text \<open>
  The canonical graft (\<open>XTFsPool/store/egress_cano_graft.c\<close>, \<open>ingress_cano_graft.c\<close>): the egress
  function marks a packet as data or negotiation and hands it to the NIC, its listener records the
  receiver's answer in \<open>QOS_NEGO_MAP\<close>, and the ingress function records the proposed graft id in
  \<open>GRAFT_ID_MAP\<close> or redirects data to the AF_XDP socket.
\<close>

section \<open>Egress\<close>

definition egress_move_to_vtl_hdr :: "bytes \<Rightarrow> bool option" where
  "egress_move_to_vtl_hdr p = with_vtl_hdr p False False (Some True)"

definition cano_egress :: "skb \<Rightarrow> (tc_action \<times> skb \<times> kcall list) option" where
  "cano_egress s = do {
     vtlh \<leftarrow> egress_move_to_vtl_hdr (skb_data s);
     if \<not> vtlh then Some (TC_ACT_OK, s, [])
     else do {
       gid \<leftarrow> vtlh_gid (skb_data s);
       if gid = -1 then do {
         d \<leftarrow> set_pkt_type DATA (skb_data s);
         let s' = s\<lparr>skb_data := d\<rparr>;
         Some (TC_ACT_SHOT, s', [NicTx (skb_ifindex s' + 1) s'])
       } else do {
         d \<leftarrow> set_pkt_type NEGO (skb_data s);
         let s' = s\<lparr>skb_data := d\<rparr>;
         Some (TC_ACT_SHOT, s', [NicTx (skb_ifindex s' + 1) s'])
       }
     }
   }"

definition cano_listener ::
    "bytes \<Rightarrow> negotiation_state list \<Rightarrow> (xdp_action \<times> negotiation_state list) option" where
  "cano_listener p nego_map =
     with_vtl_hdr p (XDP_DROP, nego_map) (XDP_PASS, nego_map) (do {
       t \<leftarrow> vtlh_pkt_type p;
       let nego_state =
         (if t = pkt_code NEGO_ACK then N_ACCEPT
          else if t = pkt_code NEGO_NACK then N_REFUSE else N_IDLE);
       let (nego_map', ret) = map_update nego_map 0 nego_state;
       if ret \<noteq> 0 then Some (XDP_DROP, nego_map') else Some (XDP_DROP, nego_map')
     })"

section \<open>Ingress\<close>

definition cano_ingress ::
    "kern \<Rightarrow> bool list \<Rightarrow> nat \<Rightarrow> bytes \<Rightarrow> int list \<Rightarrow> (xdp_action \<times> int list) option" where
  "cano_ingress K xsks rx_queue_index p graft_id_map =
     with_vtl_hdr p (XDP_DROP, graft_id_map) (XDP_PASS, graft_id_map) (do {
       gid \<leftarrow> vtlh_gid p;
       if gid > 0 then
         (let (graft_id_map', ret) = map_update graft_id_map 0 gid
          in Some (XDP_DROP, graft_id_map'))
       else if xsk_bound xsks rx_queue_index
       then Some (k_redirect_map K rx_queue_index, graft_id_map)
       else Some (XDP_PASS, graft_id_map)
     })"

section \<open>Safety and behaviour\<close>

lemma safe_egress_move_to_vtl_hdr: "safe (egress_move_to_vtl_hdr p)"
  by (simp add: egress_move_to_vtl_hdr_def safe_with_vtl_hdr)

lemma egress_move_to_vtl_hdr_True: "egress_move_to_vtl_hdr p = Some True \<longleftrightarrow> vtl_frame p"
  by (auto simp: egress_move_to_vtl_hdr_def with_vtl_hdr_frame elim: with_vtl_hdr_cases)

lemma safe_cano_egress: "safe (cano_egress s)"
  unfolding cano_egress_def
  by (intro safe_intros safe_egress_move_to_vtl_hdr safe_vtlh_fields)
    (auto simp: egress_move_to_vtl_hdr_True)

lemma safe_cano_listener: "safe (cano_listener p m)"
  unfolding cano_listener_def by (intro safe_intros safe_with_vtl_hdr safe_vtlh_fields)

lemma safe_cano_ingress: "safe (cano_ingress K xsks i p m)"
  unfolding cano_ingress_def by (intro safe_intros safe_with_vtl_hdr safe_vtlh_fields)

lemma cano_egress_frame:
  assumes "vtl_frame (skb_data s)" and "vtlh_gid (skb_data s) = Some g"
  obtains s' where "cano_egress s = Some (TC_ACT_SHOT, s', [NicTx (skb_ifindex s + 1) s'])"
    and "vtlh_pkt_type (skb_data s') = Some (pkt_code (if g = -1 then DATA else NEGO))"
    and "vtlh_gid (skb_data s') = Some g" and "vtl_frame (skb_data s')"
    and "\<And>o' w'. o' + w' \<le> 38 \<or> 42 \<le> o' \<Longrightarrow> seg o' w' (skb_data s') = seg o' w' (skb_data s)"
    and "length (skb_data s') = length (skb_data s)"
proof -
  let ?t = "if g = -1 then DATA else NEGO"
  obtain d where d: "st 38 4 (pkt_code ?t) (skb_data s) = Some d" and l: "length d = length (skb_data s)"
    and t: "vtlh_pkt_type d = Some (pkt_code ?t)"
    using ptype.put_then_get [of "skb_data s" "pkt_code ?t"] assms(1) pkt_code_small
    by (auto simp: vtl_frame_def VTL_END_def)
  have fr: "seg o' w' d = seg o' w' (skb_data s)" if "o' + w' \<le> 38 \<or> 42 \<le> o'" for o' w'
    using ptype.put_frame [OF d, of o' w'] that by auto
  have e: "vtlh_gid d = vtlh_gid (skb_data s)" "ip_protocol d = ip_protocol (skb_data s)"
    using ld_st_disjoint [OF d] by (simp_all add: get_defs)
  show thesis
  proof (rule that [of "s\<lparr>skb_data := d\<rparr>"])
    show "cano_egress s = Some (TC_ACT_SHOT, s\<lparr>skb_data := d\<rparr>, [NicTx (skb_ifindex s + 1) (s\<lparr>skb_data := d\<rparr>)])"
      using assms egress_move_to_vtl_hdr_True [of "skb_data s"] d
      by (cases "g = -1") (simp_all add: cano_egress_def set_pkt_type_def Let_def)
  qed (use assms t fr e l in \<open>auto simp: vtl_frame_def\<close>)
qed

text \<open>
  Graft negotiation over the canonical graft. A packet that the sender's egress function takes
  with a positive graft id leaves as NEGO, and the ingress function that receives it unchanged
  stores exactly that id in \<open>GRAFT_ID_MAP\<close> and drops the packet: no negotiation reaches the
  application.
\<close>

theorem cano_negotiation_carries_gid:
  assumes "vtl_frame (skb_data s)" and "vtlh_gid (skb_data s) = Some g" and "0 < g" and "m \<noteq> []"
  shows "\<exists>s'. cano_egress s = Some (TC_ACT_SHOT, s', [NicTx (skb_ifindex s + 1) s']) \<and>
    vtlh_pkt_type (skb_data s') = Some (pkt_code NEGO) \<and>
    cano_ingress K xsks i (skb_data s') m = Some (XDP_DROP, m[0 := g])"
proof -
  obtain s' where s': "cano_egress s = Some (TC_ACT_SHOT, s', [NicTx (skb_ifindex s + 1) s'])"
    and t: "vtlh_pkt_type (skb_data s') = Some (pkt_code (if g = -1 then DATA else NEGO))"
    and f: "vtlh_gid (skb_data s') = Some g" "vtl_frame (skb_data s')"
    by (rule cano_egress_frame [OF assms(1,2)]) blast
  have "cano_ingress K xsks i (skb_data s') m = Some (XDP_DROP, m[0 := g])"
    using f assms(3,4) by (simp add: cano_ingress_def with_vtl_hdr_frame map_update_ok)
  with s' t assms(3) show ?thesis by auto
qed

text \<open>A frame with graft id 10, as \<open>vtl_negotiate\<close> sends it.\<close>

definition nego_skb :: skb where
  "nego_skb = \<lparr>skb_data = (sample_frame 0 [])[34 := 10], skb_len = 58, skb_ifindex = 3\<rparr>"

theorem cano_negotiation_carries_gid_witness:
  "\<exists>s'. cano_egress nego_skb = Some (TC_ACT_SHOT, s', [NicTx 4 s']) \<and>
    cano_ingress doc_kern [] 0 (skb_data s') [0] = Some (XDP_DROP, [10])"
proof -
  have f: "vtl_frame (skb_data nego_skb)" by code_simp
  have g: "vtlh_gid (skb_data nego_skb) = Some 10" by code_simp
  show ?thesis
    using cano_negotiation_carries_gid [OF f g, of "[0]" doc_kern "[]" 0]
    by (auto simp: nego_skb_def)
qed

text \<open>
  The listener of the canonical graft maps the receiver's answer to the negotiation state: on a
  VTL frame NEGO_ACK gives N_ACCEPT, NEGO_NACK gives N_REFUSE and every other type resets the state
  to N_IDLE, and the frame is always dropped; other traffic leaves the map alone.
\<close>

theorem cano_listener_records_answer:
  "cano_listener p [st0] =
     (if vtl_frame p then
        Some (XDP_DROP, [if vtlh_pkt_type p = Some (pkt_code NEGO_ACK) then N_ACCEPT
                         else if vtlh_pkt_type p = Some (pkt_code NEGO_NACK) then N_REFUSE else N_IDLE])
      else if IP_END \<le> length p \<and> ip_protocol p \<noteq> Some IPPROTO_VTL then Some (XDP_PASS, [st0])
      else Some (XDP_DROP, [st0]))"
proof (cases "vtl_frame p")
  case True
  then obtain t where "vtlh_pkt_type p = Some t"
    using safe_vtlh_fields(2) by (auto elim: safeE)
  then show ?thesis using True by (simp add: cano_listener_def with_vtl_hdr_frame map_update_ok)
next
  case False
  then show ?thesis
    by (auto simp: cano_listener_def with_vtl_hdr_def vtl_frame_def wire_consts split: Option.bind_splits)
      (auto simp: ip_protocol_def)
qed

end
