(* ===== verification/Graft_StopWait.thy ===== *)
theory Graft_StopWait
  imports Graft_Cano
begin

text \<open>
  The stop-and-wait ARQ graft (\<open>XTFsPool/store/egress_stop_wait_arq_graft.c\<close>,
  \<open>ingress_stop_wait_arq_graft.c\<close>): the sender computes the checksum inline, then repeats the packet
  until an acknowledgement is seen or \<open>RETX_MAX\<close> retransmissions are spent; the receiver passes
  good packets to the socket and returns corrupted ones as NACKs.
  \<open>rx k\<close> are the frames the listener receives while the sender waits after transmission \<open>k\<close>.
\<close>

section \<open>Listener and egress\<close>

definition sw_listener :: listener where
  "sw_listener p num_ack_map =
     with_vtl_hdr p (XDP_DROP, num_ack_map) (XDP_PASS, num_ack_map)
       (case map_lookup num_ack_map 0 of
          None \<Rightarrow> Some (XDP_PASS, num_ack_map)
        | Some sk_state \<Rightarrow> do {
            t \<leftarrow> vtlh_pkt_type p;
            let sk_state' = sk_state\<lparr>event := (if t = pkt_code NACK then IDLE else RECV_ACK)\<rparr>;
            let (num_ack_map', ret) = map_update num_ack_map 0 sk_state';
            if ret \<noteq> 0 then Some (XDP_DROP, num_ack_map') else Some (XDP_DROP, num_ack_map')
          })"

text \<open>The Tx loop, entered with \<open>tx_num\<close> transmissions done; the two waiting branches both continue.\<close>

function sw_tx_loop :: "(nat \<Rightarrow> bytes list) \<Rightarrow> nat \<Rightarrow> skb \<Rightarrow> sock_state list \<Rightarrow> sock_state list \<times> kcall list" where
  "sw_tx_loop rx tx_num s num_ack_map =
     (let calls = [CloneRedirect (skb_ifindex s + 1) s, StartTimer 10];
          m = run_listener sw_listener (rx tx_num) num_ack_map;
          tx_num' = Suc tx_num
      in if tx_num' > RETX_MAX then (m, calls)
         else case map_lookup m 0 of
             None \<Rightarrow> (let (m', log) = sw_tx_loop rx tx_num' s m in (m', calls @ log))
           | Some sk_state \<Rightarrow>
               if event sk_state = RECV_ACK then (fst (map_update m 0 (sk_state\<lparr>event := IDLE\<rparr>)), calls)
               else (let (m', log) = sw_tx_loop rx tx_num' s m in (m', calls @ log)))"
  by pat_completeness auto
termination
  by (relation "measure (\<lambda>(rx, tx_num, s, m). RETX_MAX + 1 - tx_num)") auto

declare sw_tx_loop.simps [simp del]

definition sw_egress ::
    "(nat \<Rightarrow> bytes list) \<Rightarrow> skb \<Rightarrow> sock_state list \<Rightarrow>
     (tc_action \<times> skb \<times> sock_state list \<times> kcall list) option" where
  "sw_egress rx s num_ack_map =
     with_vtl_hdr (skb_data s) (TC_ACT_OK, s, num_ack_map, []) (TC_ACT_OK, s, num_ack_map, [])
       (if length (skb_data s) < VTL_END + 1 then Some (TC_ACT_OK, s, num_ack_map, [])
        else do {
          plen \<leftarrow> vtlh_payload_len (skb_data s);
          r \<leftarrow> csum_loop (skb_data s) plen 0 0;
          case r of
            None \<Rightarrow> Some (TC_ACT_OK, s, num_ack_map, [])
          | Some acc \<Rightarrow> do {
              d \<leftarrow> set_pkt_type DATA (skb_data s);
              d \<leftarrow> set_checksum (ucast acc) d;
              let s' = s\<lparr>skb_data := d\<rparr>;
              let (m, log) = sw_tx_loop rx 0 s' num_ack_map;
              Some (TC_ACT_SHOT, s', m, log)
            }
        })"

section \<open>Ingress\<close>

definition sw_ingress ::
    "kern \<Rightarrow> bool list \<Rightarrow> nat \<Rightarrow> bytes \<Rightarrow> (xdp_action \<times> bytes) option" where
  "sw_ingress K xsks index p =
     with_vtl_hdr p (XDP_DROP, p) (XDP_PASS, p) (do {
       recv_csum \<leftarrow> vtlh_checksum p;
       if length p < VTL_END + 1 then Some (XDP_DROP, p)
       else do {
         plen \<leftarrow> vtlh_payload_len p;
         r \<leftarrow> csum_loop p plen 0 0;
         case r of
           None \<Rightarrow> Some (XDP_DROP, p)
         | Some acc \<Rightarrow>
             if unat (ucast acc :: u16) = recv_csum then
               (if xsk_bound xsks index then Some (k_redirect_map K index, p) else Some (XDP_PASS, p))
             else do { q \<leftarrow> make_nack p; Some (XDP_TX, q) }
       }
     })"

section \<open>Memory safety\<close>

lemma safe_sw_listener: "safe (sw_listener p m)"
  unfolding sw_listener_def by (intro safe_intros safe_with_vtl_hdr safe_vtlh_fields)

lemma safe_sw_egress: "safe (sw_egress rx s m)"
  unfolding sw_egress_def
  by (intro safe_intros safe_with_vtl_hdr safe_vtlh_fields safe_csum_loop) (auto intro: set_frame)

lemma safe_sw_ingress: "safe (sw_ingress K xsks i p)"
  unfolding sw_ingress_def
  by (intro safe_intros safe_with_vtl_hdr safe_vtlh_fields safe_csum_loop safe_make_nack)

section \<open>The listener contract\<close>

interpretation sw: ack_listener sw_listener "\<lambda>_. 0" IDLE
proof
  fix p m a m'
  show "safe (sw_listener p m)" by (rule safe_sw_listener)
  show "m' = m[0 := (m ! 0)\<lparr>event := (if is_nack p then IDLE else RECV_ACK)\<rparr>]"
    if h: "vtl_frame p" "0 < length m" "sw_listener p m = Some (a, m')"
  proof -
    obtain t where "vtlh_pkt_type p = Some t" using safe_vtlh_fields(2) [OF h(1)] by (auto elim: safeE)
    then show ?thesis
      using h by (simp add: sw_listener_def with_vtl_hdr_frame map_lookup_def map_update_ok is_nack_def)
  qed
  show "m' = m" if "\<not> (vtl_frame p \<and> 0 < length m)" "sw_listener p m = Some (a, m')"
    using that unfolding sw_listener_def
    by (auto simp: map_lookup_def elim!: with_vtl_hdr_cases)
qed

section \<open>The transmission loop\<close>

definition sw_acked :: "(nat \<Rightarrow> bytes list) \<Rightarrow> nat \<Rightarrow> sock_state list \<Rightarrow> nat \<Rightarrow> bool" where
  "sw_acked rx n m k \<longleftrightarrow> event (waits sw_listener rx n (Suc k) m ! 0) = RECV_ACK"

lemma sw_acked_Suc: "sw_acked rx n m (Suc k) = sw_acked rx (Suc n) (run_listener sw_listener (rx n) m) k"
  by (simp add: sw_acked_def)

definition sw_round :: "skb \<Rightarrow> kcall list" where
  "sw_round s = [CloneRedirect (skb_ifindex s + 1) s, StartTimer 10]"

definition sw_rounds :: "(nat \<Rightarrow> bytes list) \<Rightarrow> nat \<Rightarrow> sock_state list \<Rightarrow> nat option" where
  "sw_rounds rx n m = find (sw_acked rx n m) [0..<RETX_MAX - n]"

lemma find_upt_Suc:
  "find P [0..<Suc n] = (if P 0 then Some 0 else map_option Suc (find (\<lambda>k. P (Suc k)) [0..<n]))"
proof -
  have "[0..<Suc n] = 0 # map Suc [0..<n]" by (simp add: map_Suc_upt upt_conv_Cons)
  moreover have "find P (map Suc xs) = map_option Suc (find (\<lambda>k. P (Suc k)) xs)" for xs
    by (induction xs) auto
  ultimately show ?thesis by simp
qed

lemma sw_tx_loop_spec:
  assumes "0 < length m" and "n \<le> RETX_MAX"
  shows "sw_tx_loop rx n s m =
    (case sw_rounds rx n m of
       Some k \<Rightarrow> (let m' = waits sw_listener rx n (Suc k) m
                 in (m'[0 := (m' ! 0)\<lparr>event := IDLE\<rparr>], concat (replicate (Suc k) (sw_round s))))
     | None \<Rightarrow> (waits sw_listener rx n (Suc (RETX_MAX - n)) m, concat (replicate (Suc (RETX_MAX - n)) (sw_round s))))"
  using assms
proof (induction "RETX_MAX - n" arbitrary: n m)
  case 0
  then have "n = RETX_MAX" by simp
  then show ?case
    by (subst sw_tx_loop.simps) (simp add: sw_rounds_def sw_round_def Let_def)
next
  case (Suc j)
  let ?m = "run_listener sw_listener (rx n) m"
  have IH: "sw_tx_loop rx (Suc n) s ?m =
    (case sw_rounds rx (Suc n) ?m of
       Some k \<Rightarrow> (let m' = waits sw_listener rx (Suc n) (Suc k) ?m
                 in (m'[0 := (m' ! 0)\<lparr>event := IDLE\<rparr>], concat (replicate (Suc k) (sw_round s))))
     | None \<Rightarrow> (waits sw_listener rx (Suc n) (Suc (RETX_MAX - Suc n)) ?m,
               concat (replicate (Suc (RETX_MAX - Suc n)) (sw_round s))))"
    using Suc by (intro Suc.hyps(1)) auto
  have j: "RETX_MAX - n = Suc (RETX_MAX - Suc n)" using Suc.hyps(2) by simp
  have ml: "?m \<noteq> []" using Suc.prems(1) by (metis length_greater_0_conv sw.run_length)
  have lt: "\<not> RETX_MAX < Suc n" using Suc.hyps(2) by simp
  have r: "sw_rounds rx n m =
      (if sw_acked rx n m 0 then Some 0 else map_option Suc (sw_rounds rx (Suc n) ?m))"
    unfolding sw_rounds_def j by (subst find_upt_Suc) (simp add: sw_acked_Suc)
  show ?case
  proof (cases "event (?m ! 0) = RECV_ACK")
    case True
    then have "sw_acked rx n m 0" by (simp add: sw_acked_def)
    then show ?thesis
      using True Suc.prems j r lt ml
      by (subst sw_tx_loop.simps) (simp add: Let_def map_lookup_def map_update_ok sw_round_def)
  next
    case False
    then have "\<not> sw_acked rx n m 0" by (simp add: sw_acked_def)
    then show ?thesis
      using False Suc.prems j r lt ml IH
      by (subst sw_tx_loop.simps)
        (auto simp: Let_def map_lookup_def sw_round_def split: option.splits)
  qed
qed

section \<open>End-to-end behaviour\<close>

lemma sw_egress_frame:
  assumes "vtl_frame (skb_data s)" and "vtlh_payload_len (skb_data s) = Some plen"
    and "csum_fits (skb_data s) plen"
  obtains s' where "sw_egress rx s m = Some (TC_ACT_SHOT, s', sw_tx_loop rx 0 s' m)"
    and "sealed (skb_data s')" and "skb_ifindex s' = skb_ifindex s"
    and "covered (skb_data s') plen = covered (skb_data s) plen"
    and "vtlh_seq_num (skb_data s') = vtlh_seq_num (skb_data s)" and "drop VTL_END (skb_data s') = drop VTL_END (skb_data s)"
proof -
  let ?c = "ucast (xor_bytes (covered (skb_data s) plen)) :: u16"
  obtain d where d: "set_pkt_type DATA (skb_data s) = Some d"
    using safe_vtlh_fields(8) [OF assms(1)] by (auto elim: safeE)
  obtain e where e: "set_checksum ?c d = Some e"
    using safe_vtlh_fields(9) [OF set_frame(1) [OF d assms(1)]] by (auto elim: safeE)
  note f = seal_fields [OF assms(1,2) d e]
  show thesis
  proof (rule that [of "s\<lparr>skb_data := e\<rparr>"])
    show "sw_egress rx s m = Some (TC_ACT_SHOT, s\<lparr>skb_data := e\<rparr>, sw_tx_loop rx 0 (s\<lparr>skb_data := e\<rparr>) m)"
      using assms d e csum_loop_fits [OF assms(3)]
      by (simp add: sw_egress_def with_vtl_hdr_frame csum_fits_def Let_def split_beta)
    show "sealed (skb_data (s\<lparr>skb_data := e\<rparr>))"
      using f assms(3) by (auto simp: sealed_def csum_fits_def)
  qed (use f in auto)
qed

lemma sw_ingress_frame:
  assumes "vtl_frame p" and "vtlh_payload_len p = Some plen" and "csum_fits p plen"
    and "vtlh_checksum p = Some c"
  shows "sw_ingress K xsks i p =
    (if c = unat (xor_bytes (covered p plen))
     then Some (if xsk_bound xsks i then k_redirect_map K i else XDP_PASS, p)
     else do { q \<leftarrow> make_nack p; Some (XDP_TX, q) })"
  using assms csum_loop_fits [OF assms(3)]
  by (auto simp: sw_ingress_def with_vtl_hdr_frame csum_fits_def)

text \<open>
  C15: the stop-and-wait sender. On a well-formed packet the egress function sends the sealed packet
  once per round, waits 10 ms after each transmission, stops after the first wait that leaves an
  acknowledgement in \<open>NUM_ACK_MAP\<close> (which it consumes) and otherwise after 11 transmissions; the
  packet is never passed on to the stack.
\<close>

theorem sw_egress_retransmits_until_ack:
  assumes "vtl_frame (skb_data s)" and "vtlh_payload_len (skb_data s) = Some plen"
    and "csum_fits (skb_data s) plen" and "m \<noteq> []"
  shows "\<exists>s' m'. sealed (skb_data s') \<and>
    sw_egress rx s m = Some (TC_ACT_SHOT, s', m',
      concat (replicate (case sw_rounds rx 0 m of Some k \<Rightarrow> Suc k | None \<Rightarrow> Suc RETX_MAX) (sw_round s'))) \<and>
    (sw_rounds rx 0 m \<noteq> None \<longrightarrow> event (m' ! 0) = IDLE)"
proof -
  obtain s' where s': "sw_egress rx s m = Some (TC_ACT_SHOT, s', sw_tx_loop rx 0 s' m)"
    "sealed (skb_data s')"
    by (rule sw_egress_frame [OF assms(1-3)]) blast
  have m: "0 < length m" using assms(4) by simp
  show ?thesis
    using s' m sw_tx_loop_spec [OF m, of 0 rx s'] by (auto simp: Let_def split: option.splits)
qed

theorem sw_egress_retransmits_until_ack_witness:
  "\<exists>s' m'. sealed (skb_data s') \<and>
    sw_egress (\<lambda>k. if k = 2 then [sample_frame 0 []] else []) sample_skb [idle_slot] =
      Some (TC_ACT_SHOT, s', m', concat (replicate 3 (sw_round s'))) \<and> event (m' ! 0) = IDLE"
proof -
  have r: "sw_rounds (\<lambda>k. if k = 2 then [sample_frame 0 []] else []) 0 [idle_slot] = Some 2"
    by code_simp
  show ?thesis
    using sw_egress_retransmits_until_ack
      [OF sample_skb_ok, of "[idle_slot]" "\<lambda>k. if k = 2 then [sample_frame 0 []] else []"]
    unfolding r by (simp add: numeral_3_eq_3 numeral_2_eq_2)
qed

text \<open>
  What the stop-and-wait sender emits is accepted by the receiver: a frame sealed by the egress
  function and received unchanged is redirected to the AF_XDP socket bound to the queue.
\<close>

theorem sw_ingress_accepts_egress:
  assumes "sw_egress rx s m = Some (TC_ACT_SHOT, s', m', log)" and "xsk_bound xsks i"
  shows "sw_ingress K xsks i (skb_data s') = Some (k_redirect_map K i, skb_data s')"
proof -
  have f: "vtl_frame (skb_data s)"
    using assms(1) unfolding sw_egress_def by (auto elim: with_vtl_hdr_cases)
  obtain plen where l: "vtlh_payload_len (skb_data s) = Some plen"
    using safe_vtlh_fields(3) [OF f] by (auto elim: safeE)
  have fit: "csum_fits (skb_data s) plen"
  proof (rule ccontr)
    assume n: "\<not> csum_fits (skb_data s) plen"
    then have "VTL_END < length (skb_data s) \<Longrightarrow> csum_loop (skb_data s) plen 0 0 = Some None"
      using csum_loop_short [of "min plen (VTL_DATA_SIZE + 1)" plen "skb_data s" 0 0]
      by (simp add: csum_fits_def)
    then show False
      using assms(1) f l by (auto simp: sw_egress_def with_vtl_hdr_frame split: if_splits)
  qed
  obtain s'' where "sw_egress rx s m = Some (TC_ACT_SHOT, s'', sw_tx_loop rx 0 s'' m)"
    and "sealed (skb_data s'')"
    by (rule sw_egress_frame [OF f l fit]) blast
  then have "sealed (skb_data s')" using assms(1) by simp
  then show ?thesis using assms(2) by (auto simp: sealed_def sw_ingress_frame)
qed

theorem sw_ingress_accepts_egress_witness:
  "\<exists>s' m' log. sw_egress (\<lambda>_. []) sample_skb [idle_slot] = Some (TC_ACT_SHOT, s', m', log) \<and>
     sw_ingress doc_kern [True] 0 (skb_data s') = Some (XDP_REDIRECT, skb_data s')"
proof -
  obtain s' where s': "sw_egress (\<lambda>_. []) sample_skb [idle_slot] =
      Some (TC_ACT_SHOT, s', sw_tx_loop (\<lambda>_. []) 0 s' [idle_slot])"
    by (rule sw_egress_frame [OF sample_skb_ok]) blast
  obtain m' log where l: "sw_tx_loop (\<lambda>_. []) 0 s' [idle_slot] = (m', log)" by (cases rule: prod.exhaust)
  have "xsk_bound [True] 0" by code_simp
  from sw_ingress_accepts_egress [OF s' [unfolded l] this, of doc_kern] s' l
  show ?thesis by (auto simp: doc_kern_def)
qed

text \<open>
  C32: a sealed frame with one byte of the checksummed range changed in transit comes back as a NACK
  with addresses exchanged, and delivering that NACK to the sender's listener leaves the slot
  without an acknowledgement, so the sender goes on retransmitting.
\<close>

theorem sw_corruption_is_nacked:
  assumes "sealed p" and "vtlh_payload_len p = Some plen"
    and "VTL_END - 1 \<le> j" and "j < VTL_END - 1 + min plen (VTL_DATA_SIZE + 1)" and "v \<noteq> p ! j"
  shows "\<exists>q. sw_ingress K xsks i (p[j := v]) = Some (XDP_TX, q) \<and>
    ip_saddr q = ip_daddr (p[j := v]) \<and> ip_daddr q = ip_saddr (p[j := v]) \<and>
    (m \<noteq> [] \<longrightarrow> event (run_listener sw_listener [q] m ! 0) = IDLE)"
proof -
  let ?p = "p[j := v]"
  have p: "vtl_frame p" "csum_fits p plen" "vtlh_checksum p = Some (unat (xor_bytes (covered p plen)))"
    using assms(1,2) by (auto simp: sealed_def)
  have "vtl_csum ?p \<noteq> vtl_csum p"
    using vtl_csum_detects_byte [OF p(1) assms(2) p(2) assms(3-5)] .
  then have ne: "unat (xor_bytes (covered ?p plen)) \<noteq> unat (xor_bytes (covered p plen))"
    unfolding word_unat_eq_iff [symmetric] using p assms(2,3) by (auto simp: vtl_csum_eq fields_update_above csum_fits_def)
  have fp: "vtl_frame ?p" using p(1) assms(3) by (simp add: fields_update_above)
  obtain q where q: "make_nack ?p = Some q" using safe_make_nack [OF fp] by (auto elim: safeE)
  note nq = make_nack_frame [OF q fp]
  have "sw_ingress K xsks i ?p = Some (XDP_TX, q)"
    using sw_ingress_frame [of ?p plen "unat (xor_bytes (covered p plen))" K xsks i] p assms(2,3) ne q
    by (auto simp: fields_update_above csum_fits_def)
  moreover have "event (run_listener sw_listener [q] m ! 0) = IDLE" if "m \<noteq> []"
    using sw.run_last [of q 0 m "[]" "[]"] nq(1,5) that by (simp add: is_nack_def)
  ultimately show ?thesis using nq by blast
qed

theorem sw_corruption_is_nacked_witness:
  "\<exists>q. sw_ingress doc_kern [True] 0 (sealed_frame[58 := 7]) = Some (XDP_TX, q) \<and>
     event (run_listener sw_listener [q] [idle_slot] ! 0) = IDLE"
proof -
  have a: "VTL_END - 1 \<le> 58" "58 < VTL_END - 1 + min 3 (VTL_DATA_SIZE + 1)" "7 \<noteq> sealed_frame ! 58"
    by code_simp+
  show ?thesis
    using sw_corruption_is_nacked [OF sealed_frame_ok a, of doc_kern "[True]" 0 "[idle_slot]"] by auto
qed

end
