(* ===== verification/Graft_Window.thy ===== *)
theory Graft_Window
  imports Graft_Cano
begin

text \<open>
  What the three windowed egress grafts (go-back-N, selective repeat, partial reliability) share:
  the pinned maps of the sender, the first part of \<open>_tf_tc_egress\<close> (fill the VTL header, save the
  packet in the window, advance the sequence number, transmit), the retransmission of one saved
  packet and of a range, and the seq-indexed listener. The three source files hold the same text but
  for the initial event of a slot; the definitions take it as an argument.
\<close>

definition WND_SIZE :: nat where "WND_SIZE = 16"

record win_maps =
  ack_wnd :: "sock_state list"
  num_seq_map :: "u16 list"
  buf_wnd :: "bytes list"
  len_wnd :: "u16 list"

section \<open>Sending a packet for the first time\<close>

text \<open>
  Saving the packet: a packet whose payload is not of full size is padded to \<open>ON_WIRE_SIZE\<close>, saved
  and cut back to its length. \<open>Inl\<close> is the early return when the padded packet is still too short.
\<close>

definition win_save ::
    "kern \<Rightarrow> skb \<Rightarrow> win_maps \<Rightarrow> nat \<Rightarrow> u16 \<Rightarrow> nat \<Rightarrow>
     (skb \<times> win_maps \<times> kcall list) + (skb \<times> win_maps \<times> kcall list \<times> u16)" where
  "win_save K s w ix last_len payload_len =
     (if (word_of_nat payload_len :: u32) \<noteq> word_of_nat VTL_DATA_SIZE then
        (let save_len = (ucast (skb_len s) :: u16);
             w1 = w\<lparr>len_wnd := fst (map_update (len_wnd w) ix save_len)\<rparr>;
             s1 = k_change_tail K s ON_WIRE_SIZE
         in if length (skb_data s1) < ON_WIRE_SIZE then Inl (s1, w1, [ChangeTail ON_WIRE_SIZE])
            else (let w2 = w1\<lparr>buf_wnd := fst (map_update (buf_wnd w1) ix (take ON_WIRE_SIZE (skb_data s1)))\<rparr>;
                      s2 = k_change_tail K s1 (unat last_len)
                  in Inr (s2, w2, [ChangeTail ON_WIRE_SIZE, ChangeTail (unat last_len)], save_len)))
      else
        (let save_len = word_of_nat ON_WIRE_SIZE;
             w1 = w\<lparr>len_wnd := fst (map_update (len_wnd w) ix save_len)\<rparr>
         in if length (skb_data s) < ON_WIRE_SIZE then Inl (s, w1, [])
            else (let w2 = w1\<lparr>buf_wnd := fst (map_update (buf_wnd w1) ix (take ON_WIRE_SIZE (skb_data s)))\<rparr>
                  in Inr (s, w2, [], save_len))))"

text \<open>\<open>(*num_seq)++; *num_seq %= WND_SIZE\<close> on a \<open>uint16_t\<close>.\<close>

definition next_seq :: "u16 \<Rightarrow> u16" where
  "next_seq n = (n + 1) mod word_of_nat WND_SIZE"

type_synonym tc_result = "tc_action \<times> skb \<times> win_maps \<times> kcall list"

text \<open>The packet is out: what the waiting part of the program goes on with.\<close>

record tx_ctx =
  tx_skb :: skb
  tx_maps :: win_maps
  tx_calls :: "kcall list"
  tx_id :: nat
  tx_save_len :: u16
  tx_last_len :: u16

text \<open>Filling the VTL packet header; \<open>Inl\<close> when the program gives up with \<open>TC_ACT_OK\<close>.\<close>

definition win_fill_header :: "bytes \<Rightarrow> u16 list \<Rightarrow> (bytes + bytes \<times> u16) option" where
  "win_fill_header p seq_map = do {
     d1 \<leftarrow> set_pkt_type DATA p;
     r \<leftarrow> vtl_csum d1;
     case r of
       None \<Rightarrow> Some (Inl d1)
     | Some acc \<Rightarrow> do {
         d2 \<leftarrow> set_checksum acc d1;
         case map_lookup seq_map 0 of
           None \<Rightarrow> Some (Inl d2)
         | Some num_seq \<Rightarrow> do {
             d3 \<leftarrow> set_seq_num num_seq d2;
             Some (Inr (d3, num_seq))
           }
       }
   }"

definition win_send_first :: "kern \<Rightarrow> int \<Rightarrow> skb \<Rightarrow> win_maps \<Rightarrow> (tc_result + tx_ctx) option" where
  "win_send_first K init_ev s w =
     with_vtl_hdr (skb_data s) (Inl (TC_ACT_OK, s, w, [])) (Inl (TC_ACT_OK, s, w, [])) (do {
       h \<leftarrow> win_fill_header (skb_data s) (num_seq_map w);
       case h of
         Inl d \<Rightarrow> Some (Inl (TC_ACT_OK, s\<lparr>skb_data := d\<rparr>, w, []))
       | Inr (d, num_seq) \<Rightarrow>
           (case map_lookup (ack_wnd w) (unat num_seq) of
              None \<Rightarrow> Some (Inl (TC_ACT_OK, s\<lparr>skb_data := d\<rparr>, w, []))
            | Some sk_state \<Rightarrow> do {
                plen \<leftarrow> vtlh_payload_len d;
                Some (case win_save K (s\<lparr>skb_data := d\<rparr>)
                        (w\<lparr>ack_wnd := fst (map_update (ack_wnd w) (unat num_seq) (sk_state\<lparr>event := init_ev\<rparr>))\<rparr>)
                        (unat num_seq) (ucast (skb_len s)) plen of
                        Inl (s2, w2, calls) \<Rightarrow> Inl (TC_ACT_OK, s2, w2, calls)
                      | Inr (s2, w2, calls, save_len) \<Rightarrow>
                          Inr \<lparr>tx_skb = s2,
                               tx_maps = w2\<lparr>num_seq_map := fst (map_update (num_seq_map w2) 0 (next_seq num_seq))\<rparr>,
                               tx_calls = calls @ [CloneRedirect (skb_ifindex s2 + 1) s2],
                               tx_id = unat num_seq, tx_save_len = save_len,
                               tx_last_len = ucast (skb_len s)\<rparr>)
              })
     })"

text \<open>The wait is entered when the window is full or the packet is a short one.\<close>

definition win_flush :: "tx_ctx \<Rightarrow> bool" where
  "win_flush t \<longleftrightarrow> tx_id t = WND_SIZE - 1 \<or> unat (tx_save_len t) < ON_WIRE_SIZE"

section \<open>Retransmission\<close>

definition win_retx :: "kern \<Rightarrow> win_maps \<Rightarrow> u16 \<Rightarrow> nat \<Rightarrow> skb \<Rightarrow> (skb \<times> kcall list) option" where
  "win_retx K w last_len j s =
     (case map_lookup (buf_wnd w) j of
        None \<Rightarrow> None
      | Some get_skb \<Rightarrow>
          (case map_lookup (len_wnd w) j of
             None \<Rightarrow> None
           | Some get_len \<Rightarrow>
               (let (s1, c1) = (if unat get_len = ON_WIRE_SIZE
                                then (k_change_tail K s ON_WIRE_SIZE, [ChangeTail ON_WIRE_SIZE]) else (s, []));
                    s2 = k_store_bytes K s1 0 get_skb ON_WIRE_SIZE;
                    (s3, c3) = (if unat get_len < ON_WIRE_SIZE
                                then (k_change_tail K s2 (unat last_len), [ChangeTail (unat last_len)]) else (s2, []))
                in Some (s3, c1 @ [StoreBytes 0 get_skb ON_WIRE_SIZE] @ c3 @ [CloneRedirect (skb_ifindex s3 + 1) s3]))))"

function win_retx_from :: "kern \<Rightarrow> win_maps \<Rightarrow> u16 \<Rightarrow> nat \<Rightarrow> nat \<Rightarrow> skb \<Rightarrow> skb \<times> kcall list" where
  "win_retx_from K w last_len cw j s =
     (if j < WND_SIZE then
        if j > cw then (s, [])
        else (case win_retx K w last_len j s of
                None \<Rightarrow> (s, [])
              | Some (s', c) \<Rightarrow> (let (s'', c') = win_retx_from K w last_len cw (Suc j) s' in (s'', c @ c')))
      else (s, []))"
  by pat_completeness auto
termination
  by (relation "measure (\<lambda>(K, w, last_len, cw, j, s). WND_SIZE - j)") auto

declare win_retx_from.simps [simp del]

section \<open>The seq-indexed listener\<close>

definition seq_slot :: "bytes \<Rightarrow> nat" where
  "seq_slot p = (case vtlh_seq_num p of Some n \<Rightarrow> n | None \<Rightarrow> 0)"

definition win_listener :: "int \<Rightarrow> listener" where
  "win_listener nack_ev p m =
     with_vtl_hdr p (XDP_PASS, m) (XDP_PASS, m) (do {
       index \<leftarrow> vtlh_seq_num p;
       case map_lookup m index of
         None \<Rightarrow> Some (XDP_PASS, m)
       | Some sk_state \<Rightarrow> do {
           t \<leftarrow> vtlh_pkt_type p;
           let sk_state' = sk_state\<lparr>event := (if t = pkt_code NACK then nack_ev else RECV_ACK)\<rparr>;
           let (m', ret) = map_update m index sk_state';
           if ret \<noteq> 0 then Some (XDP_PASS, m') else Some (XDP_PASS, m')
         }
     })"

lemma safe_win_listener: "safe (win_listener ev p m)"
  unfolding win_listener_def by (intro safe_intros safe_with_vtl_hdr safe_vtlh_fields)

lemma win_listener_contract: "ack_listener (win_listener ev) seq_slot ev"
proof
  fix p m a m'
  show "safe (win_listener ev p m)" by (rule safe_win_listener)
  show "m' = m[seq_slot p := (m ! seq_slot p)\<lparr>event := (if is_nack p then ev else RECV_ACK)\<rparr>]"
    if h: "vtl_frame p" "seq_slot p < length m" "win_listener ev p m = Some (a, m')"
  proof -
    obtain t n where "vtlh_pkt_type p = Some t" "vtlh_seq_num p = Some n"
      using safe_vtlh_fields(2,5) [OF h(1)] by (auto elim!: safeE)
    then show ?thesis
      using h by (simp add: win_listener_def with_vtl_hdr_frame map_lookup_def map_update_ok is_nack_def seq_slot_def)
  qed
  show "m' = m" if "\<not> (vtl_frame p \<and> seq_slot p < length m)" "win_listener ev p m = Some (a, m')"
    using that unfolding win_listener_def
    by (auto simp: seq_slot_def Option.bind_eq_Some_conv map_lookup_def map_update_def
        elim!: with_vtl_hdr_cases split: option.splits if_splits)
qed

section \<open>Invariant of the sender's maps\<close>

definition win_ok :: "win_maps \<Rightarrow> bool" where
  "win_ok w \<longleftrightarrow> length (ack_wnd w) = WND_SIZE \<and> length (num_seq_map w) = 1 \<and>
     unat (num_seq_map w ! 0) < WND_SIZE \<and> length (buf_wnd w) = WND_SIZE \<and> length (len_wnd w) = WND_SIZE"

lemma unat_next_seq: "unat n < WND_SIZE \<Longrightarrow> unat (next_seq n) = (unat n + 1) mod WND_SIZE"
proof -
  assume "unat n < WND_SIZE"
  then have "unat (n + 1) = unat n + 1" by (simp add: WND_SIZE_def unat_word_ariths)
  then show ?thesis by (simp add: next_seq_def WND_SIZE_def unat_mod)
qed

lemma unat_next_seq_less: "unat (next_seq n) < WND_SIZE"
  by (simp add: next_seq_def WND_SIZE_def unat_mod)

lemma win_save_maps:
  assumes "win_save K s w ix l plen = Inl (s', w', c) \<or> win_save K s w ix l plen = Inr (s', w', c, n)"
  shows "ack_wnd w' = ack_wnd w" and "num_seq_map w' = num_seq_map w"
    and "length (buf_wnd w') = length (buf_wnd w)" and "length (len_wnd w') = length (len_wnd w)"
    and "transmissions c = 0" and "timers c = 0"
  using assms by (auto simp: win_save_def Let_def split: if_splits)

lemma safe_win_fill_header: "vtl_frame p \<Longrightarrow> safe (win_fill_header p m)"
  unfolding win_fill_header_def
  by (intro safe_intros safe_vtlh_fields safe_vtl_csum) (auto intro: set_frame)

text \<open>Filling the header of a frame with a readable payload seals it and stamps the sequence number.\<close>

lemma win_fill_header_eq:
  assumes "vtl_frame p" and "vtlh_payload_len p = Some plen"
  obtains (short) d where "\<not> csum_fits p plen" "win_fill_header p [n] = Some (Inl d)" "vtl_frame d"
    | (ok) d where "csum_fits p plen" "win_fill_header p [n] = Some (Inr (d, n))" "sealed d"
      "vtlh_seq_num d = Some (unat n)" "vtlh_payload_len d = Some plen" "length d = length p"
      "covered d plen = covered p plen" "drop VTL_END d = drop VTL_END p"
proof -
  obtain d1 where d1: "set_pkt_type DATA p = Some d1"
    using safe_vtlh_fields(8) [OF assms(1)] by (auto elim: safeE)
  note a = d1 [unfolded set_pkt_type_def]
  have f1: "vtl_frame d1" by (rule set_frame(1) [OF d1 assms(1)])
  have l1: "vtlh_payload_len d1 = Some plen"
    using ld_st_disjoint [OF a, of 42 8] assms(2) by (simp add: vtlh_payload_len_def)
  have c1: "covered d1 plen = covered p plen" using covered_st [OF a] by (simp add: VTL_END_def)
  have ft: "csum_fits d1 plen = csum_fits p plen" using st_length [OF a] by (simp add: csum_fits_def)
  show thesis
  proof (cases "csum_fits p plen")
    case False
    then show thesis
      using short [OF False _ f1] d1 vtl_csum_eq [OF f1 l1] ft by (simp add: win_fill_header_def)
  next
    case True
    let ?c = "ucast (xor_bytes (covered p plen)) :: u16"
    obtain d2 where d2: "set_checksum ?c d1 = Some d2"
      using safe_vtlh_fields(9) [OF f1] by (auto elim: safeE)
    note sf = seal_fields [OF assms d1 d2]
    obtain d3 where d3: "set_seq_num n d2 = Some d3"
      using safe_vtlh_fields(10) [OF sf(1)] by (auto elim: safeE)
    note b = d3 [unfolded set_seq_num_def]
    have q: "vtl_frame d3" "length d3 = length p" "vtlh_payload_len d3 = Some plen"
      "vtlh_pkt_type d3 = Some (pkt_code DATA)" "vtlh_checksum d3 = Some (unat (xor_bytes (covered p plen)))"
      using set_frame(3) [OF d3 sf(1)] st_length [OF b] sf ld_st_disjoint [OF b, of 42 8]
        ld_st_disjoint [OF b, of 38 4] ld_st_disjoint [OF b, of 50 2]
      by (simp_all add: get_defs)
    have c3: "covered d3 plen = covered p plen" using covered_st [OF b] sf(3) by (simp add: VTL_END_def)
    have dr: "drop VTL_END d3 = drop VTL_END p"
      using drop_st [OF a, of VTL_END] drop_st [OF d2 [unfolded set_checksum_def], of VTL_END] drop_st [OF b, of VTL_END]
      by (simp add: VTL_END_def)
    have "csum_fits d3 plen" using True q(2) by (simp add: csum_fits_def)
    then have "sealed d3" using q c3 by (auto simp: sealed_def)
    moreover have "vtlh_seq_num d3 = Some (unat n)"
      using seqn.get_put [OF b] unsigned_less [of n, where 'a = nat] by simp
    moreover have "win_fill_header p [n] = Some (Inr (d3, n))"
      using d1 d2 d3 vtl_csum_eq [OF f1 l1] ft True c1 by (simp add: win_fill_header_def map_lookup_def)
    ultimately show thesis using ok [OF True] q c3 dr by blast
  qed
qed

lemma safe_win_send_first: "safe (win_send_first K ev s w)"
proof -
  have "vtl_frame d" if "vtl_frame p" "win_fill_header p m = Some (Inr (d, n))" for p m d n
    using that set_frame
    by (auto simp: win_fill_header_def Option.bind_eq_Some_conv split: option.splits)
  then show ?thesis
    unfolding win_send_first_def
    by (intro safe_with_vtl_hdr safe_bind safe_win_fill_header)
      (auto split: sum.splits intro!: safe_intros safe_vtlh_fields)
qed

text \<open>
  Inversion: when the packet went out, one frame was transmitted, its slot was reset, the saved copy
  is in the window and the sequence number advanced.
\<close>

lemma win_send_first_Inr:
  assumes "win_ok w" and "win_send_first K ev s w = Some (Inr t)"
  defines "n \<equiv> num_seq_map w ! 0"
  obtains d plen calls where "vtl_frame (skb_data s)" "sealed d" "vtlh_seq_num d = Some (unat n)"
    "vtlh_payload_len d = Some plen" "length d = length (skb_data s)"
    "vtlh_payload_len (skb_data s) = Some plen"
    "win_save K (s\<lparr>skb_data := d\<rparr>) (w\<lparr>ack_wnd := (ack_wnd w)[unat n := (ack_wnd w ! unat n)\<lparr>event := ev\<rparr>]\<rparr>)
       (unat n) (ucast (skb_len s)) plen =
     Inr (tx_skb t, (tx_maps t)\<lparr>num_seq_map := num_seq_map w\<rparr>, calls, tx_save_len t)"
    "num_seq_map (tx_maps t) = [next_seq n]"
    "tx_calls t = calls @ [CloneRedirect (skb_ifindex (tx_skb t) + 1) (tx_skb t)]"
    "tx_id t = unat n" "tx_last_len t = ucast (skb_len s)" "drop VTL_END d = drop VTL_END (skb_data s)"
proof -
  have f: "vtl_frame (skb_data s)"
    using assms(2) unfolding win_send_first_def by (auto elim: with_vtl_hdr_cases)
  have m: "num_seq_map w = [n]" using assms(1) unfolding n_def win_ok_def
    by (metis One_nat_def Suc_length_conv length_0_conv nth_Cons_0)
  have n: "unat n < length (ack_wnd w)" using assms(1) by (simp add: win_ok_def n_def)
  obtain plen where l: "vtlh_payload_len (skb_data s) = Some plen"
    using safe_vtlh_fields(3) [OF f] by (auto elim: safeE)
  from f l show thesis
  proof (cases rule: win_fill_header_eq [where n = n])
    case (short d)
    then show thesis using assms(2) f m by (simp add: win_send_first_def with_vtl_hdr_frame)
  next
    case (ok d)
    let ?w = "w\<lparr>ack_wnd := (ack_wnd w)[unat n := (ack_wnd w ! unat n)\<lparr>event := ev\<rparr>]\<rparr>"
    have "(case win_save K (s\<lparr>skb_data := d\<rparr>) ?w (unat n) (ucast (skb_len s)) plen of
         Inl (s2, w2, calls) \<Rightarrow> Inl (TC_ACT_OK, s2, w2, calls)
       | Inr (s2, w2, calls, save_len) \<Rightarrow>
           Inr \<lparr>tx_skb = s2, tx_maps = w2\<lparr>num_seq_map := fst (map_update (num_seq_map w2) 0 (next_seq n))\<rparr>,
              tx_calls = calls @ [CloneRedirect (skb_ifindex s2 + 1) s2],
              tx_id = unat n, tx_save_len = save_len, tx_last_len = ucast (skb_len s)\<rparr>) = Inr t"
      using assms(2) f m n ok
      by (simp add: win_send_first_def with_vtl_hdr_frame map_lookup_def map_update_ok)
    then obtain s2 w2 calls save_len where
      v: "win_save K (s\<lparr>skb_data := d\<rparr>) ?w (unat n) (ucast (skb_len s)) plen = Inr (s2, w2, calls, save_len)"
      and t: "t = \<lparr>tx_skb = s2, tx_maps = w2\<lparr>num_seq_map := fst (map_update (num_seq_map w2) 0 (next_seq n))\<rparr>,
              tx_calls = calls @ [CloneRedirect (skb_ifindex s2 + 1) s2],
              tx_id = unat n, tx_save_len = save_len, tx_last_len = ucast (skb_len s)\<rparr>"
      by (auto split: sum.splits)
    have w2: "num_seq_map w2 = [n]" using win_save_maps(2) [OF disjI2 [OF v]] m by simp
    have e: "(tx_maps t)\<lparr>num_seq_map := num_seq_map w\<rparr> = w2" using t w2 m by simp
    show thesis
    proof (rule that [OF f ok(3,4,5,6) l])
      show "win_save K (s\<lparr>skb_data := d\<rparr>) ?w (unat n) (ucast (skb_len s)) plen =
        Inr (tx_skb t, (tx_maps t)\<lparr>num_seq_map := num_seq_map w\<rparr>, calls, tx_save_len t)"
        using v e t by simp
    qed (use t w2 ok(8) in \<open>simp_all add: map_update_ok\<close>)
  qed
qed

lemma win_send_first_Inl:
  assumes "win_send_first K ev s w = Some (Inl (a, s', w', c))"
  shows "a = TC_ACT_OK \<and> transmissions c = 0 \<and> timers c = 0 \<and> (win_ok w \<longrightarrow> win_ok w')"
  using assms unfolding win_send_first_def
proof (cases rule: with_vtl_hdr_cases)
  case frame
  then obtain h where h: "win_fill_header (skb_data s) (num_seq_map w) = Some h"
    by (auto simp: Option.bind_eq_Some_conv)
  show ?thesis
  proof (cases h)
    case (Inl d)
    then show ?thesis using frame h by auto
  next
    case (Inr x)
    obtain d n where x: "x = (d, n)" by (cases x)
    show ?thesis
    proof (cases "map_lookup (ack_wnd w) (unat n)")
      case None
      then show ?thesis using frame h Inr x by auto
    next
      case (Some sk)
      let ?w = "w\<lparr>ack_wnd := fst (map_update (ack_wnd w) (unat n) (sk\<lparr>event := ev\<rparr>))\<rparr>"
      obtain plen where plen: "vtlh_payload_len d = Some plen"
        using frame h Inr x Some by (auto simp: Option.bind_eq_Some_conv)
      show ?thesis
      proof (cases "win_save K (s\<lparr>skb_data := d\<rparr>) ?w (unat n) (ucast (skb_len s)) plen")
        case (Inl y)
        obtain s2 w2 c2 where y: "y = (s2, w2, c2)" by (cases y)
        then have "a = TC_ACT_OK" "w2 = w'" "c2 = c"
          using frame h \<open>h = Inr x\<close> x Some plen Inl by auto
        then show ?thesis
          using win_save_maps [OF disjI1 [OF Inl [unfolded y]]] by (auto simp: win_ok_def)
      next
        case (Inr y)
        then show ?thesis using frame h \<open>h = Inr x\<close> x Some plen by (cases y) auto
      qed
    qed
  qed
qed auto

lemma win_send_first_ok:
  assumes "win_ok w"
  shows "win_send_first K ev s w = Some (Inr t) \<Longrightarrow> win_ok (tx_maps t)"
    and "win_send_first K ev s w = Some (Inl (a, s', w', c)) \<Longrightarrow> win_ok w'"
    and "win_send_first K ev s w = Some (Inl (a, s', w', c)) \<Longrightarrow> a = TC_ACT_OK \<and> transmissions c = 0"
proof -
  show "win_ok (tx_maps t)" if h: "win_send_first K ev s w = Some (Inr t)"
  proof -
    obtain d plen calls where
      v: "win_save K (s\<lparr>skb_data := d\<rparr>)
          (w\<lparr>ack_wnd := (ack_wnd w)[unat (num_seq_map w ! 0) := (ack_wnd w ! unat (num_seq_map w ! 0))\<lparr>event := ev\<rparr>]\<rparr>)
          (unat (num_seq_map w ! 0)) (ucast (skb_len s)) plen =
        Inr (tx_skb t, (tx_maps t)\<lparr>num_seq_map := num_seq_map w\<rparr>, calls, tx_save_len t)"
      and q: "num_seq_map (tx_maps t) = [next_seq (num_seq_map w ! 0)]"
      by (rule win_send_first_Inr [OF assms h]) blast
    show ?thesis
      using win_save_maps [OF disjI2 [OF v]] q assms by (simp add: win_ok_def unat_next_seq_less)
  qed
  show "win_ok w'" if "win_send_first K ev s w = Some (Inl (a, s', w', c))"
    using win_send_first_Inl [OF that] assms by simp
  show "a = TC_ACT_OK \<and> transmissions c = 0" if "win_send_first K ev s w = Some (Inl (a, s', w', c))"
    using win_send_first_Inl [OF that] by simp
qed

text \<open>Reference: the slots of the window in a given state, from \<open>i\<close> on.\<close>

definition slots :: "int \<Rightarrow> sock_state list \<Rightarrow> nat \<Rightarrow> nat \<Rightarrow> nat list" where
  "slots ev m cw i = filter (\<lambda>k. event (m ! k) = ev) [i..<Suc cw]"

lemma slots_rec:
  "i \<le> cw \<Longrightarrow> slots ev m cw i = (if event (m ! i) = ev then i # slots ev m cw (Suc i) else slots ev m cw (Suc i))"
  by (simp add: slots_def upt_conv_Cons del: upt_Suc)

lemma slots_end: "cw < i \<Longrightarrow> slots ev m cw i = []"
  by (simp add: slots_def)

lemma slots_cong: "(\<And>k. i \<le> k \<Longrightarrow> m' ! k = m ! k) \<Longrightarrow> slots ev m' cw i = slots ev m cw i"
  by (auto simp: slots_def intro!: filter_cong)

lemma set_slots: "set (slots ev m cw i) = {k. i \<le> k \<and> k \<le> cw \<and> event (m ! k) = ev}"
  by (auto simp: slots_def)

lemma length_slots_le: "length (slots ev m cw i) \<le> Suc cw - i"
  using length_filter_le [of "\<lambda>k. event (m ! k) = ev" "[i..<Suc cw]"] unfolding slots_def length_upt .

lemma win_first:
  assumes "win_ok w" and "win_send_first K ev s w = Some (Inr t)"
  shows "win_ok (tx_maps t)" and "tx_id t = unat (num_seq_map w ! 0)" and "tx_id t < WND_SIZE"
    and "transmissions (tx_calls t) = 1" and "timers (tx_calls t) = 0"
    and "ack_wnd (tx_maps t) = (ack_wnd w)[tx_id t := (ack_wnd w ! tx_id t)\<lparr>event := ev\<rparr>]"
    and "num_seq_map (tx_maps t) = [next_seq (num_seq_map w ! 0)]"
proof -
  note h = assms(2)
  obtain d plen calls where
    v: "win_save K (s\<lparr>skb_data := d\<rparr>)
        (w\<lparr>ack_wnd := (ack_wnd w)[unat (num_seq_map w ! 0) := (ack_wnd w ! unat (num_seq_map w ! 0))\<lparr>event := ev\<rparr>]\<rparr>)
        (unat (num_seq_map w ! 0)) (ucast (skb_len s)) plen =
      Inr (tx_skb t, (tx_maps t)\<lparr>num_seq_map := num_seq_map w\<rparr>, calls, tx_save_len t)"
    and q: "num_seq_map (tx_maps t) = [next_seq (num_seq_map w ! 0)]"
    and cl: "tx_calls t = calls @ [CloneRedirect (skb_ifindex (tx_skb t) + 1) (tx_skb t)]"
    and i: "tx_id t = unat (num_seq_map w ! 0)"
    by (rule win_send_first_Inr [OF assms(1) h]) blast
  note m = win_save_maps [OF disjI2 [OF v]]
  show "win_ok (tx_maps t)" by (rule win_send_first_ok(1) [OF assms(1) h])
  show "tx_id t = unat (num_seq_map w ! 0)" by (rule i)
  then show "tx_id t < WND_SIZE" using assms(1) by (simp add: win_ok_def)
  show "transmissions (tx_calls t) = 1" "timers (tx_calls t) = 0" using m(5,6) cl by simp_all
  show "ack_wnd (tx_maps t) = (ack_wnd w)[tx_id t := (ack_wnd w ! tx_id t)\<lparr>event := ev\<rparr>]"
    using m(1) i by simp
  show "num_seq_map (tx_maps t) = [next_seq (num_seq_map w ! 0)]" by (rule q)
qed

section \<open>What a range retransmission sends\<close>

lemma win_retx_Some:
  assumes "j < length (buf_wnd w)" and "j < length (len_wnd w)"
  shows "\<exists>s' c. win_retx K w l j s = Some (s', c) \<and> resent c = [buf_wnd w ! j] \<and>
    transmissions c = 1 \<and> timers c = 0"
  using assms
  by (cases "unat (len_wnd w ! j) = ON_WIRE_SIZE"; cases "unat (len_wnd w ! j) < ON_WIRE_SIZE")
    (auto simp: win_retx_def Let_def)

lemma win_retx_from_spec:
  assumes "length (buf_wnd w) = WND_SIZE" and "length (len_wnd w) = WND_SIZE" and "cw < WND_SIZE"
  shows "resent (snd (win_retx_from K w l cw j s)) = map ((!) (buf_wnd w)) [j..<Suc cw]"
    and "transmissions (snd (win_retx_from K w l cw j s)) = Suc cw - j"
    and "timers (snd (win_retx_from K w l cw j s)) = 0"
proof -
  have "resent (snd (win_retx_from K w l cw j s)) = map ((!) (buf_wnd w)) [j..<Suc cw] \<and>
    transmissions (snd (win_retx_from K w l cw j s)) = Suc cw - j \<and>
    timers (snd (win_retx_from K w l cw j s)) = 0"
    using assms
  proof (induction K w l cw j s rule: win_retx_from.induct)
    case (1 K w l cw j s)
    show ?case
    proof (cases "j \<le> cw")
      case True
      then have j: "j < WND_SIZE" using "1.prems"(3) by simp
      obtain s' c where r: "win_retx K w l j s = Some (s', c)" and c: "resent c = [buf_wnd w ! j]"
        "transmissions c = 1" "timers c = 0"
        using win_retx_Some [of j w K l s] j "1.prems" by metis
      have IH: "resent (snd (win_retx_from K w l cw (Suc j) s')) = map ((!) (buf_wnd w)) [Suc j..<Suc cw]"
        "transmissions (snd (win_retx_from K w l cw (Suc j) s')) = Suc cw - Suc j"
        "timers (snd (win_retx_from K w l cw (Suc j) s')) = 0"
        using "1.IH" [OF j _ r refl] True "1.prems" by simp_all
      have "[j..<Suc cw] = j # [Suc j..<Suc cw]" using True by (simp add: upt_conv_Cons)
      then show ?thesis
        using IH c True j r by (subst (1 2 3) win_retx_from.simps) (auto simp: split_beta Let_def)
    next
      case False
      then show ?thesis by (subst (1 2 3) win_retx_from.simps) auto
    qed
  qed
  then show "resent (snd (win_retx_from K w l cw j s)) = map ((!) (buf_wnd w)) [j..<Suc cw]"
    and "transmissions (snd (win_retx_from K w l cw j s)) = Suc cw - j"
    and "timers (snd (win_retx_from K w l cw j s)) = 0" by auto
qed

section \<open>What is on the wire\<close>

text \<open>Saving a packet that fits into \<open>ON_WIRE_SIZE\<close> leaves it as it was and keeps a copy of it.\<close>

lemma win_save_frame:
  assumes "change_tail_ok K" and "unat l = length (skb_data s)" and "length (skb_data s) \<le> ON_WIRE_SIZE"
    and "win_save K s w ix l plen = Inr (s', w', c, n)" and "ix < length (buf_wnd w)" and "ix < length (len_wnd w)"
  shows "skb_data s' = skb_data s" and "skb_ifindex s' = skb_ifindex s"
    and "take (length (skb_data s)) (buf_wnd w' ! ix) = skb_data s" and "len_wnd w' ! ix = n"
    and "length (buf_wnd w' ! ix) = ON_WIRE_SIZE"
proof -
  let ?d = "skb_data s" and ?s1 = "k_change_tail K s ON_WIRE_SIZE"
  let ?s2 = "k_change_tail K ?s1 (unat l)"
  have t: "length (skb_data (k_change_tail K u m)) = m" "skb_ifindex (k_change_tail K u m) = skb_ifindex u"
    "take (min m (length (skb_data u))) (skb_data (k_change_tail K u m)) = take (min m (length (skb_data u))) (skb_data u)"
    for u m using assms(1) unfolding change_tail_ok_def by blast+
  have a: "take (length ?d) (skb_data ?s1) = ?d" using t(3) [where m = ON_WIRE_SIZE and u = s] assms(3) by (simp add: min_def split: if_splits)
  then have b: "skb_data ?s2 = ?d" using t(1) [where m = "unat l" and u = ?s1] t(3) [where m = "unat l" and u = ?s1] t(1) [where m = ON_WIRE_SIZE and u = s] assms(2,3) by (simp add: min_absorb1)
  show "skb_data s' = skb_data s" "skb_ifindex s' = skb_ifindex s"
    "take (length (skb_data s)) (buf_wnd w' ! ix) = skb_data s" "len_wnd w' ! ix = n"
    "length (buf_wnd w' ! ix) = ON_WIRE_SIZE"
    using assms(3-6) a b t(1,2) by (auto simp: win_save_def Let_def map_update_ok min_def split: if_splits)
qed

text \<open>The first transmission: the packet as it was, sealed and numbered.\<close>

lemma win_send_first_frame:
  assumes "win_ok w" and "change_tail_ok K" and "win_send_first K ev s w = Some (Inr t)"
    and "unat (skb_len s) = length (skb_data s)" and "length (skb_data s) \<le> ON_WIRE_SIZE"
  shows "sealed (skb_data (tx_skb t))" and "vtlh_seq_num (skb_data (tx_skb t)) = Some (unat (num_seq_map w ! 0))"
    and "length (skb_data (tx_skb t)) = length (skb_data s)"
    and "take (length (skb_data s)) (buf_wnd (tx_maps t) ! tx_id t) = skb_data (tx_skb t)"
    and "length (buf_wnd (tx_maps t) ! tx_id t) = ON_WIRE_SIZE"
    and "len_wnd (tx_maps t) ! tx_id t = tx_save_len t" and "tx_id t = unat (num_seq_map w ! 0)"
    and "vtlh_payload_len (skb_data (tx_skb t)) = vtlh_payload_len (skb_data s)"
    and "drop VTL_END (skb_data (tx_skb t)) = drop VTL_END (skb_data s)"
proof -
  let ?n = "num_seq_map w ! 0"
  obtain d plen calls where d: "sealed d" "vtlh_seq_num d = Some (unat ?n)" "length d = length (skb_data s)"
    "vtlh_payload_len d = Some plen" "vtlh_payload_len (skb_data s) = Some plen"
    and v: "win_save K (s\<lparr>skb_data := d\<rparr>)
        (w\<lparr>ack_wnd := (ack_wnd w)[unat ?n := (ack_wnd w ! unat ?n)\<lparr>event := ev\<rparr>]\<rparr>)
        (unat ?n) (ucast (skb_len s)) plen =
      Inr (tx_skb t, (tx_maps t)\<lparr>num_seq_map := num_seq_map w\<rparr>, calls, tx_save_len t)"
    and i: "tx_id t = unat ?n" and dr: "drop VTL_END d = drop VTL_END (skb_data s)"
    by (rule win_send_first_Inr [OF assms(1,3)]) blast
  have l: "unat (ucast (skb_len s) :: u16) = length (skb_data (s\<lparr>skb_data := d\<rparr>))"
    using assms(4,5) d(3) by (simp add: unat_ucast_u32_u16 ON_WIRE_SIZE_def)
  have n: "unat ?n < WND_SIZE" using assms(1) by (simp add: win_ok_def)
  note f = win_save_frame [OF assms(2) l _ v]
  show "sealed (skb_data (tx_skb t))" "vtlh_seq_num (skb_data (tx_skb t)) = Some (unat ?n)"
    "length (skb_data (tx_skb t)) = length (skb_data s)"
    "take (length (skb_data s)) (buf_wnd (tx_maps t) ! tx_id t) = skb_data (tx_skb t)"
    "length (buf_wnd (tx_maps t) ! tx_id t) = ON_WIRE_SIZE"
    "len_wnd (tx_maps t) ! tx_id t = tx_save_len t" "tx_id t = unat ?n"
    "vtlh_payload_len (skb_data (tx_skb t)) = vtlh_payload_len (skb_data s)"
    "drop VTL_END (skb_data (tx_skb t)) = drop VTL_END (skb_data s)"
    using f d assms(1,5) n i dr by (simp_all add: win_ok_def)
qed

lemma win_save_Inr:
  assumes "change_tail_ok K"
    and "(word_of_nat plen :: u32) = word_of_nat VTL_DATA_SIZE \<longrightarrow> ON_WIRE_SIZE \<le> length (skb_data s)"
  shows "\<exists>x. win_save K s w ix l plen = Inr x"
proof -
  have "length (skb_data (k_change_tail K s ON_WIRE_SIZE)) = ON_WIRE_SIZE"
    using assms(1) unfolding change_tail_ok_def by blast
  then show ?thesis using assms(2) by (auto simp: win_save_def Let_def)
qed

text \<open>A well-formed packet of at most \<open>ON_WIRE_SIZE\<close> bytes is transmitted.\<close>

lemma win_send_first_sends:
  assumes "win_ok w" and "change_tail_ok K" and "vtl_frame (skb_data s)"
    and "vtlh_payload_len (skb_data s) = Some plen" and "csum_fits (skb_data s) plen"
    and "(word_of_nat plen :: u32) = word_of_nat VTL_DATA_SIZE \<longrightarrow> ON_WIRE_SIZE \<le> length (skb_data s)"
  obtains t where "win_send_first K ev s w = Some (Inr t)"
proof -
  let ?n = "num_seq_map w ! 0"
  have m: "num_seq_map w = [?n]" using assms(1) unfolding win_ok_def
    by (metis One_nat_def Suc_length_conv length_0_conv nth_Cons_0)
  have n: "unat ?n < length (ack_wnd w)" using assms(1) by (simp add: win_ok_def)
  from assms(3,4) show thesis
  proof (cases rule: win_fill_header_eq [where n = ?n])
    case (short d)
    then show thesis using assms(5) by simp
  next
    case (ok d)
    let ?w = "w\<lparr>ack_wnd := (ack_wnd w)[unat ?n := (ack_wnd w ! unat ?n)\<lparr>event := ev\<rparr>]\<rparr>"
    have "(word_of_nat plen :: u32) = word_of_nat VTL_DATA_SIZE \<longrightarrow> ON_WIRE_SIZE \<le> length (skb_data (s\<lparr>skb_data := d\<rparr>))"
      using assms(6) ok(6) by simp
    then obtain x where v: "win_save K (s\<lparr>skb_data := d\<rparr>) ?w (unat ?n) (ucast (skb_len s)) plen = Inr x"
      using win_save_Inr [OF assms(2)] by blast
    obtain s2 w2 calls sl where x: "x = (s2, w2, calls, sl)" by (cases x)
    have h: "win_fill_header (skb_data s) (num_seq_map w) = Some (Inr (d, ?n))" using ok(2) m by simp
    show thesis
      using that v x h ok(5) n assms(3) by (simp add: win_send_first_def with_vtl_hdr_frame map_update_ok)
  qed
qed

lemma win_save_full:
  assumes "win_save K s w ix l plen = Inr (s', w', c, n)" and "unat (skb_len s) = ON_WIRE_SIZE"
  shows "unat n = ON_WIRE_SIZE"
  using assms by (auto simp: win_save_def Let_def unat_ucast_u32_u16 ON_WIRE_SIZE_def split: if_splits)

lemma win_save_sends: "win_save K s w ix l plen = Inr (s', w', c, n) \<Longrightarrow> sent_frames c = []"
  by (auto simp: win_save_def Let_def split: if_splits)

lemma win_save_other:
  "win_save K s w ix l plen = Inr (s', w', c, n) \<Longrightarrow> j \<noteq> ix \<Longrightarrow> buf_wnd w' ! j = buf_wnd w ! j \<and> len_wnd w' ! j = len_wnd w ! j"
  by (auto simp: win_save_def Let_def map_update_def split: if_splits)

text \<open>A slot that holds a packet of full size is sent again byte for byte, whatever packet the program then holds.\<close>

definition full_slot :: "win_maps \<Rightarrow> nat \<Rightarrow> bool" where
  "full_slot w j \<longleftrightarrow> unat (len_wnd w ! j) = ON_WIRE_SIZE \<and> length (buf_wnd w ! j) = ON_WIRE_SIZE"

lemma win_retx_full:
  assumes "change_tail_ok K" and "store_bytes_ok K" and "win_ok w" and "j < WND_SIZE" and "full_slot w j"
  shows "\<exists>s3 c. win_retx K w l j s = Some (s3, c @ [CloneRedirect (skb_ifindex s + 1) s3]) \<and>
    transmissions c = 0 \<and> sent_frames c = [] \<and> skb_data s3 = buf_wnd w ! j"
proof -
  let ?b = "buf_wnd w ! j" and ?s1 = "k_change_tail K s ON_WIRE_SIZE"
  have s1: "length (skb_data ?s1) = ON_WIRE_SIZE" "skb_ifindex ?s1 = skb_ifindex s"
    using assms(1) unfolding change_tail_ok_def by blast+
  have "k_store_bytes K ?s1 0 ?b ON_WIRE_SIZE = ?s1\<lparr>skb_data := ?b\<rparr>"
    using assms(2,5) s1 unfolding store_bytes_ok_def full_slot_def by simp
  then have "win_retx K w l j s = Some (?s1\<lparr>skb_data := ?b\<rparr>,
      [ChangeTail ON_WIRE_SIZE, StoreBytes 0 ?b ON_WIRE_SIZE] @ [CloneRedirect (skb_ifindex s + 1) (?s1\<lparr>skb_data := ?b\<rparr>)])"
    using assms(3-5) s1 by (simp add: win_retx_def Let_def win_ok_def full_slot_def)
  then show ?thesis
    by (intro exI [of _ "?s1\<lparr>skb_data := ?b\<rparr>"] exI [of _ "[ChangeTail ON_WIRE_SIZE, StoreBytes 0 ?b ON_WIRE_SIZE]"]) simp
qed

lemma win_retx_from_full:
  assumes "change_tail_ok K" and "store_bytes_ok K" and "win_ok w" and "cw < WND_SIZE" and "\<And>i. i \<le> cw \<Longrightarrow> full_slot w i"
  shows "sent_frames (snd (win_retx_from K w l cw j s)) = map ((!) (buf_wnd w)) [j..<Suc cw]"
  using assms
proof (induction K w l cw j s rule: win_retx_from.induct)
  case (1 K w l cw j s)
  show ?case
  proof (cases "j \<le> cw")
    case True
    then have j: "j < WND_SIZE" "\<not> cw < j" using "1.prems"(4) by simp_all
    obtain s' c where r: "win_retx K w l j s = Some (s', c)" "sent_frames c = [buf_wnd w ! j]"
      using win_retx_full [OF "1.prems"(1-3) j(1) "1.prems"(5) [OF True], of l s] by auto
    have "sent_frames (snd (win_retx_from K w l cw (Suc j) s')) = map ((!) (buf_wnd w)) [Suc j..<Suc cw]"
      by (rule "1.IH" [OF j r(1) refl "1.prems"])
    moreover have "[j..<Suc cw] = j # [Suc j..<Suc cw]" using True by (simp add: upt_conv_Cons)
    ultimately show ?thesis using r True j by (subst win_retx_from.simps) (auto simp: split_beta Let_def)
  next
    case False
    then show ?thesis by (subst win_retx_from.simps) auto
  qed
qed

text \<open>What the first transmission of a packet of full size leaves in the window.\<close>

lemma win_send_first_full:
  assumes "win_ok w" and "win_send_first K ev s w = Some (Inr t)" and "change_tail_ok K"
    and "unat (skb_len s) = ON_WIRE_SIZE" and "length (skb_data s) = ON_WIRE_SIZE"
  shows "full_slot (tx_maps t) (tx_id t)" and "buf_wnd (tx_maps t) ! tx_id t = skb_data (tx_skb t)"
    and "unat (tx_save_len t) = ON_WIRE_SIZE"
    and "\<And>j. j \<noteq> tx_id t \<Longrightarrow> buf_wnd (tx_maps t) ! j = buf_wnd w ! j \<and> len_wnd (tx_maps t) ! j = len_wnd w ! j"
proof -
  have l: "unat (skb_len s) = length (skb_data s)" "length (skb_data s) \<le> ON_WIRE_SIZE" using assms(4,5) by simp_all
  note f = win_send_first_frame [OF assms(1,3,2) l]
  obtain d plen calls where v: "win_save K (s\<lparr>skb_data := d\<rparr>)
        (w\<lparr>ack_wnd := (ack_wnd w)[unat (num_seq_map w ! 0) := (ack_wnd w ! unat (num_seq_map w ! 0))\<lparr>event := ev\<rparr>]\<rparr>)
        (unat (num_seq_map w ! 0)) (ucast (skb_len s)) plen =
      Inr (tx_skb t, (tx_maps t)\<lparr>num_seq_map := num_seq_map w\<rparr>, calls, tx_save_len t)"
    by (rule win_send_first_Inr [OF assms(1,2)]) blast
  show n: "unat (tx_save_len t) = ON_WIRE_SIZE" by (rule win_save_full [OF v]) (use assms(4) in simp)
  show b: "buf_wnd (tx_maps t) ! tx_id t = skb_data (tx_skb t)" using f(4,5) assms(5) by simp
  show "full_slot (tx_maps t) (tx_id t)" using f(5,6) n by (simp add: full_slot_def)
  show "buf_wnd (tx_maps t) ! j = buf_wnd w ! j \<and> len_wnd (tx_maps t) ! j = len_wnd w ! j" if "j \<noteq> tx_id t" for j
    using win_save_other [OF v] that f(7) by simp
qed

text \<open>
  A short packet is saved with its padding to \<open>ON_WIRE_SIZE\<close>, but the program does not enlarge the packet
  it holds before it stores the copy: where that packet is short too the store is out of range, and it is
  the packet it holds that is sent again.
\<close>

lemma win_retx_short:
  assumes "change_tail_ok K" and "store_rejects K" and "win_ok w" and "j < WND_SIZE" and "unat (len_wnd w ! j) < ON_WIRE_SIZE"
    and "length (skb_data s) < ON_WIRE_SIZE" and "unat l = length (skb_data s)"
  shows "\<exists>s3 c. win_retx K w l j s = Some (s3, c) \<and> sent_frames c = [skb_data s] \<and> skb_data s3 = skb_data s"
proof -
  let ?s3 = "k_change_tail K s (unat l)"
  have "length (skb_data ?s3) = unat l"
    "take (min (unat l) (length (skb_data s))) (skb_data ?s3) = take (min (unat l) (length (skb_data s))) (skb_data s)"
    using assms(1) unfolding change_tail_ok_def by blast+
  then have d: "skb_data ?s3 = skb_data s" using assms(7) by simp
  have "k_store_bytes K s 0 (buf_wnd w ! j) ON_WIRE_SIZE = s" using assms(2,6) by (simp add: store_rejects_def)
  then have "win_retx K w l j s = Some (?s3, [StoreBytes 0 (buf_wnd w ! j) ON_WIRE_SIZE, ChangeTail (unat l), CloneRedirect (skb_ifindex ?s3 + 1) ?s3])"
    using assms(3-5) by (simp add: win_retx_def Let_def win_ok_def)
  then show ?thesis using d by simp
qed

lemma win_retx_from_short:
  assumes "change_tail_ok K" and "store_rejects K" and "win_ok w" and "cw < WND_SIZE"
    and "\<And>i. i \<le> cw \<Longrightarrow> unat (len_wnd w ! i) < ON_WIRE_SIZE"
    and "length (skb_data s) < ON_WIRE_SIZE" and "unat l = length (skb_data s)"
  shows "sent_frames (snd (win_retx_from K w l cw j s)) = replicate (Suc cw - j) (skb_data s) \<and>
    skb_data (fst (win_retx_from K w l cw j s)) = skb_data s"
  using assms
proof (induction K w l cw j s rule: win_retx_from.induct)
  case (1 K w l cw j s)
  show ?case
  proof (cases "j \<le> cw")
    case True
    then have j: "j < WND_SIZE" "\<not> cw < j" using "1.prems"(4) by simp_all
    obtain s' c where r: "win_retx K w l j s = Some (s', c)" "sent_frames c = [skb_data s]" "skb_data s' = skb_data s"
      using win_retx_short [OF "1.prems"(1-3) j(1) "1.prems"(5) [OF True] "1.prems"(6,7)] by blast
    have "sent_frames (snd (win_retx_from K w l cw (Suc j) s')) = replicate (Suc cw - Suc j) (skb_data s') \<and>
        skb_data (fst (win_retx_from K w l cw (Suc j) s')) = skb_data s'"
      using "1.IH" [OF j r(1) refl] "1.prems" r(3) by simp
    moreover have "Suc cw - j = Suc (Suc cw - Suc j)" using True by simp
    ultimately show ?thesis using r True j by (subst (1 2) win_retx_from.simps) (auto simp: split_beta Let_def)
  next
    case False
    then show ?thesis by (subst (1 2) win_retx_from.simps) auto
  qed
qed

lemma win_send_first_short:
  assumes "win_ok w" and "win_send_first K ev s w = Some (Inr t)" and "change_tail_ok K"
    and "unat (skb_len s) = length (skb_data s)" and "length (skb_data s) < ON_WIRE_SIZE"
    and "vtlh_payload_len (skb_data s) = Some plen" and "plen < VTL_DATA_SIZE"
  shows "unat (len_wnd (tx_maps t) ! tx_id t) < ON_WIRE_SIZE" and "unat (tx_last_len t) = length (skb_data s)"
    and "win_flush t" and "\<And>j. j \<noteq> tx_id t \<Longrightarrow> len_wnd (tx_maps t) ! j = len_wnd w ! j"
proof -
  note f = win_send_first_frame [OF assms(1,3,2,4) less_imp_le [OF assms(5)]]
  obtain d plen' calls where v: "win_save K (s\<lparr>skb_data := d\<rparr>)
        (w\<lparr>ack_wnd := (ack_wnd w)[unat (num_seq_map w ! 0) := (ack_wnd w ! unat (num_seq_map w ! 0))\<lparr>event := ev\<rparr>]\<rparr>)
        (unat (num_seq_map w ! 0)) (ucast (skb_len s)) plen' =
      Inr (tx_skb t, (tx_maps t)\<lparr>num_seq_map := num_seq_map w\<rparr>, calls, tx_save_len t)"
    and p: "vtlh_payload_len (skb_data s) = Some plen'" and l: "tx_last_len t = ucast (skb_len s)"
    by (rule win_send_first_Inr [OF assms(1,2)]) blast
  have "(word_of_nat plen' :: u32) \<noteq> word_of_nat VTL_DATA_SIZE"
    using p assms(6,7) by (simp add: word_unat_eq_iff unat_of_nat VTL_DATA_SIZE_def)
  then have n: "tx_save_len t = ucast (skb_len s)" using v by (auto simp: win_save_def Let_def split: if_splits)
  have u: "unat (ucast (skb_len s) :: u16) = length (skb_data s)"
    using assms(4,5) by (simp add: unat_ucast_u32_u16 ON_WIRE_SIZE_def)
  show "unat (len_wnd (tx_maps t) ! tx_id t) < ON_WIRE_SIZE" using f(6) n u assms(5) by simp
  show "unat (tx_last_len t) = length (skb_data s)" using l u by simp
  show "win_flush t" using n u assms(5) by (simp add: win_flush_def)
  show "len_wnd (tx_maps t) ! j = len_wnd w ! j" if "j \<noteq> tx_id t" for j
    using win_save_other [OF v] that f(7) by simp
qed

text \<open>
  C16: a retransmission repeats the packet. A full-size packet that was sent once is, as long as its
  slot of the window is not overwritten, sent again byte for byte, sequence number and checksum
  included, whatever packet the program then holds.
\<close>

theorem win_retransmits_same_frame:
  assumes "win_ok w" and "change_tail_ok K" and "store_bytes_ok K"
    and "win_send_first K ev s w = Some (Inr t)"
    and "unat (skb_len s) = ON_WIRE_SIZE" and "length (skb_data s) = ON_WIRE_SIZE" and "win_ok w'"
    and "buf_wnd w' ! tx_id t = buf_wnd (tx_maps t) ! tx_id t"
    and "len_wnd w' ! tx_id t = len_wnd (tx_maps t) ! tx_id t"
  shows "\<exists>s3 c. win_retx K w' l (tx_id t) s2 = Some (s3, c @ [CloneRedirect (skb_ifindex s2 + 1) s3]) \<and>
    transmissions c = 0 \<and> skb_data s3 = skb_data (tx_skb t)"
proof -
  note f = win_send_first_full [OF assms(1,4,2,5,6)]
  have "full_slot w' (tx_id t)" using f(1) assms(8,9) by (simp add: full_slot_def)
  then show ?thesis
    using win_retx_full [OF assms(2,3,7) win_first(3) [OF assms(1,4)], of l s2] f(2) assms(8) by auto
qed

text \<open>A window whose slots are all waiting and a packet of full size, for the witnesses.\<close>

definition sample_maps :: "nat \<Rightarrow> win_maps" where
  "sample_maps n = \<lparr>ack_wnd = replicate 16 idle_slot, num_seq_map = [word_of_nat n],
     buf_wnd = replicate 16 [], len_wnd = replicate 16 0\<rparr>"

lemma sample_maps_ok: "n < 16 \<Longrightarrow> win_ok (sample_maps n)"
  by (simp add: win_ok_def sample_maps_def WND_SIZE_def unat_of_nat)

definition full_skb :: skb where
  "full_skb = \<lparr>skb_data = sample_frame 0 [1, 2, 3] @ replicate 1021 0, skb_len = 1082, skb_ifindex = 3\<rparr>"

theorem win_retransmits_same_frame_witness:
  "\<exists>t s3 c. win_send_first doc_kern IDLE full_skb (sample_maps 5) = Some (Inr t) \<and>
     win_retx doc_kern (tx_maps t) 61 (tx_id t) sample_skb = Some (s3, c) \<and> skb_data s3 = skb_data (tx_skb t)"
proof -
  have "case win_send_first doc_kern IDLE full_skb (sample_maps 5) of Some (Inr t) \<Rightarrow> True | _ \<Rightarrow> False"
    by code_simp
  then obtain t where t: "win_send_first doc_kern IDLE full_skb (sample_maps 5) = Some (Inr t)"
    by (auto split: option.splits sum.splits)
  have l: "unat (skb_len full_skb) = ON_WIRE_SIZE" "length (skb_data full_skb) = ON_WIRE_SIZE"
    by code_simp+
  have w: "win_ok (sample_maps 5)" by (rule sample_maps_ok) simp
  obtain s3 c where "win_retx doc_kern (tx_maps t) 61 (tx_id t) sample_skb = Some (s3, c)"
    "skb_data s3 = skb_data (tx_skb t)"
    using win_retransmits_same_frame [OF w doc_kern_change_tail_ok doc_kern_store_bytes_ok t l
        win_send_first_ok(1) [OF w t] refl refl] by blast
  then show ?thesis using t by blast
qed

end
