(* ===== verification/Graft_GoBackN.thy ===== *)
theory Graft_GoBackN
  imports Graft_Window "HOL-Library.Sublist"
begin

text \<open>
  The go-back-N graft (\<open>XTFsPool/store/egress_gobackn_graft.c\<close>, \<open>ingress_gobackn_graft.c\<close>). The
  sender fills a window of \<open>WND_SIZE\<close> packets and, when the window is full or a short packet ends a
  burst, waits for acknowledgements: every round resends the saved packets from the first one not
  acknowledged. The receiver accepts packets in sequence only and returns the others as NACKs.
\<close>

section \<open>Egress\<close>

definition gbn_listener :: listener where
  "gbn_listener = win_listener IDLE"

definition gbn_send_first :: "kern \<Rightarrow> skb \<Rightarrow> win_maps \<Rightarrow> (tc_result + tx_ctx) option" where
  "gbn_send_first K = win_send_first K IDLE"

text \<open>The ACK checking loop: the index it stops at and the flag \<open>lost\<close>.\<close>

function gbn_scan :: "sock_state list \<Rightarrow> nat \<Rightarrow> nat \<Rightarrow> nat \<times> bool" where
  "gbn_scan m cw i =
     (if i < WND_SIZE then
        if i > cw then (i, False)
        else (case map_lookup m i of
                None \<Rightarrow> (i, False)
              | Some sk_state \<Rightarrow>
                  if event sk_state \<noteq> RECV_ACK then (i, True) else gbn_scan m cw (Suc i))
      else (i, False))"
  by pat_completeness auto
termination
  by (relation "measure (\<lambda>(m, cw, i). WND_SIZE - i)") auto

declare gbn_scan.simps [simp del]

function gbn_loop ::
    "kern \<Rightarrow> (nat \<Rightarrow> bytes list) \<Rightarrow> u16 \<Rightarrow> nat \<Rightarrow> nat \<Rightarrow> nat \<Rightarrow> skb \<Rightarrow> win_maps \<Rightarrow>
     skb \<times> win_maps \<times> kcall list" where
  "gbn_loop K rx last_len cw tx_num cursor s w =
     (let w1 = w\<lparr>ack_wnd := run_listener gbn_listener (rx tx_num) (ack_wnd w)\<rparr>;
          tx_num' = Suc tx_num
      in if tx_num' > RETX_MAX then (s, w1, [StartTimer 10])
         else (case gbn_scan (ack_wnd w1) cw cursor of
                 (i, True) \<Rightarrow>
                   (let (s2, c2) = win_retx_from K w1 last_len cw i s;
                        (s3, w3, c3) = gbn_loop K rx last_len cw tx_num' i s2 w1
                    in (s3, w3, StartTimer 10 # c2 @ c3))
               | (i, False) \<Rightarrow> (s, w1, [StartTimer 10])))"
  by pat_completeness auto
termination
  by (relation "measure (\<lambda>(K, rx, last_len, cw, tx_num, cursor, s, w). RETX_MAX + 1 - tx_num)") auto

declare gbn_loop.simps [simp del]

definition gbn_egress :: "kern \<Rightarrow> (nat \<Rightarrow> bytes list) \<Rightarrow> skb \<Rightarrow> win_maps \<Rightarrow> tc_result option" where
  "gbn_egress K rx s w = do {
     r \<leftarrow> gbn_send_first K s w;
     case r of
       Inl res \<Rightarrow> Some res
     | Inr t \<Rightarrow>
         if win_flush t then
           (let (s', w', c) = gbn_loop K rx (tx_last_len t) (tx_id t) 0 0 (tx_skb t) (tx_maps t)
            in Some (TC_ACT_SHOT, s', w', tx_calls t @ c))
         else Some (TC_ACT_SHOT, tx_skb t, tx_maps t, tx_calls t)
   }"

section \<open>Ingress\<close>

definition gbn_ingress ::
    "kern \<Rightarrow> bool list \<Rightarrow> nat \<Rightarrow> bytes \<Rightarrow> u16 list \<Rightarrow> (xdp_action \<times> bytes \<times> u16 list) option" where
  "gbn_ingress K xsks xsk_index p num_ack_map =
     with_vtl_hdr p (XDP_DROP, p, num_ack_map) (XDP_PASS, p, num_ack_map)
       (case map_lookup num_ack_map 0 of
          None \<Rightarrow> Some (XDP_PASS, p, num_ack_map)
        | Some ack_num \<Rightarrow> do {
            recv_csum \<leftarrow> vtlh_checksum p;
            r \<leftarrow> vtl_csum p;
            case r of
              None \<Rightarrow> Some (XDP_PASS, p, num_ack_map)
            | Some compute_csum \<Rightarrow> do {
                seq \<leftarrow> vtlh_seq_num p;
                if recv_csum = unat compute_csum \<and> unat ack_num = seq then
                  (if xsk_bound xsks xsk_index then
                     Some (k_redirect_map K xsk_index, p, fst (map_update num_ack_map 0 (next_seq ack_num)))
                   else Some (XDP_PASS, p, num_ack_map))
                else do {
                  q \<leftarrow> make_nack p;
                  plen \<leftarrow> vtlh_payload_len q;
                  Some (XDP_TX, k_adjust_tail K q (neg_len_delta plen), num_ack_map)
                }
              }
          })"

section \<open>Safety\<close>

lemma safe_gbn_egress: "safe (gbn_egress K rx s w)"
  unfolding gbn_egress_def gbn_send_first_def
  by (intro safe_bind safe_win_send_first) (auto split: sum.splits simp: Let_def split_beta)

lemma safe_gbn_ingress: "safe (gbn_ingress K xsks i p m)"
  unfolding gbn_ingress_def
  by (intro safe_intros safe_with_vtl_hdr safe_vtlh_fields safe_vtl_csum safe_make_nack)
    (auto dest: make_nack_frame(1))

interpretation gbn: ack_listener gbn_listener seq_slot IDLE
  unfolding gbn_listener_def by (rule win_listener_contract)

section \<open>The wait loop\<close>

text \<open>Reference: the first slot of the window, from \<open>i\<close> on, that is not acknowledged.\<close>

definition first_gap :: "sock_state list \<Rightarrow> nat \<Rightarrow> nat \<Rightarrow> nat option" where
  "first_gap m cw i = find (\<lambda>k. event (m ! k) \<noteq> RECV_ACK) [i..<Suc cw]"

lemma first_gap_rec:
  "first_gap m cw i = (if i \<le> cw then if event (m ! i) \<noteq> RECV_ACK then Some i else first_gap m cw (Suc i) else None)"
  by (simp add: first_gap_def upt_conv_Cons del: upt_Suc)

lemma first_gap_Some:
  assumes "first_gap m cw i = Some k"
  shows "i \<le> k" and "k \<le> cw" and "event (m ! k) \<noteq> RECV_ACK"
    and "\<And>j. i \<le> j \<Longrightarrow> j < k \<Longrightarrow> event (m ! j) = RECV_ACK"
proof -
  obtain l where l: "l < length [i..<Suc cw]" "event (m ! ([i..<Suc cw] ! l)) \<noteq> RECV_ACK"
    "k = [i..<Suc cw] ! l" "\<forall>j<l. event (m ! ([i..<Suc cw] ! j)) = RECV_ACK"
    using assms unfolding first_gap_def find_Some_iff by (auto simp del: upt_Suc)
  then show "i \<le> k" "k \<le> cw" "event (m ! k) \<noteq> RECV_ACK" by (auto simp del: upt_Suc)
  fix j assume j: "i \<le> j" "j < k"
  have "k = i + l" using l(1,3) by (simp del: upt_Suc)
  then have "j - i < l" using j by simp
  moreover from this have "[i..<Suc cw] ! (j - i) = j" using l(1) j by (simp del: upt_Suc)
  ultimately show "event (m ! j) = RECV_ACK" using l(4) by metis
qed

lemma first_gap_None: "first_gap m cw i = None \<Longrightarrow> i \<le> j \<Longrightarrow> j \<le> cw \<Longrightarrow> event (m ! j) = RECV_ACK"
  unfolding first_gap_def find_None_iff by (auto simp del: upt_Suc)

text \<open>The scan computes it.\<close>

lemma gbn_scan_spec:
  assumes "length m = WND_SIZE" and "cw < WND_SIZE"
  shows "case first_gap m cw i of Some k \<Rightarrow> gbn_scan m cw i = (k, True) | None \<Rightarrow> \<not> snd (gbn_scan m cw i)"
  using assms
proof (induction m cw i rule: gbn_scan.induct)
  case (1 m cw i)
  show ?case
  proof (cases "i \<le> cw")
    case True
    then have i: "i < WND_SIZE" "\<not> cw < i" "map_lookup m i = Some (m ! i)" using "1.prems" by auto
    then have "gbn_scan m cw i = (if event (m ! i) \<noteq> RECV_ACK then (i, True) else gbn_scan m cw (Suc i))"
      by (subst gbn_scan.simps) simp
    then show ?thesis
      using "1.IH" [OF i] "1.prems" True by (subst first_gap_rec) (auto split: option.splits)
  next
    case False
    then show ?thesis by (subst first_gap_rec, subst gbn_scan.simps) auto
  qed
qed

lemma gbn_loop_last: "RETX_MAX \<le> tx \<Longrightarrow> gbn_loop K rx l cw tx cur s w =
    (s, w\<lparr>ack_wnd := run_listener gbn_listener (rx tx) (ack_wnd w)\<rparr>, [StartTimer 10])"
  by (subst gbn_loop.simps) (simp add: Let_def)

lemma gbn_loop_round:
  fixes rx :: "nat \<Rightarrow> bytes list" and w :: win_maps
  assumes "win_ok w" and "cw < WND_SIZE" and "tx < RETX_MAX"
  defines "w1 \<equiv> w\<lparr>ack_wnd := run_listener gbn_listener (rx tx) (ack_wnd w)\<rparr>"
  shows "gbn_loop K rx l cw tx cur s w =
    (case first_gap (ack_wnd w1) cw cur of
       None \<Rightarrow> (s, w1, [StartTimer 10])
     | Some k \<Rightarrow> (let (s2, c2) = win_retx_from K w1 l cw k s;
                      (s3, w3, c3) = gbn_loop K rx l cw (Suc tx) k s2 w1
                  in (s3, w3, StartTimer 10 # c2 @ c3)))"
proof -
  have len: "length (ack_wnd w1) = WND_SIZE" using assms(1) by (simp add: w1_def win_ok_def)
  have t: "\<not> RETX_MAX < Suc tx" using assms(3) by simp
  show ?thesis
    using gbn_scan_spec [OF len assms(2), of cur] t
    by (subst gbn_loop.simps) (auto simp: Let_def w1_def split: option.splits prod.splits bool.splits)
qed

lemma win_ok_ack:
  "win_ok w \<Longrightarrow> win_ok (w\<lparr>ack_wnd := run_listener gbn_listener ps (ack_wnd w)\<rparr>)"
  by (simp add: win_ok_def)

lemma gbn_loop_maps:
  "win_ok w \<Longrightarrow> cw < WND_SIZE \<Longrightarrow> tx \<le> RETX_MAX \<Longrightarrow>
   (case gbn_loop K rx l cw tx cur s w of (s', w', c) \<Rightarrow>
      win_ok w' \<and> buf_wnd w' = buf_wnd w \<and> len_wnd w' = len_wnd w \<and> num_seq_map w' = num_seq_map w \<and>
      0 < timers c \<and> timers c \<le> Suc RETX_MAX - tx \<and>
      transmissions c \<le> (Suc cw - cur) * (RETX_MAX - tx))"
proof (induction "RETX_MAX - tx" arbitrary: tx cur s w)
  case 0
  then show ?case by (simp add: gbn_loop_last win_ok_ack)
next
  case (Suc n)
  let ?w = "w\<lparr>ack_wnd := run_listener gbn_listener (rx tx) (ack_wnd w)\<rparr>"
  have tx: "tx < RETX_MAX" using Suc.hyps(2) by simp
  show ?case
  proof (cases "first_gap (ack_wnd ?w) cw cur")
    case None
    then show ?thesis using gbn_loop_round [OF Suc.prems(1,2) tx] win_ok_ack [OF Suc.prems(1)] tx by simp
  next
    case (Some k)
    obtain s2 c2 where r: "win_retx_from K ?w l cw k s = (s2, c2)" by (cases "win_retx_from K ?w l cw k s")
    obtain s3 w3 c3 where g: "gbn_loop K rx l cw (Suc tx) k s2 ?w = (s3, w3, c3)"
      by (cases "gbn_loop K rx l cw (Suc tx) k s2 ?w")
    have c2: "transmissions c2 = Suc cw - k" "timers c2 = 0"
      using win_retx_from_spec(2,3) [of ?w cw K l k s] win_ok_ack [OF Suc.prems(1)] Suc.prems(2) r
      by (auto simp: win_ok_def)
    have IH: "win_ok w3 \<and> buf_wnd w3 = buf_wnd w \<and> len_wnd w3 = len_wnd w \<and> num_seq_map w3 = num_seq_map w \<and>
      0 < timers c3 \<and> timers c3 \<le> Suc RETX_MAX - Suc tx \<and>
      transmissions c3 \<le> (Suc cw - k) * (RETX_MAX - Suc tx)"
      using Suc.hyps(1) [of "Suc tx" ?w k s2] Suc.hyps(2) win_ok_ack [OF Suc.prems(1)] Suc.prems tx g by simp
    have "cur \<le> k" using first_gap_Some(1) [OF Some] .
    have "(Suc cw - k) + (Suc cw - k) * (RETX_MAX - Suc tx) = (Suc cw - k) * (RETX_MAX - tx)"
      using tx by (metis Suc_diff_Suc mult_Suc_right)
    also have "\<dots> \<le> (Suc cw - cur) * (RETX_MAX - tx)" using \<open>cur \<le> k\<close> by (intro mult_le_mono1) simp
    finally have "transmissions c2 + transmissions c3 \<le> (Suc cw - cur) * (RETX_MAX - tx)"
      using IH c2 by linarith
    moreover have "Suc (timers c3) \<le> Suc RETX_MAX - tx" using IH tx by linarith
    ultimately show ?thesis
      using gbn_loop_round [OF Suc.prems(1,2) tx] Some r g IH c2 by simp
  qed
qed

text \<open>
  When the loop ends before the retransmission limit, every slot from the cursor to the current
  packet was found acknowledged after one of the waits.
\<close>

lemma gbn_loop_acked:
  assumes "win_ok w" and "cw < WND_SIZE" and "tx \<le> RETX_MAX"
    and "gbn_loop K rx l cw tx cur s w = (s', w', c)" and "tx + timers c \<le> RETX_MAX"
    and "cur \<le> i" and "i \<le> cw"
  shows "\<exists>k<timers c. event (waits gbn_listener rx tx (Suc k) (ack_wnd w) ! i) = RECV_ACK"
  using assms
proof (induction "RETX_MAX - tx" arbitrary: tx cur s w s' w' c)
  case 0
  then show ?case by (auto simp: gbn_loop_last)
next
  case (Suc n)
  let ?w = "w\<lparr>ack_wnd := run_listener gbn_listener (rx tx) (ack_wnd w)\<rparr>"
  have tx: "tx < RETX_MAX" using Suc.hyps(2) by simp
  note round = gbn_loop_round [OF Suc.prems(1,2) tx, of K rx l cur s]
  show ?case
  proof (cases "first_gap (ack_wnd ?w) cw cur")
    case None
    then have "event (ack_wnd ?w ! i) = RECV_ACK" using Suc.prems(6,7) by (rule first_gap_None)
    moreover have "c = [StartTimer 10]" using round None Suc.prems(4) by simp
    ultimately show ?thesis by (intro exI [of _ 0]) simp
  next
    case (Some k)
    obtain s2 c2 where r: "win_retx_from K ?w l cw k s = (s2, c2)" by (cases "win_retx_from K ?w l cw k s")
    obtain s3 w3 c3 where g: "gbn_loop K rx l cw (Suc tx) k s2 ?w = (s3, w3, c3)"
      by (cases "gbn_loop K rx l cw (Suc tx) k s2 ?w")
    have "timers c2 = 0"
      using win_retx_from_spec(3) [of ?w cw K l k s] win_ok_ack [OF Suc.prems(1)] Suc.prems(2) r
      by (auto simp: win_ok_def)
    then have c: "timers c = Suc (timers c3)" using round Some r g Suc.prems(4) by auto
    show ?thesis
    proof (cases "i < k")
      case True
      then have "event (ack_wnd ?w ! i) = RECV_ACK" using first_gap_Some(4) [OF Some Suc.prems(6)] by simp
      then show ?thesis using c by (intro exI [of _ 0]) simp
    next
      case False
      have "\<exists>j<timers c3. event (waits gbn_listener rx (Suc tx) (Suc j) (ack_wnd ?w) ! i) = RECV_ACK"
        by (rule Suc.hyps(1) [OF _ win_ok_ack [OF Suc.prems(1)] Suc.prems(2) _ g])
          (use Suc.hyps(2) Suc.prems(5,7) tx c False in auto)
      then obtain j where "j < timers c3" "event (waits gbn_listener rx (Suc tx) (Suc j) (ack_wnd ?w) ! i) = RECV_ACK"
        by blast
      then show ?thesis using c by (intro exI [of _ "Suc j"]) simp
    qed
  qed
qed

text \<open>
  Without an acknowledgement for the first packet of the window, every round up to the limit resends the
  whole window.
\<close>

lemma gbn_loop_unacked:
  assumes "change_tail_ok K" and "store_bytes_ok K" and "win_ok w" and "cw < WND_SIZE" and "tx \<le> RETX_MAX"
    and "\<And>i. i \<le> cw \<Longrightarrow> full_slot w i" and "event (ack_wnd w ! 0) \<noteq> RECV_ACK"
    and "\<forall>n. \<forall>p\<in>set (rx n). vtl_frame p \<longrightarrow> is_nack p"
  shows "\<exists>s' w' c. gbn_loop K rx l cw tx 0 s w = (s', w', c) \<and>
    sent_frames c = concat (replicate (RETX_MAX - tx) (map ((!) (buf_wnd w)) [0..<Suc cw])) \<and>
    win_ok w' \<and> num_seq_map w' = num_seq_map w"
  using assms(3-7)
proof (induction "RETX_MAX - tx" arbitrary: tx s w)
  case 0
  then show ?case by (auto simp: gbn_loop_last win_ok_ack)
next
  case (Suc n)
  let ?w = "w\<lparr>ack_wnd := run_listener gbn_listener (rx tx) (ack_wnd w)\<rparr>"
  have tx: "tx < RETX_MAX" using Suc.hyps(2) by simp
  have i: "win_ok ?w" by (rule win_ok_ack [OF Suc.prems(1)])
  have "event (run_listener gbn_listener (rx tx) (ack_wnd w) ! 0) \<noteq> RECV_ACK"
    by (rule gbn.run_no_ack) (use assms(8) Suc.prems(1,5) in \<open>auto simp: win_ok_def event_defs WND_SIZE_def\<close>)
  then have e: "event (ack_wnd ?w ! 0) \<noteq> RECV_ACK" by simp
  then have gap: "first_gap (ack_wnd ?w) cw 0 = Some 0" by (subst first_gap_rec) simp
  obtain s2 c2 where r: "win_retx_from K ?w l cw 0 s = (s2, c2)" by (cases "win_retx_from K ?w l cw 0 s")
  have fs: "full_slot ?w i" if "i \<le> cw" for i using Suc.prems(4) [OF that] by (simp add: full_slot_def)
  have c2: "sent_frames c2 = map ((!) (buf_wnd w)) [0..<Suc cw]"
    using win_retx_from_full [OF assms(1,2) i Suc.prems(2) fs, of l 0 s] r by simp
  have n: "n = RETX_MAX - Suc tx" "Suc tx \<le> RETX_MAX" using Suc.hyps(2) by simp_all
  obtain s3 w3 c3 where g: "gbn_loop K rx l cw (Suc tx) 0 s2 ?w = (s3, w3, c3)"
    "sent_frames c3 = concat (replicate (RETX_MAX - Suc tx) (map ((!) (buf_wnd w)) [0..<Suc cw]))"
    "win_ok w3" "num_seq_map w3 = num_seq_map w"
    using Suc.hyps(1) [OF n(1) i Suc.prems(2) n(2) fs e, of s2] by auto
  have "RETX_MAX - tx = Suc (RETX_MAX - Suc tx)" using tx by simp
  then show ?case
    using gbn_loop_round [OF Suc.prems(1,2) tx, of K rx l 0 s] gap r g c2 by (simp del: upt_Suc)
qed

text \<open>A window of short packets: whatever arrives, the rounds send copies of the current packet only.\<close>

lemma gbn_loop_short:
  assumes "change_tail_ok K" and "store_rejects K" and "win_ok w" and "cw < WND_SIZE" and "tx \<le> RETX_MAX"
    and "\<And>i. i \<le> cw \<Longrightarrow> unat (len_wnd w ! i) < ON_WIRE_SIZE"
    and "length (skb_data s) < ON_WIRE_SIZE" and "unat l = length (skb_data s)"
  shows "\<exists>s' w' c n. gbn_loop K rx l cw tx cur s w = (s', w', c) \<and> sent_frames c = replicate n (skb_data s) \<and>
    win_ok w' \<and> num_seq_map w' = num_seq_map w \<and> len_wnd w' = len_wnd w"
  using assms(3-8)
proof (induction "RETX_MAX - tx" arbitrary: tx cur s w)
  case 0
  then show ?case by (auto simp: gbn_loop_last win_ok_ack intro: exI [of _ 0])
next
  case (Suc n)
  let ?w = "w\<lparr>ack_wnd := run_listener gbn_listener (rx tx) (ack_wnd w)\<rparr>"
  have tx: "tx < RETX_MAX" using Suc.hyps(2) by simp
  have i: "win_ok ?w" by (rule win_ok_ack [OF Suc.prems(1)])
  note round = gbn_loop_round [OF Suc.prems(1,2) tx, of K rx l cur s]
  show ?case
  proof (cases "first_gap (ack_wnd ?w) cw cur")
    case None
    then show ?thesis using round i by (auto intro: exI [of _ 0])
  next
    case (Some k)
    obtain s2 c2 where r: "win_retx_from K ?w l cw k s = (s2, c2)" by (cases "win_retx_from K ?w l cw k s")
    have c2: "sent_frames c2 = replicate (Suc cw - k) (skb_data s)" "skb_data s2 = skb_data s"
      using win_retx_from_short [OF assms(1,2) i Suc.prems(2) _ Suc.prems(5,6), of k] Suc.prems(4) r by auto
    have n: "n = RETX_MAX - Suc tx" "Suc tx \<le> RETX_MAX" using Suc.hyps(2) by simp_all
    obtain s3 w3 c3 m where g: "gbn_loop K rx l cw (Suc tx) k s2 ?w = (s3, w3, c3)" "sent_frames c3 = replicate m (skb_data s)"
      "win_ok w3" "num_seq_map w3 = num_seq_map w" "len_wnd w3 = len_wnd w"
      using Suc.hyps(1) [OF n(1) i Suc.prems(2) n(2), of s2 k] Suc.prems(4-6) c2(2) by auto
    have "sent_frames (StartTimer 10 # c2 @ c3) = replicate (Suc cw - k + m) (skb_data s)"
      using c2(1) g(2) by (simp add: replicate_add)
    then show ?thesis using round Some r g by (auto simp del: sent_frames_Cons)
  qed
qed
section \<open>Properties of the sender\<close>

lemma gbn_egress_cases:
  assumes "win_ok w" and "gbn_egress K rx s w = Some (a, s', w', c)"
  obtains (early) "a = TC_ACT_OK" "transmissions c = 0" "timers c = 0" "win_ok w'"
    | (sent) t where "gbn_send_first K s w = Some (Inr t)" "\<not> win_flush t" "a = TC_ACT_SHOT"
      "s' = tx_skb t" "w' = tx_maps t" "c = tx_calls t"
    | (flushed) t c' where "gbn_send_first K s w = Some (Inr t)" "win_flush t" "a = TC_ACT_SHOT"
      "gbn_loop K rx (tx_last_len t) (tx_id t) 0 0 (tx_skb t) (tx_maps t) = (s', w', c')" "c = tx_calls t @ c'"
proof -
  obtain r where r: "gbn_send_first K s w = Some r"
    using safe_win_send_first [of K IDLE s w] by (auto simp: gbn_send_first_def elim: safeE)
  show thesis
  proof (cases r)
    case (Inl x)
    then have "win_send_first K IDLE s w = Some (Inl (a, s', w', c))"
      using assms(2) r by (cases x) (simp add: gbn_egress_def gbn_send_first_def)
    from win_send_first_Inl [OF this] assms(1) show thesis by (intro early) auto
  next
    case (Inr t)
    show thesis
    proof (cases "win_flush t")
      case True
      then show thesis
        using flushed [OF r [unfolded Inr] True] assms(2) r Inr
        by (auto simp: gbn_egress_def split: prod.splits)
    next
      case False
      then show thesis using sent [OF r [unfolded Inr] False] assms(2) r Inr by (auto simp: gbn_egress_def)
    qed
  qed
qed

lemmas gbn_first = win_first [where ev = IDLE, folded gbn_send_first_def]

text \<open>
  C9: every run of the go-back-N egress function keeps the sender's maps well formed (sizes and
  sequence number below the window size) and stays within the frame it was given; a packet that is
  sent advances the sequence number by one modulo the window, and the run makes at most 161
  transmissions and waits at most 11 times.
\<close>

theorem gbn_egress_invariant:
  assumes "win_ok w"
  shows "\<exists>a s' w' c. gbn_egress K rx s w = Some (a, s', w', c) \<and> win_ok w' \<and>
    timers c \<le> Suc RETX_MAX \<and>
    (a = TC_ACT_SHOT \<longrightarrow> unat (num_seq_map w' ! 0) = (unat (num_seq_map w ! 0) + 1) mod WND_SIZE \<and>
       1 \<le> transmissions c \<and> transmissions c \<le> 1 + WND_SIZE * RETX_MAX)"
proof -
  obtain a s' w' c where e: "gbn_egress K rx s w = Some (a, s', w', c)"
    using safe_gbn_egress [of K rx s w] by (auto elim!: safeE)
  have n: "unat (next_seq (num_seq_map w ! 0)) = (unat (num_seq_map w ! 0) + 1) mod WND_SIZE"
    using assms by (simp add: unat_next_seq win_ok_def)
  from assms e have "win_ok w' \<and> timers c \<le> Suc RETX_MAX \<and>
    (a = TC_ACT_SHOT \<longrightarrow> unat (num_seq_map w' ! 0) = (unat (num_seq_map w ! 0) + 1) mod WND_SIZE \<and>
       1 \<le> transmissions c \<and> transmissions c \<le> 1 + WND_SIZE * RETX_MAX)"
  proof (cases rule: gbn_egress_cases)
    case early
    then show ?thesis by simp
  next
    case (sent t)
    note f = gbn_first [OF assms sent(1)]
    show ?thesis using f n sent by simp
  next
    case (flushed t c')
    note f = gbn_first [OF assms flushed(1)]
    have g: "win_ok w'" "num_seq_map w' = num_seq_map (tx_maps t)" "timers c' \<le> Suc RETX_MAX"
      "transmissions c' \<le> Suc (tx_id t) * RETX_MAX"
      using gbn_loop_maps [OF f(1,3), where tx = 0 and K = K and rx = rx and l = "tx_last_len t" and cur = 0
          and s = "tx_skb t"] flushed(4) by auto
    have "Suc (tx_id t) * RETX_MAX \<le> WND_SIZE * RETX_MAX" using f(3) by (intro mult_le_mono1) simp
    then show ?thesis using f g n flushed(5) by simp
  qed
  then show ?thesis using e by blast
qed


theorem gbn_egress_invariant_witness:
  "\<exists>a s' w' c. gbn_egress doc_kern (\<lambda>_. []) sample_skb (sample_maps 15) = Some (a, s', w', c) \<and> win_ok w'"
  using gbn_egress_invariant [OF sample_maps_ok [of 15], of doc_kern "\<lambda>_. []" sample_skb] by auto


text \<open>
  C14: if the go-back-N sender leaves its wait loop before the retransmission limit, then for every
  packet of the window up to the current one an acknowledged state was observed after one of the
  waits, and an acknowledgement of the current packet was received while it waited.
\<close>

theorem gbn_egress_reliable:
  assumes "win_ok w" and "gbn_egress K rx s w = Some (TC_ACT_SHOT, s', w', c)"
    and "0 < timers c" and "timers c \<le> RETX_MAX" and "n = unat (num_seq_map w ! 0)"
  shows "(\<forall>i\<le>n. \<exists>k<timers c.
      event (waits gbn_listener rx 0 (Suc k) ((ack_wnd w)[n := (ack_wnd w ! n)\<lparr>event := IDLE\<rparr>]) ! i) = RECV_ACK) \<and>
    (\<exists>k<timers c. \<exists>p\<in>set (rx k). vtl_frame p \<and> vtlh_seq_num p = Some n \<and> \<not> is_nack p)"
  using assms(1,2)
proof (cases rule: gbn_egress_cases)
  case (flushed t c')
  note f = gbn_first [OF assms(1) flushed(1)]
  let ?m = "(ack_wnd w)[n := (ack_wnd w ! n)\<lparr>event := IDLE\<rparr>]"
  have t: "tx_id t = n" "ack_wnd (tx_maps t) = ?m" "timers c = timers c'"
    using f assms(5) flushed(5) by simp_all
  have all: "\<exists>k<timers c. event (waits gbn_listener rx 0 (Suc k) ?m ! i) = RECV_ACK" if "i \<le> n" for i
    using gbn_loop_acked [OF f(1,3) _ flushed(4), of i] that assms(4) t by simp
  have n: "n < length ?m" using f(3) t assms(1) by (simp add: win_ok_def)
  have no: "event (waits gbn_listener rx j k m ! n) \<noteq> RECV_ACK"
    if "\<And>i p. j \<le> i \<Longrightarrow> i < j + k \<Longrightarrow> p \<in> set (rx i) \<Longrightarrow> vtl_frame p \<Longrightarrow> seq_slot p = n \<Longrightarrow> is_nack p"
      and "n < length m" and "event (m ! n) \<noteq> RECV_ACK" for j k m
    using that
  proof (induction k arbitrary: j m)
    case 0
    then show ?case by simp
  next
    case (Suc k)
    have "event (run_listener gbn_listener (rx j) m ! n) \<noteq> RECV_ACK"
      by (rule gbn.run_no_ack) (use Suc.prems(1) [of j] Suc.prems(2,3) in \<open>auto simp: event_defs\<close>)
    moreover have "is_nack p" if "Suc j \<le> i" "i < Suc j + k" "p \<in> set (rx i)" "vtl_frame p" "seq_slot p = n" for i p
      using Suc.prems(1) [of i p] that by simp
    ultimately show ?case using Suc.IH [of "Suc j" "run_listener gbn_listener (rx j) m"] Suc.prems(2) by simp
  qed
  have "\<exists>k<timers c. \<exists>p\<in>set (rx k). vtl_frame p \<and> seq_slot p = n \<and> \<not> is_nack p"
  proof (rule ccontr)
    assume a: "\<not> (\<exists>k<timers c. \<exists>p\<in>set (rx k). vtl_frame p \<and> seq_slot p = n \<and> \<not> is_nack p)"
    obtain k where k: "k < timers c" "event (waits gbn_listener rx 0 (Suc k) ?m ! n) = RECV_ACK"
      using all by blast
    have nk: "is_nack p" if "0 \<le> i" "i < 0 + Suc k" "p \<in> set (rx i)" "vtl_frame p" "seq_slot p = n" for i p
    proof -
      have "i < timers c" using that(2) k(1) by simp
      then show ?thesis using a that by blast
    qed
    have "event (waits gbn_listener rx 0 (Suc k) ?m ! n) \<noteq> RECV_ACK"
      by (rule no [OF nk]) (use n in \<open>auto simp: event_defs\<close>)
    then show False using k(2) by simp
  qed
  then have "\<exists>k<timers c. \<exists>p\<in>set (rx k). vtl_frame p \<and> vtlh_seq_num p = Some n \<and> \<not> is_nack p"
    using safe_vtlh_fields(5) by (fastforce simp: seq_slot_def elim!: safeE)
  then show ?thesis using all by blast
next
  case (sent t)
  then show ?thesis using gbn_first(5) [OF assms(1) sent(1)] assms(3) by simp
qed (use assms in auto)

theorem gbn_egress_reliable_witness:
  "\<exists>s' w' c. gbn_egress doc_kern (\<lambda>_. [sample_frame 0 []]) sample_skb (sample_maps 0) =
       Some (TC_ACT_SHOT, s', w', c) \<and>
     (\<exists>k<timers c. \<exists>p\<in>set [sample_frame 0 []]. vtl_frame p \<and> vtlh_seq_num p = Some 0 \<and> \<not> is_nack p)"
proof -
  let ?r = "gbn_egress doc_kern (\<lambda>_. [sample_frame 0 []]) sample_skb (sample_maps 0)"
  have "case ?r of Some (a, s', w', c) \<Rightarrow> a = TC_ACT_SHOT \<and> timers c = 1 | None \<Rightarrow> False"
    by code_simp
  then obtain s' w' c where r: "?r = Some (TC_ACT_SHOT, s', w', c)" "timers c = 1"
    by (auto split: option.splits)
  have n: "0 = unat (num_seq_map (sample_maps 0) ! 0)" by code_simp
  have "0 < timers c" "timers c \<le> RETX_MAX" using r(2) by (simp_all add: RETX_MAX_def)
  then show ?thesis using gbn_egress_reliable [OF sample_maps_ok [of 0] r(1) _ _ n] r(1) by auto
qed

section \<open>Properties of the receiver\<close>

lemma gbn_ingress_frame:
  assumes "vtl_frame p" and "vtlh_payload_len p = Some plen" and "vtlh_checksum p = Some c"
    and "vtlh_seq_num p = Some n" and "make_nack p = Some q"
  shows "gbn_ingress K xsks i p [a] = Some
    (if \<not> csum_fits p plen then (XDP_PASS, p, [a])
     else if c = unat (xor_bytes (covered p plen)) \<and> unat a = n
     then (if xsk_bound xsks i then (k_redirect_map K i, p, [next_seq a]) else (XDP_PASS, p, [a]))
     else (XDP_TX, k_adjust_tail K q (neg_len_delta plen), [a]))"
  using assms make_nack_frame(3) [OF assms(5,1)] vtl_csum_eq [OF assms(1,2)]
  by (auto simp: gbn_ingress_def with_vtl_hdr_frame map_lookup_def map_update_ok)

lemma gbn_ingress_not_frame:
  "\<not> vtl_frame p \<Longrightarrow> gbn_ingress K xsks i p m = Some (XDP_DROP, p, m) \<or> gbn_ingress K xsks i p m = Some (XDP_PASS, p, m)"
  unfolding gbn_ingress_def by (rule with_vtl_hdr_not_frame)

lemma frame_fields:
  assumes "vtl_frame p"
  obtains plen c n q where "vtlh_payload_len p = Some plen" "vtlh_checksum p = Some c"
    "vtlh_seq_num p = Some n" "make_nack p = Some q"
  using safe_vtlh_fields(3-5) [OF assms] safe_make_nack [OF assms] by (elim safeE) blast

text \<open>What a run of the receiver over a sequence of frames hands to the AF_XDP socket.\<close>

fun gbn_receive :: "kern \<Rightarrow> bool list \<Rightarrow> nat \<Rightarrow> bytes list \<Rightarrow> u16 list \<Rightarrow> (bytes list \<times> u16 list) option" where
  "gbn_receive K xsks i [] m = Some ([], m)"
| "gbn_receive K xsks i (p # ps) m = do {
     (a, q, m1) \<leftarrow> gbn_ingress K xsks i p m;
     (ds, m2) \<leftarrow> gbn_receive K xsks i ps m1;
     Some (if a = XDP_REDIRECT then q # ds else ds, m2)
   }"

text \<open>A frame that passes the receiver's two tests.\<close>

definition intact :: "bytes \<Rightarrow> bool" where
  "intact p \<longleftrightarrow> vtl_frame p \<and> (\<exists>plen. vtlh_payload_len p = Some plen \<and> csum_fits p plen \<and>
     vtlh_checksum p = Some (unat (xor_bytes (covered p plen))))"

lemma gbn_ingress_cases:
  assumes "k_redirect_map K i = XDP_REDIRECT" and "xsk_bound xsks i"
  obtains (accept) "intact p" "vtlh_seq_num p = Some (unat a)"
      "gbn_ingress K xsks i p [a] = Some (XDP_REDIRECT, p, [next_seq a])"
    | (reject) b q where "\<not> (intact p \<and> vtlh_seq_num p = Some (unat a))"
      "gbn_ingress K xsks i p [a] = Some (b, q, [a])" "b \<noteq> XDP_REDIRECT"
proof (cases "vtl_frame p")
  case True
  then obtain plen c n q where f: "vtlh_payload_len p = Some plen" "vtlh_checksum p = Some c"
    "vtlh_seq_num p = Some n" "make_nack p = Some q" by (rule frame_fields)
  note e = gbn_ingress_frame [OF True f, of K xsks i a]
  show thesis
  proof (cases "csum_fits p plen \<and> c = unat (xor_bytes (covered p plen)) \<and> unat a = n")
    case hit: True
    then show thesis using accept e f True assms by (auto simp: intact_def)
  next
    case False
    then have "\<not> (intact p \<and> vtlh_seq_num p = Some (unat a))" using f by (auto simp: intact_def)
    then show thesis
      using reject [of XDP_PASS p] reject [of XDP_TX "k_adjust_tail K q (neg_len_delta plen)"] e False
      by (cases "csum_fits p plen") auto
  qed
next
  case False
  then show thesis using reject gbn_ingress_not_frame [OF False, of K xsks i "[a]"] by (auto simp: intact_def)
qed

text \<open>
  C6: go-back-N delivers in order. Whatever sequence of frames arrives (lost, duplicated, reordered
  or corrupted ones included), what the receiver hands to the AF_XDP socket is a subsequence of it
  made of intact frames whose sequence numbers count up by one modulo the window from the expected
  number, and the receiver then expects the next one.
\<close>

theorem gbn_receive_in_order:
  assumes "k_redirect_map K i = XDP_REDIRECT" and "xsk_bound xsks i" and "unat a < WND_SIZE"
  shows "\<exists>ds b. gbn_receive K xsks i ps [a] = Some (ds, [b]) \<and> subseq ds ps \<and> (\<forall>d\<in>set ds. intact d) \<and>
    map vtlh_seq_num ds = map (\<lambda>k. Some ((unat a + k) mod WND_SIZE)) [0..<length ds] \<and>
    unat b = (unat a + length ds) mod WND_SIZE"
  using assms(3)
proof (induction ps arbitrary: a)
  case Nil
  then show ?case by simp
next
  case (Cons p ps)
  from assms(1,2) show ?case
  proof (cases rule: gbn_ingress_cases [of K i xsks p a])
    case accept
    obtain ds b where r: "gbn_receive K xsks i ps [next_seq a] = Some (ds, [b])" and s: "subseq ds ps"
      and v: "\<forall>d\<in>set ds. intact d"
      and q: "map vtlh_seq_num ds = map (\<lambda>k. Some ((unat (next_seq a) + k) mod WND_SIZE)) [0..<length ds]"
      and b: "unat b = (unat (next_seq a) + length ds) mod WND_SIZE"
      using Cons.IH [OF unat_next_seq_less] by blast
    have n: "(unat (next_seq a) + k) mod WND_SIZE = (unat a + Suc k) mod WND_SIZE" for k
      using unat_next_seq [OF Cons.prems] by (simp add: mod_simps)
    have "map vtlh_seq_num (p # ds) = map (\<lambda>k. Some ((unat a + k) mod WND_SIZE)) [0..<length (p # ds)]"
      using accept(2) Cons.prems q n
      by (simp add: upt_conv_Cons map_Suc_upt [symmetric] comp_def del: upt_Suc)
    moreover have "gbn_receive K xsks i (p # ps) [a] = Some (p # ds, [b])" using accept(3) r by simp
    moreover have "subseq (p # ds) (p # ps)" "\<forall>d\<in>set (p # ds). intact d" using s v accept(1) by auto
    moreover have "unat b = (unat a + length (p # ds)) mod WND_SIZE" using b n by simp
    ultimately show ?thesis by blast
  next
    case (reject c q)
    then have "gbn_receive K xsks i (p # ps) [a] = gbn_receive K xsks i ps [a]"
      by (auto split: Option.bind_splits)
    then show ?thesis using Cons.IH [OF Cons.prems] by (auto intro: list_emb_Cons)
  qed
qed

theorem gbn_receive_in_order_witness:
  "\<exists>ds b. gbn_receive doc_kern [True] 0
       [sealed_frame, sealed_frame, sealed_frame[52 := 2], sealed_frame[52 := 1]] [0] = Some (ds, [b]) \<and>
     map vtlh_seq_num ds = [Some 0, Some 1] \<and> unat b = 2"
proof -
  let ?ps = "[sealed_frame, sealed_frame, sealed_frame[52 := 2], sealed_frame[52 := 1]]"
  have e: "map_option (map_prod length id) (gbn_receive doc_kern [True] 0 ?ps [0]) = Some (2, [2])" by code_simp
  have h: "k_redirect_map doc_kern 0 = XDP_REDIRECT" "xsk_bound [True] 0" "unat (0 :: u16) < WND_SIZE"
    by (simp_all add: doc_kern_def xsk_bound_def WND_SIZE_def)
  obtain ds b where r: "gbn_receive doc_kern [True] 0 ?ps [0] = Some (ds, [b])"
    "map vtlh_seq_num ds = map (\<lambda>k. Some ((unat (0 :: u16) + k) mod WND_SIZE)) [0..<length ds]"
    "unat b = (unat (0 :: u16) + length ds) mod WND_SIZE"
    using gbn_receive_in_order [OF h, of ?ps] by blast
  have "length ds = 2" using e r(1) by simp
  then have "map vtlh_seq_num ds = [Some 0, Some 1]" "unat b = 2"
    using r(2,3) by (simp_all add: WND_SIZE_def upt_rec numeral_2_eq_2)
  then show ?thesis using r(1) by (intro exI [of _ ds] exI [of _ b]) simp
qed

text \<open>
  The frame that the sender transmits is accepted by a receiver that expects its sequence number, and
  the two counters advance together.
\<close>

lemma gbn_ingress_accepts_frame:
  assumes "win_ok w" and "change_tail_ok K" and "gbn_send_first K s w = Some (Inr t)"
    and "unat (skb_len s) = length (skb_data s)" and "length (skb_data s) \<le> ON_WIRE_SIZE"
    and "xsk_bound xsks i"
  shows "gbn_ingress K xsks i (skb_data (tx_skb t)) (num_seq_map w) =
    Some (k_redirect_map K i, skb_data (tx_skb t), num_seq_map (tx_maps t))"
proof -
  let ?n = "num_seq_map w ! 0" and ?p = "skb_data (tx_skb t)"
  note f = win_send_first_frame [OF assms(1,2) assms(3) [unfolded gbn_send_first_def] assms(4,5)]
  have m: "num_seq_map w = [?n]" using assms(1) unfolding win_ok_def
    by (metis One_nat_def Suc_length_conv length_0_conv nth_Cons_0)
  have fr: "vtl_frame ?p" using f(1) by (simp add: sealed_def)
  obtain q where q: "make_nack ?p = Some q" using safe_make_nack [OF fr] by (auto elim: safeE)
  obtain plen where "vtlh_payload_len ?p = Some plen" "csum_fits ?p plen"
    "vtlh_checksum ?p = Some (unat (xor_bytes (covered ?p plen)))"
    using f(1) by (auto simp: sealed_def)
  then have "gbn_ingress K xsks i ?p [?n] = Some (k_redirect_map K i, ?p, [next_seq ?n])"
    using gbn_ingress_frame [OF fr _ _ f(2) q, of plen _ K xsks i ?n] assms(6) by simp
  then show ?thesis using m gbn_first(7) [OF assms(1,3)] by simp
qed

text \<open>The NACK of a rejected frame, cut to the headers, as it reaches the sender.\<close>

lemma gbn_nack:
  assumes "adjust_tail_ok K" and "vtl_frame p" and "vtlh_payload_len p = Some plen" and "csum_fits p plen"
    and "VTL_END + plen \<le> length p" and "plen \<le> VTL_DATA_SIZE" and "vtlh_seq_num p = Some n"
    and "\<not> (intact p \<and> n = unat a)"
  obtains q where "gbn_ingress K xsks i p [a] = Some (XDP_TX, q, [a])" and "length q = length p - plen"
    and "vtl_frame q" and "is_nack q" and "vtlh_seq_num q = Some n" and "ip_daddr q = ip_saddr p"
proof -
  obtain c r where c: "vtlh_checksum p = Some c" and r: "make_nack p = Some r"
    using safe_vtlh_fields(4) [OF assms(2)] safe_make_nack [OF assms(2)] by (elim safeE) blast
  note nr = make_nack_frame [OF r assms(2)]
  let ?q = "take (length p - plen) r"
  have d: "neg_len_delta plen = - int plen" using assms(6) by (intro neg_len_delta_small) (simp add: VTL_DATA_SIZE_def)
  have b: "VTL_END \<le> length p - plen" "length p - plen \<le> length r" using assms(5) nr(6) by simp_all
  have "k_adjust_tail K r (- int plen) = ?q"
    using assms(1,5) nr(6) unfolding adjust_tail_ok_def by (auto simp: nat_diff_distrib')
  moreover have ne: "\<not> (c = unat (xor_bytes (covered p plen)) \<and> unat a = n)"
    using assms(2-4,8) c by (auto simp: intact_def)
  ultimately have "gbn_ingress K xsks i p [a] = Some (XDP_TX, ?q, [a])"
    using gbn_ingress_frame [OF assms(2,3) c assms(7) r, of K xsks i a] assms(4) d ne by auto
  then show thesis
    using that [of ?q] fields_take [OF b] nr assms(7) b by (simp add: is_nack_def)
qed

text \<open>
  A frame that is corrupted or out of sequence is answered: the receiver sends back a NACK of
  header size to the source address that carries the frame's sequence number, and the sender's
  listener, given it, marks exactly that slot of the window as not acknowledged.
\<close>

theorem gbn_reject_reaches_sender:
  assumes "adjust_tail_ok K" and "vtl_frame p" and "vtlh_payload_len p = Some plen" and "csum_fits p plen"
    and "VTL_END + plen \<le> length p" and "plen \<le> VTL_DATA_SIZE" and "vtlh_seq_num p = Some n"
    and "\<not> (intact p \<and> n = unat a)" and "n < length m"
  shows "\<exists>q. gbn_ingress K xsks i p [a] = Some (XDP_TX, q, [a]) \<and> length q = length p - plen \<and>
    ip_daddr q = ip_saddr p \<and> run_listener gbn_listener [q] m = m[n := (m ! n)\<lparr>event := IDLE\<rparr>]"
proof -
  obtain q where q: "gbn_ingress K xsks i p [a] = Some (XDP_TX, q, [a])" "length q = length p - plen"
    "vtl_frame q" "is_nack q" "vtlh_seq_num q = Some n" "ip_daddr q = ip_saddr p"
    by (rule gbn_nack [OF assms(1-8)]) blast
  have "run_listener gbn_listener [q] m = m[n := (m ! n)\<lparr>event := IDLE\<rparr>]"
    using gbn.run_Cons_hit [of q m "[]"] q assms(9) by (simp add: seq_slot_def)
  then show ?thesis using q by blast
qed

theorem gbn_reject_reaches_sender_witness:
  "\<exists>q. gbn_ingress doc_kern [True] 0 sealed_frame [4] = Some (XDP_TX, q, [4]) \<and> length q = 58 \<and>
     run_listener gbn_listener [q] [idle_slot\<lparr>event := RECV_ACK\<rparr>] = [idle_slot]"
proof -
  have h: "vtl_frame sealed_frame" "vtlh_payload_len sealed_frame = Some 3" "csum_fits sealed_frame 3"
    "VTL_END + 3 \<le> length sealed_frame" "3 \<le> VTL_DATA_SIZE" "vtlh_seq_num sealed_frame = Some 0"
    by code_simp+
  have n: "\<not> (intact sealed_frame \<and> 0 = unat (4 :: u16))" "0 < length [idle_slot\<lparr>event := RECV_ACK\<rparr>]" by simp_all
  have l: "length sealed_frame - 3 = 58" by code_simp
  show ?thesis
    using gbn_reject_reaches_sender [OF doc_kern_adjust_tail_ok h n, of "[True]" 0] l
    by (auto simp: idle_slot_def)
qed

text \<open>
  The acknowledgement of an accepted packet cannot be repeated. When a packet was accepted and
  arrives again (the acknowledgement was lost and the sender retransmitted it), the receiver answers
  with a NACK and the sender's listener takes the slot as not acknowledged.
\<close>

theorem gbn_duplicate_is_nacked:
  assumes "adjust_tail_ok K" and "sealed p" and "vtlh_payload_len p = Some plen"
    and "VTL_END + plen \<le> length p" and "plen \<le> VTL_DATA_SIZE" and "vtlh_seq_num p = Some (unat a)"
    and "unat a < WND_SIZE" and "xsk_bound xsks i" and "unat a < length m"
  shows "\<exists>q. gbn_ingress K xsks i p [a] = Some (k_redirect_map K i, p, [next_seq a]) \<and>
    gbn_ingress K xsks i p [next_seq a] = Some (XDP_TX, q, [next_seq a]) \<and>
    event (run_listener gbn_listener [q] m ! unat a) = IDLE"
proof -
  have f: "vtl_frame p" "csum_fits p plen" "vtlh_checksum p = Some (unat (xor_bytes (covered p plen)))"
    using assms(2,3) by (auto simp: sealed_def)
  obtain r where r: "make_nack p = Some r" using safe_make_nack [OF f(1)] by (auto elim: safeE)
  have ne: "\<not> (intact p \<and> unat a = unat (next_seq a))"
    using unat_next_seq [OF assms(7)] assms(7) by (auto simp: WND_SIZE_def mod_Suc split: if_splits)
  obtain q where q: "gbn_ingress K xsks i p [next_seq a] = Some (XDP_TX, q, [next_seq a])"
    "vtl_frame q" "is_nack q" "vtlh_seq_num q = Some (unat a)"
    by (rule gbn_nack [OF assms(1) f(1) assms(3) f(2) assms(4-6) ne]) blast
  have "event (run_listener gbn_listener [q] m ! unat a) = IDLE"
    using gbn.run_last [of q "unat a" m "[]" "[]"] q assms(9) by (simp add: seq_slot_def)
  then show ?thesis using q(1) gbn_ingress_frame [OF f(1) assms(3) f(3) assms(6) r, of K xsks i a] f(2) assms(8) by simp
qed

theorem gbn_duplicate_is_nacked_witness:
  "\<exists>q. gbn_ingress doc_kern [True] 0 sealed_frame [0] = Some (XDP_REDIRECT, sealed_frame, [1]) \<and>
     gbn_ingress doc_kern [True] 0 sealed_frame [1] = Some (XDP_TX, q, [1]) \<and>
     event (run_listener gbn_listener [q] [idle_slot] ! 0) = IDLE"
proof -
  have h: "VTL_END + 3 \<le> length sealed_frame" "3 \<le> VTL_DATA_SIZE" "vtlh_seq_num sealed_frame = Some (unat (0 :: u16))"
    "unat (0 :: u16) < WND_SIZE" "xsk_bound [True] 0" "unat (0 :: u16) < length [idle_slot]"
    by code_simp+
  have n: "next_seq 0 = 1" by code_simp
  show ?thesis
    using gbn_duplicate_is_nacked [OF doc_kern_adjust_tail_ok sealed_frame_ok h] n by (simp add: doc_kern_def)
qed

end
