(* ===== verification/Graft_SelectiveRepeat.thy ===== *)
theory Graft_SelectiveRepeat
  imports Graft_Window
begin

text \<open>
  The selective-repeat graft (\<open>XTFsPool/store/egress_sr_graft.c\<close>, \<open>ingress_sr_graft.c\<close>). Every round
  of the wait loop resends the packets whose slot is still \<open>TIMEOUT\<close> and counts the acknowledged
  ones in \<open>ACK_PKT_MAP\<close>; the loop ends when the count reaches the number of packets in the window.
\<close>

section \<open>Egress\<close>

definition sr_listener :: listener where
  "sr_listener = win_listener RECV_NACK"

definition sr_send_first :: "kern \<Rightarrow> skb \<Rightarrow> win_maps \<Rightarrow> (tc_result + tx_ctx) option" where
  "sr_send_first K = win_send_first K TIMEOUT"

record sr_state =
  sr_skb :: skb
  sr_maps :: win_maps
  ack_pkt_map :: "u16 list"
  sr_out :: bool
  sr_calls :: "kcall list"

text \<open>The ACK checking loop; \<open>Inl\<close> is its \<open>return TC_ACT_OK\<close> on a failed lookup.\<close>

function sr_scan :: "kern \<Rightarrow> u16 \<Rightarrow> nat \<Rightarrow> nat \<Rightarrow> sr_state \<Rightarrow> sr_state + sr_state" where
  "sr_scan K last_len cw i t =
     (if i < WND_SIZE then
        if i > cw then Inr t
        else (case map_lookup (ack_wnd (sr_maps t)) i of
                None \<Rightarrow> Inl t
              | Some sk_state \<Rightarrow>
                  if event sk_state = TIMEOUT then
                    (case win_retx K (sr_maps t) last_len i (sr_skb t) of
                       None \<Rightarrow> Inl t
                     | Some (s', c) \<Rightarrow>
                         sr_scan K last_len cw (Suc i) (t\<lparr>sr_skb := s', sr_calls := sr_calls t @ c\<rparr>))
                  else if event sk_state = RECV_ACK then
                    (case map_lookup (ack_pkt_map t) 0 of
                       None \<Rightarrow> Inl t
                     | Some acked_pkts \<Rightarrow>
                         (let acked_pkts' = acked_pkts + 1;
                              w' = (sr_maps t)\<lparr>ack_wnd :=
                                     fst (map_update (ack_wnd (sr_maps t)) i (sk_state\<lparr>event := IDLE\<rparr>))\<rparr>
                          in sr_scan K last_len cw (Suc i)
                               (t\<lparr>ack_pkt_map := fst (map_update (ack_pkt_map t) 0 acked_pkts'),
                                  sr_maps := w',
                                  sr_out := (sr_out t \<or> unat acked_pkts' = cw + 1)\<rparr>)))
                  else sr_scan K last_len cw (Suc i) t)
      else Inr t)"
  by pat_completeness auto
termination
  by (relation "measure (\<lambda>(K, last_len, cw, i, t). WND_SIZE - i)") auto

declare sr_scan.simps [simp del]

function sr_loop ::
    "kern \<Rightarrow> (nat \<Rightarrow> bytes list) \<Rightarrow> u16 \<Rightarrow> nat \<Rightarrow> nat \<Rightarrow> sr_state \<Rightarrow> tc_action \<times> sr_state" where
  "sr_loop K rx last_len cw tx_num t =
     (let w1 = (sr_maps t)\<lparr>ack_wnd := run_listener sr_listener (rx tx_num) (ack_wnd (sr_maps t))\<rparr>;
          t1 = t\<lparr>sr_maps := w1, sr_calls := sr_calls t @ [StartTimer 10]\<rparr>;
          tx_num' = Suc tx_num
      in if tx_num' > RETX_MAX \<or> sr_out t1 then (TC_ACT_SHOT, t1)
         else (case sr_scan K last_len cw 0 t1 of
                 Inl t2 \<Rightarrow> (TC_ACT_OK, t2)
               | Inr t2 \<Rightarrow> sr_loop K rx last_len cw tx_num' t2))"
  by pat_completeness auto
termination
  by (relation "measure (\<lambda>(K, rx, last_len, cw, tx_num, t). RETX_MAX + 1 - tx_num)") auto

declare sr_loop.simps [simp del]

definition sr_egress ::
    "kern \<Rightarrow> (nat \<Rightarrow> bytes list) \<Rightarrow> skb \<Rightarrow> win_maps \<Rightarrow> u16 list \<Rightarrow> (tc_action \<times> sr_state) option" where
  "sr_egress K rx s w acked = do {
     r \<leftarrow> sr_send_first K s w;
     case r of
       Inl (a, s', w', c) \<Rightarrow>
         Some (a, \<lparr>sr_skb = s', sr_maps = w', ack_pkt_map = acked, sr_out = False, sr_calls = c\<rparr>)
     | Inr t \<Rightarrow>
         if win_flush t then
           Some (sr_loop K rx (tx_last_len t) (tx_id t) 0
                  \<lparr>sr_skb = tx_skb t, sr_maps = tx_maps t, ack_pkt_map = fst (map_update acked 0 0),
                   sr_out = False, sr_calls = tx_calls t\<rparr>)
         else Some (TC_ACT_SHOT, \<lparr>sr_skb = tx_skb t, sr_maps = tx_maps t, ack_pkt_map = acked,
                                  sr_out = False, sr_calls = tx_calls t\<rparr>)
   }"

section \<open>Ingress\<close>

definition sr_ingress :: "kern \<Rightarrow> bool list \<Rightarrow> nat \<Rightarrow> bytes \<Rightarrow> (xdp_action \<times> bytes) option" where
  "sr_ingress K xsks xsk_index p =
     with_vtl_hdr p (XDP_DROP, p) (XDP_PASS, p) (do {
       recv_csum \<leftarrow> vtlh_checksum p;
       r \<leftarrow> vtl_csum p;
       case r of
         None \<Rightarrow> Some (XDP_PASS, p)
       | Some compute_csum \<Rightarrow>
           if recv_csum = unat compute_csum \<and> xsk_bound xsks xsk_index
           then Some (k_redirect_map K xsk_index, p)
           else do {
             q \<leftarrow> make_nack p;
             plen \<leftarrow> vtlh_payload_len q;
             Some (XDP_TX, k_adjust_tail K q (neg_len_delta plen))
           }
     })"

section \<open>Safety\<close>

lemma safe_sr_egress: "safe (sr_egress K rx s w m)"
  unfolding sr_egress_def sr_send_first_def
  by (intro safe_bind safe_win_send_first) (auto split: sum.splits)

lemma safe_sr_ingress: "safe (sr_ingress K xsks i p)"
  unfolding sr_ingress_def
  by (intro safe_intros safe_with_vtl_hdr safe_vtlh_fields safe_vtl_csum safe_make_nack)
    (auto dest: make_nack_frame(1))

interpretation sr: ack_listener sr_listener seq_slot RECV_NACK
  unfolding sr_listener_def by (rule win_listener_contract)

lemmas sr_first = win_first [where ev = TIMEOUT, folded sr_send_first_def]

section \<open>The scan of the window\<close>

text \<open>Acknowledged slots from \<open>i\<close> to \<open>cw\<close> consumed.\<close>

definition consumed :: "sock_state list \<Rightarrow> nat \<Rightarrow> nat \<Rightarrow> sock_state list \<Rightarrow> bool" where
  "consumed m cw i m' \<longleftrightarrow> length m' = length m \<and>
     (\<forall>k<length m. m' ! k = (if i \<le> k \<and> k \<le> cw \<and> event (m ! k) = RECV_ACK then (m ! k)\<lparr>event := IDLE\<rparr> else m ! k))"

lemma consumed_end: "cw < i \<Longrightarrow> consumed m cw i m"
  by (simp add: consumed_def)

lemma consumed_skip: "consumed m cw (Suc i) m' \<Longrightarrow> event (m ! i) \<noteq> RECV_ACK \<Longrightarrow> consumed m cw i m'"
  by (auto simp: consumed_def Suc_le_eq le_less)

lemma consumed_take:
  assumes "consumed (m[i := (m ! i)\<lparr>event := IDLE\<rparr>]) cw (Suc i) m'" and "event (m ! i) = RECV_ACK"
    and "i < length m" and "i \<le> cw"
  shows "consumed m cw i m'"
  using assms by (auto simp: consumed_def nth_list_update Suc_le_eq le_less split: if_splits)

lemma sr_scan_spec:
  assumes "length (ack_wnd (sr_maps t)) = WND_SIZE" and "length (buf_wnd (sr_maps t)) = WND_SIZE"
    and "length (len_wnd (sr_maps t)) = WND_SIZE" and "cw < WND_SIZE" and "ack_pkt_map t = [n]"
    and "unat n + (Suc cw - i) < 65536"
  shows "\<exists>t' m' cs. sr_scan K l cw i t = Inr t' \<and>
    sr_maps t' = (sr_maps t)\<lparr>ack_wnd := m'\<rparr> \<and> consumed (ack_wnd (sr_maps t)) cw i m' \<and>
    sr_calls t' = sr_calls t @ cs \<and>
    resent cs = map ((!) (buf_wnd (sr_maps t))) (slots TIMEOUT (ack_wnd (sr_maps t)) cw i) \<and>
    transmissions cs = length (slots TIMEOUT (ack_wnd (sr_maps t)) cw i) \<and> timers cs = 0 \<and>
    ack_pkt_map t' = [n + word_of_nat (length (slots RECV_ACK (ack_wnd (sr_maps t)) cw i))] \<and>
    (sr_out t' \<longleftrightarrow> sr_out t \<or>
       unat n < cw + 1 \<and> cw + 1 \<le> unat n + length (slots RECV_ACK (ack_wnd (sr_maps t)) cw i))"
  using assms
proof (induction "Suc cw - i" arbitrary: i t n)
  case 0
  then show ?case
    by (subst sr_scan.simps, intro exI [of _ t] exI [of _ "ack_wnd (sr_maps t)"] exI [of _ "[]"])
      (auto simp: slots_end consumed_end)
next
  case (Suc d)
  let ?m = "ack_wnd (sr_maps t)" and ?b = "buf_wnd (sr_maps t)"
  have i: "i \<le> cw" "i < WND_SIZE" using Suc.hyps(2) Suc.prems(4) by simp_all
  have d: "d = Suc cw - Suc i" using Suc.hyps(2) by simp
  consider (timeout) "event (?m ! i) = TIMEOUT" | (ack) "event (?m ! i) = RECV_ACK"
    | (other) "event (?m ! i) \<noteq> TIMEOUT" "event (?m ! i) \<noteq> RECV_ACK" by blast
  then show ?case
  proof cases
    case timeout
    then have na: "event (?m ! i) \<noteq> RECV_ACK" by (simp add: event_defs)
    obtain s' c where r: "win_retx K (sr_maps t) l i (sr_skb t) = Some (s', c)" "resent c = [?b ! i]"
      "transmissions c = 1" "timers c = 0"
      using win_retx_Some [of i "sr_maps t" K l "sr_skb t"] Suc.prems(2,3) i by auto
    let ?t = "t\<lparr>sr_skb := s', sr_calls := sr_calls t @ c\<rparr>"
    have e: "sr_scan K l cw i t = sr_scan K l cw (Suc i) ?t"
      using i timeout r(1) Suc.prems(1) by (subst sr_scan.simps) simp
    have p: "length (ack_wnd (sr_maps ?t)) = WND_SIZE" "length (buf_wnd (sr_maps ?t)) = WND_SIZE"
      "length (len_wnd (sr_maps ?t)) = WND_SIZE" "ack_pkt_map ?t = [n]" "unat n + (Suc cw - Suc i) < 65536"
      using Suc.prems by simp_all
    obtain t' m' cs where h: "sr_scan K l cw (Suc i) ?t = Inr t'" "sr_maps t' = (sr_maps t)\<lparr>ack_wnd := m'\<rparr>"
      "consumed ?m cw (Suc i) m'" "sr_calls t' = sr_calls t @ c @ cs"
      "resent cs = map ((!) ?b) (slots TIMEOUT ?m cw (Suc i))"
      "transmissions cs = length (slots TIMEOUT ?m cw (Suc i))" "timers cs = 0"
      "ack_pkt_map t' = [n + word_of_nat (length (slots RECV_ACK ?m cw (Suc i)))]"
      "sr_out t' \<longleftrightarrow> sr_out t \<or> unat n < cw + 1 \<and> cw + 1 \<le> unat n + length (slots RECV_ACK ?m cw (Suc i))"
      using Suc.hyps(1) [OF d p(1-3) Suc.prems(4) p(4,5)] by auto
    then show ?thesis
      using e r timeout na slots_rec [OF i(1)] consumed_skip [OF h(3) na]
      by (intro exI [of _ t'] exI [of _ m'] exI [of _ "c @ cs"]) simp
  next
    case ack
    then have nt: "event (?m ! i) \<noteq> TIMEOUT" by (simp add: event_defs)
    let ?m1 = "?m[i := (?m ! i)\<lparr>event := IDLE\<rparr>]"
    let ?t = "t\<lparr>ack_pkt_map := [n + 1], sr_maps := (sr_maps t)\<lparr>ack_wnd := ?m1\<rparr>,
                sr_out := (sr_out t \<or> unat (n + 1) = cw + 1)\<rparr>"
    have e: "sr_scan K l cw i t = sr_scan K l cw (Suc i) ?t"
      using i ack nt Suc.prems(1,5) by (subst sr_scan.simps) (simp add: Let_def map_update_ok)
    have n1: "unat (n + 1) = unat n + 1"
      using Suc.prems(6) i by (simp add: unat_word_ariths)
    have p: "length (ack_wnd (sr_maps ?t)) = WND_SIZE" "length (buf_wnd (sr_maps ?t)) = WND_SIZE"
      "length (len_wnd (sr_maps ?t)) = WND_SIZE" "ack_pkt_map ?t = [n + 1]"
      "unat (n + 1) + (Suc cw - Suc i) < 65536"
      using Suc.prems n1 i by simp_all
    have sl: "slots ev ?m1 cw (Suc i) = slots ev ?m cw (Suc i)" for ev
      by (rule slots_cong) simp
    obtain t' m' cs where h: "sr_scan K l cw (Suc i) ?t = Inr t'" "sr_maps t' = (sr_maps t)\<lparr>ack_wnd := m'\<rparr>"
      "consumed ?m1 cw (Suc i) m'" "sr_calls t' = sr_calls t @ cs"
      "resent cs = map ((!) ?b) (slots TIMEOUT ?m cw (Suc i))"
      "transmissions cs = length (slots TIMEOUT ?m cw (Suc i))" "timers cs = 0"
      "ack_pkt_map t' = [n + 1 + word_of_nat (length (slots RECV_ACK ?m cw (Suc i)))]"
      "sr_out t' \<longleftrightarrow> (sr_out t \<or> unat (n + 1) = cw + 1) \<or>
         unat (n + 1) < cw + 1 \<and> cw + 1 \<le> unat (n + 1) + length (slots RECV_ACK ?m cw (Suc i))"
      using Suc.hyps(1) [OF d p(1-3) Suc.prems(4) p(4,5)] sl by auto
    then show ?thesis
      using e ack nt slots_rec [OF i(1)] consumed_take [OF h(3) ack] Suc.prems(1) i n1
      by (intro exI [of _ t'] exI [of _ m'] exI [of _ cs]) auto
  next
    case other
    have e: "sr_scan K l cw i t = sr_scan K l cw (Suc i) t"
      using i other Suc.prems(1) by (subst sr_scan.simps) simp
    have p: "unat n + (Suc cw - Suc i) < 65536" using Suc.prems(6) by simp
    obtain t' m' cs where h: "sr_scan K l cw (Suc i) t = Inr t'" "sr_maps t' = (sr_maps t)\<lparr>ack_wnd := m'\<rparr>"
      "consumed ?m cw (Suc i) m'" "sr_calls t' = sr_calls t @ cs"
      "resent cs = map ((!) ?b) (slots TIMEOUT ?m cw (Suc i))"
      "transmissions cs = length (slots TIMEOUT ?m cw (Suc i))" "timers cs = 0"
      "ack_pkt_map t' = [n + word_of_nat (length (slots RECV_ACK ?m cw (Suc i)))]"
      "sr_out t' \<longleftrightarrow> sr_out t \<or> unat n < cw + 1 \<and> cw + 1 \<le> unat n + length (slots RECV_ACK ?m cw (Suc i))"
      using Suc.hyps(1) [OF d Suc.prems(1-5) p] by auto
    then show ?thesis
      using e other slots_rec [OF i(1)] consumed_skip [OF h(3) other(2)]
      by (intro exI [of _ t'] exI [of _ m'] exI [of _ cs]) simp
  qed
qed

text \<open>The frames that the scan sends when the slots it resends hold packets of full size.\<close>

lemma sr_scan_frames:
  assumes "change_tail_ok K" and "store_bytes_ok K" and "win_ok (sr_maps t)" and "cw < WND_SIZE" and "sr_scan K l cw i t = Inr t'"
    and "\<And>j. j \<le> cw \<Longrightarrow> event (ack_wnd (sr_maps t) ! j) = TIMEOUT \<Longrightarrow> full_slot (sr_maps t) j"
  shows "\<exists>cs. sr_calls t' = sr_calls t @ cs \<and>
    sent_frames cs = map ((!) (buf_wnd (sr_maps t))) (slots TIMEOUT (ack_wnd (sr_maps t)) cw i)"
  using assms(3-6)
proof (induction "Suc cw - i" arbitrary: i t)
  case 0
  then show ?case by (subst (asm) sr_scan.simps) (simp add: slots_end split: if_splits)
next
  case (Suc d)
  let ?m = "ack_wnd (sr_maps t)" and ?b = "buf_wnd (sr_maps t)"
  have i: "i \<le> cw" "i < WND_SIZE" "d = Suc cw - Suc i" "map_lookup ?m i = Some (?m ! i)"
    using Suc.hyps(2) Suc.prems(1,2) by (auto simp: win_ok_def)
  consider (timeout) "event (?m ! i) = TIMEOUT" | (ack) "event (?m ! i) = RECV_ACK" "event (?m ! i) \<noteq> TIMEOUT"
    | (other) "event (?m ! i) \<noteq> TIMEOUT" "event (?m ! i) \<noteq> RECV_ACK" by blast
  then show ?case
  proof cases
    case timeout
    obtain s' c where r: "win_retx K (sr_maps t) l i (sr_skb t) = Some (s', c)" "sent_frames c = [?b ! i]"
      using win_retx_full [OF assms(1,2) Suc.prems(1) i(2) Suc.prems(4) [OF i(1) timeout], of l "sr_skb t"] by auto
    let ?t = "t\<lparr>sr_skb := s', sr_calls := sr_calls t @ c\<rparr>"
    have "sr_scan K l cw (Suc i) ?t = Inr t'"
      using Suc.prems(3) i timeout r(1) by (subst (asm) sr_scan.simps) simp
    then obtain cs where "sr_calls t' = sr_calls t @ c @ cs" "sent_frames cs = map ((!) ?b) (slots TIMEOUT ?m cw (Suc i))"
      using Suc.hyps(1) [OF i(3), of ?t] Suc.prems by auto
    then show ?thesis using r(2) timeout slots_rec [OF i(1)] by (intro exI [of _ "c @ cs"]) simp
  next
    case ack
    let ?m1 = "?m[i := (?m ! i)\<lparr>event := IDLE\<rparr>]"
    obtain t1 where s: "sr_scan K l cw (Suc i) t1 = Inr t'" "sr_maps t1 = (sr_maps t)\<lparr>ack_wnd := ?m1\<rparr>" "sr_calls t1 = sr_calls t"
    proof (cases "map_lookup (ack_pkt_map t) 0")
      case None
      then show thesis using Suc.prems(3) i ack by (subst (asm) sr_scan.simps) simp
    next
      case (Some a)
      let ?t = "t\<lparr>ack_pkt_map := fst (map_update (ack_pkt_map t) 0 (a + 1)), sr_maps := (sr_maps t)\<lparr>ack_wnd := ?m1\<rparr>,
                sr_out := (sr_out t \<or> unat (a + 1) = cw + 1)\<rparr>"
      have "i < length ?m" using Suc.prems(1) i(2) by (simp add: win_ok_def)
      then have "sr_scan K l cw (Suc i) ?t = Inr t'"
        using Suc.prems(3) i ack Some by (subst (asm) sr_scan.simps) (simp add: Let_def map_update_ok)
      then show thesis by (rule that) simp_all
    qed
    have "full_slot (sr_maps t1) j" if "j \<le> cw" "event (ack_wnd (sr_maps t1) ! j) = TIMEOUT" for j
      using Suc.prems(1,2) Suc.prems(4) [of j] that s(2) i by (cases "j = i") (auto simp: full_slot_def event_defs win_ok_def)
    moreover have "win_ok (sr_maps t1)" using Suc.prems(1) s(2) by (simp add: win_ok_def)
    ultimately obtain cs where "sr_calls t' = sr_calls t @ cs" "sent_frames cs = map ((!) ?b) (slots TIMEOUT ?m1 cw (Suc i))"
      using Suc.hyps(1) [OF i(3) _ Suc.prems(2) s(1)] s(2,3) by auto
    moreover have "slots TIMEOUT ?m1 cw (Suc i) = slots TIMEOUT ?m cw (Suc i)" by (rule slots_cong) simp
    ultimately show ?thesis using ack slots_rec [OF i(1)] by simp
  next
    case other
    then have "sr_scan K l cw (Suc i) t = Inr t'" using Suc.prems(3) i by (subst (asm) sr_scan.simps) simp
    then show ?thesis using Suc.hyps(1) [OF i(3) Suc.prems(1,2)] Suc.prems(4) other slots_rec [OF i(1)] by simp
  qed
qed

section \<open>The wait loop\<close>

text \<open>The frames that can turn a slot to \<open>RECV_ACK\<close>.\<close>

definition acks_in :: "bytes list \<Rightarrow> nat" where
  "acks_in ps = length (filter (\<lambda>p. vtl_frame p \<and> \<not> is_nack p) ps)"

lemma length_slots_card: "length (slots ev m cw i) = card (set (slots ev m cw i))"
  by (rule distinct_card [symmetric]) (simp add: slots_def)

lemma slots_update:
  "length (slots ev (m[j := x]) cw i) \<le> length (slots ev m cw i) + (if event x = ev then 1 else 0)"
proof (cases "event x = ev")
  case True
  have "set (slots ev (m[j := x]) cw i) \<subseteq> insert j (set (slots ev m cw i))"
    by (cases "j < length m") (auto simp: slots_def nth_list_update list_update_beyond split: if_splits)
  then have "card (set (slots ev (m[j := x]) cw i)) \<le> card (insert j (set (slots ev m cw i)))"
    by (intro card_mono) auto
  also have "\<dots> \<le> Suc (card (set (slots ev m cw i)))" by (simp add: card_insert_if)
  finally show ?thesis using True by (simp add: length_slots_card)
next
  case False
  then have "set (slots ev (m[j := x]) cw i) \<subseteq> set (slots ev m cw i)"
    by (cases "j < length m") (auto simp: slots_def nth_list_update list_update_beyond split: if_splits)
  then show ?thesis using False by (simp add: length_slots_card card_mono)
qed

lemma run_slots_ack:
  "length (slots RECV_ACK (run_listener sr_listener ps m) cw i) \<le> length (slots RECV_ACK m cw i) + acks_in ps"
proof (induction ps arbitrary: m)
  case Nil
  then show ?case by simp
next
  case (Cons p ps)
  show ?case
  proof (cases "vtl_frame p \<and> seq_slot p < length m")
    case True
    let ?x = "(m ! seq_slot p)\<lparr>event := (if is_nack p then RECV_NACK else RECV_ACK)\<rparr>"
    have "length (slots RECV_ACK (m[seq_slot p := ?x]) cw i)
        \<le> length (slots RECV_ACK m cw i) + (if is_nack p then 0 else 1)"
      using slots_update [of RECV_ACK m "seq_slot p" ?x cw i] by (simp add: event_defs split: if_splits)
    then show ?thesis
      using Cons.IH [of "m[seq_slot p := ?x]"] True
      by (auto simp: sr.run_Cons_hit acks_in_def split: if_splits)
  next
    case False
    then show ?thesis using Cons.IH [of m] by (auto simp: sr.run_Cons_miss acks_in_def)
  qed
qed

lemma consumed_slots: "consumed m cw 0 m' \<Longrightarrow> cw < length m \<Longrightarrow> slots RECV_ACK m' cw 0 = []"
  by (auto simp: slots_def consumed_def filter_empty_conv event_defs)

text \<open>One round of the loop, when the loop has not ended.\<close>

lemma sr_loop_round:
  fixes rx :: "nat \<Rightarrow> bytes list" and t :: sr_state and K l cw tx
  assumes "win_ok (sr_maps t)" and "cw < WND_SIZE" and "ack_pkt_map t = [n]" and "unat n \<le> WND_SIZE * tx"
    and "tx < RETX_MAX" and "\<not> sr_out t"
  defines "m1 \<equiv> run_listener sr_listener (rx tx) (ack_wnd (sr_maps t))"
  obtains t2 m2 cs where "sr_loop K rx l cw tx t = sr_loop K rx l cw (Suc tx) t2"
    "sr_scan K l cw 0 (t\<lparr>sr_maps := (sr_maps t)\<lparr>ack_wnd := m1\<rparr>, sr_calls := sr_calls t @ [StartTimer 10]\<rparr>) = Inr t2"
    "sr_maps t2 = (sr_maps t)\<lparr>ack_wnd := m2\<rparr>" "win_ok (sr_maps t2)" "consumed m1 cw 0 m2"
    "sr_calls t2 = sr_calls t @ StartTimer 10 # cs"
    "resent cs = map ((!) (buf_wnd (sr_maps t))) (slots TIMEOUT m1 cw 0)"
    "transmissions cs = length (slots TIMEOUT m1 cw 0)" "timers cs = 0"
    "ack_pkt_map t2 = [n + word_of_nat (length (slots RECV_ACK m1 cw 0))]"
    "unat (n + word_of_nat (length (slots RECV_ACK m1 cw 0))) = unat n + length (slots RECV_ACK m1 cw 0)"
    "unat n + length (slots RECV_ACK m1 cw 0) \<le> WND_SIZE * Suc tx"
    "sr_out t2 \<longleftrightarrow> unat n < cw + 1 \<and> cw + 1 \<le> unat n + length (slots RECV_ACK m1 cw 0)"
proof -
  let ?t1 = "t\<lparr>sr_maps := (sr_maps t)\<lparr>ack_wnd := m1\<rparr>, sr_calls := sr_calls t @ [StartTimer 10]\<rparr>"
  have len: "length (ack_wnd (sr_maps ?t1)) = WND_SIZE" "length (buf_wnd (sr_maps ?t1)) = WND_SIZE"
    "length (len_wnd (sr_maps ?t1)) = WND_SIZE"
    using assms(1) by (simp_all add: win_ok_def m1_def)
  have n: "unat n + (Suc cw - 0) < 65536" using assms(2,4,5) by (simp add: WND_SIZE_def RETX_MAX_def)
  obtain t2 m2 cs where h: "sr_scan K l cw 0 ?t1 = Inr t2" "sr_maps t2 = (sr_maps t)\<lparr>ack_wnd := m2\<rparr>"
    "consumed m1 cw 0 m2" "sr_calls t2 = (sr_calls t @ [StartTimer 10]) @ cs"
    "resent cs = map ((!) (buf_wnd (sr_maps t))) (slots TIMEOUT m1 cw 0)"
    "transmissions cs = length (slots TIMEOUT m1 cw 0)" "timers cs = 0"
    "ack_pkt_map t2 = [n + word_of_nat (length (slots RECV_ACK m1 cw 0))]"
    "sr_out t2 \<longleftrightarrow> sr_out t \<or> unat n < cw + 1 \<and> cw + 1 \<le> unat n + length (slots RECV_ACK m1 cw 0)"
    using sr_scan_spec [OF len assms(2) _ n, of K l] assms(3) by auto
  have sl: "length (slots RECV_ACK m1 cw 0) \<le> Suc cw" using length_slots_le [of RECV_ACK m1 cw 0] by simp
  then have u: "unat n + length (slots RECV_ACK m1 cw 0) < 65536" using n by simp
  have "sr_loop K rx l cw tx t = sr_loop K rx l cw (Suc tx) t2"
    using h(1) assms(5,6) by (subst sr_loop.simps) (simp add: Let_def m1_def)
  moreover have "win_ok (sr_maps t2)"
    using h(2,3) assms(1) len(1) by (simp add: win_ok_def consumed_def)
  moreover have "unat (n + word_of_nat (length (slots RECV_ACK m1 cw 0))) = unat n + length (slots RECV_ACK m1 cw 0)"
    using u by (simp add: unat_word_ariths unat_of_nat)
  moreover have "unat n + length (slots RECV_ACK m1 cw 0) \<le> WND_SIZE * Suc tx" using sl assms(2,4) by simp
  ultimately show thesis using that h assms(6) by simp
qed

lemma sr_loop_last:
  "RETX_MAX \<le> tx \<or> sr_out t \<Longrightarrow> sr_loop K rx l cw tx t =
    (TC_ACT_SHOT, t\<lparr>sr_maps := (sr_maps t)\<lparr>ack_wnd := run_listener sr_listener (rx tx) (ack_wnd (sr_maps t))\<rparr>,
       sr_calls := sr_calls t @ [StartTimer 10]\<rparr>)"
  by (subst sr_loop.simps) (auto simp: Let_def)

lemma sr_loop_spec:
  assumes "win_ok (sr_maps t)" and "cw < WND_SIZE" and "ack_pkt_map t = [n]" and "unat n \<le> WND_SIZE * tx"
    and "tx \<le> RETX_MAX" and "sr_out t \<Longrightarrow> cw + 1 \<le> unat n"
  shows "\<exists>t' cs n'. sr_loop K rx l cw tx t = (TC_ACT_SHOT, t') \<and> win_ok (sr_maps t') \<and>
    num_seq_map (sr_maps t') = num_seq_map (sr_maps t) \<and> sr_calls t' = sr_calls t @ cs \<and>
    0 < timers cs \<and> timers cs \<le> Suc RETX_MAX - tx \<and> transmissions cs \<le> Suc cw * (RETX_MAX - tx) \<and>
    ack_pkt_map t' = [n'] \<and>
    unat n' \<le> unat n + length (slots RECV_ACK (ack_wnd (sr_maps t)) cw 0) + (\<Sum>k<timers cs. acks_in (rx (tx + k))) \<and>
    (tx + timers cs \<le> RETX_MAX \<longrightarrow> cw + 1 \<le> unat n')"
  using assms
proof (induction "RETX_MAX - tx" arbitrary: tx t n)
  case 0
  then show ?case by (auto simp: sr_loop_last win_ok_def)
next
  case (Suc d)
  have tx: "tx < RETX_MAX" using Suc.hyps(2) by simp
  show ?case
  proof (cases "sr_out t")
    case True
    then show ?thesis using Suc.prems tx by (auto simp: sr_loop_last win_ok_def)
  next
    case False
    let ?m1 = "run_listener sr_listener (rx tx) (ack_wnd (sr_maps t))"
    let ?k = "length (slots RECV_ACK ?m1 cw 0)"
    obtain t2 m2 cs where h: "sr_loop K rx l cw tx t = sr_loop K rx l cw (Suc tx) t2"
      "sr_maps t2 = (sr_maps t)\<lparr>ack_wnd := m2\<rparr>" "win_ok (sr_maps t2)" "consumed ?m1 cw 0 m2"
      "sr_calls t2 = sr_calls t @ StartTimer 10 # cs"
      "transmissions cs = length (slots TIMEOUT ?m1 cw 0)" "timers cs = 0"
      "ack_pkt_map t2 = [n + word_of_nat ?k]" "unat (n + word_of_nat ?k) = unat n + ?k"
      "unat n + ?k \<le> WND_SIZE * Suc tx" "sr_out t2 \<longleftrightarrow> unat n < cw + 1 \<and> cw + 1 \<le> unat n + ?k"
      by (rule sr_loop_round [OF Suc.prems(1-4) tx False, where rx = rx and K = K and l = l]) blast
    have b: "d = RETX_MAX - Suc tx" "unat (n + word_of_nat ?k) \<le> WND_SIZE * Suc tx" "Suc tx \<le> RETX_MAX"
      "sr_out t2 \<Longrightarrow> cw + 1 \<le> unat (n + word_of_nat ?k)"
      using Suc.hyps(2) h(9,10,11) tx by simp_all
    obtain t' cs' n' where g: "sr_loop K rx l cw (Suc tx) t2 = (TC_ACT_SHOT, t')" "win_ok (sr_maps t')"
      "num_seq_map (sr_maps t') = num_seq_map (sr_maps t2)" "sr_calls t' = sr_calls t2 @ cs'"
      "0 < timers cs'" "timers cs' \<le> Suc RETX_MAX - Suc tx" "transmissions cs' \<le> Suc cw * (RETX_MAX - Suc tx)"
      "ack_pkt_map t' = [n']"
      "unat n' \<le> unat n + ?k + length (slots RECV_ACK m2 cw 0) + (\<Sum>k<timers cs'. acks_in (rx (Suc tx + k)))"
      "Suc tx + timers cs' \<le> RETX_MAX \<longrightarrow> cw + 1 \<le> unat n'"
      using Suc.hyps(1) [OF b(1) h(3) Suc.prems(2) h(8) b(2-4)] h(2,9) by auto
    have z: "slots RECV_ACK m2 cw 0 = []"
      by (rule consumed_slots [OF h(4)]) (use Suc.prems(1,2) in \<open>simp add: win_ok_def\<close>)
    have k: "?k \<le> length (slots RECV_ACK (ack_wnd (sr_maps t)) cw 0) + acks_in (rx tx)" by (rule run_slots_ack)
    let ?c = "StartTimer 10 # cs @ cs'"
    have tc: "timers ?c = Suc (timers cs')" "transmissions ?c = length (slots TIMEOUT ?m1 cw 0) + transmissions cs'"
      using h(6,7) by simp_all
    have "length (slots TIMEOUT ?m1 cw 0) \<le> Suc cw" using length_slots_le [of TIMEOUT ?m1 cw 0] by simp
    moreover have "Suc cw * (RETX_MAX - tx) = Suc cw + Suc cw * (RETX_MAX - Suc tx)"
      using tx by (metis Suc_diff_Suc mult_Suc_right)
    ultimately have tr: "transmissions ?c \<le> Suc cw * (RETX_MAX - tx)" using g(7) tc(2) by linarith
    have "(\<Sum>k<timers ?c. acks_in (rx (tx + k))) = acks_in (rx tx) + (\<Sum>k<timers cs'. acks_in (rx (Suc tx + k)))"
      unfolding tc(1) by (subst sum.lessThan_Suc_shift) simp
    then have "unat n' \<le> unat n + length (slots RECV_ACK (ack_wnd (sr_maps t)) cw 0) + (\<Sum>k<timers ?c. acks_in (rx (tx + k)))"
      using g(9) k z by simp
    then show ?thesis
      using g h tc(1) tr tx by (intro exI [of _ t'] exI [of _ ?c] exI [of _ n']) auto
  qed
qed

lemma sr_run_quiet: "\<forall>n. \<forall>p\<in>set (rx n). \<not> vtl_frame p \<Longrightarrow> run_listener sr_listener (rx n) m = m"
  by (rule nth_equalityI) (auto intro!: sr.run_untouched)

text \<open>
  When every packet of the window is acknowledged during the first wait, nothing is resent and the loop
  ends after the second wait.
\<close>

lemma sr_loop_acked:
  assumes "change_tail_ok K" and "store_bytes_ok K" and "win_ok (sr_maps t)" and "cw < WND_SIZE"
    and "ack_pkt_map t = [0]" and "\<not> sr_out t"
    and "\<And>i. i \<le> cw \<Longrightarrow> event (run_listener sr_listener (rx 0) (ack_wnd (sr_maps t)) ! i) = RECV_ACK"
  shows "\<exists>t' cs. sr_loop K rx l cw 0 t = (TC_ACT_SHOT, t') \<and> sr_calls t' = sr_calls t @ cs \<and> sent_frames cs = [] \<and>
    win_ok (sr_maps t') \<and> num_seq_map (sr_maps t') = num_seq_map (sr_maps t) \<and> length (ack_pkt_map t') = 1"
proof -
  let ?m1 = "run_listener sr_listener (rx 0) (ack_wnd (sr_maps t))"
  have a: "slots TIMEOUT ?m1 cw 0 = []" using assms(7) by (auto simp: slots_def filter_empty_conv event_defs)
  have "filter (\<lambda>k. event (?m1 ! k) = RECV_ACK) [0..<Suc cw] = [0..<Suc cw]"
    using assms(7) by (intro filter_True) (auto simp del: upt_Suc)
  then have b: "length (slots RECV_ACK ?m1 cw 0) = Suc cw" unfolding slots_def by (simp del: upt_Suc)
  have n0: "unat (0 :: u16) \<le> WND_SIZE * 0" "(0 :: nat) < RETX_MAX" by (simp_all add: RETX_MAX_def)
  obtain t2 m2 cs where h: "sr_loop K rx l cw 0 t = sr_loop K rx l cw (Suc 0) t2"
    "sr_scan K l cw 0 (t\<lparr>sr_maps := (sr_maps t)\<lparr>ack_wnd := ?m1\<rparr>, sr_calls := sr_calls t @ [StartTimer 10]\<rparr>) = Inr t2"
    "sr_maps t2 = (sr_maps t)\<lparr>ack_wnd := m2\<rparr>" "win_ok (sr_maps t2)"
    "ack_pkt_map t2 = [0 + word_of_nat (length (slots RECV_ACK ?m1 cw 0))]"
    "sr_out t2 \<longleftrightarrow> unat (0 :: u16) < cw + 1 \<and> cw + 1 \<le> unat (0 :: u16) + length (slots RECV_ACK ?m1 cw 0)"
    by (rule sr_loop_round [OF assms(3-5) n0 assms(6), where rx = rx and K = K and l = l]) blast
  let ?t1 = "t\<lparr>sr_maps := (sr_maps t)\<lparr>ack_wnd := ?m1\<rparr>, sr_calls := sr_calls t @ [StartTimer 10]\<rparr>"
  have w1: "win_ok (sr_maps ?t1)" using assms(3) by (simp add: win_ok_def)
  have "event (?m1 ! j) \<noteq> TIMEOUT" if "j \<le> cw" for j using assms(7) [OF that] by (simp add: event_defs)
  then obtain cs' where c: "sr_calls t2 = (sr_calls t @ [StartTimer 10]) @ cs'" "sent_frames cs' = []"
    using sr_scan_frames [OF assms(1,2) w1 assms(4) h(2)] a by auto
  have "sr_out t2" using h(6) b by simp
  let ?t' = "t2\<lparr>sr_maps := (sr_maps t2)\<lparr>ack_wnd := run_listener sr_listener (rx (Suc 0)) (ack_wnd (sr_maps t2))\<rparr>,
       sr_calls := sr_calls t2 @ [StartTimer 10]\<rparr>"
  have "sr_loop K rx l cw 0 t = (TC_ACT_SHOT, ?t')"
    using \<open>sr_out t2\<close> h(1) sr_loop_last [of "Suc 0" t2 K rx l cw] by simp
  moreover have "win_ok ((sr_maps t2)\<lparr>ack_wnd := run_listener sr_listener (rx (Suc 0)) (ack_wnd (sr_maps t2))\<rparr>)"
    using h(4) by (simp add: win_ok_def)
  ultimately show ?thesis using c h(3,5)
    by (intro exI [of _ ?t'] exI [of _ "StartTimer 10 # cs' @ [StartTimer 10]"]) simp
qed

text \<open>When nothing arrives, every round up to the limit resends the whole window.\<close>

lemma sr_loop_silent:
  assumes "change_tail_ok K" and "store_bytes_ok K" and "win_ok (sr_maps t)" and "cw < WND_SIZE"
    and "ack_pkt_map t = [0]" and "\<not> sr_out t" and "tx \<le> RETX_MAX"
    and "\<And>i. i \<le> cw \<Longrightarrow> event (ack_wnd (sr_maps t) ! i) = TIMEOUT \<and> full_slot (sr_maps t) i"
    and "\<forall>n. \<forall>p\<in>set (rx n). \<not> vtl_frame p"
  shows "\<exists>t' cs. sr_loop K rx l cw tx t = (TC_ACT_SHOT, t') \<and> sr_calls t' = sr_calls t @ cs \<and>
    sent_frames cs = concat (replicate (RETX_MAX - tx) (map ((!) (buf_wnd (sr_maps t))) [0..<Suc cw])) \<and>
    sr_maps t' = sr_maps t \<and> ack_pkt_map t' = [0]"
  using assms(3-8)
proof (induction "RETX_MAX - tx" arbitrary: tx t)
  case 0
  then show ?case using sr_run_quiet [OF assms(9)] by (simp add: sr_loop_last)
next
  case (Suc d)
  let ?m = "ack_wnd (sr_maps t)" and ?b = "map ((!) (buf_wnd (sr_maps t))) [0..<Suc cw]"
  let ?t1 = "t\<lparr>sr_maps := (sr_maps t)\<lparr>ack_wnd := ?m\<rparr>, sr_calls := sr_calls t @ [StartTimer 10]\<rparr>"
  have tx: "tx < RETX_MAX" using Suc.hyps(2) by simp
  note run = sr_run_quiet [OF assms(9), of tx ?m]
  have "filter (\<lambda>k. event (?m ! k) = TIMEOUT) [0..<Suc cw] = [0..<Suc cw]"
    using Suc.prems(6) by (intro filter_True) (auto simp del: upt_Suc)
  then have a: "slots TIMEOUT ?m cw 0 = [0..<Suc cw]" unfolding slots_def by (simp del: upt_Suc)
  have b: "slots RECV_ACK ?m cw 0 = []" using Suc.prems(6) by (auto simp: slots_def filter_empty_conv event_defs)
  have n0: "unat (0 :: u16) \<le> WND_SIZE * tx" by simp
  obtain t2 m2 cs where h: "sr_loop K rx l cw tx t = sr_loop K rx l cw (Suc tx) t2" "sr_scan K l cw 0 ?t1 = Inr t2"
    "sr_maps t2 = (sr_maps t)\<lparr>ack_wnd := m2\<rparr>" "win_ok (sr_maps t2)" "consumed ?m cw 0 m2" "ack_pkt_map t2 = [0]" "\<not> sr_out t2"
    by (rule sr_loop_round [OF Suc.prems(1-3) n0 tx Suc.prems(4), where rx = rx and K = K and l = l, unfolded run])
      (use b in simp)
  have "m2 = ?m" using h(5) Suc.prems(6) by (intro nth_equalityI) (auto simp: consumed_def event_defs)
  then have m2: "sr_maps t2 = sr_maps t" using h(3) by simp
  obtain cs' where c: "sr_calls t2 = (sr_calls t @ [StartTimer 10]) @ cs'" "sent_frames cs' = ?b"
    using sr_scan_frames [OF assms(1,2) _ Suc.prems(2) h(2)] Suc.prems(1,6) a by auto
  have n: "d = RETX_MAX - Suc tx" "Suc tx \<le> RETX_MAX" using Suc.hyps(2) by simp_all
  obtain t' cs'' where g: "sr_loop K rx l cw (Suc tx) t2 = (TC_ACT_SHOT, t')" "sr_calls t' = sr_calls t2 @ cs''"
    "sent_frames cs'' = concat (replicate (RETX_MAX - Suc tx) ?b)" "sr_maps t' = sr_maps t" "ack_pkt_map t' = [0]"
    using Suc.hyps(1) [OF n(1) h(4) Suc.prems(2) h(6,7) n(2)] Suc.prems(6) m2 by auto
  have "RETX_MAX - tx = Suc (RETX_MAX - Suc tx)" using tx by simp
  then have "sent_frames (StartTimer 10 # cs' @ cs'') = concat (replicate (RETX_MAX - tx) ?b)"
    using c(2) g(3) by (simp del: upt_Suc)
  then show ?case
    using h(1) g c(1) by (intro exI [of _ t'] exI [of _ "StartTimer 10 # cs' @ cs''"]) (simp del: upt_Suc)
qed

section \<open>Properties\<close>

lemma sr_egress_flush:
  assumes "sr_send_first K s w = Some (Inr t)" and "win_flush t" and "length m = 1"
  shows "sr_egress K rx s w m = Some (sr_loop K rx (tx_last_len t) (tx_id t) 0
    \<lparr>sr_skb = tx_skb t, sr_maps = tx_maps t, ack_pkt_map = [0], sr_out = False, sr_calls = tx_calls t\<rparr>)"
proof -
  have "fst (map_update m 0 0) = [0]" using assms(3) by (auto simp: map_update_def length_Suc_conv)
  then show ?thesis using assms by (simp add: sr_egress_def)
qed

lemma sr_egress_cases:
  assumes "win_ok w" and "length m = 1" and "sr_egress K rx s w m = Some (a, t')"
  obtains (early) "a = TC_ACT_OK" "transmissions (sr_calls t') = 0" "timers (sr_calls t') = 0" "win_ok (sr_maps t')"
    | (sent) t where "sr_send_first K s w = Some (Inr t)" "\<not> win_flush t" "a = TC_ACT_SHOT"
      "sr_maps t' = tx_maps t" "sr_calls t' = tx_calls t"
    | (flushed) t cs and n' :: u16 where "sr_send_first K s w = Some (Inr t)" "win_flush t" "a = TC_ACT_SHOT"
      "win_ok (sr_maps t')" "num_seq_map (sr_maps t') = num_seq_map (tx_maps t)" "sr_calls t' = tx_calls t @ cs"
      "0 < timers cs" "timers cs \<le> Suc RETX_MAX" "transmissions cs \<le> Suc (tx_id t) * RETX_MAX"
      "unat n' \<le> length (slots RECV_ACK (ack_wnd (tx_maps t)) (tx_id t) 0) + (\<Sum>k<timers cs. acks_in (rx k))"
      "timers cs \<le> RETX_MAX \<longrightarrow> tx_id t + 1 \<le> unat n'"
proof -
  obtain r where r: "sr_send_first K s w = Some r"
    using safe_win_send_first [of K TIMEOUT s w] by (auto simp: sr_send_first_def elim: safeE)
  show thesis
  proof (cases r)
    case (Inl x)
    then have "win_send_first K TIMEOUT s w = Some (Inl (a, sr_skb t', sr_maps t', sr_calls t'))"
      using assms(3) r by (cases x) (auto simp: sr_egress_def sr_send_first_def)
    from win_send_first_Inl [OF this] assms(1) show thesis by (intro early) auto
  next
    case (Inr t)
    note f = sr_first [OF assms(1) r [unfolded Inr]]
    show thesis
    proof (cases "win_flush t")
      case True
      let ?t = "\<lparr>sr_skb = tx_skb t, sr_maps = tx_maps t, ack_pkt_map = [0], sr_out = False, sr_calls = tx_calls t\<rparr>"
      have l: "sr_loop K rx (tx_last_len t) (tx_id t) 0 ?t = (a, t')"
        using sr_egress_flush [OF r [unfolded Inr] True assms(2), of rx] assms(3) by simp
      have p: "win_ok (sr_maps ?t)" "ack_pkt_map ?t = [0]" "unat (0 :: u16) \<le> WND_SIZE * 0" "0 \<le> RETX_MAX"
        "sr_out ?t \<Longrightarrow> tx_id t + 1 \<le> unat (0 :: u16)"
        using f(1) by simp_all
      obtain t'' cs and n' :: u16 where "sr_loop K rx (tx_last_len t) (tx_id t) 0 ?t = (TC_ACT_SHOT, t'')"
        "win_ok (sr_maps t'')" "num_seq_map (sr_maps t'') = num_seq_map (sr_maps ?t)" "sr_calls t'' = sr_calls ?t @ cs"
        "0 < timers cs" "timers cs \<le> Suc RETX_MAX - 0" "transmissions cs \<le> Suc (tx_id t) * (RETX_MAX - 0)"
        "unat n' \<le> unat (0 :: u16) + length (slots RECV_ACK (ack_wnd (sr_maps ?t)) (tx_id t) 0) + (\<Sum>k<timers cs. acks_in (rx (0 + k)))"
        "0 + timers cs \<le> RETX_MAX \<longrightarrow> tx_id t + 1 \<le> unat n'"
        using sr_loop_spec [OF p(1) f(3) p(2-5), of K rx "tx_last_len t"] by blast
      then have "a = TC_ACT_SHOT" "win_ok (sr_maps t')"
        "num_seq_map (sr_maps t') = num_seq_map (tx_maps t)" "sr_calls t' = tx_calls t @ cs"
        "0 < timers cs" "timers cs \<le> Suc RETX_MAX" "transmissions cs \<le> Suc (tx_id t) * RETX_MAX"
        "unat n' \<le> length (slots RECV_ACK (ack_wnd (tx_maps t)) (tx_id t) 0) + (\<Sum>k<timers cs. acks_in (rx k))"
        "timers cs \<le> RETX_MAX \<longrightarrow> tx_id t + 1 \<le> unat n'"
        using l by simp_all
      then show thesis by (intro flushed [OF r [unfolded Inr] True])
    next
      case False
      then show thesis using sent [OF r [unfolded Inr] False] assms(3) r Inr by (auto simp: sr_egress_def)
    qed
  qed
qed

text \<open>
  Every run of the selective-repeat egress function keeps the sender's maps well formed; a
  packet that is sent advances the sequence number by one modulo the window, and the run makes at
  most 161 transmissions and waits at most 11 times.
\<close>

theorem sr_egress_invariant:
  assumes "win_ok w" and "length m = 1"
  shows "\<exists>a t'. sr_egress K rx s w m = Some (a, t') \<and> win_ok (sr_maps t') \<and>
    timers (sr_calls t') \<le> Suc RETX_MAX \<and>
    (a = TC_ACT_SHOT \<longrightarrow> unat (num_seq_map (sr_maps t') ! 0) = (unat (num_seq_map w ! 0) + 1) mod WND_SIZE \<and>
       1 \<le> transmissions (sr_calls t') \<and> transmissions (sr_calls t') \<le> 1 + WND_SIZE * RETX_MAX)"
proof -
  obtain a t' where e: "sr_egress K rx s w m = Some (a, t')"
    using safe_sr_egress [of K rx s w m] by (auto elim!: safeE)
  have n: "unat (next_seq (num_seq_map w ! 0)) = (unat (num_seq_map w ! 0) + 1) mod WND_SIZE"
    using assms by (simp add: unat_next_seq win_ok_def)
  from assms e have "win_ok (sr_maps t') \<and> timers (sr_calls t') \<le> Suc RETX_MAX \<and>
    (a = TC_ACT_SHOT \<longrightarrow> unat (num_seq_map (sr_maps t') ! 0) = (unat (num_seq_map w ! 0) + 1) mod WND_SIZE \<and>
       1 \<le> transmissions (sr_calls t') \<and> transmissions (sr_calls t') \<le> 1 + WND_SIZE * RETX_MAX)"
  proof (cases rule: sr_egress_cases)
    case early
    then show ?thesis by simp
  next
    case (sent t)
    then show ?thesis using sr_first [OF assms(1) sent(1)] n by simp
  next
    case (flushed t cs n')
    note f = sr_first [OF assms(1) flushed(1)]
    have "Suc (tx_id t) * RETX_MAX \<le> WND_SIZE * RETX_MAX" using f(3) by (intro mult_le_mono1) simp
    then show ?thesis using f flushed n by simp
  qed
  then show ?thesis using e by blast
qed

theorem sr_egress_invariant_witness:
  "\<exists>a t'. sr_egress doc_kern (\<lambda>_. []) sample_skb (sample_maps 15) [7] = Some (a, t') \<and> win_ok (sr_maps t')"
proof -
  have "win_ok (sample_maps 15)" "length [7 :: u16] = 1" by (simp_all add: sample_maps_ok)
  from sr_egress_invariant [OF this, of doc_kern "\<lambda>_. []" sample_skb] show ?thesis by auto
qed

text \<open>
  One round of the selective-repeat wait loop resends exactly the saved packets whose slot is
  still waiting after the wait, in sequence order; the acknowledged slots are counted once and
  consumed, and the loop is to end when the count reaches the number of packets of the window.
\<close>

lemma sr_round_resends_timeouts:
  assumes "win_ok (sr_maps t)" and "cw < WND_SIZE" and "ack_pkt_map t = [n]" and "unat n \<le> WND_SIZE * tx"
    and "tx < RETX_MAX" and "\<not> sr_out t"
    and "m1 = run_listener sr_listener (rx tx) (ack_wnd (sr_maps t))"
  shows "\<exists>t2 m2 cs. sr_loop K rx l cw tx t = sr_loop K rx l cw (Suc tx) t2 \<and>
    sr_maps t2 = (sr_maps t)\<lparr>ack_wnd := m2\<rparr> \<and> consumed m1 cw 0 m2 \<and>
    sr_calls t2 = sr_calls t @ StartTimer 10 # cs \<and>
    resent cs = map ((!) (buf_wnd (sr_maps t))) (slots TIMEOUT m1 cw 0) \<and>
    transmissions cs = length (slots TIMEOUT m1 cw 0) \<and>
    map unat (ack_pkt_map t2) = [unat n + length (slots RECV_ACK m1 cw 0)] \<and>
    (sr_out t2 \<longleftrightarrow> unat n < cw + 1 \<and> cw + 1 \<le> unat n + length (slots RECV_ACK m1 cw 0))"
proof -
  let ?k = "length (slots RECV_ACK m1 cw 0)"
  obtain t2 m2 cs where h: "sr_loop K rx l cw tx t = sr_loop K rx l cw (Suc tx) t2"
    "sr_maps t2 = (sr_maps t)\<lparr>ack_wnd := m2\<rparr>" "consumed m1 cw 0 m2"
    "sr_calls t2 = sr_calls t @ StartTimer 10 # cs"
    "resent cs = map ((!) (buf_wnd (sr_maps t))) (slots TIMEOUT m1 cw 0)"
    "transmissions cs = length (slots TIMEOUT m1 cw 0)"
    "ack_pkt_map t2 = [n + word_of_nat ?k]" "unat (n + word_of_nat ?k) = unat n + ?k"
    "sr_out t2 \<longleftrightarrow> unat n < cw + 1 \<and> cw + 1 \<le> unat n + ?k"
    unfolding assms(7) by (rule sr_loop_round [OF assms(1-6), where rx = rx and K = K and l = l]) blast
  then show ?thesis by (intro exI [of _ t2] exI [of _ m2] exI [of _ cs]) simp
qed

definition sample_sr :: sr_state where
  "sample_sr = \<lparr>sr_skb = sample_skb, sr_maps = (sample_maps 3)\<lparr>ack_wnd :=
      [idle_slot\<lparr>event := TIMEOUT\<rparr>, idle_slot\<lparr>event := RECV_ACK\<rparr>, idle_slot\<lparr>event := TIMEOUT\<rparr>] @ replicate 13 idle_slot\<rparr>,
     ack_pkt_map = [0], sr_out = False, sr_calls = []\<rparr>"

lemma sr_round_resends_timeouts_example:
  "\<exists>t2. sr_loop doc_kern (\<lambda>_. []) 61 2 0 sample_sr = sr_loop doc_kern (\<lambda>_. []) 61 2 1 t2 \<and>
     transmissions (sr_calls t2) = 2 \<and> map unat (ack_pkt_map t2) = [1] \<and> \<not> sr_out t2"
proof -
  have p: "win_ok (sr_maps sample_sr)" "2 < WND_SIZE" "ack_pkt_map sample_sr = [0]"
    "unat (0 :: u16) \<le> WND_SIZE * 0" "0 < RETX_MAX" "\<not> sr_out sample_sr"
    by code_simp+
  have m: "ack_wnd (sr_maps sample_sr) = run_listener sr_listener [] (ack_wnd (sr_maps sample_sr))" by simp
  have v: "length (slots TIMEOUT (ack_wnd (sr_maps sample_sr)) 2 0) = 2"
    "length (slots RECV_ACK (ack_wnd (sr_maps sample_sr)) 2 0) = 1" "sr_calls sample_sr = []"
    by code_simp+
  obtain t2 cs where "sr_loop doc_kern (\<lambda>_. []) 61 2 0 sample_sr = sr_loop doc_kern (\<lambda>_. []) 61 2 (Suc 0) t2"
    "sr_calls t2 = sr_calls sample_sr @ StartTimer 10 # cs" "transmissions cs = 2" "map unat (ack_pkt_map t2) = [1]"
    "\<not> sr_out t2"
    using sr_round_resends_timeouts [OF p m, of doc_kern 61] v by auto
  then show ?thesis using v(3) by (intro exI [of _ t2]) simp
qed

text \<open>
  The selective-repeat sender does not leave its wait loop early without acknowledgements: when
  it stops before the retransmission limit, the acknowledgements received during its waits, together
  with the slots that already carried one when it started to wait, are at least as many as the
  packets of the window.
\<close>

theorem sr_early_exit_needs_acks:
  assumes "win_ok w" and "length m = 1" and "sr_egress K rx s w m = Some (TC_ACT_SHOT, t')"
    and "0 < timers (sr_calls t')" and "timers (sr_calls t') \<le> RETX_MAX" and "n = unat (num_seq_map w ! 0)"
  shows "n + 1 \<le> length (slots RECV_ACK ((ack_wnd w)[n := (ack_wnd w ! n)\<lparr>event := TIMEOUT\<rparr>]) n 0) +
    (\<Sum>k<timers (sr_calls t'). acks_in (rx k))"
  using assms(1-3)
proof (cases rule: sr_egress_cases)
  case (sent t)
  then show ?thesis using sr_first(5) [OF assms(1) sent(1)] assms(4) by simp
next
  case (flushed t cs n')
  note f = sr_first [OF assms(1) flushed(1)]
  have "timers (sr_calls t') = timers cs" using flushed(6) f(5) by simp
  then show ?thesis using flushed(10,11) assms(5,6) f(2,6) by simp
qed simp

theorem sr_early_exit_needs_acks_witness:
  "\<exists>t'. sr_egress doc_kern (\<lambda>_. [sample_frame 0 []]) sample_skb (sample_maps 0) [0] = Some (TC_ACT_SHOT, t') \<and>
     1 \<le> (\<Sum>k<timers (sr_calls t'). acks_in [sample_frame 0 []])"
proof -
  let ?r = "sr_egress doc_kern (\<lambda>_. [sample_frame 0 []]) sample_skb (sample_maps 0) [0]"
  have "case ?r of Some (a, t') \<Rightarrow> a = TC_ACT_SHOT \<and> timers (sr_calls t') = 2 | None \<Rightarrow> False"
    by code_simp
  then obtain t' where r: "?r = Some (TC_ACT_SHOT, t')" "timers (sr_calls t') = 2"
    by (auto split: option.splits)
  have n: "0 = unat (num_seq_map (sample_maps 0) ! 0)" by code_simp
  have z: "length (slots RECV_ACK ((ack_wnd (sample_maps 0))[0 := (ack_wnd (sample_maps 0) ! 0)\<lparr>event := TIMEOUT\<rparr>]) 0 0) = 0"
    by code_simp
  have "0 < timers (sr_calls t')" "timers (sr_calls t') \<le> RETX_MAX" "length [0 :: u16] = 1"
    using r(2) by (simp_all add: RETX_MAX_def)
  then show ?thesis using sr_early_exit_needs_acks [OF sample_maps_ok [of 0] _ r(1) _ _ n] r(1) z by simp
qed

text \<open>A window none of whose slots is waiting or acknowledged keeps the loop silent.\<close>

definition quiet :: "sock_state list \<Rightarrow> nat \<Rightarrow> bool" where
  "quiet m cw \<longleftrightarrow> (\<forall>i\<le>cw. event (m ! i) \<noteq> TIMEOUT \<and> event (m ! i) \<noteq> RECV_ACK)"

lemma quiet_slots: "quiet m cw \<Longrightarrow> slots TIMEOUT m cw 0 = [] \<and> slots RECV_ACK m cw 0 = []"
  by (auto simp: quiet_def slots_def filter_empty_conv)

lemma quiet_consumed: "quiet m cw \<Longrightarrow> consumed m cw 0 m' \<Longrightarrow> m' = m"
  by (intro nth_equalityI) (auto simp: quiet_def consumed_def)

lemma quiet_run:
  assumes "quiet m cw" and "cw < length m" and "\<forall>p\<in>set ps. vtl_frame p \<longrightarrow> is_nack p"
  shows "quiet (run_listener sr_listener ps m) cw"
  unfolding quiet_def
proof (intro allI impI)
  fix i assume i: "i \<le> cw"
  then have "event (run_listener sr_listener ps m ! i) \<in> {event (m ! i), RECV_NACK}"
    using assms(2) by (intro sr.run_nacks [OF assms(3)]) simp
  then show "event (run_listener sr_listener ps m ! i) \<noteq> TIMEOUT \<and> event (run_listener sr_listener ps m ! i) \<noteq> RECV_ACK"
    using assms(1) i by (auto simp: quiet_def event_defs)
qed

lemma sr_loop_quiet:
  assumes "win_ok (sr_maps t)" and "cw < WND_SIZE" and "ack_pkt_map t = [0]" and "tx \<le> RETX_MAX" and "\<not> sr_out t"
    and "quiet (run_listener sr_listener (rx tx) (ack_wnd (sr_maps t))) cw"
    and "\<forall>k>tx. \<forall>p\<in>set (rx k). vtl_frame p \<longrightarrow> is_nack p"
  shows "\<exists>t' cs. sr_loop K rx l cw tx t = (TC_ACT_SHOT, t') \<and> sr_calls t' = sr_calls t @ cs \<and>
    transmissions cs = 0 \<and> timers cs = Suc (RETX_MAX - tx)"
  using assms
proof (induction "RETX_MAX - tx" arbitrary: tx t)
  case 0
  then show ?case by (simp add: sr_loop_last)
next
  case (Suc d)
  let ?m1 = "run_listener sr_listener (rx tx) (ack_wnd (sr_maps t))"
  have tx: "tx < RETX_MAX" using Suc.hyps(2) by simp
  note q = quiet_slots [OF Suc.prems(6)]
  have n0: "unat (0 :: u16) \<le> WND_SIZE * tx" by simp
  obtain t2 m2 cs where h: "sr_loop K rx l cw tx t = sr_loop K rx l cw (Suc tx) t2"
    "sr_maps t2 = (sr_maps t)\<lparr>ack_wnd := m2\<rparr>" "win_ok (sr_maps t2)" "consumed ?m1 cw 0 m2"
    "sr_calls t2 = sr_calls t @ StartTimer 10 # cs" "transmissions cs = length (slots TIMEOUT ?m1 cw 0)" "timers cs = 0"
    "ack_pkt_map t2 = [0 + word_of_nat (length (slots RECV_ACK ?m1 cw 0))]"
    "sr_out t2 \<longleftrightarrow> unat (0 :: u16) < cw + 1 \<and> cw + 1 \<le> unat (0 :: u16) + length (slots RECV_ACK ?m1 cw 0)"
    by (rule sr_loop_round [OF Suc.prems(1-3) n0 tx Suc.prems(5), where rx = rx and K = K and l = l]) blast
  have m2: "ack_wnd (sr_maps t2) = ?m1" using h(2) quiet_consumed [OF Suc.prems(6) h(4)] by simp
  have l: "cw < length ?m1" using Suc.prems(1,2) by (simp add: win_ok_def)
  have q2: "quiet (run_listener sr_listener (rx (Suc tx)) (ack_wnd (sr_maps t2))) cw"
    unfolding m2 by (rule quiet_run [OF Suc.prems(6) l]) (use Suc.prems(7) lessI in blast)
  have b: "d = RETX_MAX - Suc tx" "ack_pkt_map t2 = [0]" "Suc tx \<le> RETX_MAX" "\<not> sr_out t2"
    using Suc.hyps(2) h(8,9) q tx by simp_all
  have later: "\<forall>k>Suc tx. \<forall>p\<in>set (rx k). vtl_frame p \<longrightarrow> is_nack p" using Suc.prems(7) by (meson Suc_lessD)
  obtain t' cs' where "sr_loop K rx l cw (Suc tx) t2 = (TC_ACT_SHOT, t')" "sr_calls t' = sr_calls t2 @ cs'"
    "transmissions cs' = 0" "timers cs' = Suc (RETX_MAX - Suc tx)"
    using Suc.hyps(1) [OF b(1) h(3) Suc.prems(2) b(2-4) q2 later] by blast
  then show ?case
    using h(1,5,6,7) q tx by (intro exI [of _ t'] exI [of _ "StartTimer 10 # cs @ cs'"]) simp
qed

text \<open>
  A packet that was answered with a NACK is not retransmitted: the listener turns its slot to
  \<open>RECV_NACK\<close> and the loop resends \<open>TIMEOUT\<close> slots only. If after the first wait every slot of the
  window is negatively acknowledged (or was consumed before) and only NACKs arrive later, the sender
  makes all its 11 waits and sends nothing but the first copy of the packet.
\<close>

theorem sr_nacked_never_resent:
  assumes "win_ok w" and "length m = 1" and "sr_send_first K s w = Some (Inr t)" and "win_flush t"
    and "quiet (run_listener sr_listener (rx 0) (ack_wnd (tx_maps t))) (tx_id t)"
    and "\<forall>k>0. \<forall>p\<in>set (rx k). vtl_frame p \<longrightarrow> is_nack p"
  shows "\<exists>t'. sr_egress K rx s w m = Some (TC_ACT_SHOT, t') \<and> transmissions (sr_calls t') = 1 \<and>
    timers (sr_calls t') = Suc RETX_MAX"
proof -
  note f = sr_first [OF assms(1,3)]
  show ?thesis
    using sr_loop_quiet [where t = "\<lparr>sr_skb = tx_skb t, sr_maps = tx_maps t, ack_pkt_map = [0], sr_out = False,
        sr_calls = tx_calls t\<rparr>" and tx = 0 and cw = "tx_id t" and rx = rx and K = K and l = "tx_last_len t"]
      f(1,3,4,5) assms(5,6) sr_egress_flush [OF assms(3,4,2), of rx] by auto
qed

theorem sr_nacked_never_resent_witness:
  "\<exists>t'. sr_egress doc_kern (\<lambda>k. if k = 0 then [(sample_frame 0 [])[38 := 3]] else []) sample_skb (sample_maps 0) [0] =
       Some (TC_ACT_SHOT, t') \<and> transmissions (sr_calls t') = 1 \<and> timers (sr_calls t') = 11"
proof -
  let ?rx = "\<lambda>k :: nat. if k = 0 then [(sample_frame 0 [])[38 := 3]] else []"
  have "case sr_send_first doc_kern sample_skb (sample_maps 0) of
      Some (Inr t) \<Rightarrow> win_flush t \<and> quiet (run_listener sr_listener (?rx 0) (ack_wnd (tx_maps t))) (tx_id t) | _ \<Rightarrow> False"
    by code_simp
  then obtain t where t: "sr_send_first doc_kern sample_skb (sample_maps 0) = Some (Inr t)" "win_flush t"
    "quiet (run_listener sr_listener (?rx 0) (ack_wnd (tx_maps t))) (tx_id t)"
    by (auto split: option.splits sum.splits)
  have w: "win_ok (sample_maps 0)" "length [0 :: u16] = 1" by (simp_all add: sample_maps_ok)
  show ?thesis using sr_nacked_never_resent [OF w t(1,2), of ?rx] t(3) by (simp add: RETX_MAX_def)
qed

section \<open>Properties of the receiver\<close>

lemma sr_ingress_frame:
  assumes "vtl_frame p" and "vtlh_payload_len p = Some plen" and "vtlh_checksum p = Some c" and "make_nack p = Some q"
  shows "sr_ingress K xsks i p = Some
    (if \<not> csum_fits p plen then (XDP_PASS, p)
     else if c = unat (xor_bytes (covered p plen)) \<and> xsk_bound xsks i then (k_redirect_map K i, p)
     else (XDP_TX, k_adjust_tail K q (neg_len_delta plen)))"
  using assms make_nack_frame(3) [OF assms(4,1)] vtl_csum_eq [OF assms(1,2)]
  by (auto simp: sr_ingress_def with_vtl_hdr_frame)

text \<open>
  The selective-repeat receiver takes every intact packet, in any order: the frame that the
  sender transmits is redirected to the socket whatever was received before (the function keeps no
  state), and a copy with one checksummed byte changed comes back as a NACK that the sender's
  listener records as \<open>RECV_NACK\<close> for its slot.
\<close>

theorem sr_ingress_accepts_egress:
  assumes "win_ok w" and "change_tail_ok K" and "adjust_tail_ok K" and "sr_send_first K s w = Some (Inr t)"
    and "unat (skb_len s) = length (skb_data s)" and "length (skb_data s) \<le> ON_WIRE_SIZE"
    and "xsk_bound xsks i" and "p = skb_data (tx_skb t)" and "vtlh_payload_len p = Some plen"
    and "VTL_END + plen \<le> length p" and "VTL_END - 1 \<le> j" and "j < VTL_END - 1 + plen" and "v \<noteq> p ! j"
  shows "sr_ingress K xsks i p = Some (k_redirect_map K i, p) \<and>
    (\<exists>q. sr_ingress K xsks i (p[j := v]) = Some (XDP_TX, q) \<and>
       event (run_listener sr_listener [q] (ack_wnd (tx_maps t)) ! tx_id t) = RECV_NACK)"
proof -
  note f = win_send_first_frame [OF assms(1,2) assms(4) [unfolded sr_send_first_def] assms(5,6), folded assms(8)]
  have p: "vtl_frame p" "csum_fits p plen" "vtlh_checksum p = Some (unat (xor_bytes (covered p plen)))"
    using f(1) assms(9) by (auto simp: sealed_def)
  let ?p = "p[j := v]"
  note u = fields_update_above [OF assms(11), of p v]
  have plen: "plen \<le> VTL_DATA_SIZE" using assms(6,10) f(3) by (simp add: VTL_END_def VTL_DATA_SIZE_def ON_WIRE_SIZE_def)
  have p': "vtl_frame ?p" "vtlh_payload_len ?p = Some plen" "csum_fits ?p plen"
    "vtlh_checksum ?p = Some (unat (xor_bytes (covered p plen)))"
    using p u assms(9) by (simp_all add: csum_fits_def)
  obtain r r' where r: "make_nack p = Some r" "make_nack ?p = Some r'"
    using safe_make_nack [OF p(1)] safe_make_nack [OF p'(1)] by (elim safeE) blast
  have "vtl_csum ?p \<noteq> vtl_csum p"
    using plen assms(12) by (intro vtl_csum_detects_byte [OF p(1) assms(9) p(2) assms(11) _ assms(13)]) simp
  then have ne: "unat (xor_bytes (covered p plen)) \<noteq> unat (xor_bytes (covered ?p plen))"
    unfolding word_unat_eq_iff [symmetric] using p p' assms(9) by (auto simp: vtl_csum_eq)
  note nr = make_nack_frame [OF r(2) p'(1)]
  let ?q = "take (length p - plen) r'"
  have b: "VTL_END \<le> length p - plen" "length p - plen \<le> length r'" using assms(10) nr(6) by simp_all
  have "k_adjust_tail K r' (neg_len_delta plen) = ?q"
    using assms(3,10) nr(6) plen unfolding adjust_tail_ok_def
    by (subst neg_len_delta_small) (auto simp: nat_diff_distrib' VTL_DATA_SIZE_def)
  then have q: "sr_ingress K xsks i ?p = Some (XDP_TX, ?q)"
    using sr_ingress_frame [OF p'(1,2,4) r(2), of K xsks i] p'(3) ne by simp
  have "vtl_frame ?q" "is_nack ?q" "vtlh_seq_num ?q = Some (tx_id t)"
    using fields_take [OF b] nr(1,2,5) u f(2,7) by (simp_all add: is_nack_def)
  moreover have "tx_id t < length (ack_wnd (tx_maps t))"
    using sr_first(1,3) [OF assms(1,4)] by (simp add: win_ok_def)
  ultimately have "event (run_listener sr_listener [?q] (ack_wnd (tx_maps t)) ! tx_id t) = RECV_NACK"
    using sr.run_last [of ?q "tx_id t" "ack_wnd (tx_maps t)" "[]" "[]"] by (simp add: seq_slot_def)
  moreover have "sr_ingress K xsks i p = Some (k_redirect_map K i, p)"
    using sr_ingress_frame [OF p(1) assms(9) p(3) r(1), of K xsks i] p(2) assms(7) by simp
  ultimately show ?thesis using q by blast
qed

theorem sr_ingress_accepts_egress_witness:
  "\<exists>t. sr_send_first doc_kern sample_skb (sample_maps 4) = Some (Inr t) \<and>
     sr_ingress doc_kern [True] 0 (skb_data (tx_skb t)) = Some (XDP_REDIRECT, skb_data (tx_skb t)) \<and>
     (\<exists>q. sr_ingress doc_kern [True] 0 ((skb_data (tx_skb t))[58 := 9]) = Some (XDP_TX, q))"
proof -
  have "case sr_send_first doc_kern sample_skb (sample_maps 4) of
      Some (Inr t) \<Rightarrow> vtlh_payload_len (skb_data (tx_skb t)) = Some 3 \<and> length (skb_data (tx_skb t)) = 61 \<and>
        9 \<noteq> skb_data (tx_skb t) ! 58 | _ \<Rightarrow> False"
    by code_simp
  then obtain t where t: "sr_send_first doc_kern sample_skb (sample_maps 4) = Some (Inr t)"
    and p: "vtlh_payload_len (skb_data (tx_skb t)) = Some 3" "length (skb_data (tx_skb t)) = 61"
      "9 \<noteq> skb_data (tx_skb t) ! 58"
    by (auto split: option.splits sum.splits)
  have h: "unat (skb_len sample_skb) = length (skb_data sample_skb)"
    "length (skb_data sample_skb) \<le> ON_WIRE_SIZE" "xsk_bound [True] 0"
    by code_simp+
  have b: "VTL_END + 3 \<le> length (skb_data (tx_skb t))" "VTL_END - 1 \<le> 58" "58 < VTL_END - 1 + 3"
    using p(2) by (simp_all add: VTL_END_def)
  have w: "win_ok (sample_maps 4)" by (rule sample_maps_ok) simp
  show ?thesis
    using sr_ingress_accepts_egress [OF w doc_kern_change_tail_ok doc_kern_adjust_tail_ok t h refl p(1) b p(3)] t
    by (auto simp: doc_kern_def)
qed

end
