(* ===== verification/Xsk_Rings.thy ===== *)
theory Xsk_Rings
  imports VTL_Prelude
begin

text \<open>
  The AF_XDP user-space rings (the inline functions of \<open>XTFsPool/include/bpf/xsk.h\<close> that the project
  calls) and the UMEM frame allocator and socket set-up of \<open>include/common/xsk_user_helpers.c\<close>. The
  contract of a frame pool is a locale, interpreted on the allocator's functions.
\<close>

section \<open>Rings\<close>

text \<open>\<open>DEFINE_XSK_RING\<close>; \<open>producer\<close> and \<open>consumer\<close> are the shared counters the pointers lead to.\<close>

record 'a xsk_ring =
  cached_prod :: u32
  cached_cons :: u32
  ring_mask :: u32
  ring_size :: u32
  producer :: u32
  consumer :: u32
  ring :: "'a list"

definition ring_slot :: "'a xsk_ring \<Rightarrow> u32 \<Rightarrow> nat" where
  "ring_slot r idx = unat (idx AND ring_mask r)"

text \<open>\<open>*xsk_ring_prod__fill_addr(fill, idx) = v\<close> and \<open>xsk_ring_cons__rx_desc\<close>.\<close>

definition xsk_ring_prod__fill_addr :: "'a xsk_ring \<Rightarrow> u32 \<Rightarrow> 'a \<Rightarrow> 'a xsk_ring" where
  "xsk_ring_prod__fill_addr r idx v = r\<lparr>ring := (ring r)[ring_slot r idx := v]\<rparr>"

definition xsk_ring_cons__rx_desc :: "'a xsk_ring \<Rightarrow> u32 \<Rightarrow> 'a" where
  "xsk_ring_cons__rx_desc r idx = ring r ! ring_slot r idx"

definition xsk_prod_nb_free :: "'a xsk_ring \<Rightarrow> u32 \<Rightarrow> u32 \<times> 'a xsk_ring" where
  "xsk_prod_nb_free r nb =
     (let free_entries = cached_cons r - cached_prod r in
      if free_entries \<ge> nb then (free_entries, r)
      else (let r' = r\<lparr>cached_cons := consumer r + ring_size r\<rparr> in (cached_cons r' - cached_prod r', r')))"

definition xsk_cons_nb_avail :: "'a xsk_ring \<Rightarrow> u32 \<Rightarrow> u32 \<times> 'a xsk_ring" where
  "xsk_cons_nb_avail r nb =
     (let r' = (if cached_prod r - cached_cons r = 0 then r\<lparr>cached_prod := producer r\<rparr> else r);
          entries = cached_prod r' - cached_cons r'
      in (if entries > nb then nb else entries, r'))"

text \<open>The result, the index (unchanged when nothing is reserved) and the ring.\<close>

definition xsk_ring_prod__reserve :: "'a xsk_ring \<Rightarrow> nat \<Rightarrow> u32 \<Rightarrow> nat \<times> u32 \<times> 'a xsk_ring" where
  "xsk_ring_prod__reserve r nb idx =
     (let (n, r') = xsk_prod_nb_free r (word_of_nat nb) in
      if unat n < nb then (0, idx, r')
      else (nb, cached_prod r', r'\<lparr>cached_prod := cached_prod r' + word_of_nat nb\<rparr>))"

definition xsk_ring_prod__submit :: "'a xsk_ring \<Rightarrow> nat \<Rightarrow> 'a xsk_ring" where
  "xsk_ring_prod__submit r nb = r\<lparr>producer := producer r + word_of_nat nb\<rparr>"

definition xsk_ring_cons__peek :: "'a xsk_ring \<Rightarrow> nat \<Rightarrow> u32 \<Rightarrow> nat \<times> u32 \<times> 'a xsk_ring" where
  "xsk_ring_cons__peek r nb idx =
     (let (entries, r') = xsk_cons_nb_avail r (word_of_nat nb) in
      if entries > 0 then (unat entries, cached_cons r', r'\<lparr>cached_cons := cached_cons r' + entries\<rparr>)
      else (0, idx, r'))"

definition xsk_ring_cons__release :: "'a xsk_ring \<Rightarrow> nat \<Rightarrow> 'a xsk_ring" where
  "xsk_ring_cons__release r nb = r\<lparr>consumer := consumer r + word_of_nat nb\<rparr>"

definition xsk_ring_prod__free :: "'a xsk_ring \<Rightarrow> u32 \<times> 'a xsk_ring" where
  "xsk_ring_prod__free r =
     (let r' = r\<lparr>cached_cons := consumer r + ring_size r\<rparr> in (cached_cons r' - cached_prod r', r'))"

section \<open>The frame allocator\<close>

definition NUM_FRAMES :: nat where "NUM_FRAMES = 0x20000"
definition FRAME_SIZE :: nat where "FRAME_SIZE = 4096"
definition INVALID_UMEM_FRAME :: u64 where "INVALID_UMEM_FRAME = - 1"
definition DEFAULT_NUM_DESCS :: nat where "DEFAULT_NUM_DESCS = 2048"

record xsk_socket_info =
  umem_frame_addr :: "u64 list"
  umem_frame_free :: nat

text \<open>
  \<open>configure_xsk_umem\<close>: the fill ring as \<open>xsk_umem__create\<close> leaves it, or NULL with the value of
  \<open>errno\<close>; \<open>create\<close> is the return value and the ring of that call.
\<close>

definition configure_xsk_umem :: "bool \<Rightarrow> int \<times> u64 xsk_ring \<Rightarrow> int + u64 xsk_ring" where
  "configure_xsk_umem calloc_ok create =
     (if \<not> calloc_ok then Inl 0
      else if fst create \<noteq> 0 then Inl (- fst create)
      else Inr (snd create))"

definition xsk_alloc_umem_frame :: "xsk_socket_info \<Rightarrow> u64 \<times> xsk_socket_info" where
  "xsk_alloc_umem_frame x =
     (if umem_frame_free x = 0 then (INVALID_UMEM_FRAME, x)
      else (let n = umem_frame_free x - 1 in
            (umem_frame_addr x ! n,
             x\<lparr>umem_frame_addr := (umem_frame_addr x)[n := INVALID_UMEM_FRAME], umem_frame_free := n\<rparr>)))"

text \<open>\<open>None\<close> is the failing assertion.\<close>

definition xsk_free_umem_frame :: "xsk_socket_info \<Rightarrow> u64 \<Rightarrow> xsk_socket_info option" where
  "xsk_free_umem_frame x frame =
     (if umem_frame_free x < NUM_FRAMES then
        Some (x\<lparr>umem_frame_addr := (umem_frame_addr x)[umem_frame_free x := frame],
                umem_frame_free := umem_frame_free x + 1\<rparr>)
      else None)"

definition xsk_umem_free_frames :: "xsk_socket_info \<Rightarrow> nat" where
  "xsk_umem_free_frames x = umem_frame_free x"

text \<open>\<open>n\<close> turns of the loop that writes freshly allocated frames to the fill ring.\<close>

fun fill_frames :: "nat \<Rightarrow> u32 \<Rightarrow> u64 xsk_ring \<Rightarrow> xsk_socket_info \<Rightarrow> u32 \<times> u64 xsk_ring \<times> xsk_socket_info" where
  "fill_frames 0 idx fq x = (idx, fq, x)"
| "fill_frames (Suc n) idx fq x =
     (let (frame, x') = xsk_alloc_umem_frame x
      in fill_frames n (idx + 1) (xsk_ring_prod__fill_addr fq idx frame) x')"

text \<open>
  \<open>xsk_configure_socket\<close>: \<open>calloc_ok\<close>, \<open>create\<close> and \<open>link_id\<close> are the outcome of \<open>calloc\<close> and the return
  values of \<open>xsk_socket__create\<close> and \<open>bpf_get_link_xdp_id\<close>. \<open>Inl\<close> is NULL with the value put into
  \<open>errno\<close>; the uninitialised \<open>idx\<close> is only read after it was set.
\<close>

definition xsk_configure_socket ::
    "bool \<Rightarrow> int \<Rightarrow> int \<Rightarrow> u64 xsk_ring \<Rightarrow> int + (xsk_socket_info \<times> u64 xsk_ring)" where
  "xsk_configure_socket calloc_ok create link_id fq =
     (if \<not> calloc_ok then Inl 0
      else if create \<noteq> 0 then Inl (- create)
      else if link_id \<noteq> 0 then Inl (- link_id)
      else
        (let x = \<lparr>umem_frame_addr = map (\<lambda>i. word_of_nat (i * FRAME_SIZE)) [0..<NUM_FRAMES], umem_frame_free = NUM_FRAMES\<rparr>;
             (ret, idx, fq1) = xsk_ring_prod__reserve fq DEFAULT_NUM_DESCS 0
         in if ret \<noteq> DEFAULT_NUM_DESCS then Inl (- int ret)
            else (let (_, fq2, x') = fill_frames DEFAULT_NUM_DESCS idx fq1 x
                  in Inr (x', xsk_ring_prod__submit fq2 DEFAULT_NUM_DESCS))))"

section \<open>The contract of a frame pool\<close>

text \<open>
  What the bearer relies on: the free frames are a stack; allocation takes its top, or gives the
  invalid address when it is empty; release pushes while there is room.
\<close>

locale frame_pool =
  fixes pool :: "'s \<Rightarrow> bool"
    and free_list :: "'s \<Rightarrow> u64 list"
    and alloc :: "'s \<Rightarrow> u64 \<times> 's"
    and release :: "'s \<Rightarrow> u64 \<Rightarrow> 's option"
    and capacity :: nat
  assumes alloc_empty: "pool s \<Longrightarrow> free_list s = [] \<Longrightarrow> alloc s = (INVALID_UMEM_FRAME, s)"
    and alloc_top: "pool s \<Longrightarrow> free_list s \<noteq> [] \<Longrightarrow>
      fst (alloc s) = last (free_list s) \<and> free_list (snd (alloc s)) = butlast (free_list s)"
    and alloc_pool: "pool s \<Longrightarrow> pool (snd (alloc s))"
    and release_room: "pool s \<Longrightarrow> length (free_list s) < capacity \<Longrightarrow>
      \<exists>s'. release s f = Some s' \<and> pool s' \<and> free_list s' = free_list s @ [f]"
    and release_full: "pool s \<Longrightarrow> length (free_list s) = capacity \<Longrightarrow> release s f = None"
    and pool_bound: "pool s \<Longrightarrow> length (free_list s) \<le> capacity"
begin

text \<open>A released frame is the next one allocated.\<close>

lemma release_alloc:
  assumes "pool s" and "release s f = Some s'"
  shows "\<exists>s''. alloc s' = (f, s'') \<and> pool s'' \<and> free_list s'' = free_list s"
proof -
  have "length (free_list s) < capacity"
    using assms release_full [of s f] pool_bound [of s] by (cases "length (free_list s) = capacity") auto
  then obtain t where "release s f = Some t" "pool t" "free_list t = free_list s @ [f]"
    using release_room [OF assms(1)] by blast
  then show ?thesis using assms(2) alloc_top [of s'] alloc_pool [of s'] by (cases "alloc s'") auto
qed

fun alloc_many :: "nat \<Rightarrow> 's \<Rightarrow> u64 list \<times> 's" where
  "alloc_many 0 s = ([], s)"
| "alloc_many (Suc n) s = (let (f, s') = alloc s; (fs, s'') = alloc_many n s' in (f # fs, s''))"

text \<open>
  Allocating \<open>n\<close> frames takes the top of the stack from the end; once it is empty, the rest of what is
  handed out is the invalid address.
\<close>

lemma alloc_many_spec:
  assumes "pool s"
  shows "alloc_many n s = (fs, s') \<Longrightarrow> pool s' \<and>
    free_list s' = take (length (free_list s) - n) (free_list s) \<and>
    fs = take n (rev (free_list s)) @ replicate (n - length (free_list s)) INVALID_UMEM_FRAME"
  using assms
proof (induction n arbitrary: s fs s')
  case 0
  then show ?case by simp
next
  case (Suc n)
  obtain f t where a: "alloc s = (f, t)" by (cases "alloc s")
  obtain gs where g: "alloc_many n t = (gs, s')" and fs: "fs = f # gs"
    using Suc.prems(1) a by (auto split: prod.splits)
  have t: "pool t" using alloc_pool [OF Suc.prems(2)] a by simp
  note IH = Suc.IH [OF g t]
  show ?case
  proof (cases "free_list s = []")
    case True
    then show ?thesis using alloc_empty [OF Suc.prems(2)] a IH fs by (simp add: replicate_app_Cons_same)
  next
    case False
    then have f: "f = last (free_list s)" "free_list t = butlast (free_list s)"
      using alloc_top [OF Suc.prems(2)] a by auto
    obtain xs y where s: "free_list s = xs @ [y]" using False by (metis append_butlast_last_id)
    then show ?thesis using IH f fs by simp
  qed
qed

lemma alloc_many_conserves:
  assumes "pool s" and "alloc_many n s = (fs, s')" and "n \<le> length (free_list s)"
  shows "free_list s = free_list s' @ rev fs"
proof -
  have "free_list s' = take (length (free_list s) - n) (free_list s)" "fs = take n (rev (free_list s))"
    using alloc_many_spec [OF assms(1,2)] assms(3) by simp_all
  then show ?thesis by (simp add: rev_take)
qed

end

definition xsk_pool :: "xsk_socket_info \<Rightarrow> bool" where
  "xsk_pool x \<longleftrightarrow> length (umem_frame_addr x) = NUM_FRAMES \<and> umem_frame_free x \<le> NUM_FRAMES"

definition xsk_free_list :: "xsk_socket_info \<Rightarrow> u64 list" where
  "xsk_free_list x = take (umem_frame_free x) (umem_frame_addr x)"

interpretation xsk: frame_pool xsk_pool xsk_free_list xsk_alloc_umem_frame xsk_free_umem_frame NUM_FRAMES
proof
  fix s f
  assume p: "xsk_pool s"
  then have l: "length (xsk_free_list s) = umem_frame_free s" by (simp add: xsk_free_list_def xsk_pool_def)
  show "xsk_alloc_umem_frame s = (INVALID_UMEM_FRAME, s)" if "xsk_free_list s = []"
    using that l by (simp add: xsk_alloc_umem_frame_def)
  show "fst (xsk_alloc_umem_frame s) = last (xsk_free_list s) \<and>
      xsk_free_list (snd (xsk_alloc_umem_frame s)) = butlast (xsk_free_list s)" if "xsk_free_list s \<noteq> []"
    using that p l
    by (auto simp: xsk_alloc_umem_frame_def xsk_free_list_def xsk_pool_def Let_def last_conv_nth butlast_take)
  show "xsk_pool (snd (xsk_alloc_umem_frame s))"
    using p by (auto simp: xsk_alloc_umem_frame_def xsk_pool_def Let_def)
  show "\<exists>s'. xsk_free_umem_frame s f = Some s' \<and> xsk_pool s' \<and> xsk_free_list s' = xsk_free_list s @ [f]"
    if "length (xsk_free_list s) < NUM_FRAMES"
    using that p l by (auto simp: xsk_free_umem_frame_def xsk_free_list_def xsk_pool_def take_Suc_conv_app_nth)
  show "xsk_free_umem_frame s f = None" if "length (xsk_free_list s) = NUM_FRAMES"
    using that l by (simp add: xsk_free_umem_frame_def)
  show "length (xsk_free_list s) \<le> NUM_FRAMES" using p l by (simp add: xsk_pool_def)
qed

section \<open>Filling the ring\<close>

text \<open>A ring as \<open>xsk_umem__create\<close> sets it up: a power of two of entries, the mask below it.\<close>

definition ring_ok :: "'a xsk_ring \<Rightarrow> bool" where
  "ring_ok r \<longleftrightarrow> (\<exists>k\<le>31. length (ring r) = 2 ^ k \<and> ring_mask r = mask k \<and> ring_size r = 2 ^ k)"

lemma ring_slot_add:
  assumes "ring_ok r"
  shows "ring_slot r (idx + word_of_nat i) = (unat idx + i) mod length (ring r)"
proof -
  obtain k where k: "k \<le> 31" "length (ring r) = 2 ^ k" "ring_mask r = mask k"
    using assms unfolding ring_ok_def by blast
  have "ring_slot r (idx + word_of_nat i) = unat (take_bit k (idx + word_of_nat i))"
    by (simp add: ring_slot_def k(3) take_bit_eq_mask)
  also have "\<dots> = unat (idx + word_of_nat i) mod 2 ^ k"
    by (subst unsigned_take_bit_eq) (rule take_bit_eq_mod)
  also have "unat (idx + word_of_nat i) = (unat idx + i) mod 2 ^ 32"
    by (simp add: unat_word_ariths unat_of_nat mod_simps)
  also have "(unat idx + i) mod 2 ^ 32 mod 2 ^ k = (unat idx + i) mod 2 ^ k"
    using k(1) by (intro mod_mod_cancel le_imp_power_dvd) simp
  finally show ?thesis by (simp add: k(2))
qed

lemma ring_slot_less: "ring_ok r \<Longrightarrow> ring_slot r idx < length (ring r)"
  using ring_slot_add [of r idx 0] by (auto simp: ring_ok_def)

lemma mod_shift_ne:
  assumes "i < j" and "j < N"
  shows "(a + i) mod N \<noteq> (a + j) mod (N :: nat)"
proof
  assume "(a + i) mod N = (a + j) mod N"
  then have "N dvd (a + j) - (a + i)" using assms(1) by (metis add_le_cancel_left less_imp_le mod_eq_dvd_iff_nat)
  then show False using assms by (auto dest!: dvd_imp_le)
qed

definition same_ring :: "'a xsk_ring \<Rightarrow> 'a xsk_ring \<Rightarrow> bool" where
  "same_ring r r' \<longleftrightarrow> (\<exists>xs. r' = r\<lparr>ring := xs\<rparr> \<and> length xs = length (ring r))"

lemma fill_frames_spec:
  assumes "ring_ok fq" and "xsk_pool x" and "n \<le> length (ring fq)" and "xsk.alloc_many n x = (fs, x')"
  shows "\<exists>fq'. fill_frames n idx fq x = (idx + word_of_nat n, fq', x') \<and> same_ring fq fq' \<and>
    (\<forall>i<n. ring fq' ! ring_slot fq (idx + word_of_nat i) = fs ! i) \<and>
    (\<forall>s<length (ring fq). (\<forall>i<n. s \<noteq> ring_slot fq (idx + word_of_nat i)) \<longrightarrow> ring fq' ! s = ring fq ! s)"
  using assms
proof (induction n arbitrary: idx fq x fs)
  case 0
  then show ?case by (auto simp: same_ring_def intro: exI [of _ "ring fq"])
next
  case (Suc n)
  obtain f y where a: "xsk_alloc_umem_frame x = (f, y)" by (cases "xsk_alloc_umem_frame x")
  obtain gs where g: "xsk.alloc_many n y = (gs, x')" and fs: "fs = f # gs"
    using Suc.prems(4) a by (auto split: prod.splits)
  let ?q = "xsk_ring_prod__fill_addr fq idx f"
  have q: "ring_ok ?q" "length (ring ?q) = length (ring fq)" "ring_slot ?q = ring_slot fq"
    using Suc.prems(1) by (auto simp: xsk_ring_prod__fill_addr_def ring_ok_def ring_slot_def fun_eq_iff)
  have y: "xsk_pool y" using xsk.alloc_pool [OF Suc.prems(2)] a by simp
  obtain fq' where h: "fill_frames n (idx + 1) ?q y = (idx + 1 + word_of_nat n, fq', x')" "same_ring ?q fq'"
    "\<forall>i<n. ring fq' ! ring_slot fq (idx + 1 + word_of_nat i) = gs ! i"
    "\<forall>s<length (ring fq). (\<forall>i<n. s \<noteq> ring_slot fq (idx + 1 + word_of_nat i)) \<longrightarrow> ring fq' ! s = ring ?q ! s"
    using Suc.IH [OF q(1) y _ g, of "idx + 1"] Suc.prems(3) q(2,3) by auto
  have w: "idx + 1 + word_of_nat i = idx + word_of_nat (Suc i)" for i by simp
  have s0: "ring_slot fq idx < length (ring fq)" by (rule ring_slot_less [OF Suc.prems(1)])
  have ne: "ring_slot fq idx \<noteq> ring_slot fq (idx + word_of_nat (Suc i))" if "i < n" for i
    using mod_shift_ne [of 0 "Suc i" "length (ring fq)" "unat idx"] that Suc.prems(3)
      ring_slot_add [OF Suc.prems(1), of idx 0] ring_slot_add [OF Suc.prems(1), of idx "Suc i"] by simp
  have "ring fq' ! ring_slot fq (idx + word_of_nat i) = fs ! i" if "i < Suc n" for i
  proof (cases i)
    case 0
    have "ring fq' ! ring_slot fq idx = ring ?q ! ring_slot fq idx" using h(4) s0 ne unfolding w by blast
    then show ?thesis using 0 fs s0 by (simp add: xsk_ring_prod__fill_addr_def)
  next
    case (Suc j)
    then show ?thesis using h(3) that fs unfolding w by simp
  qed
  moreover have "ring fq' ! s = ring fq ! s" if "s < length (ring fq)" "\<forall>i<Suc n. s \<noteq> ring_slot fq (idx + word_of_nat i)" for s
  proof -
    have "s \<noteq> ring_slot fq idx" using that(2) [rule_format, of 0] by simp
    moreover have "\<forall>i<n. s \<noteq> ring_slot fq (idx + 1 + word_of_nat i)" unfolding w using that(2) by blast
    then have "ring fq' ! s = ring ?q ! s" using h(4) that(1) by blast
    ultimately show ?thesis by (simp add: xsk_ring_prod__fill_addr_def)
  qed
  moreover have "same_ring fq fq'" using h(2) by (auto simp: same_ring_def xsk_ring_prod__fill_addr_def)
  moreover have "fill_frames (Suc n) idx fq x = (idx + word_of_nat (Suc n), fq', x')"
    using a h(1) unfolding w by simp
  ultimately show ?case by blast
qed

section \<open>Setting up the socket\<close>

definition fresh_frames :: "u64 list" where
  "fresh_frames = map (\<lambda>i. word_of_nat (i * FRAME_SIZE)) [0..<NUM_FRAMES]"

lemma fresh_frames_nth: "i < NUM_FRAMES \<Longrightarrow> unat (fresh_frames ! i) = i * FRAME_SIZE"
proof -
  assume i: "i < NUM_FRAMES"
  then have "i * FRAME_SIZE < 2 ^ 64" by (simp add: NUM_FRAMES_def FRAME_SIZE_def)
  then have "unat (word_of_nat (i * FRAME_SIZE) :: u64) = i * FRAME_SIZE" by (rule unat_word_of_nat_u64)
  then show ?thesis using i by (simp add: fresh_frames_def del: of_nat_mult)
qed

lemma length_fresh_frames [simp]: "length fresh_frames = NUM_FRAMES"
  by (simp add: fresh_frames_def)

lemma distinct_fresh_frames: "distinct fresh_frames"
  unfolding distinct_conv_nth
proof (intro allI impI)
  fix i j assume "i < length fresh_frames" "j < length fresh_frames" "i \<noteq> j"
  then have "unat (fresh_frames ! i) \<noteq> unat (fresh_frames ! j)"
    by (simp add: fresh_frames_nth FRAME_SIZE_def)
  then show "fresh_frames ! i \<noteq> fresh_frames ! j" by metis
qed

lemma reserve_fresh:
  assumes "cached_cons fq - cached_prod fq = word_of_nat n" and "n < 2 ^ 32"
  shows "xsk_ring_prod__reserve fq n idx = (n, cached_prod fq, fq\<lparr>cached_prod := cached_prod fq + word_of_nat n\<rparr>)"
  using assms by (simp add: xsk_ring_prod__reserve_def xsk_prod_nb_free_def Let_def unat_of_nat)

text \<open>
  The receive path starts with frames of its own. When the kernel gives the socket an empty fill
  ring of the default size, \<open>xsk_configure_socket\<close> submits exactly that many frame addresses, the ring
  holds pairwise different, frame-aligned addresses inside the UMEM area, none of which is left in the
  allocator, and no frame is lost: ring and allocator together hold all of them.
\<close>

lemma xsk_configure_socket_frames:
  assumes "ring_ok fq" and "length (ring fq) = DEFAULT_NUM_DESCS"
    and "cached_cons fq - cached_prod fq = word_of_nat DEFAULT_NUM_DESCS"
  shows "\<exists>x fq'. xsk_configure_socket True 0 0 fq = Inr (x, fq') \<and> xsk_pool x \<and>
    producer fq' = producer fq + word_of_nat DEFAULT_NUM_DESCS \<and>
    length (xsk_free_list x) = NUM_FRAMES - DEFAULT_NUM_DESCS \<and>
    distinct (ring fq') \<and> set (ring fq') \<inter> set (xsk_free_list x) = {} \<and>
    set (ring fq') \<union> set (xsk_free_list x) = (\<lambda>i. word_of_nat (i * FRAME_SIZE)) ` {..<NUM_FRAMES}"
proof -
  let ?N = DEFAULT_NUM_DESCS
  let ?x = "\<lparr>umem_frame_addr = fresh_frames, umem_frame_free = NUM_FRAMES\<rparr>"
  let ?q = "fq\<lparr>cached_prod := cached_prod fq + word_of_nat ?N\<rparr>"
  have r: "xsk_ring_prod__reserve fq ?N 0 = (?N, cached_prod fq, ?q)"
    by (rule reserve_fresh [OF assms(3)]) (simp add: DEFAULT_NUM_DESCS_def)
  have p: "xsk_pool ?x" "xsk_free_list ?x = fresh_frames" by (simp_all add: xsk_pool_def xsk_free_list_def)
  have q: "ring_ok ?q" "?N \<le> length (ring ?q)" "length (ring ?q) = ?N" using assms(1,2) by (auto simp: ring_ok_def)
  obtain fs x where a: "xsk.alloc_many ?N ?x = (fs, x)" by (cases "xsk.alloc_many ?N ?x")
  have le: "?N \<le> NUM_FRAMES" by (simp add: DEFAULT_NUM_DESCS_def NUM_FRAMES_def)
  note sp = xsk.alloc_many_spec [OF p(1) a, unfolded p(2)]
  have l: "length fs = ?N" using sp le by simp
  have cons: "fresh_frames = xsk_free_list x @ rev fs"
    using xsk.alloc_many_conserves [OF p(1) a] le by (simp add: p(2))
  obtain fq' where f: "fill_frames ?N (cached_prod fq) ?q ?x = (cached_prod fq + word_of_nat ?N, fq', x)"
    "same_ring ?q fq'" "\<forall>i<?N. ring fq' ! ring_slot ?q (cached_prod fq + word_of_nat i) = fs ! i"
    using fill_frames_spec [OF q(1) p(1) q(2) a, of "cached_prod fq"] by blast
  have lr: "length (ring fq') = ?N" using f(2) q(3) by (auto simp: same_ring_def)
  have "set fs \<subseteq> set (ring fq')"
  proof
    fix v assume "v \<in> set fs"
    then obtain i where "i < ?N" "v = fs ! i" using l by (auto simp: in_set_conv_nth)
    then show "v \<in> set (ring fq')"
      using f(3) ring_slot_less [OF q(1), of "cached_prod fq + word_of_nat i"] lr q(3) by (metis nth_mem)
  qed
  moreover have d: "distinct fs" "distinct (xsk_free_list x)" "set fs \<inter> set (xsk_free_list x) = {}"
    using distinct_fresh_frames unfolding cons by auto
  ultimately have s: "set (ring fq') = set fs"
    using l lr by (metis List.finite_set card_length card_seteq distinct_card)
  then have dr: "distinct (ring fq')" using d(1) l lr by (metis card_distinct distinct_card)
  have "set fresh_frames = (\<lambda>i. word_of_nat (i * FRAME_SIZE)) ` {..<NUM_FRAMES}"
    by (simp add: fresh_frames_def lessThan_atLeast0)
  then have u: "set (ring fq') \<union> set (xsk_free_list x) = (\<lambda>i. word_of_nat (i * FRAME_SIZE)) ` {..<NUM_FRAMES}"
    using s cons by (metis Un_commute set_append set_rev)
  have "xsk_configure_socket True 0 0 fq = Inr (x, xsk_ring_prod__submit fq' ?N)"
    unfolding xsk_configure_socket_def using r f(1) by (simp add: Let_def fresh_frames_def)
  moreover have "producer (xsk_ring_prod__submit fq' ?N) = producer fq + word_of_nat ?N"
    "ring (xsk_ring_prod__submit fq' ?N) = ring fq'"
    using f(2) by (auto simp: xsk_ring_prod__submit_def same_ring_def)
  moreover have "length (xsk_free_list x) = NUM_FRAMES - ?N" using sp by simp
  ultimately show ?thesis using sp s d dr u by (intro exI [of _ x] exI [of _ "xsk_ring_prod__submit fq' ?N"]) simp
qed

lemma configure_socket_frames_example:
  "\<exists>x fq'. xsk_configure_socket True 0 0
       \<lparr>cached_prod = 0, cached_cons = 2048, ring_mask = mask 11, ring_size = 2048, producer = 0, consumer = 0,
        ring = replicate 2048 0\<rparr> = Inr (x, fq') \<and>
     producer fq' = 2048 \<and> distinct (ring fq')"
proof -
  let ?fq = "\<lparr>cached_prod = 0, cached_cons = 2048, ring_mask = mask 11, ring_size = 2048, producer = 0, consumer = 0,
        ring = replicate 2048 0\<rparr>"
  have "ring_ok ?fq" "length (ring ?fq) = DEFAULT_NUM_DESCS"
    "cached_cons ?fq - cached_prod ?fq = word_of_nat DEFAULT_NUM_DESCS"
    by (auto simp: ring_ok_def DEFAULT_NUM_DESCS_def intro!: exI [of _ 11])
  from xsk_configure_socket_frames [OF this] show ?thesis by (auto simp: DEFAULT_NUM_DESCS_def)
qed

end
