(* ===== verification/Cbr.thy ===== *)
theory Cbr
  imports Graft_GoBackN Graft_SelectiveRepeat Xsk_Rings
begin

text \<open>
  The control bearer (\<open>cbr/cbr.c\<close>): the raw socket of the sending side with the initial values of the
  pinned maps, its configuration, and the AF_XDP socket of the receiving side. The system calls are
  parameters, given by their return values; messages to \<open>stderr\<close> are left out.
\<close>

datatype sock_opt = IP_HDRINCL | SO_BINDTODEVICE string

record sys_env =
  sys_socket :: "int \<Rightarrow> int \<Rightarrow> int \<Rightarrow> int"
  bpf_obj_get :: "string \<Rightarrow> int"
  sys_setsockopt :: "int \<Rightarrow> sock_opt \<Rightarrow> int"
  sys_ifindex :: "string \<Rightarrow> int"
  sys_setrlimit :: int
  sys_memalign :: "nat \<Rightarrow> int"
  calloc_umem_ok :: bool
  calloc_xsk_ok :: bool
  umem_create :: "int \<times> u64 xsk_ring"
  xsk_create :: "u32 \<Rightarrow> u16 \<Rightarrow> int"
  link_xdp_id :: "u32 \<Rightarrow> int"

section \<open>The raw socket\<close>

definition AF_INET :: int where "AF_INET = 2"
definition SOCK_RAW :: int where "SOCK_RAW = 3"
definition IPPROTO_RAW :: int where "IPPROTO_RAW = 255"

definition TC_GLOBAL_NS :: string where "TC_GLOBAL_NS = ''/sys/fs/bpf/tc/globals''"

definition get_map_fd :: "sys_env \<Rightarrow> string \<Rightarrow> int" where
  "get_map_fd E map_filename = bpf_obj_get E (take 255 (TC_GLOBAL_NS @ ''/'' @ map_filename))"

text \<open>The loop over the slots of \<open>ACK_WND_MAP\<close>; a failing update is only reported.\<close>

definition init_ack_wnd :: "u32 \<Rightarrow> sock_state list \<Rightarrow> sock_state list" where
  "init_ack_wnd fd m =
     fold (\<lambda>id m. fst (map_update m id \<lparr>sk_fd = fd, event = TIMEOUT\<rparr>)) [0..<4] m"

definition cbr_create_raw_sock :: "sys_env \<Rightarrow> int \<Rightarrow> int \<Rightarrow> win_maps \<Rightarrow> int \<times> win_maps" where
  "cbr_create_raw_sock E domain proto w =
     (let sock_fd = sys_socket E domain SOCK_RAW proto in
      if sock_fd < 0 then (-1, w)
      else
        (let w1 = (if get_map_fd E ''ACK_WND_MAP'' < 0 then w
                   else w\<lparr>ack_wnd := init_ack_wnd (word_of_int sock_fd) (ack_wnd w)\<rparr>);
             w2 = (if get_map_fd E ''NUM_SEQ_MAP'' < 0 then w1
                   else w1\<lparr>num_seq_map := fst (map_update (num_seq_map w1) 0 0)\<rparr>);
             w3 = (if get_map_fd E ''LEN_WND_MAP'' < 0 then w2
                   else w2\<lparr>len_wnd := fst (map_update (len_wnd w2) 0 1)\<rparr>)
         in (sock_fd, w3)))"

definition enable_ip4_hdr_gen :: "sys_env \<Rightarrow> int \<Rightarrow> int" where
  "enable_ip4_hdr_gen E sock_fd = (if sys_setsockopt E sock_fd IP_HDRINCL < 0 then -1 else 0)"

text \<open>The result and whether the look-up socket \<open>sd\<close> stays open.\<close>

definition bind_raw_sock_to_interface :: "sys_env \<Rightarrow> string \<Rightarrow> int \<Rightarrow> int \<times> bool" where
  "bind_raw_sock_to_interface E interface sock_fd =
     (let sd = sys_socket E AF_INET SOCK_RAW IPPROTO_RAW;
          ifr_name = take 15 interface
      in if sd < 0 then (-1, False)
         else if sys_ifindex E ifr_name < 0 then (-1, True)
         else if sys_setsockopt E sock_fd (SO_BINDTODEVICE ifr_name) < 0 then (-1, False)
         else (0, False))"

definition cbr_config_raw_sock :: "sys_env \<Rightarrow> int \<Rightarrow> string \<Rightarrow> int" where
  "cbr_config_raw_sock E sock_fd interface =
     (let ret = enable_ip4_hdr_gen E sock_fd in
      if ret \<noteq> 0 then ret
      else (let ret = fst (bind_raw_sock_to_interface E interface sock_fd) in if ret \<noteq> 0 then ret else 0))"

section \<open>The AF_XDP socket\<close>

datatype cbr_error = SetRlimit | BufferMemory | CreateUmem | SetupSocket

definition cbr_create_and_config_xsk_sock ::
    "sys_env \<Rightarrow> u32 \<Rightarrow> u16 \<Rightarrow> cbr_error + (xsk_socket_info \<times> u64 xsk_ring)" where
  "cbr_create_and_config_xsk_sock E xdp_flags xsk_bind_flags =
     (if sys_setrlimit E \<noteq> 0 then Inl SetRlimit
      else if sys_memalign E (NUM_FRAMES * FRAME_SIZE) \<noteq> 0 then Inl BufferMemory
      else (case configure_xsk_umem (calloc_umem_ok E) (umem_create E) of
              Inl _ \<Rightarrow> Inl CreateUmem
            | Inr fq \<Rightarrow>
                (case xsk_configure_socket (calloc_xsk_ok E) (xsk_create E xdp_flags xsk_bind_flags) (link_xdp_id E xdp_flags) fq of
                   Inl _ \<Rightarrow> Inl SetupSocket
                 | Inr r \<Rightarrow> Inr r)))"

section \<open>The state a sender starts with\<close>

lemma init_ack_wnd_nth:
  assumes "i < length m"
  shows "init_ack_wnd fd m ! i = (if i < 4 then \<lparr>sk_fd = fd, event = TIMEOUT\<rparr> else m ! i)"
proof -
  have "[0..<4] = [0, 1, 2, 3 :: nat]" by (simp add: upt_rec)
  then show ?thesis using assms by (auto simp: init_ack_wnd_def map_update_fst_nth)
qed

lemma length_init_ack_wnd [simp]: "length (init_ack_wnd fd m) = length m"
proof -
  have "[0..<4] = [0, 1, 2, 3 :: nat]" by (simp add: upt_rec)
  then show ?thesis by (simp add: init_ack_wnd_def)
qed

lemma cbr_create_raw_sock_ok:
  assumes "win_ok w" and "cbr_create_raw_sock E domain proto w = (fd, w')"
  shows "win_ok w'"
  using assms by (auto simp: cbr_create_raw_sock_def win_ok_def Let_def map_update_ok split: if_splits)

text \<open>
  Opening the raw socket restarts the sender's window. Whatever an earlier connection left in the
  pinned maps, when they can be opened the next sequence number is 0, the maps stay well formed (every
  graft's precondition) and saved packets are kept; but only the first four of the sixteen slots of
  the window are reset, the others keep the acknowledgements of the earlier connection.
\<close>

theorem cbr_create_raw_sock_restarts:
  assumes "win_ok w" and "sys_socket E domain SOCK_RAW proto = fd" and "0 \<le> fd"
    and "0 \<le> get_map_fd E ''ACK_WND_MAP''" and "0 \<le> get_map_fd E ''NUM_SEQ_MAP''" and "0 \<le> get_map_fd E ''LEN_WND_MAP''"
  shows "\<exists>w'. cbr_create_raw_sock E domain proto w = (fd, w') \<and> win_ok w' \<and> num_seq_map w' = [0] \<and> buf_wnd w' = buf_wnd w \<and>
    len_wnd w' = (len_wnd w)[0 := 1] \<and>
    (\<forall>i<WND_SIZE. ack_wnd w' ! i = (if i < 4 then \<lparr>sk_fd = word_of_int fd, event = TIMEOUT\<rparr> else ack_wnd w ! i))"
proof -
  let ?w = "w\<lparr>ack_wnd := init_ack_wnd (word_of_int fd) (ack_wnd w), num_seq_map := (num_seq_map w)[0 := 0],
      len_wnd := (len_wnd w)[0 := 1]\<rparr>"
  have l: "length (num_seq_map w) = 1" "length (len_wnd w) = WND_SIZE" "length (ack_wnd w) = WND_SIZE"
    using assms(1) by (simp_all add: win_ok_def)
  have c: "cbr_create_raw_sock E domain proto w = (fd, ?w)"
    using assms(2-) l by (simp add: cbr_create_raw_sock_def Let_def map_update_ok WND_SIZE_def)
  have "num_seq_map ?w = [0]" using l(1) by (cases "num_seq_map w") auto
  then show ?thesis using c cbr_create_raw_sock_ok [OF assms(1) c] l(3) by (auto simp: init_ack_wnd_nth)
qed

section \<open>A small instance\<close>

definition sample_env :: sys_env where
  "sample_env = \<lparr>sys_socket = (\<lambda>_ _ _. 3), bpf_obj_get = (\<lambda>_. 5), sys_setsockopt = (\<lambda>_ _. 0), sys_ifindex = (\<lambda>_. 0),
     sys_setrlimit = 0, sys_memalign = (\<lambda>_. 0), calloc_umem_ok = True, calloc_xsk_ok = True,
     umem_create = (0, \<lparr>cached_prod = 0, cached_cons = 2048, ring_mask = mask 11, ring_size = 2048, producer = 0,
                        consumer = 0, ring = replicate 2048 0\<rparr>),
     xsk_create = (\<lambda>_ _. 0), link_xdp_id = (\<lambda>_. 0)\<rparr>"

theorem cbr_create_raw_sock_restarts_witness:
  "\<exists>w'. cbr_create_raw_sock sample_env AF_INET IPPROTO_RAW (sample_maps 7) = (3, w') \<and> num_seq_map w' = [0] \<and>
     ack_wnd w' ! 3 = \<lparr>sk_fd = 3, event = TIMEOUT\<rparr> \<and> ack_wnd w' ! 4 = ack_wnd (sample_maps 7) ! 4"
proof -
  have h: "win_ok (sample_maps 7)" by (rule sample_maps_ok) simp
  have g: "0 \<le> get_map_fd sample_env ''ACK_WND_MAP''" "0 \<le> get_map_fd sample_env ''NUM_SEQ_MAP''"
    "0 \<le> get_map_fd sample_env ''LEN_WND_MAP''" "sys_socket sample_env AF_INET SOCK_RAW IPPROTO_RAW = 3"
    by (simp_all add: get_map_fd_def sample_env_def)
  obtain w' where "cbr_create_raw_sock sample_env AF_INET IPPROTO_RAW (sample_maps 7) = (3, w')" "num_seq_map w' = [0]"
    "\<forall>i<WND_SIZE. ack_wnd w' ! i = (if i < 4 then \<lparr>sk_fd = 3, event = TIMEOUT\<rparr> else ack_wnd (sample_maps 7) ! i)"
    using cbr_create_raw_sock_restarts [OF h g(4) _ g(1-3)] by auto
  then show ?thesis by (simp add: WND_SIZE_def)
qed

end
