(* ===== verification/Dbr_Receive.thy ===== *)
theory Dbr_Receive
  imports VTL_Wire
begin

text \<open>
  The receiving half of the data bearer (\<open>dbr/dbr.c\<close>): \<open>__process_packet\<close> with its reorder buffer, and
  the proof that it hands the payloads to the application in sequence. Payloads are copied into the
  caller's buffer, whose capacity is a parameter; a fault is an access outside an object (or through
  NULL) that the C code would make, or its failing assertion on the frame pool.
\<close>

definition WIN_SIZE :: nat where "WIN_SIZE = 16"

record sr_buff_t =
  buff :: "bytes option"
  sr_len :: nat

text \<open>The static variables of the function.\<close>

record dbr_state =
  sr_buff :: "sr_buff_t list"
  stored :: "bool list"
  next_num :: nat

record rx_state =
  rx_data :: bytes
  cnt_pkts :: u32
  cnt_bytes :: u32

datatype dbr_fault = RxOverflow | NullDeref | OutOfBounds | ShortFrame | FramePoolFull

text \<open>Which pointer arguments are not NULL, and the size of the caller's buffer.\<close>

record rx_args =
  has_vtlh :: bool
  has_rx :: bool
  rx_cap :: nat

definition sr_empty :: sr_buff_t where "sr_empty = \<lparr>buff = None, sr_len = 0\<rparr>"

definition dbr_init :: dbr_state where
  "dbr_init = \<lparr>sr_buff = replicate WIN_SIZE sr_empty, stored = replicate WIN_SIZE False, next_num = 0\<rparr>"

section \<open>Operations\<close>

lemma count_clear: "j < length xs \<Longrightarrow> xs ! j \<Longrightarrow> length (filter id (xs[j := False])) < length (filter id xs)"
proof (induction xs arbitrary: j)
  case Nil
  then show ?case by simp
next
  case (Cons x xs)
  then show ?case by (cases j) auto
qed

text \<open>The purge of the reorder buffer; \<open>data_size\<close> is that of the packet just received.\<close>

function dbr_purge ::
    "nat \<Rightarrow> u32 \<Rightarrow> nat \<Rightarrow> dbr_state \<Rightarrow> rx_state \<Rightarrow> dbr_fault + (nat \<times> dbr_state \<times> rx_state)" where
  "dbr_purge cap data_size j ds rx =
     (if j < length (stored ds) \<and> stored ds ! j then
        (case buff (sr_buff ds ! j) of
           None \<Rightarrow> Inl NullDeref
         | Some b \<Rightarrow>
             if cap < length (rx_data rx) + sr_len (sr_buff ds ! j) then Inl RxOverflow
             else dbr_purge cap data_size ((j + 1) mod WIN_SIZE)
                    (ds\<lparr>sr_buff := (sr_buff ds)[j := sr_empty], stored := (stored ds)[j := False]\<rparr>)
                    (rx\<lparr>rx_data := rx_data rx @ take (sr_len (sr_buff ds ! j)) b,
                        cnt_pkts := cnt_pkts rx + 1, cnt_bytes := cnt_bytes rx + data_size\<rparr>))
      else Inr (j, ds, rx))"
  by pat_completeness auto
termination
  by (relation "measure (\<lambda>(cap, data_size, j, ds, rx). length (filter id (stored ds)))") (auto simp: count_clear)

declare dbr_purge.simps [simp del]

definition process_packet ::
    "rx_args \<Rightarrow> (nat \<Rightarrow> bool) \<Rightarrow> bytes \<Rightarrow> dbr_state \<Rightarrow> rx_state \<Rightarrow> dbr_fault + (bool \<times> dbr_state \<times> rx_state)" where
  "process_packet args calloc_ok p ds rx =
     (if \<not> has_rx args then Inr (True, ds, rx)
      else if length p < VTL_END then Inl ShortFrame
      else
        (let data = drop VTL_END p;
             data_size = length p - VTL_END
         in if has_vtlh args \<and> vtlh_seq_num p = Some (next_num ds) then
              (if rx_cap args < length (rx_data rx) + data_size then Inl RxOverflow
               else
                 (case dbr_purge (rx_cap args) (word_of_nat data_size) ((next_num ds + 1) mod WIN_SIZE) ds
                         (rx\<lparr>rx_data := rx_data rx @ data, cnt_pkts := cnt_pkts rx + 1,
                             cnt_bytes := cnt_bytes rx + word_of_nat data_size\<rparr>) of
                    Inl f \<Rightarrow> Inl f
                  | Inr (j, ds', rx') \<Rightarrow> Inr (True, ds'\<lparr>next_num := j\<rparr>, rx')))
            else if \<not> has_vtlh args then Inl NullDeref
            else
              (case vtlh_seq_num p of
                 None \<Rightarrow> Inl ShortFrame
               | Some z \<Rightarrow>
                   if WIN_SIZE \<le> z then Inl OutOfBounds
                   else if \<not> calloc_ok data_size then
                     Inr (False, ds\<lparr>sr_buff := (sr_buff ds)[z := (sr_buff ds ! z)\<lparr>buff := None\<rparr>]\<rparr>, rx)
                   else
                     Inr (True, ds\<lparr>sr_buff := (sr_buff ds)[z := \<lparr>buff = Some data, sr_len = data_size\<rparr>],
                                   stored := (stored ds)[z := True]\<rparr>, rx))))"

text \<open>The packets of one or more receive calls, in the order of the receive ring.\<close>

fun process_packets ::
    "rx_args \<Rightarrow> (nat \<Rightarrow> bool) \<Rightarrow> bytes list \<Rightarrow> dbr_state \<Rightarrow> rx_state \<Rightarrow> dbr_fault + (dbr_state \<times> rx_state)" where
  "process_packets args calloc_ok [] ds rx = Inr (ds, rx)"
| "process_packets args calloc_ok (p # ps) ds rx =
     (case process_packet args calloc_ok p ds rx of
        Inl f \<Rightarrow> Inl f
      | Inr (_, ds', rx') \<Rightarrow> process_packets args calloc_ok ps ds' rx')"

section \<open>In-order delivery\<close>

text \<open>
  The sender's packets are numbered 0, 1, 2, ... and \<open>d k\<close> is the payload of packet \<open>k\<close>; on the wire it
  carries \<open>k\<close> modulo the window. \<open>mex A\<close> is the first packet not in \<open>A\<close>.
\<close>

definition carries :: "(nat \<Rightarrow> bytes) \<Rightarrow> nat \<Rightarrow> bytes \<Rightarrow> bool" where
  "carries d k p \<longleftrightarrow> VTL_END \<le> length p \<and> vtlh_seq_num p = Some (k mod WIN_SIZE) \<and> drop VTL_END p = d k"

definition mex :: "nat set \<Rightarrow> nat" where
  "mex A = (LEAST n. n \<notin> A)"

text \<open>An arrival order in which every packet comes once and none is a window ahead of the gap.\<close>

fun legal :: "nat set \<Rightarrow> nat list \<Rightarrow> bool" where
  "legal A [] \<longleftrightarrow> True"
| "legal A (k # ks) \<longleftrightarrow> k \<notin> A \<and> k < mex A + WIN_SIZE \<and> legal (insert k A) ks"

definition payloads :: "(nat \<Rightarrow> bytes) \<Rightarrow> nat \<Rightarrow> bytes" where
  "payloads d n = concat (map d [0..<n])"

lemma payloads_Suc: "payloads d (Suc n) = payloads d n @ d n"
  by (simp add: payloads_def)

lemma payloads_mono: "m \<le> n \<Longrightarrow> length (payloads d m) \<le> length (payloads d n)"
  by (induction rule: dec_induct) (simp_all add: payloads_Suc)

lemma mex_notin: "finite A \<Longrightarrow> mex A \<notin> A"
  unfolding mex_def using ex_new_if_finite [OF infinite_UNIV_nat] LeastI_ex by metis

lemma mex_below: "k < mex A \<Longrightarrow> k \<in> A"
  unfolding mex_def using not_less_Least by blast

lemma mex_eqI: "{..<b} \<subseteq> A \<Longrightarrow> b \<notin> A \<Longrightarrow> mex A = b"
  unfolding mex_def by (intro Least_equality) (auto intro: leI)

lemma mod_window_inj:
  assumes "b \<le> k" "k < b + WIN_SIZE" "b \<le> l" "l < b + WIN_SIZE" "k mod WIN_SIZE = l mod WIN_SIZE"
  shows "k = l"
proof (rule ccontr)
  have w: "k < l + WIN_SIZE" "l < k + WIN_SIZE" using assms by linarith+
  assume "k \<noteq> l"
  then consider "k < l" | "l < k" by linarith
  then show False
  proof cases
    case 1
    then have "WIN_SIZE dvd l - k" using assms(5) by (metis less_imp_le mod_eq_dvd_iff_nat)
    then show False using 1 w by (auto dest!: dvd_imp_le)
  next
    case 2
    then have "WIN_SIZE dvd k - l" using assms(5) by (metis less_imp_le mod_eq_dvd_iff_nat)
    then show False using 2 w by (auto dest!: dvd_imp_le)
  qed
qed

text \<open>
  The invariant: packets \<open>A\<close> have arrived, those below \<open>b\<close> are delivered, the arrived ones from \<open>b\<close>
  on are in the buffer.
\<close>

definition dbr_inv :: "(nat \<Rightarrow> bytes) \<Rightarrow> nat set \<Rightarrow> nat \<Rightarrow> dbr_state \<Rightarrow> rx_state \<Rightarrow> bool" where
  "dbr_inv d A b ds rx \<longleftrightarrow>
     length (sr_buff ds) = WIN_SIZE \<and> length (stored ds) = WIN_SIZE \<and>
     {..<b} \<subseteq> A \<and> (\<forall>k\<in>A. k < b + WIN_SIZE) \<and>
     (\<forall>j<WIN_SIZE. stored ds ! j \<longleftrightarrow> (\<exists>k\<in>A. b \<le> k \<and> k mod WIN_SIZE = j)) \<and>
     (\<forall>k\<in>A. b \<le> k \<longrightarrow> sr_buff ds ! (k mod WIN_SIZE) = \<lparr>buff = Some (d k), sr_len = length (d k)\<rparr>) \<and>
     rx_data rx = payloads d b \<and> cnt_pkts rx = word_of_nat b"

lemma win_mod_less [simp]: "k mod WIN_SIZE < WIN_SIZE"
  by (simp add: WIN_SIZE_def)

lemma dbr_inv_stored: "dbr_inv d A b ds rx \<Longrightarrow> stored ds ! (b mod WIN_SIZE) \<longleftrightarrow> b \<in> A"
proof -
  assume i: "dbr_inv d A b ds rx"
  have "k = b" if "k \<in> A" "b \<le> k" "k mod WIN_SIZE = b mod WIN_SIZE" for k
    using mod_window_inj [of b k b] i that by (auto simp: dbr_inv_def WIN_SIZE_def)
  then show ?thesis using i by (auto simp: dbr_inv_def)
qed

text \<open>Delivering the packet at the front of the buffer.\<close>

lemma dbr_inv_deliver:
  assumes "dbr_inv d A b ds rx" and "b \<in> A"
  shows "dbr_inv d A (Suc b)
    (ds\<lparr>sr_buff := (sr_buff ds)[b mod WIN_SIZE := sr_empty], stored := (stored ds)[b mod WIN_SIZE := False]\<rparr>)
    (rx\<lparr>rx_data := rx_data rx @ d b, cnt_pkts := cnt_pkts rx + 1, cnt_bytes := c\<rparr>)"
proof -
  let ?m = "b mod WIN_SIZE"
  have A: "{..<b} \<subseteq> A" "\<And>k. k \<in> A \<Longrightarrow> k < b + WIN_SIZE" using assms(1) by (auto simp: dbr_inv_def)
  have ne: "k mod WIN_SIZE \<noteq> ?m" if "k \<in> A" "Suc b \<le> k" for k
    using mod_window_inj [of b k b] A that by (auto simp: WIN_SIZE_def)
  have "(stored ds)[?m := False] ! j \<longleftrightarrow> (\<exists>k\<in>A. Suc b \<le> k \<and> k mod WIN_SIZE = j)" if j: "j < WIN_SIZE" for j
  proof (cases "j = ?m")
    case True
    then show ?thesis using assms(1) ne by (auto simp: dbr_inv_def)
  next
    case False
    then have "(\<exists>k\<in>A. Suc b \<le> k \<and> k mod WIN_SIZE = j) \<longleftrightarrow> (\<exists>k\<in>A. b \<le> k \<and> k mod WIN_SIZE = j)"
      by (metis Suc_leD Suc_leI le_neq_implies_less)
    then show ?thesis using assms(1) j False by (simp add: dbr_inv_def)
  qed
  moreover have "(sr_buff ds)[?m := sr_empty] ! (k mod WIN_SIZE) = \<lparr>buff = Some (d k), sr_len = length (d k)\<rparr>"
    if "k \<in> A" "Suc b \<le> k" for k
    using assms(1) that ne [OF that] by (simp add: dbr_inv_def)
  moreover have "{..<Suc b} \<subseteq> A" using A assms(2) by (auto simp: less_Suc_eq)
  ultimately show ?thesis
    using assms(1) A(2) by (fastforce simp: dbr_inv_def payloads_Suc)
qed

text \<open>The purge loop delivers up to the first packet that has not arrived.\<close>

lemma dbr_purge_spec:
  assumes "dbr_inv d A b ds rx" and "finite A" and "\<And>n. n \<le> mex A \<Longrightarrow> length (payloads d n) \<le> cap"
  shows "\<exists>ds' rx'. dbr_purge cap sz (b mod WIN_SIZE) ds rx = Inr (mex A mod WIN_SIZE, ds', rx') \<and>
    dbr_inv d A (mex A) ds' rx'"
  using assms
proof (induction "mex A - b" arbitrary: b ds rx)
  case 0
  have "{..<b} \<subseteq> A" using "0.prems"(1) by (simp add: dbr_inv_def)
  then have le: "b \<le> mex A" using mex_notin [OF "0.prems"(2)] by (meson lessThan_iff not_le_imp_less subsetD)
  then have b: "b = mex A" using "0.hyps" by simp
  then have "\<not> stored ds ! (b mod WIN_SIZE)"
    using dbr_inv_stored [OF "0.prems"(1)] mex_notin [OF "0.prems"(2)] by simp
  then show ?case using b "0.prems"(1) by (subst dbr_purge.simps) simp
next
  case (Suc n)
  then have lt: "b < mex A" by simp
  then have b: "b \<in> A" by (rule mex_below)
  let ?m = "b mod WIN_SIZE"
  have s: "stored ds ! ?m" "?m < length (stored ds)"
    using dbr_inv_stored [OF Suc.prems(1)] b Suc.prems(1) by (auto simp: dbr_inv_def)
  have v: "sr_buff ds ! ?m = \<lparr>buff = Some (d b), sr_len = length (d b)\<rparr>" "rx_data rx = payloads d b"
    using Suc.prems(1) b by (auto simp: dbr_inv_def)
  have cap: "length (payloads d (Suc b)) \<le> cap" using Suc.prems(3) [of "Suc b"] lt by simp
  let ?ds = "ds\<lparr>sr_buff := (sr_buff ds)[?m := sr_empty], stored := (stored ds)[?m := False]\<rparr>"
  let ?rx = "rx\<lparr>rx_data := rx_data rx @ d b, cnt_pkts := cnt_pkts rx + 1, cnt_bytes := cnt_bytes rx + sz\<rparr>"
  have "dbr_purge cap sz ?m ds rx = dbr_purge cap sz (Suc b mod WIN_SIZE) ?ds ?rx"
    using s v cap by (subst dbr_purge.simps) (simp add: payloads_Suc mod_Suc_eq)
  moreover have "n = mex A - Suc b" using Suc.hyps(2) by simp
  ultimately show ?case
    using Suc.hyps(1) [OF _ dbr_inv_deliver [OF Suc.prems(1) b, of "cnt_bytes rx + sz"] Suc.prems(2,3)] by simp
qed

text \<open>One arrival.\<close>

lemma dbr_inv_insert_front:
  assumes "dbr_inv d A b ds rx" and "b \<notin> A"
  shows "dbr_inv d (insert b A) (Suc b) ds
    (rx\<lparr>rx_data := rx_data rx @ d b, cnt_pkts := cnt_pkts rx + 1, cnt_bytes := c\<rparr>)"
proof -
  have "(\<exists>k\<in>insert b A. Suc b \<le> k \<and> k mod WIN_SIZE = j) \<longleftrightarrow> (\<exists>k\<in>A. b \<le> k \<and> k mod WIN_SIZE = j)" for j
    using assms(2) by (metis Suc_leD Suc_leI insert_iff le_neq_implies_less not_less_eq_eq order_refl)
  moreover have "{..<Suc b} \<subseteq> insert b A" using assms(1) by (auto simp: dbr_inv_def less_Suc_eq)
  ultimately show ?thesis
    using assms(1) by (auto simp: dbr_inv_def payloads_Suc WIN_SIZE_def less_SucI)
qed

lemma dbr_inv_store:
  assumes "dbr_inv d A b ds rx" and "k \<notin> A" and "b < k" and "k < b + WIN_SIZE"
  shows "dbr_inv d (insert k A) b
    (ds\<lparr>sr_buff := (sr_buff ds)[k mod WIN_SIZE := \<lparr>buff = Some (d k), sr_len = length (d k)\<rparr>],
        stored := (stored ds)[k mod WIN_SIZE := True]\<rparr>) rx"
proof -
  have ne: "l mod WIN_SIZE \<noteq> k mod WIN_SIZE" if "l \<in> A" "b \<le> l" for l
    using mod_window_inj [of b l k] assms that by (auto simp: dbr_inv_def)
  have "(stored ds)[k mod WIN_SIZE := True] ! j \<longleftrightarrow> (\<exists>l\<in>insert k A. b \<le> l \<and> l mod WIN_SIZE = j)"
    if "j < WIN_SIZE" for j
    using assms that by (auto simp: dbr_inv_def nth_list_update)
  moreover have "(sr_buff ds)[k mod WIN_SIZE := \<lparr>buff = Some (d k), sr_len = length (d k)\<rparr>] ! (l mod WIN_SIZE) =
      \<lparr>buff = Some (d l), sr_len = length (d l)\<rparr>" if "l \<in> insert k A" "b \<le> l" for l
    using assms that ne [of l] by (auto simp: dbr_inv_def)
  ultimately show ?thesis using assms by (fastforce simp: dbr_inv_def)
qed

lemma process_packet_step:
  assumes "dbr_inv d A (mex A) ds rx" and "next_num ds = mex A mod WIN_SIZE" and "finite A"
    and "k \<notin> A" and "k < mex A + WIN_SIZE" and "carries d k p" and "has_rx args" and "has_vtlh args"
    and "\<And>n. calloc_ok n" and "\<And>n. n \<le> mex (insert k A) \<Longrightarrow> length (payloads d n) \<le> rx_cap args"
  shows "\<exists>ds' rx'. process_packet args calloc_ok p ds rx = Inr (True, ds', rx') \<and>
    dbr_inv d (insert k A) (mex (insert k A)) ds' rx' \<and> next_num ds' = mex (insert k A) mod WIN_SIZE"
proof -
  let ?b = "mex A" and ?A = "insert k A"
  have p: "VTL_END \<le> length p" "vtlh_seq_num p = Some (k mod WIN_SIZE)" "drop VTL_END p = d k"
    "length p - VTL_END = length (d k)"
    using assms(6) unfolding carries_def by (auto simp flip: length_drop)
  have k: "?b \<le> k" using mex_below assms(4) by (meson not_le_imp_less)
  have fin: "finite ?A" using assms(3) by simp
  show ?thesis
  proof (cases "k = ?b")
    case True
    let ?sz = "word_of_nat (length (d k)) :: u32"
    let ?rx = "rx\<lparr>rx_data := rx_data rx @ d k, cnt_pkts := cnt_pkts rx + 1, cnt_bytes := cnt_bytes rx + ?sz\<rparr>"
    have i: "dbr_inv d ?A (Suc ?b) ds ?rx"
      using dbr_inv_insert_front [OF assms(1), of "cnt_bytes rx + ?sz"] assms(4) True by simp
    obtain ds' rx' where g: "dbr_purge (rx_cap args) ?sz (Suc ?b mod WIN_SIZE) ds ?rx = Inr (mex ?A mod WIN_SIZE, ds', rx')"
      "dbr_inv d ?A (mex ?A) ds' rx'"
      using dbr_purge_spec [OF i fin assms(10)] by blast
    have "{..<Suc ?b} \<subseteq> ?A" using i by (simp add: dbr_inv_def)
    then have "Suc ?b \<le> mex ?A" using mex_notin [OF fin] by (meson lessThan_iff not_le_imp_less subsetD)
    then have "length (payloads d (Suc ?b)) \<le> rx_cap args" by (rule assms(10))
    moreover have "rx_data rx = payloads d ?b" using assms(1) by (simp add: dbr_inv_def)
    ultimately have cap: "length (rx_data rx) + length (d k) \<le> rx_cap args" using True by (simp add: payloads_Suc)
    have n: "vtlh_seq_num p = Some (next_num ds)" "(next_num ds + 1) mod WIN_SIZE = Suc ?b mod WIN_SIZE"
      using p(2) True assms(2) by (simp_all add: mod_Suc_eq)
    have "process_packet args calloc_ok p ds rx = Inr (True, ds'\<lparr>next_num := mex ?A mod WIN_SIZE\<rparr>, rx')"
      using p(1,3,4) n g(1) cap assms(7,8) unfolding process_packet_def Let_def by simp
    moreover have "dbr_inv d ?A (mex ?A) (ds'\<lparr>next_num := mex ?A mod WIN_SIZE\<rparr>) rx'"
      using g(2) by (simp add: dbr_inv_def)
    ultimately show ?thesis by simp
  next
    case False
    then have lt: "?b < k" using k by simp
    have m: "mex ?A = ?b"
      by (rule mex_eqI) (use assms(1) mex_notin [OF assms(3)] False in \<open>auto simp: dbr_inv_def\<close>)
    have "k mod WIN_SIZE \<noteq> ?b mod WIN_SIZE"
      using mod_window_inj [of ?b k ?b] k assms(5) False by (auto simp: WIN_SIZE_def)
    then have "process_packet args calloc_ok p ds rx = Inr (True,
        ds\<lparr>sr_buff := (sr_buff ds)[k mod WIN_SIZE := \<lparr>buff = Some (d k), sr_len = length (d k)\<rparr>],
           stored := (stored ds)[k mod WIN_SIZE := True]\<rparr>, rx)"
      using p assms(2,7-9) unfolding process_packet_def Let_def by (simp add: not_le)
    then show ?thesis using dbr_inv_store [OF assms(1,4) lt assms(5)] m assms(2) by simp
  qed
qed

lemma mex_mono: "finite B \<Longrightarrow> A \<subseteq> B \<Longrightarrow> mex A \<le> mex B"
  using mex_notin mex_below by (meson in_mono not_le_imp_less)

lemma process_packets_spec:
  assumes "dbr_inv d A (mex A) ds rx" and "next_num ds = mex A mod WIN_SIZE" and "finite A"
    and "legal A ks" and "list_all2 (carries d) ks ps" and "has_rx args" and "has_vtlh args"
    and "\<And>n. calloc_ok n" and "length (payloads d (mex (A \<union> set ks))) \<le> rx_cap args"
  shows "\<exists>ds' rx'. process_packets args calloc_ok ps ds rx = Inr (ds', rx') \<and>
    dbr_inv d (A \<union> set ks) (mex (A \<union> set ks)) ds' rx' \<and> next_num ds' = mex (A \<union> set ks) mod WIN_SIZE"
  using assms(1-5,9)
proof (induction ks arbitrary: A ps ds rx)
  case Nil
  then show ?case by simp
next
  case (Cons k ks)
  obtain p qs where ps: "ps = p # qs" "carries d k p" "list_all2 (carries d) ks qs"
    using Cons.prems(5) by (auto simp: list_all2_Cons1)
  have l: "k \<notin> A" "k < mex A + WIN_SIZE" "legal (insert k A) ks" using Cons.prems(4) by simp_all
  have fin: "finite (A \<union> set (k # ks))" using Cons.prems(3) by simp
  have cap: "length (payloads d n) \<le> rx_cap args" if "n \<le> mex (insert k A)" for n
  proof -
    have "mex (insert k A) \<le> mex (A \<union> set (k # ks))" by (rule mex_mono [OF fin]) auto
    then have "n \<le> mex (A \<union> set (k # ks))" using that by linarith
    then show ?thesis using payloads_mono [of n "mex (A \<union> set (k # ks))" d] Cons.prems(6) by simp
  qed
  obtain ds' rx' where s: "process_packet args calloc_ok p ds rx = Inr (True, ds', rx')"
    "dbr_inv d (insert k A) (mex (insert k A)) ds' rx'" "next_num ds' = mex (insert k A) mod WIN_SIZE"
    using process_packet_step [OF Cons.prems(1-3) l(1,2) ps(2) assms(6,7), of calloc_ok] assms(8) cap by blast
  have "insert k A \<union> set ks = A \<union> set (k # ks)" by auto
  then show ?case
    using Cons.IH [OF s(2,3) _ l(3) ps(3)] Cons.prems(3,6) s(1) ps(1) by simp
qed

text \<open>
  C8: the data bearer hands the payloads to the application in the order in which they were sent.
  For every arrival order of the packets 0, 1, 2, ... in which each comes once and none is a window or
  more ahead of the first missing one, after the packets \<open>ks\<close> arrived the application's buffer holds
  exactly the payloads of the packets before the first missing one, concatenated in sequence, and
  counts that many packets.
\<close>

theorem dbr_delivers_in_order:
  assumes "legal {} ks" and "list_all2 (carries d) ks ps" and "has_rx args" and "has_vtlh args"
    and "\<And>n. calloc_ok n" and "length (payloads d (mex (set ks))) \<le> rx_cap args"
  shows "\<exists>ds rx. process_packets args calloc_ok ps dbr_init \<lparr>rx_data = [], cnt_pkts = 0, cnt_bytes = 0\<rparr> = Inr (ds, rx) \<and>
    rx_data rx = concat (map d [0..<mex (set ks)]) \<and> cnt_pkts rx = word_of_nat (mex (set ks))"
proof -
  have m: "mex {} = 0" by (rule mex_eqI) simp_all
  have "dbr_inv d {} (mex {}) dbr_init \<lparr>rx_data = [], cnt_pkts = 0, cnt_bytes = 0\<rparr>"
    by (simp add: m dbr_inv_def dbr_init_def payloads_def)
  from process_packets_spec [OF this _ _ assms(1-4), of calloc_ok] assms(5,6)
  show ?thesis by (auto simp: m dbr_init_def dbr_inv_def payloads_def)
qed

section \<open>Appending to earlier data\<close>

text \<open>Processing behind bytes that are already in the buffer is processing into an empty buffer, appended.\<close>

definition behind :: "bytes \<Rightarrow> rx_state \<Rightarrow> rx_state" where
  "behind xs rx = rx\<lparr>rx_data := xs @ rx_data rx\<rparr>"

lemma behind_simps [simp]:
  "rx_data (behind xs rx) = xs @ rx_data rx" "cnt_pkts (behind xs rx) = cnt_pkts rx" "cnt_bytes (behind xs rx) = cnt_bytes rx"
  by (simp_all add: behind_def)

lemma behind_update:
  "(behind xs rx)\<lparr>rx_data := xs @ rx_data rx @ d, cnt_pkts := a, cnt_bytes := b\<rparr> =
     behind xs (rx\<lparr>rx_data := rx_data rx @ d, cnt_pkts := a, cnt_bytes := b\<rparr>)"
  by (simp add: behind_def)

lemma dbr_purge_cases:
  shows "\<not> (j < length (stored ds) \<and> stored ds ! j) \<Longrightarrow> dbr_purge cap sz j ds rx = Inr (j, ds, rx)"
    and "j < length (stored ds) \<Longrightarrow> stored ds ! j \<Longrightarrow> buff (sr_buff ds ! j) = None \<Longrightarrow> dbr_purge cap sz j ds rx = Inl NullDeref"
    and "j < length (stored ds) \<Longrightarrow> stored ds ! j \<Longrightarrow> buff (sr_buff ds ! j) = Some b \<Longrightarrow>
      dbr_purge cap sz j ds rx =
        (if cap < length (rx_data rx) + sr_len (sr_buff ds ! j) then Inl RxOverflow
         else dbr_purge cap sz ((j + 1) mod WIN_SIZE)
                (ds\<lparr>sr_buff := (sr_buff ds)[j := sr_empty], stored := (stored ds)[j := False]\<rparr>)
                (rx\<lparr>rx_data := rx_data rx @ take (sr_len (sr_buff ds ! j)) b,
                    cnt_pkts := cnt_pkts rx + 1, cnt_bytes := cnt_bytes rx + sz\<rparr>))"
  by (subst dbr_purge.simps, auto)+

lemma dbr_purge_behind:
  "dbr_purge (length xs + cap) sz j ds (behind xs rx) = map_sum id (\<lambda>(j, ds, rx). (j, ds, behind xs rx)) (dbr_purge cap sz j ds rx)"
proof (induction cap sz j ds rx rule: dbr_purge.induct)
  case (1 cap sz j ds rx)
  show ?case
  proof (cases "j < length (stored ds) \<and> stored ds ! j")
    case False
    then show ?thesis by (simp add: dbr_purge_cases(1))
  next
    case s: True
    show ?thesis
    proof (cases "buff (sr_buff ds ! j)")
      case None
      then show ?thesis using s by (simp add: dbr_purge_cases(2))
    next
      case (Some b)
      show ?thesis
      proof (cases "cap < length (rx_data rx) + sr_len (sr_buff ds ! j)")
        case True
        then show ?thesis using s Some by (simp add: dbr_purge_cases(3))
      next
        case False
        then show ?thesis
          using "1.IH" [OF s Some False] s
            dbr_purge_cases(3) [of j ds b "length xs + cap" sz "behind xs rx"] dbr_purge_cases(3) [of j ds b cap sz rx] Some
          by (simp add: behind_update)
      qed
    qed
  qed
qed

lemma process_packet_behind:
  "process_packet (args\<lparr>rx_cap := length xs + rx_cap args\<rparr>) calloc_ok p ds (behind xs rx) =
     map_sum id (\<lambda>(b, ds, rx). (b, ds, behind xs rx)) (process_packet args calloc_ok p ds rx)"
proof -
  let ?n = "length p - VTL_END"
  let ?rx = "rx\<lparr>rx_data := rx_data rx @ drop VTL_END p, cnt_pkts := cnt_pkts rx + 1, cnt_bytes := cnt_bytes rx + word_of_nat ?n\<rparr>"
  show ?thesis
  proof (cases "has_rx args \<and> VTL_END \<le> length p \<and> has_vtlh args \<and> vtlh_seq_num p = Some (next_num ds)")
    case True
    then show ?thesis
      unfolding process_packet_def Let_def
      by (cases "dbr_purge (rx_cap args) (word_of_nat ?n) ((next_num ds + 1) mod WIN_SIZE) ds ?rx")
        (auto simp: behind_update dbr_purge_behind)
  next
    case False
    then show ?thesis
      unfolding process_packet_def Let_def by (cases "vtlh_seq_num p") auto
  qed
qed

lemma process_packets_behind:
  "process_packets (args\<lparr>rx_cap := length xs + rx_cap args\<rparr>) calloc_ok ps ds (behind xs rx) =
     map_sum id (\<lambda>(ds, rx). (ds, behind xs rx)) (process_packets args calloc_ok ps ds rx)"
proof (induction ps arbitrary: ds rx)
  case Nil
  then show ?case by simp
next
  case (Cons p ps)
  show ?case
  proof (cases "process_packet args calloc_ok p ds rx")
    case (Inl f)
    then show ?thesis by (simp add: process_packet_behind)
  next
    case (Inr r)
    then show ?thesis by (cases r) (simp add: process_packet_behind Cons.IH)
  qed
qed

section \<open>Instances\<close>

definition dbr_args :: rx_args where
  "dbr_args = \<lparr>has_vtlh = True, has_rx = True, rx_cap = 4096\<rparr>"

text \<open>The headers of a VTL frame with sequence number \<open>n\<close>, as far as the bearer reads them, and data.\<close>

definition seq_frame :: "nat \<Rightarrow> bytes \<Rightarrow> bytes" where
  "seq_frame n data = replicate 52 0 @ le_put 2 n @ replicate 4 0 @ data"

lemma seq_frame_carries: "k < WIN_SIZE \<Longrightarrow> d k = data \<Longrightarrow> carries d k (seq_frame k data)"
  by (simp add: carries_def seq_frame_def vtlh_seq_num_def ld_def VTL_END_def WIN_SIZE_def le_get_le_put del: le_put.simps)

theorem dbr_delivers_in_order_witness:
  "\<exists>ds rx. process_packets dbr_args (\<lambda>_. True) [seq_frame 0 [7], seq_frame 2 [9, 9], seq_frame 1 [8]]
      dbr_init \<lparr>rx_data = [], cnt_pkts = 0, cnt_bytes = 0\<rparr> = Inr (ds, rx) \<and>
     rx_data rx = [7, 8, 9, 9] \<and> cnt_pkts rx = 3"
proof -
  let ?d = "\<lambda>k :: nat. if k = 0 then [7] else if k = 1 then [8] else [9, 9 :: u8]"
  have m: "mex {0} = 1" "mex {2, 0} = 1" "mex {0, 2, 1} = 3" "mex {} = 0"
    by (rule mex_eqI; force simp: lessThan_nat_numeral)+
  have l: "legal {} [0, 2, 1]" by (simp add: m WIN_SIZE_def)
  have c: "list_all2 (carries ?d) [0, 2, 1] [seq_frame 0 [7], seq_frame 2 [9, 9], seq_frame 1 [8]]"
    by (simp add: seq_frame_carries WIN_SIZE_def)
  have cap: "length (payloads ?d (mex (set [0, 2, 1]))) \<le> rx_cap dbr_args" "has_rx dbr_args" "has_vtlh dbr_args"
    using m(3) by (simp_all add: payloads_def dbr_args_def upt_rec)
  show ?thesis
    using dbr_delivers_in_order [OF l c cap(2,3), of "\<lambda>_. True"] cap(1) m(3) by (simp add: upt_rec)
qed

text \<open>
  A packet received twice corrupts the stream. Packet 0 arrives, then a copy of it (a
  retransmission), then the packets 1 to 15: the copy waits in the slot of packet 16 and is delivered
  after packet 15, although packet 16 never arrived.
\<close>

theorem dbr_duplicate_is_delivered:
  "case process_packets dbr_args (\<lambda>_. True)
      (seq_frame 0 [100] # seq_frame 0 [100] # map (\<lambda>k. seq_frame k [word_of_nat k]) [1..<16])
      dbr_init \<lparr>rx_data = [], cnt_pkts = 0, cnt_bytes = 0\<rparr> of
     Inr (ds, rx) \<Rightarrow> rx_data rx = 100 # map word_of_nat [1..<16] @ [100] \<and> next_num ds = 1
   | Inl _ \<Rightarrow> False"
  by code_simp

end
