(* ===== verification/Dbr_Ring.thy ===== *)
theory Dbr_Ring
  imports Dbr_Receive Xsk_Rings
begin

text \<open>
  The receive call of the data bearer (\<open>__handle_receive_packets\<close> and \<open>dbr_recv\<close> of \<open>dbr/dbr.c\<close>): the
  descriptors of the receive ring, the refill of the fill ring from the frame pool, and the packets
  handed to \<open>__process_packet\<close>. The loop that repeats a failed reservation may not end as it is
  written, so the result is an \<open>option\<close>; it is shown always to be \<open>Some\<close>.
\<close>

definition RX_BATCH_SIZE :: nat where "RX_BATCH_SIZE = 64"

record xdp_desc =
  desc_addr :: u64
  desc_len :: u32

text \<open>\<open>struct xsk_socket_info\<close> with the parts of its \<open>umem\<close>: receive ring, fill ring, frame pool, packet buffer.\<close>

record xsk_ctx =
  rxq :: "xdp_desc xsk_ring"
  fillq :: "u64 xsk_ring"
  frames :: xsk_socket_info
  umem_buffer :: bytes

section \<open>Operations\<close>

text \<open>\<open>while(ret != stock_frames) ret = xsk_ring_prod__reserve(fq, recvd, &idx_fq)\<close>\<close>

partial_function (option) reserve_retry ::
    "nat \<Rightarrow> nat \<Rightarrow> nat \<times> u32 \<times> u64 xsk_ring \<Rightarrow> (u32 \<times> u64 xsk_ring) option" where
  "reserve_retry recvd stock_frames s =
     (case s of (ret, idx_fq, fq) \<Rightarrow>
        if ret = stock_frames then Some (idx_fq, fq)
        else reserve_retry recvd stock_frames (xsk_ring_prod__reserve fq recvd idx_fq))"

declare reserve_retry.simps [code]

text \<open>The refill of the fill ring with as many frames as it has room for.\<close>

definition stock_fill_ring :: "nat \<Rightarrow> u64 xsk_ring \<Rightarrow> xsk_socket_info \<Rightarrow> (u64 xsk_ring \<times> xsk_socket_info) option" where
  "stock_fill_ring recvd fq x =
     (let (stock, fq1) = xsk_prod_nb_free fq (word_of_nat (xsk_umem_free_frames x))
      in if stock > 0 then do {
           (idx_fq, fq2) \<leftarrow> reserve_retry recvd (unat stock) (xsk_ring_prod__reserve fq1 (unat stock) 0);
           let (_, fq3, x') = fill_frames (unat stock) idx_fq fq2 x;
           Some (xsk_ring_prod__submit fq3 (unat stock), x')
         }
         else Some (fq1, x))"

text \<open>\<open>xsk_umem__get_data\<close> and the \<open>len\<close> bytes from there; \<open>None\<close> is an address outside the buffer.\<close>

definition frame_data :: "bytes \<Rightarrow> xdp_desc \<Rightarrow> bytes option" where
  "frame_data buf d =
     (if unat (desc_addr d) + unat (desc_len d) \<le> length buf then Some (seg (unat (desc_addr d)) (unat (desc_len d)) buf)
      else None)"

text \<open>\<open>n\<close> turns of the loop over the received descriptors.\<close>

fun receive_loop ::
    "rx_args \<Rightarrow> (nat \<Rightarrow> bool) \<Rightarrow> bytes \<Rightarrow> xdp_desc xsk_ring \<Rightarrow> nat \<Rightarrow> u32 \<Rightarrow> xsk_socket_info \<Rightarrow> dbr_state \<Rightarrow> rx_state \<Rightarrow>
     dbr_fault + (xsk_socket_info \<times> dbr_state \<times> rx_state)" where
  "receive_loop args calloc_ok buf rq 0 idx_rx x ds rx = Inr (x, ds, rx)"
| "receive_loop args calloc_ok buf rq (Suc n) idx_rx x ds rx =
     (let d = xsk_ring_cons__rx_desc rq idx_rx in
      case frame_data buf d of
        None \<Rightarrow> Inl OutOfBounds
      | Some p \<Rightarrow>
          (case process_packet args calloc_ok p ds rx of
             Inl f \<Rightarrow> Inl f
           | Inr (ok, ds', rx') \<Rightarrow>
               if ok then receive_loop args calloc_ok buf rq n (idx_rx + 1) x ds' rx'
               else (case xsk_free_umem_frame x (desc_addr d) of
                       None \<Rightarrow> Inl FramePoolFull
                     | Some x' \<Rightarrow> receive_loop args calloc_ok buf rq n (idx_rx + 1) x' ds' rx')))"

definition handle_receive_packets ::
    "rx_args \<Rightarrow> (nat \<Rightarrow> bool) \<Rightarrow> xsk_ctx \<Rightarrow> dbr_state \<Rightarrow> rx_state \<Rightarrow>
     (dbr_fault + (xsk_ctx \<times> dbr_state \<times> rx_state)) option" where
  "handle_receive_packets args calloc_ok c ds rx =
     (let (recvd, idx_rx, rq) = xsk_ring_cons__peek (rxq c) RX_BATCH_SIZE 0
      in if recvd = 0 then Some (Inr (c\<lparr>rxq := rq\<rparr>, ds, rx))
         else do {
           (fq, x) \<leftarrow> stock_fill_ring recvd (fillq c) (frames c);
           Some (case receive_loop args calloc_ok (umem_buffer c) rq recvd idx_rx x ds rx of
                   Inl f \<Rightarrow> Inl f
                 | Inr (x', ds', rx') \<Rightarrow>
                     Inr (c\<lparr>rxq := xsk_ring_cons__release rq recvd, fillq := fq, frames := x'\<rparr>, ds', rx'))
         })"

text \<open>\<open>dbr_recv\<close>: the poll structure it fills in is not used.\<close>

definition dbr_recv ::
    "rx_args \<Rightarrow> (nat \<Rightarrow> bool) \<Rightarrow> xsk_ctx \<Rightarrow> dbr_state \<Rightarrow> rx_state \<Rightarrow>
     (dbr_fault + (xsk_ctx \<times> dbr_state \<times> rx_state)) option" where
  "dbr_recv args calloc_ok c ds rx = handle_receive_packets args calloc_ok c ds rx"

section \<open>The refill\<close>

definition fill_room :: "u64 xsk_ring \<Rightarrow> xsk_socket_info \<Rightarrow> nat" where
  "fill_room fq x = unat (fst (xsk_prod_nb_free fq (word_of_nat (xsk_umem_free_frames x))))"

lemma reserve_after_nb_free:
  assumes "xsk_prod_nb_free fq nb = (stock, fq1)"
  shows "xsk_ring_prod__reserve fq1 (unat stock) idx =
    (unat stock, cached_prod fq, fq1\<lparr>cached_prod := cached_prod fq + stock\<rparr>)"
    and "stock = cached_cons fq1 - cached_prod fq1" and "cached_prod fq1 = cached_prod fq"
proof -
  show s: "stock = cached_cons fq1 - cached_prod fq1" and c: "cached_prod fq1 = cached_prod fq"
    using assms by (auto simp: xsk_prod_nb_free_def Let_def split: if_splits)
  show "xsk_ring_prod__reserve fq1 (unat stock) idx =
      (unat stock, cached_prod fq, fq1\<lparr>cached_prod := cached_prod fq + stock\<rparr>)"
    using s c by (simp add: xsk_ring_prod__reserve_def xsk_prod_nb_free_def Let_def)
qed

lemma nb_free_ring: "xsk_prod_nb_free fq nb = (stock, fq1) \<Longrightarrow>
    ring_ok fq1 = ring_ok fq \<and> ring fq1 = ring fq \<and> ring_slot fq1 = ring_slot fq \<and> producer fq1 = producer fq"
  by (auto simp: xsk_prod_nb_free_def Let_def ring_ok_def ring_slot_def fun_eq_iff split: if_splits)

lemma ring_ok_cached_prod [simp]: "ring_ok (r\<lparr>cached_prod := v\<rparr>) = ring_ok r"
  by (simp add: ring_ok_def)

lemma ring_slot_cached_prod [simp]: "ring_slot (r\<lparr>cached_prod := v\<rparr>) = ring_slot r"
  by (simp add: ring_slot_def fun_eq_iff)

lemma stock_fill_ring_eq:
  assumes "xsk_prod_nb_free fq (word_of_nat (xsk_umem_free_frames x)) = (stock, fq1)"
  shows "stock_fill_ring recvd fq x =
    (if stock > 0 then
       (case fill_frames (unat stock) (cached_prod fq) (fq1\<lparr>cached_prod := cached_prod fq + stock\<rparr>) x of
          (_, fq3, x') \<Rightarrow> Some (xsk_ring_prod__submit fq3 (unat stock), x'))
     else Some (fq1, x))"
  using reserve_after_nb_free [OF assms]
  by (simp add: stock_fill_ring_def assms reserve_retry.simps split: prod.splits)

text \<open>
  C30: the receive call always returns. Whatever the state of the rings, the frame pool and the
  reorder buffer, the reservation succeeds at the first attempt, so the loop that repeats it, which
  asks for another number of entries and could spin forever, is never entered.
\<close>

theorem dbr_recv_returns: "dbr_recv args calloc_ok c ds rx \<noteq> None"
proof -
  obtain recvd idx_rx rq where p: "xsk_ring_cons__peek (rxq c) RX_BATCH_SIZE 0 = (recvd, idx_rx, rq)"
    by (cases "xsk_ring_cons__peek (rxq c) RX_BATCH_SIZE 0") auto
  obtain stock fq1 where "xsk_prod_nb_free (fillq c) (word_of_nat (xsk_umem_free_frames (frames c))) = (stock, fq1)"
    by (cases "xsk_prod_nb_free (fillq c) (word_of_nat (xsk_umem_free_frames (frames c)))")
  from stock_fill_ring_eq [OF this] have "stock_fill_ring recvd (fillq c) (frames c) \<noteq> None"
    by (simp split: prod.splits)
  then show ?thesis by (auto simp: dbr_recv_def handle_receive_packets_def p Let_def)
qed

lemma same_ring_fields:
  "same_ring r r' \<Longrightarrow> ring_slot r' = ring_slot r \<and> producer r' = producer r \<and> length (ring r') = length (ring r)"
  by (auto simp: same_ring_def ring_slot_def fun_eq_iff)

lemma stock_fill_ring_spec:
  assumes "xsk_pool x" and "ring_ok fq" and "fill_room fq x \<le> length (ring fq)"
  shows "\<exists>fq' x'. stock_fill_ring recvd fq x = Some (fq', x') \<and> xsk_pool x' \<and>
    xsk_free_list x' = take (length (xsk_free_list x) - fill_room fq x) (xsk_free_list x) \<and>
    producer fq' = producer fq + word_of_nat (fill_room fq x) \<and>
    (\<forall>i<fill_room fq x. ring fq' ! ring_slot fq (cached_prod fq + word_of_nat i) =
       (if i < length (xsk_free_list x) then rev (xsk_free_list x) ! i else INVALID_UMEM_FRAME))"
proof -
  obtain stock fq1 where n: "xsk_prod_nb_free fq (word_of_nat (xsk_umem_free_frames x)) = (stock, fq1)"
    by (cases "xsk_prod_nb_free fq (word_of_nat (xsk_umem_free_frames x))")
  have room: "fill_room fq x = unat stock" by (simp add: fill_room_def n)
  note eq = stock_fill_ring_eq [OF n, of recvd] and ri = nb_free_ring [OF n]
  show ?thesis
  proof (cases "stock > 0")
    case False
    then have "stock = 0" by (simp add: word_gt_0)
    then show ?thesis using eq ri assms(1) room by simp
  next
    case True
    let ?q = "fq1\<lparr>cached_prod := cached_prod fq + stock\<rparr>"
    obtain fs x' where a: "xsk.alloc_many (unat stock) x = (fs, x')" by (cases "xsk.alloc_many (unat stock) x")
    have q: "ring_ok ?q" "unat stock \<le> length (ring ?q)" using ri assms(2,3) room by simp_all
    obtain fq' where f: "fill_frames (unat stock) (cached_prod fq) ?q x = (cached_prod fq + word_of_nat (unat stock), fq', x')"
      "same_ring ?q fq'" "\<forall>i<unat stock. ring fq' ! ring_slot ?q (cached_prod fq + word_of_nat i) = fs ! i"
      using fill_frames_spec [OF q(1) assms(1) q(2) a, of "cached_prod fq"] by blast
    note sp = xsk.alloc_many_spec [OF assms(1) a]
    have fs: "fs ! i = (if i < length (xsk_free_list x) then rev (xsk_free_list x) ! i else INVALID_UMEM_FRAME)"
      if "i < unat stock" for i
      using sp that by (auto simp: nth_append min_def)
    have "stock_fill_ring recvd fq x = Some (xsk_ring_prod__submit fq' (unat stock), x')"
      using eq True f(1) by simp
    moreover have "producer (xsk_ring_prod__submit fq' (unat stock)) = producer fq + word_of_nat (unat stock)"
      "ring (xsk_ring_prod__submit fq' (unat stock)) = ring fq'"
      using same_ring_fields [OF f(2)] ri by (simp_all add: xsk_ring_prod__submit_def)
    moreover have "ring fq' ! ring_slot fq (cached_prod fq + word_of_nat i) =
        (if i < length (xsk_free_list x) then rev (xsk_free_list x) ! i else INVALID_UMEM_FRAME)" if "i < unat stock" for i
      using f(3) fs [OF that] that ri by simp
    ultimately show ?thesis using sp unfolding room by (intro exI conjI) auto
  qed
qed

section \<open>The received packets\<close>

definition received :: "xsk_ctx \<Rightarrow> bytes list \<Rightarrow> bool" where
  "received c ps \<longleftrightarrow>
     (case xsk_ring_cons__peek (rxq c) RX_BATCH_SIZE 0 of (n, idx, rq) \<Rightarrow>
        length ps = n \<and> (\<forall>i<n. frame_data (umem_buffer c) (xsk_ring_cons__rx_desc rq (idx + word_of_nat i)) = Some (ps ! i)))"

text \<open>When every allocation succeeds no frame goes back to the pool, and the packets are processed in ring order.\<close>

lemma process_packet_true:
  assumes "process_packet args calloc_ok p ds rx = Inr (ok, ds', rx')" and "\<And>n. calloc_ok n"
  shows "ok"
  using assms by (auto simp: process_packet_def Let_def split: if_splits sum.splits prod.splits option.splits)

lemma receive_loop_eq:
  assumes "\<And>n. calloc_ok n" and "length ps = n"
    and "\<And>i. i < n \<Longrightarrow> frame_data buf (xsk_ring_cons__rx_desc rq (idx + word_of_nat i)) = Some (ps ! i)"
  shows "receive_loop args calloc_ok buf rq n idx x ds rx =
    (case process_packets args calloc_ok ps ds rx of Inl f \<Rightarrow> Inl f | Inr (ds', rx') \<Rightarrow> Inr (x, ds', rx'))"
  using assms(2,3)
proof (induction n arbitrary: ps idx ds rx)
  case 0
  then show ?case by simp
next
  case (Suc n)
  obtain p qs where ps: "ps = p # qs" using Suc.prems(1) by (cases ps) auto
  have p: "frame_data buf (xsk_ring_cons__rx_desc rq idx) = Some p" using Suc.prems(2) [of 0] ps by simp
  have w: "idx + 1 + word_of_nat i = idx + word_of_nat (Suc i)" for i by simp
  have "frame_data buf (xsk_ring_cons__rx_desc rq (idx + 1 + word_of_nat i)) = Some (qs ! i)" if "i < n" for i
    unfolding w using Suc.prems(2) [of "Suc i"] that ps by simp
  note IH = Suc.IH [OF _ this]
  show ?case
  proof (cases "process_packet args calloc_ok p ds rx")
    case (Inl f)
    then show ?thesis using p ps by simp
  next
    case (Inr r)
    obtain ok ds' rx' where r: "r = (ok, ds', rx')" by (cases r)
    have ok by (rule process_packet_true [OF Inr [unfolded r] assms(1)])
    then show ?thesis using p ps Inr r IH [of ds' rx'] Suc.prems(1) by simp
  qed
qed

lemma handle_receive_eq:
  assumes "received c ps" and "ps \<noteq> []" and "\<And>n. calloc_ok n"
    and "stock_fill_ring (length ps) (fillq c) (frames c) = Some (fq, x)"
    and "process_packets args calloc_ok ps ds rx = Inr (ds', rx')"
  shows "\<exists>rq. dbr_recv args calloc_ok c ds rx =
      Some (Inr (c\<lparr>rxq := rq, fillq := fq, frames := x\<rparr>, ds', rx')) \<and>
    consumer rq = consumer (rxq c) + word_of_nat (length ps)"
proof -
  obtain n idx rq where k: "xsk_ring_cons__peek (rxq c) RX_BATCH_SIZE 0 = (n, idx, rq)"
    by (cases "xsk_ring_cons__peek (rxq c) RX_BATCH_SIZE 0") auto
  have n: "length ps = n"
    and f: "\<And>i. i < n \<Longrightarrow> frame_data (umem_buffer c) (xsk_ring_cons__rx_desc rq (idx + word_of_nat i)) = Some (ps ! i)"
    using assms(1) k by (auto simp: received_def)
  have "consumer rq = consumer (rxq c)"
    using k by (auto simp: xsk_ring_cons__peek_def xsk_cons_nb_avail_def Let_def split: if_splits)
  moreover have "n \<noteq> 0" using n assms(2) by auto
  ultimately show ?thesis
    using receive_loop_eq [where calloc_ok = calloc_ok and args = args and x = x and ds = ds and rx = rx, OF assms(3) n f]
      assms(4,5) n k
    by (intro exI [of _ "xsk_ring_cons__release rq n"])
      (simp add: dbr_recv_def handle_receive_packets_def xsk_ring_cons__release_def Let_def)
qed

text \<open>
  From the rings to the application. When the receive ring holds packets whose sequence numbers
  continue the stream (each packet once, none a window ahead of the gap), one receive call delivers,
  after what was delivered before, exactly the payloads up to the first missing packet in sequence,
  and gives all the received descriptors back to the kernel.
\<close>

theorem dbr_recv_delivers_in_order:
  assumes "received c ps" and "ps \<noteq> []" and "xsk_pool (frames c)" and "ring_ok (fillq c)"
    and "fill_room (fillq c) (frames c) \<le> length (ring (fillq c))"
    and "dbr_inv d A (mex A) ds rx" and "next_num ds = mex A mod WIN_SIZE" and "finite A"
    and "legal A ks" and "list_all2 (carries d) ks ps" and "has_rx args" and "has_vtlh args"
    and "\<And>n. calloc_ok n" and "length (payloads d (mex (A \<union> set ks))) \<le> rx_cap args"
  shows "\<exists>c' ds' rx'. dbr_recv args calloc_ok c ds rx = Some (Inr (c', ds', rx')) \<and>
    rx_data rx = payloads d (mex A) \<and> rx_data rx' = payloads d (mex (A \<union> set ks)) \<and>
    cnt_pkts rx' = word_of_nat (mex (A \<union> set ks)) \<and>
    dbr_inv d (A \<union> set ks) (mex (A \<union> set ks)) ds' rx' \<and>
    consumer (rxq c') = consumer (rxq c) + word_of_nat (length ps)"
proof -
  obtain ds' rx' where p: "process_packets args calloc_ok ps ds rx = Inr (ds', rx')"
    "dbr_inv d (A \<union> set ks) (mex (A \<union> set ks)) ds' rx'"
    using process_packets_spec [OF assms(6-12), of calloc_ok] assms(13,14) by blast
  obtain fq x where f: "stock_fill_ring (length ps) (fillq c) (frames c) = Some (fq, x)"
    using stock_fill_ring_spec [OF assms(3-5)] by blast
  show ?thesis
    using handle_receive_eq [OF assms(1,2,13) f p(1)] p(2) assms(6) by (auto simp: dbr_inv_def)
qed

text \<open>
  The frames of delivered packets are lost. A receive call in which every allocation succeeds
  gives no frame back to the pool: it takes as many frames as the fill ring has room for, and when the
  pool holds fewer, it hands the kernel the invalid address \<open>UINT64_MAX\<close> in their place.
\<close>

lemma dbr_recv_leaks_frames:
  assumes "received c ps" and "ps \<noteq> []" and "xsk_pool (frames c)" and "ring_ok (fillq c)"
    and "fill_room (fillq c) (frames c) \<le> length (ring (fillq c))" and "\<And>n. calloc_ok n"
    and "process_packets args calloc_ok ps ds rx = Inr (ds', rx')"
  defines "room \<equiv> fill_room (fillq c) (frames c)" and "free \<equiv> length (xsk_free_list (frames c))"
  shows "\<exists>c'. dbr_recv args calloc_ok c ds rx = Some (Inr (c', ds', rx')) \<and>
    length (xsk_free_list (frames c')) = free - room \<and>
    set (xsk_free_list (frames c')) \<subseteq> set (xsk_free_list (frames c)) \<and>
    producer (fillq c') = producer (fillq c) + word_of_nat room \<and>
    (\<forall>i. free \<le> i \<longrightarrow> i < room \<longrightarrow>
       ring (fillq c') ! ring_slot (fillq c) (cached_prod (fillq c) + word_of_nat i) = INVALID_UMEM_FRAME)"
proof -
  obtain fq x where f: "stock_fill_ring (length ps) (fillq c) (frames c) = Some (fq, x)"
    "xsk_free_list x = take (free - room) (xsk_free_list (frames c))"
    "producer fq = producer (fillq c) + word_of_nat room"
    "\<forall>i<room. ring fq ! ring_slot (fillq c) (cached_prod (fillq c) + word_of_nat i) =
       (if i < free then rev (xsk_free_list (frames c)) ! i else INVALID_UMEM_FRAME)"
    using stock_fill_ring_spec [OF assms(3-5), of "length ps"] unfolding room_def free_def by blast
  obtain rq where "dbr_recv args calloc_ok c ds rx = Some (Inr (c\<lparr>rxq := rq, fillq := fq, frames := x\<rparr>, ds', rx'))"
    using handle_receive_eq [OF assms(1,2,6) f(1) assms(7)] by blast
  moreover have "length (xsk_free_list x) = free - room" using f(2) by (simp add: free_def)
  moreover have "set (xsk_free_list x) \<subseteq> set (xsk_free_list (frames c))" using f(2) by (simp add: set_take_subset)
  ultimately show ?thesis using f(3,4) by simp
qed

section \<open>A small instance\<close>

text \<open>Two packets in the receive ring, in exchanged order, and an empty frame pool.\<close>

definition sample_umem :: bytes where
  "sample_umem = seq_frame 1 [8] @ seq_frame 0 [7]"

definition sample_ctx :: xsk_ctx where
  "sample_ctx =
     \<lparr>rxq = \<lparr>cached_prod = 0, cached_cons = 0, ring_mask = mask 1, ring_size = 2, producer = 2, consumer = 0,
              ring = [\<lparr>desc_addr = 0, desc_len = 59\<rparr>, \<lparr>desc_addr = 59, desc_len = 59\<rparr>]\<rparr>,
      fillq = \<lparr>cached_prod = 0, cached_cons = 2, ring_mask = mask 1, ring_size = 2, producer = 0, consumer = 0,
                ring = [0, 0]\<rparr>,
      frames = \<lparr>umem_frame_addr = replicate NUM_FRAMES 0, umem_frame_free = 0\<rparr>,
      umem_buffer = sample_umem\<rparr>"

lemma sample_ctx_ok:
  "ring_ok (fillq sample_ctx)" "xsk_pool (frames sample_ctx)"
  "fill_room (fillq sample_ctx) (frames sample_ctx) = 2" "length (ring (fillq sample_ctx)) = 2"
  "xsk_free_list (frames sample_ctx) = []"
  by (auto simp: ring_ok_def sample_ctx_def xsk_pool_def fill_room_def xsk_prod_nb_free_def xsk_umem_free_frames_def
      xsk_free_list_def mask_eq_exp_minus_1 intro!: exI [of _ 1])

lemma length_seq_frame [simp]: "length (seq_frame k data) = 58 + length data"
  by (simp add: seq_frame_def)

lemma sample_received: "received sample_ctx [seq_frame 1 [8], seq_frame 0 [7]]"
proof -
  have "xsk_ring_cons__peek (rxq sample_ctx) RX_BATCH_SIZE 0 = (2, 0, (rxq sample_ctx)\<lparr>cached_prod := 2, cached_cons := 2\<rparr>)"
    by (simp add: xsk_ring_cons__peek_def xsk_cons_nb_avail_def RX_BATCH_SIZE_def sample_ctx_def Let_def)
  moreover have "frame_data sample_umem \<lparr>desc_addr = 0, desc_len = 59\<rparr> = Some (seq_frame 1 [8])"
    "frame_data sample_umem \<lparr>desc_addr = 59, desc_len = 59\<rparr> = Some (seq_frame 0 [7])"
    by (simp_all add: frame_data_def sample_umem_def seg_def)
  ultimately show ?thesis
    by (auto simp: received_def xsk_ring_cons__rx_desc_def ring_slot_def sample_ctx_def less_Suc_eq numeral_2_eq_2 mask_eq_exp_minus_1)
qed

theorem dbr_recv_delivers_in_order_witness:
  "\<exists>c' ds' rx'. dbr_recv dbr_args (\<lambda>_. True) sample_ctx dbr_init \<lparr>rx_data = [], cnt_pkts = 0, cnt_bytes = 0\<rparr> =
       Some (Inr (c', ds', rx')) \<and> rx_data rx' = [7, 8] \<and> consumer (rxq c') = 2"
proof -
  let ?d = "\<lambda>k :: nat. if k = 0 then [7] else [8 :: u8]"
  have m: "mex {} = 0" "mex {1} = 0" "mex {1, 0} = 2" by (rule mex_eqI; force simp: lessThan_nat_numeral)+
  have i: "dbr_inv ?d {} (mex {}) dbr_init \<lparr>rx_data = [], cnt_pkts = 0, cnt_bytes = 0\<rparr>" "next_num dbr_init = mex {} mod WIN_SIZE"
    by (simp_all add: m dbr_inv_def dbr_init_def payloads_def)
  have l: "legal {} [1, 0]" by (simp add: m WIN_SIZE_def)
  have c: "list_all2 (carries ?d) [1, 0] [seq_frame 1 [8], seq_frame 0 [7]]" by (simp add: seq_frame_carries WIN_SIZE_def)
  have a: "has_rx dbr_args" "has_vtlh dbr_args" "length (payloads ?d (mex ({} \<union> set [1, 0]))) \<le> rx_cap dbr_args"
    using m(3) by (simp_all add: payloads_def dbr_args_def upt_rec)
  have r: "fill_room (fillq sample_ctx) (frames sample_ctx) \<le> length (ring (fillq sample_ctx))" by (simp add: sample_ctx_ok)
  have "payloads ?d 2 = [7, 8]" by (simp add: payloads_def upt_rec)
  moreover have "consumer (rxq sample_ctx) = 0" by (simp add: sample_ctx_def)
  ultimately show ?thesis
    using dbr_recv_delivers_in_order [OF sample_received _ sample_ctx_ok(2,1) r i _ l c a(1,2), of "\<lambda>_. True"] a(3) m(3)
    by auto
qed

lemma dbr_recv_leaks_frames_example:
  "\<exists>c' ds' rx'. dbr_recv dbr_args (\<lambda>_. True) sample_ctx dbr_init \<lparr>rx_data = [], cnt_pkts = 0, cnt_bytes = 0\<rparr> =
       Some (Inr (c', ds', rx')) \<and> xsk_free_list (frames c') = [] \<and> producer (fillq c') = 2 \<and>
     ring (fillq c') ! 0 = INVALID_UMEM_FRAME"
proof -
  have r: "fill_room (fillq sample_ctx) (frames sample_ctx) \<le> length (ring (fillq sample_ctx))" by (simp add: sample_ctx_ok)
  have "\<not> isl (process_packets dbr_args (\<lambda>_. True) [seq_frame 1 [8], seq_frame 0 [7]] dbr_init \<lparr>rx_data = [], cnt_pkts = 0, cnt_bytes = 0\<rparr>)"
    by code_simp
  then obtain ds' rx' where p: "process_packets dbr_args (\<lambda>_. True) [seq_frame 1 [8], seq_frame 0 [7]] dbr_init
      \<lparr>rx_data = [], cnt_pkts = 0, cnt_bytes = 0\<rparr> = Inr (ds', rx')"
    by (metis isl_def old.sum.exhaust surj_pair)
  have z: "ring_slot (fillq sample_ctx) 0 = 0" "cached_prod (fillq sample_ctx) = 0" "producer (fillq sample_ctx) = 0"
    by (simp_all add: ring_slot_def sample_ctx_def)
  from dbr_recv_leaks_frames [OF sample_received _ sample_ctx_ok(2,1) r _ p] show ?thesis
    by (force simp: sample_ctx_ok z)
qed

end
