(* ===== verification/Common_Util.thy ===== *)
theory Common_Util
  imports VTL_Prelude
begin

text \<open>
  The helpers of \<open>include/common/util.c\<close>: zeroed allocation and the Internet checksum that the data
  bearer puts into the IPv4 header.
\<close>

section \<open>Allocation\<close>

text \<open>
  \<open>malloc_ok n\<close> tells whether the allocator can serve \<open>n\<close> bytes. The result is the zeroed block, one
  list element per array element; \<open>None\<close> is NULL.
\<close>

definition allocate_strmem :: "(nat \<Rightarrow> bool) \<Rightarrow> int \<Rightarrow> bytes option" where
  "allocate_strmem malloc_ok len =
     (if len \<le> 0 then None
      else if \<not> malloc_ok (nat len) then None
      else Some (replicate (nat len) 0))"

definition allocate_ustrmem :: "(nat \<Rightarrow> bool) \<Rightarrow> int \<Rightarrow> bytes option" where
  "allocate_ustrmem malloc_ok len =
     (if len \<le> 0 then None
      else if \<not> malloc_ok (nat len) then None
      else Some (replicate (nat len) 0))"

definition allocate_intmem :: "(nat \<Rightarrow> bool) \<Rightarrow> int \<Rightarrow> int list option" where
  "allocate_intmem malloc_ok len =
     (if len \<le> 0 then None
      else if \<not> malloc_ok (nat len * 4) then None
      else Some (replicate (nat len) 0))"

section \<open>checksum\<close>

text \<open>The summing loop over 16-bit words of memory and the left-over byte.\<close>

fun csum_words :: "bytes \<Rightarrow> u32 \<Rightarrow> u32" where
  "csum_words (a # b # r) s = csum_words r (s + word_of_nat (le_get [a, b]))"
| "csum_words [a] s = s + ucast a"
| "csum_words [] s = s"

text \<open>The folding loop.\<close>

lemma unat_low16: "unat ((s :: u32) AND 0xffff) = unat s mod 65536"
proof -
  have "(0xffff :: u32) = mask 16" by (simp add: mask_eq_exp_minus_1)
  then have "s AND 0xffff = take_bit 16 s" by (simp add: take_bit_eq_mask)
  then show ?thesis by (simp add: take_bit_eq_mod unat_mod)
qed

lemma unat_high16: "unat (drop_bit 16 (s :: u32)) = unat s div 65536"
  by (simp add: drop_bit_eq_div unat_div)

lemma unat_fold_step: "unat ((s AND 0xffff) + drop_bit 16 (s :: u32)) = unat s mod 65536 + unat s div 65536"
proof -
  have "unat s < 2 ^ 32" using unsigned_less [of s, where 'a = nat] by simp
  then have "unat s div 65536 < 65536" by simp
  moreover have "unat s mod 65536 < 65536" by simp
  ultimately have "unat s mod 65536 + unat s div 65536 < 2 ^ 32" by simp
  then show ?thesis by (simp add: unat_word_ariths unat_low16 unat_high16)
qed

lemma fold_step_less:
  assumes "drop_bit 16 (s :: u32) \<noteq> 0"
  shows "unat s mod 65536 + unat s div 65536 < unat s"
proof -
  have "unat s div 65536 \<noteq> 0" using assms unat_high16 [of s] by (metis unat_eq_zero)
  moreover have "unat s = 65536 * (unat s div 65536) + unat s mod 65536" by simp
  ultimately show ?thesis by linarith
qed

function fold16 :: "u32 \<Rightarrow> u32" where
  "fold16 s = (if drop_bit 16 s \<noteq> 0 then fold16 ((s AND 0xffff) + drop_bit 16 s) else s)"
  by pat_completeness auto
termination
proof (relation "measure unat")
  fix s :: u32 assume "drop_bit 16 s \<noteq> 0"
  then show "((s AND 0xffff) + drop_bit 16 s, s) \<in> measure unat"
    using fold_step_less [of s] by (simp add: unat_fold_step)
qed simp

declare fold16.simps [simp del]

definition checksum :: "bytes \<Rightarrow> u16" where
  "checksum bs = ucast (NOT (fold16 (csum_words bs 0)))"

section \<open>The one's complement sum\<close>

fun word_sum :: "bytes \<Rightarrow> nat" where
  "word_sum (a # b # r) = le_get [a, b] + word_sum r"
| "word_sum [a] = unat a"
| "word_sum [] = 0"

lemma le_get2_less: "le_get [a, b] < 65536"
  using le_get_less [of "[a, b]"] by simp

lemma word_sum_bound: "word_sum bs \<le> 65535 * length bs"
proof (induction bs rule: word_sum.induct)
  case (1 a b r)
  then show ?case using le_get2_less [of a b] by (simp del: le_get.simps)
next
  case (2 a)
  then show ?case using unat_u8_less [of a] by simp
qed simp

lemma csum_words_sum:
  "unat s + word_sum bs < 2 ^ 32 \<Longrightarrow> unat (csum_words bs s) = unat s + word_sum bs"
proof (induction bs s rule: csum_words.induct)
  case (1 a b r s)
  have u: "unat (s + word_of_nat (le_get [a, b])) = unat s + le_get [a, b]"
    using "1.prems" le_get2_less [of a b] by (simp add: unat_word_ariths unat_of_nat del: le_get.simps)
  then show ?case using "1.IH" "1.prems" by (simp add: u del: le_get.simps)
next
  case (2 a s)
  have "unat (ucast a :: u32) = unat a" using unat_u8_less [of a] by (simp add: unsigned_ucast_eq take_bit_nat_eq_self)
  then show ?case using "2.prems" by (simp add: unat_word_ariths)
qed simp

lemma fold16_spec:
  "unat (fold16 s) mod 65535 = unat s mod 65535 \<and> unat (fold16 s) < 65536 \<and> (unat (fold16 s) = 0 \<longleftrightarrow> unat s = 0)"
proof (induction s rule: fold16.induct)
  case (1 s)
  show ?case
  proof (cases "drop_bit 16 s = 0")
    case True
    then have "unat s div 65536 = 0" using unat_high16 [of s] by simp
    then have "unat s < 65536" by (simp add: div_eq_0_iff)
    then show ?thesis using True by (simp add: fold16.simps [of s])
  next
    case False
    let ?t = "(s AND 0xffff) + drop_bit 16 s"
    have t: "unat ?t = unat s mod 65536 + unat s div 65536" by (rule unat_fold_step)
    have "unat s = unat ?t + 65535 * (unat s div 65536)" using t by simp
    then have "unat s mod 65535 = unat ?t mod 65535" by (metis mod_mult_self2)
    moreover have "unat ?t = 0 \<longleftrightarrow> unat s = 0" using t by (metis add_is_0 div_0 mod_0 mod_mult_div_eq mult_0_right)
    ultimately show ?thesis using "1.IH" False by (simp add: fold16.simps [of s])
  qed
qed

lemma unat_checksum: "unat (checksum bs) = 65535 - unat (fold16 (csum_words bs 0))"
proof -
  let ?f = "fold16 (csum_words bs 0)"
  have f: "unat ?f < 65536" using fold16_spec by blast
  have "NOT ?f = - 1 - ?f" by (simp add: not_eq_complement)
  then have "unat (NOT ?f) = 2 ^ 32 - 1 - unat ?f" by (simp add: unat_sub unsigned_minus_1_eq_mask mask_eq_exp_minus_1)
  then have "unat (checksum bs) = (2 ^ 32 - 1 - unat ?f) mod 65536"
    by (simp add: checksum_def unat_ucast_u32_u16)
  moreover have "(2 ^ 32 - 1 - n) mod 65536 = 65535 - n" if "n < 65536" for n :: nat
  proof -
    have "2 ^ 32 - 1 - n = (65535 - n) + 65535 * 65536" using that by simp
    then show ?thesis by (simp only: mod_mult_self1) simp
  qed
  ultimately show ?thesis using f by simp
qed

lemma ones_sum_full: "n mod 65535 = 0 \<Longrightarrow> n \<noteq> 0 \<Longrightarrow> n < 65536 \<Longrightarrow> n = (65535 :: nat)"
  by (cases "n < 65535") simp_all

lemma ones_complement_sum:
  fixes F G S T :: nat
  assumes "F mod 65535 = S mod 65535" and "F < 65536" and "F = 0 \<longleftrightarrow> S = 0"
    and "G mod 65535 = T mod 65535" and "G < 65536" and "G = 0 \<longleftrightarrow> T = 0" and "T = S + (65535 - F)"
  shows "G = 65535"
proof -
  have "(S + (65535 - F)) mod 65535 = (F + (65535 - F)) mod 65535" using assms(1) by (metis mod_add_left_eq)
  then have "T mod 65535 = 0" using assms(2,7) by simp
  moreover have "T \<noteq> 0" using assms(2,3,7) by auto
  ultimately show ?thesis using assms(4-6) by (intro ones_sum_full) auto
qed

lemma word_sum_append: "even (length as) \<Longrightarrow> word_sum (as @ bs) = word_sum as + word_sum bs"
  by (induction as rule: word_sum.induct) simp_all

lemma checksum_fill_zero:
  assumes "even (length as)" and "length as + length bs \<le> 65535"
  shows "checksum (as @ le_put 2 (unat (checksum (as @ [0, 0] @ bs))) @ bs) = 0"
proof -
  let ?z = "as @ [0, 0] @ bs" and ?c = "unat (checksum (as @ [0, 0] @ bs))"
  let ?f = "as @ le_put 2 ?c @ bs"
  have c16: "?c < 65536" using unsigned_less [of "checksum ?z", where 'a = nat] by simp
  have l2: "le_put 2 ?c = [word_of_nat ?c, word_of_nat (?c div 256)]" by (simp add: numeral_2_eq_2)
  have g2: "le_get (le_put 2 ?c) = ?c" using c16 by (simp add: le_get_le_put del: le_put.simps)
  have w: "word_sum ?z = word_sum as + word_sum bs" "word_sum ?f = word_sum as + word_sum bs + ?c"
    using assms(1) g2 unfolding l2 by (simp_all add: word_sum_append del: le_get.simps(2)) simp
  have b: "word_sum ?z < 2 ^ 32" "word_sum ?f < 2 ^ 32"
    using word_sum_bound [of as] word_sum_bound [of bs] assms(2) w c16 by simp_all
  have s: "unat (csum_words ?z 0) = word_sum ?z" "unat (csum_words ?f 0) = word_sum ?f"
    using csum_words_sum [of 0 ?z] csum_words_sum [of 0 ?f] b by simp_all
  let ?F = "unat (fold16 (csum_words ?z 0))" and ?G = "unat (fold16 (csum_words ?f 0))"
  have F: "?F mod 65535 = word_sum ?z mod 65535" "?F < 65536" "?F = 0 \<longleftrightarrow> word_sum ?z = 0"
    using fold16_spec [of "csum_words ?z 0"] s by simp_all
  have G: "?G mod 65535 = word_sum ?f mod 65535" "?G < 65536" "?G = 0 \<longleftrightarrow> word_sum ?f = 0"
    using fold16_spec [of "csum_words ?f 0"] s by simp_all
  have c: "?c = 65535 - ?F" by (rule unat_checksum)
  have "word_sum ?f = word_sum ?z + (65535 - ?F)" using w c by linarith
  then have "?G = 65535" by (rule ones_complement_sum [OF F G])
  then have "unat (checksum ?f) = 0" using unat_checksum [of ?f] by simp
  then show ?thesis by (simp add: unat_eq_zero)
qed

text \<open>
  The reference: the words are added in one's complement arithmetic, with the carry added back at
  every step, and the sum is complemented.
\<close>

definition ones_add :: "nat \<Rightarrow> nat \<Rightarrow> nat" where
  "ones_add m n = (if m + n < 65536 then m + n else m + n - 65535)"

fun ones_sum :: "bytes \<Rightarrow> nat" where
  "ones_sum (a # b # r) = ones_add (le_get [a, b]) (ones_sum r)"
| "ones_sum [a] = unat a"
| "ones_sum [] = 0"

lemma ones_add_spec:
  assumes "m < 65536" and "n < 65536"
  shows "ones_add m n < 65536" and "ones_add m n mod 65535 = (m + n) mod 65535" and "ones_add m n = 0 \<longleftrightarrow> m + n = 0"
  using assms by (auto simp: ones_add_def mod_if)

lemma ones_sum_spec:
  "ones_sum bs < 65536 \<and> ones_sum bs mod 65535 = word_sum bs mod 65535 \<and> (ones_sum bs = 0 \<longleftrightarrow> word_sum bs = 0)"
proof (induction bs rule: ones_sum.induct)
  case (1 a b r)
  have "(le_get [a, b] + ones_sum r) mod 65535 = (le_get [a, b] + word_sum r) mod 65535"
    using "1.IH" by (metis mod_add_right_eq)
  then show ?case using ones_add_spec [OF le_get2_less, of "ones_sum r" a b] "1.IH" by (simp del: le_get.simps)
next
  case (2 a)
  then show ?case using unat_u8_less [of a] by simp
qed simp

lemma same_residue:
  fixes m n :: nat
  assumes "m < 65536" and "n < 65536" and "m mod 65535 = n mod 65535" and "m = 0 \<longleftrightarrow> n = 0"
  shows "m = n"
  using assms by (cases "m = 65535"; cases "n = 65535") auto

text \<open>
  C34: \<open>checksum\<close>, which adds in 32 bits and folds at the end, computes the Internet checksum: the
  complement of the one's complement sum of the 16-bit words, for every block of at most 65535 bytes.
\<close>

theorem checksum_is_ones_complement:
  assumes "length bs \<le> 65535"
  shows "unat (checksum bs) = 65535 - ones_sum bs"
proof -
  have "word_sum bs < 2 ^ 32" using word_sum_bound [of bs] assms by simp
  then have "unat (csum_words bs 0) = word_sum bs" using csum_words_sum [of 0 bs] by simp
  note f = fold16_spec [of "csum_words bs 0", unfolded this] and o = ones_sum_spec [of bs]
  have "unat (fold16 (csum_words bs 0)) mod 65535 = ones_sum bs mod 65535" using f o by metis
  moreover have "unat (fold16 (csum_words bs 0)) = 0 \<longleftrightarrow> ones_sum bs = 0" using f o by metis
  ultimately have "unat (fold16 (csum_words bs 0)) = ones_sum bs"
    by (rule same_residue [OF conjunct1 [OF conjunct2 [OF f]] conjunct1 [OF o]])
  then show ?thesis by (simp add: unat_checksum)
qed

theorem checksum_is_ones_complement_witness: "unat (checksum [0xff, 0xff, 0x02, 0x00, 0x05]) = 65535 - 7"
proof -
  have "ones_sum [0xff, 0xff, 0x02, 0x00, 0x05] = 7" by (simp add: ones_add_def)
  then show ?thesis using checksum_is_ones_complement [of "[0xff, 0xff, 0x02, 0x00, 0x05]"] by simp
qed

end
