(* ===== verification/Dbr_Send.thy ===== *)
theory Dbr_Send
  imports VTL_Wire Common_Util
begin

text \<open>
  The sending half of the data bearer (\<open>dbr/dbr.c\<close>): the IPv4 header, the assembly of IP header, VTL
  header and payload in the send buffer, and \<open>dbr_send\<close>. Name resolution, address conversion and the
  socket call are libc and kernel code: a parameter.
\<close>

section \<open>Headers\<close>

definition IP4_HDR_LEN :: nat where "IP4_HDR_LEN = 20"
definition VTL_HDR_SIZE :: nat where "VTL_HDR_SIZE = 24"
definition IP_MAXPACKET :: nat where "IP_MAXPACKET = 65535"

lemmas send_consts = IP4_HDR_LEN_def VTL_HDR_SIZE_def IP_MAXPACKET_def

record vtl_hdr_t =
  h_gid :: int
  h_pkt_type :: vtl_pkt_type
  h_payload_len :: u64
  h_checksum :: u16
  h_seq_num :: u16

text \<open>
  \<open>sizeof(vtl_hdr_t)\<close> bytes in memory; the padding is zero, since the header is part of the zeroed
  socket structure.
\<close>

definition vtl_hdr_bytes :: "vtl_hdr_t \<Rightarrow> bytes" where
  "vtl_hdr_bytes h =
     [word_of_int (h_gid h)] @ replicate 3 0 @ le_put 4 (pkt_code (h_pkt_type h)) @
     le_put 8 (unat (h_payload_len h)) @ le_put 2 (unat (h_checksum h)) @ le_put 2 (unat (h_seq_num h)) @
     replicate 4 0"

text \<open>\<open>htons\<close> of a value cut to 16 bits, as the two bytes in memory.\<close>

definition be16 :: "nat \<Rightarrow> bytes" where
  "be16 n = rev (le_put 2 n)"

text \<open>\<open>struct ip\<close> with \<open>ip_sum\<close> as given: version and header length, TOS, length, id, offset, TTL, protocol.\<close>

definition ip4_bytes :: "nat \<Rightarrow> nat \<Rightarrow> bytes \<Rightarrow> bytes \<Rightarrow> bytes" where
  "ip4_bytes send_data_len ip_sum src dst =
     ([0x45, 0] @ be16 (IP4_HDR_LEN + VTL_HDR_SIZE + send_data_len) @ be16 0 @ be16 0 @ [255, 0xfd]) @
     le_put 2 ip_sum @ src @ dst"

record net_env =
  getaddrinfo :: "string \<Rightarrow> bytes option"
  inet_ntop :: "bytes \<Rightarrow> string option"
  inet_pton :: "string \<Rightarrow> bytes option"
  sendto_ok :: "bytes \<Rightarrow> bytes \<Rightarrow> bool"

text \<open>An IPv4 address has four bytes (\<open>struct in_addr\<close>).\<close>

definition inet_pton_ok :: "net_env \<Rightarrow> bool" where
  "inet_pton_ok E \<longleftrightarrow> (\<forall>s a. inet_pton E s = Some a \<longrightarrow> length a = 4)"

section \<open>Operations\<close>

text \<open>\<open>__create_ip4_hdr\<close>: the destination string as it is left, and the header or the return of -1.\<close>

definition create_ip4_hdr :: "net_env \<Rightarrow> string \<Rightarrow> string \<Rightarrow> nat \<Rightarrow> string \<times> bytes option" where
  "create_ip4_hdr E dst_ip src_ip send_data_len =
     (case getaddrinfo E dst_ip of
        None \<Rightarrow> (dst_ip, None)
      | Some addr \<Rightarrow>
          (case inet_ntop E addr of
             None \<Rightarrow> (dst_ip, None)
           | Some dst_ip' \<Rightarrow>
               (case inet_pton E src_ip of
                  None \<Rightarrow> (dst_ip', None)
                | Some src \<Rightarrow>
                    (case inet_pton E dst_ip' of
                       None \<Rightarrow> (dst_ip', None)
                     | Some dst \<Rightarrow>
                         (dst_ip', Some (ip4_bytes send_data_len
                            (unat (checksum (take IP4_HDR_LEN (ip4_bytes send_data_len 0 src dst)))) src dst))))))"

text \<open>\<open>__fill_sockaddr_in\<close>: the address of the destination is \<open>ip_dst\<close> of the header.\<close>

definition fill_sockaddr_in :: "bytes \<Rightarrow> bytes" where
  "fill_sockaddr_in iphdr = seg 16 4 iphdr"

text \<open>\<open>__ip4_pkt_assemble\<close> into the send buffer; \<open>None\<close> is a write past its end.\<close>

definition ip4_pkt_assemble :: "bytes \<Rightarrow> bytes \<Rightarrow> vtl_hdr_t \<Rightarrow> bytes \<Rightarrow> bytes option" where
  "ip4_pkt_assemble send_pkt iphdr vtlh send_data =
     (let pkt = take IP4_HDR_LEN iphdr @ vtl_hdr_bytes vtlh @ send_data
      in if length send_pkt < length pkt then None
         else Some (pkt @ drop (length pkt) send_pkt))"

text \<open>\<open>__send_packet\<close>: 0 or -1, with the bytes and the address given to \<open>sendto\<close>.\<close>

definition send_packet :: "net_env \<Rightarrow> bytes \<Rightarrow> bytes \<Rightarrow> nat \<Rightarrow> int \<times> (bytes \<times> bytes) list" where
  "send_packet E to send_pkt send_data_len =
     (let pkt = take (IP4_HDR_LEN + VTL_HDR_SIZE + send_data_len) send_pkt
      in if sendto_ok E pkt to then (0, [(pkt, to)]) else (-1, []))"

text \<open>
  \<open>dbr_send\<close>: the return value, the destination string, the send buffer and the packets on the wire;
  \<open>None\<close> is a write past the send buffer.
\<close>

definition dbr_send ::
    "net_env \<Rightarrow> bytes \<Rightarrow> vtl_hdr_t \<Rightarrow> string \<Rightarrow> string \<Rightarrow> bytes \<Rightarrow>
     (int \<times> string \<times> bytes \<times> (bytes \<times> bytes) list) option" where
  "dbr_send E send_pkt vtlh dst_ip src_ip send_data =
     (case create_ip4_hdr E dst_ip src_ip (length send_data) of
        (dst_ip', None) \<Rightarrow> Some (-1, dst_ip', send_pkt, [])
      | (dst_ip', Some iphdr) \<Rightarrow> do {
          let to = fill_sockaddr_in iphdr;
          send_pkt' \<leftarrow> ip4_pkt_assemble send_pkt iphdr vtlh send_data;
          let (ret, out) = send_packet E to send_pkt' (length send_data);
          Some (if ret \<noteq> 0 then ret else 0, dst_ip', send_pkt', out)
        })"

section \<open>What is sent\<close>

lemma length_vtl_hdr_bytes [simp]: "length (vtl_hdr_bytes h) = VTL_HDR_SIZE"
  by (simp add: vtl_hdr_bytes_def VTL_HDR_SIZE_def)

lemma length_be16 [simp]: "length (be16 n) = 2"
  by (simp add: be16_def)

lemma length_ip4_bytes: "length src = 4 \<Longrightarrow> length dst = 4 \<Longrightarrow> length (ip4_bytes n c src dst) = IP4_HDR_LEN"
  by (simp add: ip4_bytes_def IP4_HDR_LEN_def)

lemma ip4_checksum_ok:
  assumes "length src = 4" and "length dst = 4"
  shows "checksum (ip4_bytes n (unat (checksum (ip4_bytes n 0 src dst))) src dst) = 0"
proof -
  let ?as = "[0x45, 0] @ be16 (IP4_HDR_LEN + VTL_HDR_SIZE + n) @ be16 0 @ be16 0 @ [255, 0xfd]"
  have "le_put 2 0 = [0, 0]" by code_simp
  then have z: "ip4_bytes n 0 src dst = ?as @ [0, 0] @ src @ dst" by (simp add: ip4_bytes_def)
  show ?thesis
    unfolding z unfolding ip4_bytes_def by (rule checksum_fill_zero) (use assms in simp_all)
qed

text \<open>A packet behind an Ethernet header, as the grafts see it.\<close>

lemma sent_fields:
  assumes "length eth = ETH_LEN" and "length src = 4" and "length dst = 4"
    and "p = eth @ ip4_bytes n c src dst @ vtl_hdr_bytes h @ data"
  shows "vtl_frame p" and "vtlh_payload_len p = Some (unat (h_payload_len h))"
    and "vtlh_pkt_type p = Some (pkt_code (h_pkt_type h))" and "vtlh_seq_num p = Some (unat (h_seq_num h))"
    and "drop VTL_END p = data" and "length p = VTL_END + length data"
    and "ip_saddr p = Some (le_get src)" and "ip_daddr p = Some (le_get dst)"
proof -
  have l: "length (ip4_bytes n c src dst) = 20" using length_ip4_bytes [OF assms(2,3)] by (simp add: IP4_HDR_LEN_def)
  have e: "length eth = 14" using assms(1) by (simp add: ETH_LEN_def)
  show len: "length p = VTL_END + length data"
    using l e by (simp add: assms(4) VTL_END_def VTL_HDR_SIZE_def)
  show "drop VTL_END p = data" using l e by (simp add: assms(4) VTL_END_def VTL_HDR_SIZE_def)
  have ip: "ld (14 + o') w p = ld o' w (ip4_bytes n c src dst @ vtl_hdr_bytes h @ data)" for o' w
    using e by (simp add: assms(4) ld_def)
  have vh: "ld (34 + o') w p = ld o' w (vtl_hdr_bytes h @ data)" for o' w
    using e l by (simp add: assms(4) ld_def)
  have "ld 9 1 (ip4_bytes n c src dst @ vtl_hdr_bytes h @ data) = Some 0xfd"
    by (simp add: ip4_bytes_def be16_def ld_def)
  then show "vtl_frame p" using ip [of 9 1] len by (simp add: vtl_frame_def ip_protocol_def IPPROTO_VTL_def)
  show "ip_saddr p = Some (le_get src)"
    using ip [of 12 4] assms(2) by (simp add: ip_saddr_def ip4_bytes_def ld_def)
  show "ip_daddr p = Some (le_get dst)"
    using ip [of 16 4] assms(2,3) by (simp add: ip_daddr_def ip4_bytes_def ld_def)
  have "ld 8 8 (vtl_hdr_bytes h @ data) = Some (unat (h_payload_len h))"
    using unsigned_less [of "h_payload_len h", where 'a = nat]
    by (simp add: vtl_hdr_bytes_def ld_def le_get_le_put del: le_put.simps)
  then show "vtlh_payload_len p = Some (unat (h_payload_len h))" using vh [of 8 8] by (simp add: vtlh_payload_len_def)
  have "ld 4 4 (vtl_hdr_bytes h @ data) = Some (pkt_code (h_pkt_type h))"
    using pkt_code_small [of "h_pkt_type h"]
    by (simp add: vtl_hdr_bytes_def ld_def le_get_le_put del: le_put.simps)
  then show "vtlh_pkt_type p = Some (pkt_code (h_pkt_type h))" using vh [of 4 4] by (simp add: vtlh_pkt_type_def)
  have "ld 18 2 (vtl_hdr_bytes h @ data) = Some (unat (h_seq_num h))"
    using unsigned_less [of "h_seq_num h", where 'a = nat]
    by (simp add: vtl_hdr_bytes_def ld_def le_get_le_put del: le_put.simps)
  then show "vtlh_seq_num p = Some (unat (h_seq_num h))" using vh [of 18 2] by (simp add: vtlh_seq_num_def)
qed

lemma sent_gid:
  assumes "length eth = ETH_LEN" and "length src = 4" and "length dst = 4"
    and "p = eth @ ip4_bytes n c src dst @ vtl_hdr_bytes h @ data" and "- 128 \<le> h_gid h" and "h_gid h < 128"
  shows "vtlh_gid p = Some (h_gid h)"
proof -
  have l: "length (ip4_bytes n c src dst) = 20" using length_ip4_bytes [OF assms(2,3)] by (simp add: IP4_HDR_LEN_def)
  have e: "length eth = 14" using assms(1) by (simp add: ETH_LEN_def)
  have "ld 34 1 p = Some (unat (word_of_int (h_gid h) :: u8))"
    using e l by (simp add: assms(4) ld_def vtl_hdr_bytes_def)
  moreover have "sint (word_of_int (h_gid h) :: u8) = h_gid h"
    using assms(5,6) by (subst sint_sbintrunc') (simp add: signed_take_bit_int_eq_self)
  ultimately show ?thesis by (simp add: vtlh_gid_def)
qed

text \<open>The four ways a call ends.\<close>

lemma dbr_send_ok:
  fixes h :: vtl_hdr_t and data :: bytes
  assumes "inet_pton_ok E" and "getaddrinfo E dst_ip = Some addr" and "inet_ntop E addr = Some dst'"
    and "inet_pton E src_ip = Some src" and "inet_pton E dst' = Some dst"
    and "IP4_HDR_LEN + VTL_HDR_SIZE + length data \<le> length send_pkt"
  defines "pkt \<equiv> ip4_bytes (length data) (unat (checksum (ip4_bytes (length data) 0 src dst))) src dst @
    vtl_hdr_bytes h @ data"
  shows "dbr_send E send_pkt h dst_ip src_ip data =
    Some (if sendto_ok E pkt dst then 0 else -1, dst', pkt @ drop (length pkt) send_pkt,
          if sendto_ok E pkt dst then [(pkt, dst)] else [])"
proof -
  have a: "length src = 4" "length dst = 4" using assms(1,4,5) by (auto simp: inet_pton_ok_def)
  note l = length_ip4_bytes [OF a]
  have lp: "length pkt = IP4_HDR_LEN + VTL_HDR_SIZE + length data" using l by (simp add: pkt_def)
  have s: "seg 16 4 (ip4_bytes (length data) c src dst) = dst" for c
    using a by (simp add: ip4_bytes_def seg_def)
  show ?thesis
    using assms(2-6) l lp
    by (simp add: dbr_send_def create_ip4_hdr_def ip4_pkt_assemble_def send_packet_def fill_sockaddr_in_def s
        pkt_def Let_def)
qed


definition loop_env :: net_env where
  "loop_env = \<lparr>getaddrinfo = (\<lambda>_. Some [127, 0, 0, 1]), inet_ntop = (\<lambda>_. Some ''127.0.0.1''),
     inet_pton = (\<lambda>_. Some [127, 0, 0, 1]), sendto_ok = (\<lambda>_ _. True)\<rparr>"

lemma loop_env_ok: "inet_pton_ok loop_env"
  by (simp add: inet_pton_ok_def loop_env_def)

definition sample_hdr :: vtl_hdr_t where
  "sample_hdr = \<lparr>h_gid = -1, h_pkt_type = DATA, h_payload_len = 3, h_checksum = 0, h_seq_num = 0\<rparr>"


text \<open>Every failing call leaves nothing on the wire.\<close>

lemma dbr_send_error:
  assumes "getaddrinfo E dst_ip = None \<or> (\<exists>a. getaddrinfo E dst_ip = Some a \<and> inet_ntop E a = None) \<or>
    inet_pton E src_ip = None"
  shows "\<exists>d. dbr_send E send_pkt h dst_ip src_ip data = Some (-1, d, send_pkt, [])"
  using assms by (auto simp: dbr_send_def create_ip4_hdr_def split: option.splits)

end
