(* ===== verification/Service_Api.thy ===== *)
theory Service_Api
  imports Cbr Dbr_Ring Dbr_Send
begin

text \<open>
  The service interface that applications call (\<open>service_api/service_api.c\<close>): opening a VTL socket,
  sending and receiving data, and the negotiation of a graft from both sides.
\<close>

section \<open>The socket\<close>

datatype vtl_host_role = VTL_SENDER_ROLE | VTL_RECVER_ROLE | VTL_BOTH_ROLE | OtherRole

record vtl_socket =
  xsk_socket :: "xsk_ctx option"
  recv_data :: "bytes option"
  af_inet_sock :: int
  send_pkt :: "bytes option"
  send_data :: "bytes option"
  ip_flags :: "int list option"
  vtlh :: vtl_hdr_t
  src_ip :: string
  dst_ip :: string
  ifname :: string
  sock_cnt_pkts :: u32
  sock_cnt_bytes :: u32

text \<open>The socket structure after \<open>memset\<close>.\<close>

definition zero_socket :: vtl_socket where
  "zero_socket =
     \<lparr>xsk_socket = None, recv_data = None, af_inet_sock = 0, send_pkt = None, send_data = None, ip_flags = None,
      vtlh = \<lparr>h_gid = 0, h_pkt_type = NEGO, h_payload_len = 0, h_checksum = 0, h_seq_num = 0\<rparr>,
      src_ip = [], dst_ip = [], ifname = [], sock_cnt_pkts = 0, sock_cnt_bytes = 0\<rparr>"

text \<open>
  The environment of \<open>vtl_init\<close>: the system calls of the control bearer, the heap, and the receive
  ring and packet buffer that the AF_XDP library and \<open>posix_memalign\<close> give.
\<close>

record api_env = sys_env +
  sock_malloc_ok :: bool
  malloc_ok :: "nat \<Rightarrow> bool"
  new_rxq :: "xdp_desc xsk_ring"
  new_buffer :: bytes

datatype api_fault = NullPointer | StringOverflow | BufferOverflow | BearerFault dbr_fault

definition INET_ADDRSTRLEN :: nat where "INET_ADDRSTRLEN = 16"

text \<open>The XDP and bind flags: \<open>XDP_FLAGS_MODES\<close> is 0xE, \<open>XDP_FLAGS_SKB_MODE\<close> 2, \<open>XDP_ZEROCOPY\<close> 4, \<open>XDP_COPY\<close> 2.\<close>

definition recv_xdp_flags :: u32 where "recv_xdp_flags = (0 AND NOT 0xE) OR 2"
definition recv_bind_flags :: u16 where "recv_bind_flags = (0 AND 4) OR 2"

section \<open>Opening a socket\<close>

definition open_receiver :: "api_env \<Rightarrow> vtl_socket \<Rightarrow> vtl_socket option" where
  "open_receiver E s =
     (case cbr_create_and_config_xsk_sock (sys_env.truncate E) recv_xdp_flags recv_bind_flags of
        Inl _ \<Rightarrow> None
      | Inr (x, fq) \<Rightarrow>
          Some (s\<lparr>xsk_socket := Some \<lparr>rxq = new_rxq E, fillq = fq, frames = x, umem_buffer = new_buffer E\<rparr>,
                  recv_data := allocate_ustrmem (malloc_ok E) (int VTL_DATA_SIZE)\<rparr>))"

definition open_sender :: "api_env \<Rightarrow> string \<Rightarrow> vtl_socket \<Rightarrow> win_maps \<Rightarrow> vtl_socket option \<times> win_maps" where
  "open_sender E ifn s w =
     (case cbr_create_raw_sock (sys_env.truncate E) AF_INET IPPROTO_RAW w of (fd, w') \<Rightarrow>
        if fd < 0 then (None, w')
        else if cbr_config_raw_sock (sys_env.truncate E) fd ifn < 0 then (None, w')
        else (Some (s\<lparr>af_inet_sock := fd,
                     send_data := allocate_ustrmem (malloc_ok E) (int VTL_DATA_SIZE),
                     send_pkt := allocate_ustrmem (malloc_ok E) (int IP_MAXPACKET),
                     ip_flags := allocate_intmem (malloc_ok E) 4\<rparr>), w'))"

text \<open>The common end: the strings are copied into fixed-size fields, and no graft is chosen yet.\<close>

definition finish_init :: "string \<Rightarrow> string option \<Rightarrow> string \<Rightarrow> vtl_socket \<Rightarrow> api_fault + vtl_socket" where
  "finish_init src dst ifn s =
     (if INET_ADDRSTRLEN \<le> length src then Inl StringOverflow
      else if dst \<noteq> None \<and> INET_ADDRSTRLEN \<le> length (the dst) then Inl StringOverflow
      else if IF_NAMESIZE \<le> length ifn then Inl StringOverflow
      else Inr (s\<lparr>src_ip := src, dst_ip := (case dst of None \<Rightarrow> dst_ip s | Some d \<Rightarrow> d), ifname := ifn,
                  vtlh := (vtlh s)\<lparr>h_gid := -1\<rparr>\<rparr>))"

text \<open>
  \<open>vtl_init\<close> for an interface name that is not NULL (for NULL the code writes through the pointer).
  The result is a fault or the returned pointer, with the pinned maps of the sender.
\<close>

definition vtl_init ::
    "api_env \<Rightarrow> vtl_host_role \<Rightarrow> string \<Rightarrow> string option \<Rightarrow> string \<Rightarrow> win_maps \<Rightarrow>
     (api_fault + vtl_socket option) \<times> win_maps" where
  "vtl_init E role src dst ifn w =
     (if \<not> sock_malloc_ok E then (Inl NullPointer, w)
      else
        (let (r, w') =
           (case role of
              VTL_RECVER_ROLE \<Rightarrow> (open_receiver E zero_socket, w)
            | VTL_SENDER_ROLE \<Rightarrow> open_sender E ifn zero_socket w
            | VTL_BOTH_ROLE \<Rightarrow>
                (case open_receiver E zero_socket of
                   None \<Rightarrow> (None, w)
                 | Some s \<Rightarrow> open_sender E ifn s w)
            | OtherRole \<Rightarrow> (None, w))
         in case r of
              None \<Rightarrow> (Inr None, w')
            | Some s \<Rightarrow> (map_sum id Some (finish_init src dst ifn s), w')))"

section \<open>Data\<close>

type_synonym wire = "(bytes \<times> bytes) list"

definition api_send :: "net_env \<Rightarrow> vtl_socket \<Rightarrow> bytes \<Rightarrow> api_fault + (int \<times> vtl_socket \<times> wire)" where
  "api_send N s data =
     (case send_pkt s of
        None \<Rightarrow> Inl NullPointer
      | Some pkt \<Rightarrow>
          (case dbr_send N pkt (vtlh s) (dst_ip s) (src_ip s) data of
             None \<Rightarrow> Inl BufferOverflow
           | Some (ret, dst, pkt', out) \<Rightarrow> Inr (ret, s\<lparr>send_pkt := Some pkt', dst_ip := dst\<rparr>, out)))"

definition vtl_send_data :: "net_env \<Rightarrow> vtl_socket \<Rightarrow> bytes \<Rightarrow> api_fault + (int \<times> vtl_socket \<times> wire)" where
  "vtl_send_data N s data =
     (let s1 = s\<lparr>send_data := Some data, vtlh := (vtlh s)\<lparr>h_payload_len := word_of_nat (length data)\<rparr>\<rparr>
      in case api_send N s1 data of
           Inl f \<Rightarrow> Inl f
         | Inr (ret, s2, out) \<Rightarrow> Inr (if ret < 0 then -1 else 0, s2, out))"

text \<open>
  \<open>vtl_recv_data\<close> into a buffer of the application (\<open>None\<close> is NULL) of the given capacity: the bytes
  received, the socket and the bearer's static variables.
\<close>

definition vtl_recv_data ::
    "(nat \<Rightarrow> bool) \<Rightarrow> vtl_socket \<Rightarrow> nat option \<Rightarrow> dbr_state \<Rightarrow> (api_fault + (bytes \<times> vtl_socket \<times> dbr_state)) option" where
  "vtl_recv_data calloc_ok s buf ds =
     (case xsk_socket s of
        None \<Rightarrow> Some (Inl NullPointer)
      | Some c \<Rightarrow>
          map_option (\<lambda>r. case r of
              Inl f \<Rightarrow> Inl (BearerFault f)
            | Inr (c', ds', rx) \<Rightarrow>
                Inr (rx_data rx, s\<lparr>xsk_socket := Some c', sock_cnt_pkts := cnt_pkts rx, sock_cnt_bytes := cnt_bytes rx\<rparr>, ds'))
            (dbr_recv \<lparr>has_vtlh = True, has_rx = (buf \<noteq> None), rx_cap = (case buf of None \<Rightarrow> 0 | Some n \<Rightarrow> n)\<rparr> calloc_ok c ds
              \<lparr>rx_data = [], cnt_pkts = sock_cnt_pkts s, cnt_bytes = sock_cnt_bytes s\<rparr>))"

section \<open>Negotiation\<close>

text \<open>
  \<open>vtl_negotiate\<close>: the requested quality of service is not looked at. The look-up of the state gets the
  NULL pointer \<open>nego_state\<close> as the place for the value, which no call changes; the branches that read
  it are kept.
\<close>

definition vtl_negotiate :: "sys_env \<Rightarrow> net_env \<Rightarrow> vtl_socket \<Rightarrow> api_fault + (int \<times> vtl_socket \<times> wire)" where
  "vtl_negotiate E N s =
     (let nego_state = (None :: negotiation_state option);
          s1 = s\<lparr>vtlh := (vtlh s)\<lparr>h_gid := 10\<rparr>\<rparr>
      in if h_gid (vtlh s1) \<le> 0 then Inr (0, s1, [])
         else (case api_send N s1 [] of
                 Inl f \<Rightarrow> Inl f
               | Inr (ret, s2, out) \<Rightarrow>
                   if ret < 0 then Inr (-1, s2, out)
                   else if get_map_fd E ''QOS_NEGO_MAP'' < 0 then Inr (-1, s2, out)
                   else (case nego_state of
                           None \<Rightarrow> Inr (-1, s2, out)
                         | Some N_ACCEPT \<Rightarrow> Inr (h_gid (vtlh s2), s2, out)
                         | Some N_REFUSE \<Rightarrow> Inr (0, s2, out)
                         | Some N_IDLE \<Rightarrow> Inr (-1, s2, out))))"

text \<open>
  The map of graft ids holds values of one byte (\<open>sizeof(int8_t)\<close>): a look-up writes that byte to the
  address of the \<open>int\<close>. The \<open>i\<close>-th read of the map gives \<open>reads i\<close>, \<open>None\<close> when it fails.
\<close>

definition write_low_byte :: "u32 \<Rightarrow> u8 \<Rightarrow> u32" where
  "write_low_byte x v = (x AND NOT 0xFF) OR ucast v"

partial_function (option) poll_graft_id :: "(nat \<Rightarrow> u8 option) \<Rightarrow> nat \<Rightarrow> u32 \<Rightarrow> u32 option" where
  "poll_graft_id reads i x =
     (let x' = (case reads i of None \<Rightarrow> x | Some v \<Rightarrow> write_low_byte x v)
      in if sint x' \<noteq> -100 then Some x' else poll_graft_id reads (Suc i) x')"

definition vtl_validate ::
    "sys_env \<Rightarrow> net_env \<Rightarrow> (nat \<Rightarrow> u8 option) \<Rightarrow> vtl_socket \<Rightarrow> (api_fault + (int \<times> vtl_socket \<times> wire)) option" where
  "vtl_validate E N reads s =
     (if bpf_obj_get E ''/sys/fs/bpf/graftidmap'' < 0 then Some (Inr (-1, s, []))
      else do {
        rx_graft_id \<leftarrow> poll_graft_id reads 0 (word_of_int (-1));
        let graft_available = sint rx_graft_id;
        if graft_available = 0 then Some (Inr (0, s, []))
        else
          (let s1 = (if graft_available > 0
                     then s\<lparr>vtlh := (vtlh s)\<lparr>h_gid := sint (ucast rx_graft_id :: u8), h_pkt_type := NEGO_ACK\<rparr>\<rparr>
                     else s\<lparr>vtlh := (vtlh s)\<lparr>h_gid := 0, h_pkt_type := NEGO_NACK\<rparr>\<rparr>)
           in Some (case api_send N s1 [] of
                      Inl f \<Rightarrow> Inl f
                    | Inr (ret, s2, out) \<Rightarrow> Inr (sint rx_graft_id, s2, out)))
      })"

section \<open>Receiving\<close>

lemma process_packets_chunk:
  assumes "process_packets (args\<lparr>rx_cap := length xs + rx_cap args\<rparr>) calloc_ok ps ds rx1 = Inr (ds', rx')"
    and "rx1 = behind xs rx"
  obtains rx2 where "process_packets args calloc_ok ps ds rx = Inr (ds', rx2)" and "rx' = behind xs rx2"
  using assms unfolding process_packets_behind assms(2)
  by (cases "process_packets args calloc_ok ps ds rx") (auto split: prod.splits)

text \<open>
  What the application reads is the stream that was sent. When the packets that wait in the
  receive ring continue the stream (each once, none a window ahead of the first missing one), a call
  of \<open>vtl_recv_data\<close> returns exactly the payloads that follow what the earlier calls returned, up to
  the first missing packet, and leaves the socket ready for the next call.
\<close>

theorem vtl_recv_data_continues_stream:
  assumes "xsk_socket s = Some c" and "received c ps" and "ps \<noteq> []" and "xsk_pool (frames c)" and "ring_ok (fillq c)"
    and "fill_room (fillq c) (frames c) \<le> length (ring (fillq c))"
    and "dbr_inv d A (mex A) ds \<lparr>rx_data = payloads d (mex A), cnt_pkts = sock_cnt_pkts s, cnt_bytes = b\<rparr>"
    and "next_num ds = mex A mod WIN_SIZE" and "finite A"
    and "legal A ks" and "list_all2 (carries d) ks ps" and "\<And>n. calloc_ok n"
    and "length (payloads d (mex (A \<union> set ks))) \<le> length (payloads d (mex A)) + n"
  shows "\<exists>data s' ds'. vtl_recv_data calloc_ok s (Some n) ds = Some (Inr (data, s', ds')) \<and>
    payloads d (mex A) @ data = payloads d (mex (A \<union> set ks)) \<and>
    dbr_inv d (A \<union> set ks) (mex (A \<union> set ks)) ds'
      \<lparr>rx_data = payloads d (mex (A \<union> set ks)), cnt_pkts = sock_cnt_pkts s', cnt_bytes = b\<rparr> \<and>
    next_num ds' = mex (A \<union> set ks) mod WIN_SIZE"
proof -
  let ?xs = "payloads d (mex A)" and ?args = "\<lparr>has_vtlh = True, has_rx = True, rx_cap = n\<rparr>"
  let ?rx = "\<lparr>rx_data = [], cnt_pkts = sock_cnt_pkts s, cnt_bytes = sock_cnt_bytes s\<rparr>"
  have i: "dbr_inv d A (mex A) ds (behind ?xs ?rx)" using assms(7) by (simp add: dbr_inv_def behind_def)
  have cap: "length (payloads d (mex (A \<union> set ks))) \<le> rx_cap (?args\<lparr>rx_cap := length ?xs + rx_cap ?args\<rparr>)"
    using assms(13) by simp
  obtain ds' rx' where p: "process_packets (?args\<lparr>rx_cap := length ?xs + rx_cap ?args\<rparr>) calloc_ok ps ds (behind ?xs ?rx) = Inr (ds', rx')"
    "dbr_inv d (A \<union> set ks) (mex (A \<union> set ks)) ds' rx'"
    "next_num ds' = mex (A \<union> set ks) mod WIN_SIZE"
    using process_packets_spec [where calloc_ok = calloc_ok, OF i assms(8-11) _ _ assms(12) cap] by auto
  obtain rx2 where r: "process_packets ?args calloc_ok ps ds ?rx = Inr (ds', rx2)" "rx' = behind ?xs rx2"
    by (rule process_packets_chunk [OF p(1) refl])
  obtain fq x where f: "stock_fill_ring (length ps) (fillq c) (frames c) = Some (fq, x)"
    using stock_fill_ring_spec [OF assms(4-6)] by blast
  obtain rq where "dbr_recv ?args calloc_ok c ds ?rx = Some (Inr (c\<lparr>rxq := rq, fillq := fq, frames := x\<rparr>, ds', rx2))"
    using handle_receive_eq [OF assms(2,3,12) f r(1)] by blast
  then have "\<exists>s'. vtl_recv_data calloc_ok s (Some n) ds = Some (Inr (rx_data rx2, s', ds')) \<and> sock_cnt_pkts s' = cnt_pkts rx2"
    by (simp add: vtl_recv_data_def assms(1))
  then show ?thesis using p(2,3) r(2) by (fastforce simp: dbr_inv_def)
qed

text \<open>A socket on the small receive context of the data bearer.\<close>

definition sample_rx_socket :: vtl_socket where
  "sample_rx_socket = zero_socket\<lparr>xsk_socket := Some sample_ctx\<rparr>"

theorem vtl_recv_data_continues_stream_witness:
  "\<exists>s' ds'. vtl_recv_data (\<lambda>_. True) sample_rx_socket (Some 10) dbr_init = Some (Inr ([7, 8], s', ds'))"
proof -
  let ?d = "\<lambda>k :: nat. if k = 0 then [7] else [8 :: u8]"
  have m: "mex {} = 0" "mex {1} = 0" "mex {1, 0} = 2" by (rule mex_eqI; force simp: lessThan_nat_numeral)+
  have i: "dbr_inv ?d {} (mex {}) dbr_init
      \<lparr>rx_data = payloads ?d (mex {}), cnt_pkts = sock_cnt_pkts sample_rx_socket, cnt_bytes = 0\<rparr>"
    "next_num dbr_init = mex {} mod WIN_SIZE"
    by (simp_all add: m dbr_inv_def dbr_init_def payloads_def sample_rx_socket_def zero_socket_def)
  have l: "legal {} [1, 0]" by (simp add: m WIN_SIZE_def)
  have c: "list_all2 (carries ?d) [1, 0] [seq_frame 1 [8], seq_frame 0 [7]]" by (simp add: seq_frame_carries WIN_SIZE_def)
  have r: "fill_room (fillq sample_ctx) (frames sample_ctx) \<le> length (ring (fillq sample_ctx))" by (simp add: sample_ctx_ok)
  have s: "xsk_socket sample_rx_socket = Some sample_ctx" by (simp add: sample_rx_socket_def)
  have p: "payloads ?d 2 = [7, 8]" "payloads ?d 0 = []" by (simp_all add: payloads_def upt_rec)
  then have n: "length (payloads ?d (mex ({} \<union> set [1, 0]))) \<le> length (payloads ?d (mex {})) + 10" using m by simp
  show ?thesis
    using vtl_recv_data_continues_stream [OF s sample_received _ sample_ctx_ok(2,1) r i _ l c _ n, of "\<lambda>_. True"] m p
    by auto
qed

section \<open>Sending\<close>

lemma api_send_keeps: "api_send N s data = Inr (ret, s', out) \<Longrightarrow> vtlh s' = vtlh s \<and> src_ip s' = src_ip s"
  by (auto simp: api_send_def split: option.splits prod.splits)

lemma length_ip4_pkt_assemble: "ip4_pkt_assemble p i h d = Some q \<Longrightarrow> length q = length p"
  by (auto simp: ip4_pkt_assemble_def Let_def split: if_splits)

text \<open>What a call leaves on the wire.\<close>

lemma api_send_wire:
  assumes "api_send N s data = Inr (ret, s', [(pkt, to)])" and "inet_pton_ok N"
  obtains src dst c where "length src = 4" and "length dst = 4"
    and "pkt = ip4_bytes (length data) c src dst @ vtl_hdr_bytes (vtlh s) @ data"
proof -
  obtain p dst' buf where p: "send_pkt s = Some p"
    and d: "dbr_send N p (vtlh s) (dst_ip s) (src_ip s) data = Some (ret, dst', buf, [(pkt, to)])"
    using assms(1) by (auto simp: api_send_def split: option.splits prod.splits)
  obtain iphdr where c: "create_ip4_hdr N (dst_ip s) (src_ip s) (length data) = (dst', Some iphdr)"
    and a: "ip4_pkt_assemble p iphdr (vtlh s) data = Some buf"
    and t: "pkt = take (IP4_HDR_LEN + VTL_HDR_SIZE + length data) buf"
    using d by (auto simp: dbr_send_def send_packet_def Let_def Option.bind_eq_Some_conv split: prod.splits option.splits if_splits)
  obtain src dst k where k: "iphdr = ip4_bytes (length data) k src dst" and l: "length src = 4" "length dst = 4"
    using c assms(2) by (auto simp: create_ip4_hdr_def inet_pton_ok_def split: option.splits)
  have "pkt = ip4_bytes (length data) k src dst @ vtl_hdr_bytes (vtlh s) @ data"
    using a t k length_ip4_bytes [OF l, of "length data" k] by (auto simp: ip4_pkt_assemble_def Let_def split: if_splits)
  then show thesis using that l by blast
qed

lemma vtl_send_data_wire:
  assumes "vtl_send_data N s data = Inr (ret, s', [(pkt, to)])" and "inet_pton_ok N"
  obtains src dst c where "length src = 4" and "length dst = 4"
    and "pkt = ip4_bytes (length data) c src dst @
      vtl_hdr_bytes ((vtlh s)\<lparr>h_payload_len := word_of_nat (length data)\<rparr>) @ data"
proof -
  let ?s = "s\<lparr>send_data := Some data, vtlh := (vtlh s)\<lparr>h_payload_len := word_of_nat (length data)\<rparr>\<rparr>"
  obtain r where "api_send N ?s data = Inr (r, s', [(pkt, to)])"
    using assms(1) by (auto simp: vtl_send_data_def Let_def split: sum.splits)
  from api_send_wire [OF this assms(2)] that show thesis by auto
qed

text \<open>A payload that fits into the send buffer never makes a call write outside it, whatever the network answers.\<close>

lemma api_send_total:
  assumes "send_pkt s = Some p" and "IP4_HDR_LEN + VTL_HDR_SIZE + length data \<le> length p"
  shows "\<exists>ret s' q out. api_send N s data = Inr (ret, s', out) \<and> ret \<in> {0, -1} \<and> length out \<le> 1 \<and>
    send_pkt s' = Some q \<and> length q = length p"
proof -
  obtain dst' r where c: "create_ip4_hdr N (dst_ip s) (src_ip s) (length data) = (dst', r)"
    by (cases "create_ip4_hdr N (dst_ip s) (src_ip s) (length data)")
  show ?thesis
  proof (cases r)
    case None
    then show ?thesis using assms(1) c by (simp add: api_send_def dbr_send_def)
  next
    case (Some iphdr)
    have "length (take IP4_HDR_LEN iphdr @ vtl_hdr_bytes (vtlh s) @ data) \<le> length p" using assms(2) by simp
    then obtain q where q: "ip4_pkt_assemble p iphdr (vtlh s) data = Some q"
      by (cases "ip4_pkt_assemble p iphdr (vtlh s) data") (auto simp: ip4_pkt_assemble_def Let_def split: if_splits)
    then show ?thesis
      using assms(1) c Some length_ip4_pkt_assemble [OF q] by (simp add: api_send_def dbr_send_def send_packet_def Let_def)
  qed
qed

definition can_send :: "vtl_socket \<Rightarrow> bool" where
  "can_send s \<longleftrightarrow> (\<exists>p. send_pkt s = Some p \<and> length p = IP_MAXPACKET)"

lemma vtl_send_data_can_send:
  assumes "can_send s" and "length data \<le> 65491"
  shows "\<exists>ret s' out. vtl_send_data N s data = Inr (ret, s', out) \<and> ret \<in> {0, -1} \<and> length out \<le> 1 \<and> can_send s'"
proof -
  obtain p where p: "send_pkt s = Some p" "length p = IP_MAXPACKET" using assms(1) by (auto simp: can_send_def)
  let ?s = "s\<lparr>send_data := Some data, vtlh := (vtlh s)\<lparr>h_payload_len := word_of_nat (length data)\<rparr>\<rparr>"
  obtain ret s' q out where "api_send N ?s data = Inr (ret, s', out)" "ret \<in> {0, -1}" "length out \<le> 1"
    "send_pkt s' = Some q" "length q = length p"
    using api_send_total [of ?s p data N] p assms(2) by (auto simp: send_consts)
  then show ?thesis using p(2) by (auto simp: vtl_send_data_def can_send_def Let_def)
qed

lemma open_sender_can_send:
  "open_sender E ifn s w = (Some s', w') \<Longrightarrow> malloc_ok E IP_MAXPACKET \<Longrightarrow> can_send s'"
  by (auto simp: open_sender_def can_send_def allocate_ustrmem_def IP_MAXPACKET_def split: prod.splits if_splits)

lemma vtl_init_can_send:
  assumes "vtl_init E role src dst ifn w = (Inr (Some s), w')" and "role = VTL_SENDER_ROLE \<or> role = VTL_BOTH_ROLE"
    and "malloc_ok E IP_MAXPACKET"
  shows "can_send s"
proof -
  obtain s0 s1 where "open_sender E ifn s0 w = (Some s1, w')" and f: "Inr (Some s) = map_sum id Some (finish_init src dst ifn s1)"
    using assms(1,2) by (auto simp: vtl_init_def Let_def split: if_splits option.splits prod.splits)
  then have "can_send s1" using open_sender_can_send assms(3) by blast
  moreover have "send_pkt s = send_pkt s1"
    using f by (auto simp: finish_init_def split: if_splits option.splits)
  ultimately show ?thesis by (simp add: can_send_def)
qed

text \<open>
  A socket opened for sending can send. After \<open>vtl_init\<close> for the sending or both roles returned a
  socket (and its buffers were allocated), no payload of at most 65491 bytes makes
  \<open>vtl_send_data\<close> write outside the send buffer, whatever the network answers; the call returns 0 or -1, puts at most
  one packet on the wire and leaves a socket for which the same holds.
\<close>

theorem vtl_init_then_send:
  assumes "vtl_init E role src dst ifn w = (Inr (Some s), w')" and "role = VTL_SENDER_ROLE \<or> role = VTL_BOTH_ROLE"
    and "malloc_ok E IP_MAXPACKET" and "length data \<le> 65491"
  shows "\<exists>ret s' out. vtl_send_data N s data = Inr (ret, s', out) \<and> ret \<in> {0, -1} \<and> length out \<le> 1 \<and>
    send_pkt s' \<noteq> None \<and> length (the (send_pkt s')) = IP_MAXPACKET"
  using vtl_send_data_can_send [OF vtl_init_can_send [OF assms(1-3)] assms(4), of N] by (fastforce simp: can_send_def)

definition sample_api_env :: api_env where
  "sample_api_env = sys_env.extend sample_env
     (api_env.fields True (\<lambda>_. True) (rxq sample_ctx) sample_umem)"

theorem vtl_init_then_send_witness:
  "\<exists>s w' ret s' out. vtl_init sample_api_env VTL_SENDER_ROLE ''10.0.0.4'' (Some ''10.0.0.5'') ''eth0'' (sample_maps 3) = (Inr (Some s), w') \<and>
     vtl_send_data loop_env s [1, 2, 3] = Inr (ret, s', out) \<and> ret \<in> {0, -1}"
proof -
  obtain s w' where i: "vtl_init sample_api_env VTL_SENDER_ROLE ''10.0.0.4'' (Some ''10.0.0.5'') ''eth0'' (sample_maps 3) = (Inr (Some s), w')"
    by (simp add: vtl_init_def open_sender_def cbr_create_raw_sock_def cbr_config_raw_sock_def enable_ip4_hdr_gen_def
        bind_raw_sock_to_interface_def finish_init_def sample_api_env_def sample_env_def sys_env.defs api_env.defs
        INET_ADDRSTRLEN_def IF_NAMESIZE_def Let_def)
  have m: "malloc_ok sample_api_env IP_MAXPACKET" by (simp add: sample_api_env_def sys_env.defs api_env.defs)
  have "VTL_SENDER_ROLE = VTL_SENDER_ROLE \<or> VTL_SENDER_ROLE = VTL_BOTH_ROLE" by simp
  from vtl_init_then_send [OF i this m, of "[1, 2, 3]" loop_env] i show ?thesis by auto
qed

section \<open>Negotiating\<close>

lemma vtl_negotiate_returns:
  assumes "send_pkt s = Some p" and "IP4_HDR_LEN + VTL_HDR_SIZE \<le> length p"
  shows "\<exists>r s' out q. vtl_negotiate E N s = Inr (r, s', out) \<and> send_pkt s' = Some q \<and> length q = length p"
proof -
  let ?s = "s\<lparr>vtlh := (vtlh s)\<lparr>h_gid := 10\<rparr>\<rparr>"
  obtain ret s' out q where "api_send N ?s [] = Inr (ret, s', out)" "send_pkt s' = Some q" "length q = length p"
    using api_send_total [of ?s p "[]" N] assms by auto
  then show ?thesis by (simp add: vtl_negotiate_def Let_def)
qed

text \<open>
  No negotiation ever succeeds. The state is read into a pointer that is NULL, so \<open>vtl_negotiate\<close>
  returns -1 whatever the receiver answered (also when \<open>QOS_NEGO_MAP\<close> holds N_ACCEPT); and the socket
  keeps the graft id 10 it asked for.
\<close>

lemma vtl_negotiate_never_succeeds:
  assumes "vtl_negotiate E N s = Inr (r, s', out)"
  shows "r = -1 \<and> h_gid (vtlh s') = 10"
  using assms by (auto simp: vtl_negotiate_def Let_def dest!: api_send_keeps split: sum.splits if_splits)

definition sample_tx_socket :: vtl_socket where
  "sample_tx_socket = zero_socket\<lparr>send_pkt := Some (replicate 100 0), src_ip := ''127.0.0.1'', dst_ip := ''localhost''\<rparr>"

text \<open>
  The byte that is read lands in the low byte of an \<open>int\<close> that starts as -1: the value stays negative.
\<close>

lemma write_low_byte_negative: "sint x < 0 \<Longrightarrow> sint (write_low_byte x v) < 0"
proof -
  assume "sint x < 0"
  then have "bit x 31" using bit_last_iff [of x] by simp
  then have "bit (write_low_byte x v) 31" by (simp add: write_low_byte_def bit_simps)
  then show ?thesis using bit_last_iff [of "write_low_byte x v"] by simp
qed

lemma ucast_write_low_byte: "ucast (write_low_byte x v) = v"
proof -
  have m: "(0xFF :: u32) = mask 8" by (simp add: mask_eq_exp_minus_1)
  show ?thesis unfolding write_low_byte_def m by (rule bit_word_eqI) (auto simp: bit_simps)
qed

lemma poll_graft_id_returns:
  assumes "i \<le> k" and "reads k = Some v" and "v \<noteq> 0x9C" and "sint x < 0"
  shows "\<exists>y. poll_graft_id reads i x = Some y \<and> sint y < 0"
  using assms(1,4)
proof (induction "k - i" arbitrary: i x)
  case 0
  then have "i = k" by simp
  let ?x = "write_low_byte x v"
  have "sint ?x \<noteq> -100"
  proof
    assume "sint ?x = -100"
    then have "word_of_int (sint ?x) = (word_of_int (-100) :: u32)" by simp
    then have "?x = word_of_int (-100)" by simp
    then have "(ucast ?x :: u8) = ucast (word_of_int (-100) :: u32)" by simp
    then show False using assms(3) by (simp add: ucast_write_low_byte)
  qed
  then show ?case
    using write_low_byte_negative [OF "0.prems"(2), of v] \<open>i = k\<close> assms(2) by (simp add: poll_graft_id.simps [of reads k])
next
  case (Suc n)
  let ?x = "case reads i of None \<Rightarrow> x | Some v \<Rightarrow> write_low_byte x v"
  have neg: "sint ?x < 0" using Suc.prems(2) write_low_byte_negative by (simp split: option.split)
  show ?case
  proof (cases "sint ?x = -100")
    case False
    then show ?thesis using neg by (simp add: poll_graft_id.simps [of reads i])
  next
    case True
    have "n = k - Suc i" "Suc i \<le> k" using Suc.hyps(2) by simp_all
    from Suc.hyps(1) [OF this neg] True show ?thesis by (simp add: poll_graft_id.simps [of reads i])
  qed
qed

text \<open>
  Every request for a graft is refused. As soon as the ingress function has stored any graft id
  other than -100, also one that the pool offers, \<open>vtl_validate\<close> returns a negative value and the socket
  answers with NEGO_NACK and graft id 0: the id is read as one byte into an \<open>int\<close> that was -1.
\<close>

theorem vtl_validate_always_refuses:
  assumes "0 \<le> bpf_obj_get E ''/sys/fs/bpf/graftidmap''" and "reads k = Some v" and "v \<noteq> 0x9C"
    and "send_pkt s = Some p" and "IP4_HDR_LEN + VTL_HDR_SIZE \<le> length p"
  shows "\<exists>r s' out. vtl_validate E N reads s = Some (Inr (r, s', out)) \<and> r < 0 \<and>
    h_pkt_type (vtlh s') = NEGO_NACK \<and> h_gid (vtlh s') = 0"
proof -
  obtain y where y: "poll_graft_id reads 0 (word_of_int (-1)) = Some y" "sint y < 0"
    using poll_graft_id_returns [where reads = reads, OF le0 assms(2,3), of "word_of_int (-1)"] by auto
  let ?s = "s\<lparr>vtlh := (vtlh s)\<lparr>h_gid := 0, h_pkt_type := NEGO_NACK\<rparr>\<rparr>"
  obtain ret s' out where a: "api_send N ?s [] = Inr (ret, s', out)"
    using api_send_total [of ?s p "[]" N] assms(4,5) by auto
  have "vtl_validate E N reads s = Some (Inr (sint y, s', out))"
    using assms(1) y a by (simp add: vtl_validate_def Let_def)
  then show ?thesis using y(2) api_send_keeps [OF a] by simp
qed

theorem vtl_validate_always_refuses_witness:
  "\<exists>r s' out. vtl_validate sample_env loop_env (\<lambda>i. if i < 2 then Some 0x9C else Some 10) sample_tx_socket = Some (Inr (r, s', out)) \<and>
     r < 0 \<and> h_pkt_type (vtlh s') = NEGO_NACK"
proof -
  have h: "0 \<le> bpf_obj_get sample_env ''/sys/fs/bpf/graftidmap''" by (simp add: sample_env_def)
  have r: "(\<lambda>i. if i < (2 :: nat) then Some (0x9C :: u8) else Some 10) 2 = Some 10" by simp
  have s: "send_pkt sample_tx_socket = Some (replicate 100 0)" "IP4_HDR_LEN + VTL_HDR_SIZE \<le> length (replicate 100 (0 :: u8))"
    by (simp_all add: sample_tx_socket_def send_consts)
  show ?thesis using vtl_validate_always_refuses [where reads = "\<lambda>i. if i < 2 then Some 0x9C else Some 10", OF h r _ s, of loop_env] by auto
qed

end
