(* ===== verification/Stream_Transfer.thy ===== *)
theory Stream_Transfer
  imports Graft_StopWait Graft_GoBackN Graft_SelectiveRepeat Service_Api
begin

text \<open>
  The components put together. A message given to \<open>vtl_send_data\<close> becomes a packet of the data bearer,
  a run of an egress graft turns it into frames on the link, each of them runs the ingress graft of the
  other host, and what that redirects is processed by the receiving bearer; what it answers comes back as
  a reply. The composition is defined for any pair of grafts; what the grafts of a protocol promise is
  stated as locales, and the streams that reach the application are derived from them:
  here \<open>window_sender\<close> (acknowledged senders that number their packets: go-back-N and selective repeat),
  in later theories \<open>unacked_sender\<close> (the same senders when nothing comes back) and \<open>unnumbered_graft\<close>
  (canonical and stop-and-wait, which leave the sequence number alone).
\<close>

section \<open>Hosts, grafts and the composition\<close>

text \<open>
  A protocol: its egress function (with the frames that arrive during its waits; the result is the state
  of its maps and the frames it sends) and its ingress function.
\<close>

record ('w, 'r) graft =
  g_egress :: "kern \<Rightarrow> (nat \<Rightarrow> bytes list) \<Rightarrow> skb \<Rightarrow> 'w \<Rightarrow> ('w \<times> bytes list) option"
  g_ingress :: "kern \<Rightarrow> bool list \<Rightarrow> nat \<Rightarrow> bytes \<Rightarrow> 'r \<Rightarrow> (xdp_action \<times> bytes \<times> 'r) option"

record ('w, 'r) hosts =
  tx_sock :: vtl_socket
  tx_graft :: 'w
  rx_graft :: 'r
  rx_dbr :: dbr_state
  rx_app :: rx_state

record link =
  l_net :: net_env
  l_kern :: kern
  l_eth :: bytes
  l_ifindex :: u32
  l_xsks :: "bool list"
  l_queue :: nat
  l_args :: rx_args

text \<open>The receiving host takes the frames one by one; the last component of the result are the replies.\<close>

fun receive_frames ::
    "('w, 'r) graft \<Rightarrow> link \<Rightarrow> bytes list \<Rightarrow> 'r \<Rightarrow> dbr_state \<Rightarrow> rx_state \<Rightarrow>
     ('r \<times> dbr_state \<times> rx_state \<times> bytes list) option" where
  "receive_frames G L [] r ds rx = Some (r, ds, rx, [])"
| "receive_frames G L (p # ps) r ds rx =
     (case g_ingress G (l_kern L) (l_xsks L) (l_queue L) p r of
        None \<Rightarrow> None
      | Some (XDP_REDIRECT, q, r1) \<Rightarrow>
          (case process_packet (l_args L) (\<lambda>_. True) q ds rx of
             Inl _ \<Rightarrow> None
           | Inr (_, ds1, rx1) \<Rightarrow> receive_frames G L ps r1 ds1 rx1)
      | Some (XDP_TX, q, r1) \<Rightarrow>
          map_option (\<lambda>(r2, ds2, rx2, qs). (r2, ds2, rx2, q # qs)) (receive_frames G L ps r1 ds rx)
      | Some (_, q, r1) \<Rightarrow> receive_frames G L ps r1 ds rx)"

definition link_skb :: "link \<Rightarrow> bytes \<Rightarrow> skb" where
  "link_skb L pkt = \<lparr>skb_data = l_eth L @ pkt, skb_len = word_of_nat (length (l_eth L @ pkt)), skb_ifindex = l_ifindex L\<rparr>"

definition transfer ::
    "('w, 'r) graft \<Rightarrow> link \<Rightarrow> bytes \<Rightarrow> (nat \<Rightarrow> bytes list) \<Rightarrow> ('w, 'r) hosts \<Rightarrow>
     (('w, 'r) hosts \<times> bytes list) option" where
  "transfer G L data rx h =
     (case vtl_send_data (l_net L) (tx_sock h) data of
        Inr (ret, s', [(pkt, to)]) \<Rightarrow>
          (case g_egress G (l_kern L) rx (link_skb L pkt) (tx_graft h) of
             None \<Rightarrow> None
           | Some (w', fs) \<Rightarrow>
               (case receive_frames G L fs (rx_graft h) (rx_dbr h) (rx_app h) of
                  None \<Rightarrow> None
                | Some (r', ds', app', replies) \<Rightarrow>
                    Some (\<lparr>tx_sock = s', tx_graft = w', rx_graft = r', rx_dbr = ds', rx_app = app'\<rparr>, replies)))
      | _ \<Rightarrow> None)"

text \<open>A sequence of messages, each with the frames that arrive while its egress graft runs.\<close>

fun transfer_all ::
    "('w, 'r) graft \<Rightarrow> link \<Rightarrow> (bytes \<times> (nat \<Rightarrow> bytes list)) list \<Rightarrow> ('w, 'r) hosts \<Rightarrow>
     (('w, 'r) hosts \<times> bytes list) option" where
  "transfer_all G L [] h = Some (h, [])"
| "transfer_all G L ((data, rx) # es) h = do {
     (h1, qs1) \<leftarrow> transfer G L data rx h;
     (h2, qs2) \<leftarrow> transfer_all G L es h1;
     Some (h2, qs1 @ qs2)
   }"

definition gbn_graft :: "(win_maps, u16 list) graft" where
  "gbn_graft = \<lparr>g_egress = (\<lambda>K rx s w. map_option (\<lambda>(a, s', w', c). (w', sent_frames c)) (gbn_egress K rx s w)),
     g_ingress = gbn_ingress\<rparr>"

definition sr_graft :: "(win_maps \<times> u16 list, unit) graft" where
  "sr_graft = \<lparr>g_egress = (\<lambda>K rx s (w, m). map_option (\<lambda>(a, t). ((sr_maps t, ack_pkt_map t), sent_frames (sr_calls t)))
       (sr_egress K rx s w m)),
     g_ingress = (\<lambda>K xsks i p r. map_option (\<lambda>(a, q). (a, q, r)) (sr_ingress K xsks i p))\<rparr>"

definition sw_graft :: "(sock_state list, unit) graft" where
  "sw_graft = \<lparr>g_egress = (\<lambda>K rx s m. map_option (\<lambda>(a, s', m', c). (m', sent_frames c)) (sw_egress rx s m)),
     g_ingress = (\<lambda>K xsks i p r. map_option (\<lambda>(a, q). (a, q, r)) (sw_ingress K xsks i p))\<rparr>"

definition cano_graft :: "(unit, int list) graft" where
  "cano_graft = \<lparr>g_egress = (\<lambda>K rx s u. map_option (\<lambda>(a, s', c). (u, sent_frames c)) (cano_egress s)),
     g_ingress = (\<lambda>K xsks i p m. map_option (\<lambda>(a, m'). (a, p, m')) (cano_ingress K xsks i p m))\<rparr>"

section \<open>What the environment provides\<close>

text \<open>
  The kernel's helpers work, the packets are accepted by the socket layer, the names resolve, and the
  text form of a resolved address resolves to the same address.
\<close>

definition resolves :: "net_env \<Rightarrow> string \<Rightarrow> string \<Rightarrow> bool" where
  "resolves N src dst \<longleftrightarrow>
     (\<exists>addr dst' a b. getaddrinfo N dst = Some addr \<and> inet_ntop N addr = Some dst' \<and>
        inet_pton N src = Some a \<and> inet_pton N dst' = Some b)"

definition link_ok :: "link \<Rightarrow> bool" where
  "link_ok L \<longleftrightarrow> inet_pton_ok (l_net L) \<and> (\<forall>p a. sendto_ok (l_net L) p a) \<and>
     (\<forall>dst addr dst'. getaddrinfo (l_net L) dst = Some addr \<and> inet_ntop (l_net L) addr = Some dst' \<longrightarrow>
        getaddrinfo (l_net L) dst' = Some addr) \<and>
     change_tail_ok (l_kern L) \<and> store_bytes_ok (l_kern L) \<and> k_redirect_map (l_kern L) (l_queue L) = XDP_REDIRECT \<and>
     length (l_eth L) = ETH_LEN \<and> xsk_bound (l_xsks L) (l_queue L) \<and> has_rx (l_args L) \<and> has_vtlh (l_args L)"

lemma link_okD:
  assumes "link_ok L"
  shows "change_tail_ok (l_kern L)" "store_bytes_ok (l_kern L)" "k_redirect_map (l_kern L) (l_queue L) = XDP_REDIRECT"
    "xsk_bound (l_xsks L) (l_queue L)" "has_rx (l_args L)" "has_vtlh (l_args L)"
  using assms by (simp_all add: link_ok_def)

definition can_transmit :: "link \<Rightarrow> vtl_socket \<Rightarrow> bool" where
  "can_transmit L s \<longleftrightarrow> can_send s \<and> resolves (l_net L) (src_ip s) (dst_ip s)"

text \<open>A packet of the data bearer on its way out, and one with a payload that the grafts can carry.\<close>

definition framed :: "bytes \<Rightarrow> skb \<Rightarrow> bool" where
  "framed data s \<longleftrightarrow> vtl_frame (skb_data s) \<and> vtlh_payload_len (skb_data s) = Some (length data) \<and>
     drop VTL_END (skb_data s) = data \<and> length (skb_data s) = VTL_END + length data \<and>
     unat (skb_len s) = length (skb_data s)"

definition outgoing :: "bytes \<Rightarrow> skb \<Rightarrow> bool" where
  "outgoing data s \<longleftrightarrow> framed data s \<and> 0 < length data \<and> length data \<le> VTL_DATA_SIZE"

lemma outgoing_sizes:
  assumes "outgoing data s"
  shows "csum_fits (skb_data s) (length data)" and "length (skb_data s) \<le> ON_WIRE_SIZE"
    and "(word_of_nat (length data) :: u32) = word_of_nat VTL_DATA_SIZE \<longrightarrow> ON_WIRE_SIZE \<le> length (skb_data s)"
proof -
  have p: "length (skb_data s) = VTL_END + length data" "0 < length data" "length data \<le> VTL_DATA_SIZE"
    using assms by (auto simp: outgoing_def framed_def)
  show "csum_fits (skb_data s) (length data)" using p by (simp add: csum_fits_def VTL_END_def)
  show "length (skb_data s) \<le> ON_WIRE_SIZE" using p by (simp add: VTL_END_def VTL_DATA_SIZE_def ON_WIRE_SIZE_def)
  show "(word_of_nat (length data) :: u32) = word_of_nat VTL_DATA_SIZE \<longrightarrow> ON_WIRE_SIZE \<le> length (skb_data s)"
  proof
    assume "(word_of_nat (length data) :: u32) = word_of_nat VTL_DATA_SIZE"
    then have "unat (word_of_nat (length data) :: u32) = unat (word_of_nat VTL_DATA_SIZE :: u32)" by simp
    then have "length data = VTL_DATA_SIZE" using p(3) by (simp add: unat_of_nat VTL_DATA_SIZE_def)
    then show "ON_WIRE_SIZE \<le> length (skb_data s)" using p(1) by (simp add: VTL_END_def VTL_DATA_SIZE_def ON_WIRE_SIZE_def)
  qed
qed

text \<open>A message that fits is sent as exactly one such packet, with the header of the socket.\<close>

lemma vtl_send_data_framed:
  assumes "link_ok L" and "can_transmit L s" and "length data \<le> VTL_DATA_SIZE"
  obtains s' pkt to where "vtl_send_data (l_net L) s data = Inr (0, s', [(pkt, to)])" and "can_transmit L s'"
    and "h_seq_num (vtlh s') = h_seq_num (vtlh s)" and "h_gid (vtlh s') = h_gid (vtlh s)"
    and "framed data (link_skb L pkt)" and "vtlh_seq_num (skb_data (link_skb L pkt)) = Some (unat (h_seq_num (vtlh s)))"
    and "- 128 \<le> h_gid (vtlh s) \<Longrightarrow> h_gid (vtlh s) < 128 \<Longrightarrow> vtlh_gid (skb_data (link_skb L pkt)) = Some (h_gid (vtlh s))"
proof -
  let ?N = "l_net L" and ?h = "(vtlh s)\<lparr>h_payload_len := word_of_nat (length data)\<rparr>"
  obtain p where p: "send_pkt s = Some p" "length p = IP_MAXPACKET"
    using assms(2) by (auto simp: can_transmit_def can_send_def)
  obtain addr dst' a b where r: "getaddrinfo ?N (dst_ip s) = Some addr" "inet_ntop ?N addr = Some dst'"
    "inet_pton ?N (src_ip s) = Some a" "inet_pton ?N dst' = Some b"
    using assms(2) by (auto simp: can_transmit_def resolves_def)
  have n: "inet_pton_ok ?N" "\<And>p a. sendto_ok ?N p a" "length (l_eth L) = ETH_LEN"
    using assms(1) by (simp_all add: link_ok_def)
  have "getaddrinfo ?N dst' = Some addr" using assms(1) r(1,2) unfolding link_ok_def by blast
  then have r': "resolves ?N (src_ip s) dst'" using r by (auto simp: resolves_def)
  have fit: "IP4_HDR_LEN + VTL_HDR_SIZE + length data \<le> length p"
    using p(2) assms(3) by (simp add: send_consts VTL_DATA_SIZE_def)
  obtain pkt buf where "dbr_send ?N p ?h (dst_ip s) (src_ip s) data = Some (0, dst', buf, [(pkt, b)])" "length buf = length p"
    using dbr_send_ok [OF n(1) r fit, of ?h] n(2) fit length_ip4_bytes n(1) r(3,4)
    by (fastforce simp: inet_pton_ok_def)
  then obtain s' where v: "vtl_send_data ?N s data = Inr (0, s', [(pkt, b)])" "can_transmit L s'"
    "vtlh s' = ?h"
    using p r' by (auto simp: vtl_send_data_def api_send_def can_transmit_def can_send_def Let_def)
  obtain src dst c where w: "length src = 4" "length dst = 4"
    "pkt = ip4_bytes (length data) c src dst @ vtl_hdr_bytes ?h @ data"
    by (rule vtl_send_data_wire [OF v(1) n(1)]) blast
  let ?p = "l_eth L @ pkt"
  have e: "?p = l_eth L @ ip4_bytes (length data) c src dst @ vtl_hdr_bytes ?h @ data" using w(3) by simp
  note f = sent_fields [OF n(3) w(1,2) e] and g = sent_gid [OF n(3) w(1,2) e]
  have "unat (word_of_nat (length data) :: u64) = length data"
    by (rule unat_word_of_nat_u64) (use assms(3) in \<open>simp add: VTL_DATA_SIZE_def\<close>)
  moreover have "unat (word_of_nat (length ?p) :: u32) = length ?p"
    by (rule unat_word_of_nat_u32) (use f(6) assms(3) in \<open>simp add: VTL_DATA_SIZE_def VTL_END_def\<close>)
  then have "unat (skb_len (link_skb L pkt)) = length (skb_data (link_skb L pkt))"
    by (simp add: link_skb_def del: length_append of_nat_add)
  moreover have "skb_data (link_skb L pkt) = ?p" by (simp add: link_skb_def)
  ultimately have "framed data (link_skb L pkt)"
    unfolding framed_def using f assms(3) by (simp del: length_append drop_append)
  then show thesis using that [OF v(1,2)] v(3) f(4) g by (simp add: link_skb_def)
qed

lemma vtl_send_data_outgoing:
  assumes "link_ok L" and "can_transmit L s" and "0 < length data" and "length data \<le> VTL_DATA_SIZE"
  obtains s' pkt to where "vtl_send_data (l_net L) s data = Inr (0, s', [(pkt, to)])" and "can_transmit L s'"
    and "h_seq_num (vtlh s') = h_seq_num (vtlh s)" and "h_gid (vtlh s') = h_gid (vtlh s)"
    and "outgoing data (link_skb L pkt)" and "vtlh_seq_num (skb_data (link_skb L pkt)) = Some (unat (h_seq_num (vtlh s)))"
    and "- 128 \<le> h_gid (vtlh s) \<Longrightarrow> h_gid (vtlh s) < 128 \<Longrightarrow> vtlh_gid (skb_data (link_skb L pkt)) = Some (h_gid (vtlh s))"
  by (rule vtl_send_data_framed [OF assms(1,2,4)]) (use assms(3,4) that in \<open>auto simp: outgoing_def\<close>)

section \<open>The receiving bearer in step\<close>

text \<open>\<open>k\<close> packets with the payload \<open>X\<close> altogether were delivered, and nothing waits in the reorder buffer.\<close>

definition synced :: "nat \<Rightarrow> bytes \<Rightarrow> dbr_state \<Rightarrow> rx_state \<Rightarrow> bool" where
  "synced k X ds rx \<longleftrightarrow> next_num ds = k mod WIN_SIZE \<and> length (stored ds) = WIN_SIZE \<and> (\<forall>j<WIN_SIZE. \<not> stored ds ! j) \<and>
     rx_data rx = X \<and> cnt_pkts rx = word_of_nat k"

definition no_data :: rx_state where
  "no_data = \<lparr>rx_data = [], cnt_pkts = 0, cnt_bytes = 0\<rparr>"

lemma synced_init: "synced 0 [] dbr_init no_data"
  by (simp add: synced_def dbr_init_def no_data_def)

lemma process_packet_next:
  assumes "synced k X ds rx" and "VTL_END \<le> length p" and "vtlh_seq_num p = Some (k mod WIN_SIZE)"
    and "has_rx args" and "has_vtlh args" and "length (X @ drop VTL_END p) \<le> rx_cap args"
  shows "\<exists>ds' rx'. process_packet args calloc_ok p ds rx = Inr (True, ds', rx') \<and> synced (Suc k) (X @ drop VTL_END p) ds' rx' \<and>
    length (sr_buff ds') = length (sr_buff ds)"
proof -
  let ?rx = "rx\<lparr>rx_data := rx_data rx @ drop VTL_END p, cnt_pkts := cnt_pkts rx + 1,
    cnt_bytes := cnt_bytes rx + word_of_nat (length p - VTL_END)\<rparr>"
  have s: "next_num ds = k mod WIN_SIZE" "\<not> stored ds ! (Suc k mod WIN_SIZE)" "rx_data rx = X" "cnt_pkts rx = word_of_nat k"
    using assms(1) by (auto simp: synced_def)
  have j: "(next_num ds + 1) mod WIN_SIZE = Suc k mod WIN_SIZE" using s(1) by (simp add: mod_Suc_eq)
  have "dbr_purge (rx_cap args) (word_of_nat (length p - VTL_END)) (Suc k mod WIN_SIZE) ds ?rx = Inr (Suc k mod WIN_SIZE, ds, ?rx)"
    using s(2) by (intro dbr_purge_cases(1)) simp
  then have "process_packet args calloc_ok p ds rx = Inr (True, ds\<lparr>next_num := Suc k mod WIN_SIZE\<rparr>, ?rx)"
    using assms(2-6) s(1,3) j unfolding process_packet_def Let_def by simp
  then show ?thesis using assms(1) s by (simp add: synced_def)
qed

section \<open>Numbered packets\<close>

text \<open>\<open>p\<close> is a sealed frame with the sequence number of packet \<open>k\<close>.\<close>

definition numbered :: "nat \<Rightarrow> bytes \<Rightarrow> bool" where
  "numbered k p \<longleftrightarrow> sealed p \<and> vtlh_seq_num p = Some (k mod WIN_SIZE)"

lemma numbered_length: "numbered k p \<Longrightarrow> VTL_END \<le> length p"
  by (simp add: numbered_def sealed_def vtl_frame_def)

lemma numbered_mod: "k mod WIN_SIZE = j mod WIN_SIZE \<Longrightarrow> numbered k p \<longleftrightarrow> numbered j p"
  by (simp add: numbered_def)

text \<open>
  A receiver that expects the packets in order (or does not look at the order): the frame of the packet
  it expects is redirected unchanged, if it is of a size that the receiver admits.
\<close>

locale in_order_receiver =
  fixes G :: "('w, 'r) graft" and expects :: "nat \<Rightarrow> 'r \<Rightarrow> bool" and admits :: "bytes \<Rightarrow> bool"
  assumes accepts: "expects k r \<Longrightarrow> numbered k p \<Longrightarrow> admits p \<Longrightarrow> xsk_bound xsks i \<Longrightarrow>
    \<exists>r'. g_ingress G K xsks i p r = Some (k_redirect_map K i, p, r') \<and> expects (Suc k) r'"
begin

lemma receive_stream:
  assumes "link_ok L" and "expects k r" and "synced k X ds rx"
    and "list_all2 numbered [k..<k + length ps] ps" and "\<forall>p\<in>set ps. admits p"
    and "length (X @ concat (map (drop VTL_END) ps)) \<le> rx_cap (l_args L)"
  shows "\<exists>r' ds' rx'. receive_frames G L ps r ds rx = Some (r', ds', rx', []) \<and> expects (k + length ps) r' \<and>
    synced (k + length ps) (X @ concat (map (drop VTL_END) ps)) ds' rx'"
  using assms(2-6)
proof (induction ps arbitrary: k r X ds rx)
  case Nil
  then show ?case by simp
next
  case (Cons p ps)
  have n: "numbered k p" "list_all2 numbered [Suc k..<Suc k + length ps] ps" "admits p"
    using Cons.prems(3,4) by (simp_all add: upt_conv_Cons del: upt_Suc)
  obtain r1 where r1: "g_ingress G (l_kern L) (l_xsks L) (l_queue L) p r = Some (XDP_REDIRECT, p, r1)" "expects (Suc k) r1"
    using accepts [OF Cons.prems(1) n(1,3) link_okD(4) [OF assms(1)]] link_okD(3) [OF assms(1)] by metis
  obtain ds1 rx1 where p1: "process_packet (l_args L) (\<lambda>_. True) p ds rx = Inr (True, ds1, rx1)"
    "synced (Suc k) (X @ drop VTL_END p) ds1 rx1"
    using process_packet_next [OF Cons.prems(2) numbered_length [OF n(1)], of "l_args L" "\<lambda>_. True"] n(1) Cons.prems(5)
      link_okD(5,6) [OF assms(1)] by (auto simp: numbered_def)
  show ?case
    using Cons.IH [OF r1(2) p1(2) n(2)] Cons.prems(4,5) r1(1) p1(1) by simp
qed

end

text \<open>
  A sender of numbered packets that leave once: \<open>acked m rx\<close> tells for which messages and with which frames
  during the waits (acknowledgements in time). \<open>ready k\<close> are the states after \<open>k\<close> packets.
\<close>

locale window_sender = in_order_receiver G expects admits
  for G :: "('w, 'r) graft" and expects :: "nat \<Rightarrow> 'r \<Rightarrow> bool" and admits :: "bytes \<Rightarrow> bool" +
  fixes ready :: "nat \<Rightarrow> 'w \<Rightarrow> bool" and acked :: "bytes \<Rightarrow> (nat \<Rightarrow> bytes list) \<Rightarrow> bool"
  assumes sends: "ready k w \<Longrightarrow> acked data rx \<Longrightarrow> change_tail_ok K \<Longrightarrow> store_bytes_ok K \<Longrightarrow> outgoing data s \<Longrightarrow>
    \<exists>w' p. g_egress G K rx s w = Some (w', [p]) \<and> ready (Suc k) w' \<and> numbered k p \<and> admits p \<and> drop VTL_END p = data"
begin

definition in_step :: "link \<Rightarrow> nat \<Rightarrow> bytes \<Rightarrow> ('w, 'r) hosts \<Rightarrow> bool" where
  "in_step L k X h \<longleftrightarrow> can_transmit L (tx_sock h) \<and> ready k (tx_graft h) \<and> expects k (rx_graft h) \<and>
     synced k X (rx_dbr h) (rx_app h)"

lemma transfer_step:
  assumes "link_ok L" and "in_step L k X h" and "acked data rx" and "0 < length data" and "length data \<le> VTL_DATA_SIZE"
    and "length (X @ data) \<le> rx_cap (l_args L)"
  shows "\<exists>h'. transfer G L data rx h = Some (h', []) \<and> in_step L (Suc k) (X @ data) h'"
proof -
  have h: "can_transmit L (tx_sock h)" "ready k (tx_graft h)" "expects k (rx_graft h)" "synced k X (rx_dbr h) (rx_app h)"
    using assms(2) by (simp_all add: in_step_def)
  obtain s' pkt to where v: "vtl_send_data (l_net L) (tx_sock h) data = Inr (0, s', [(pkt, to)])" "can_transmit L s'"
    "outgoing data (link_skb L pkt)"
    by (rule vtl_send_data_outgoing [OF assms(1) h(1) assms(4,5)]) blast
  obtain w' p where p: "g_egress G (l_kern L) rx (link_skb L pkt) (tx_graft h) = Some (w', [p])" "ready (Suc k) w'"
    "numbered k p" "admits p" "drop VTL_END p = data"
    using sends [OF h(2) assms(3) link_okD(1,2) [OF assms(1)] v(3)] by blast
  show ?thesis
    using receive_stream [OF assms(1) h(3,4), of "[p]"] p assms(6) v by (auto simp: transfer_def in_step_def)
qed

lemma transfer_all_steps:
  assumes "link_ok L" and "in_step L k X h"
    and "\<forall>(m, rx)\<in>set es. 0 < length m \<and> length m \<le> VTL_DATA_SIZE \<and> acked m rx"
    and "length (X @ concat (map fst es)) \<le> rx_cap (l_args L)"
  shows "\<exists>h'. transfer_all G L es h = Some (h', []) \<and> in_step L (k + length es) (X @ concat (map fst es)) h'"
  using assms(2-4)
proof (induction es arbitrary: k X h)
  case Nil
  then show ?case by simp
next
  case (Cons e es)
  obtain m rx where e: "e = (m, rx)" by (cases e)
  have m: "0 < length m" "length m \<le> VTL_DATA_SIZE" "acked m rx" "length (X @ m) \<le> rx_cap (l_args L)"
    using Cons.prems(2,3) e by auto
  obtain h1 where h1: "transfer G L m rx h = Some (h1, [])" "in_step L (Suc k) (X @ m) h1"
    using transfer_step [OF assms(1) Cons.prems(1) m(3,1,2,4)] by blast
  show ?case using Cons.IH [OF h1(2)] Cons.prems(2,3) h1(1) e by auto
qed

text \<open>From an idle receiver, the whole stream arrives, once and in order.\<close>

lemma transfer_delivers:
  assumes "link_ok L" and "can_transmit L (tx_sock h)" and "ready 0 (tx_graft h)" and "expects 0 (rx_graft h)"
    and "rx_dbr h = dbr_init" and "rx_app h = no_data"
    and "\<forall>(m, rx)\<in>set es. 0 < length m \<and> length m \<le> VTL_DATA_SIZE \<and> acked m rx"
    and "length (concat (map fst es)) \<le> rx_cap (l_args L)"
  shows "\<exists>h'. transfer_all G L es h = Some (h', []) \<and> rx_data (rx_app h') = concat (map fst es) \<and>
    cnt_pkts (rx_app h') = word_of_nat (length es)"
  using transfer_all_steps [OF assms(1) _ assms(7), of 0 "[]" h] assms(2-6,8) synced_init
  by (auto simp: in_step_def synced_def)

end

section \<open>Go-back-N and selective repeat, acknowledged\<close>

text \<open>During the first wait every slot of the window is acknowledged and no NACK arrives.\<close>

definition timely :: "(nat \<Rightarrow> bytes list) \<Rightarrow> bool" where
  "timely rx \<longleftrightarrow> (\<forall>p\<in>set (rx 0). vtl_frame p \<longrightarrow> \<not> is_nack p) \<and>
     (\<forall>j<WND_SIZE. \<exists>p\<in>set (rx 0). vtl_frame p \<and> seq_slot p = j)"

definition win_ready :: "nat \<Rightarrow> win_maps \<Rightarrow> bool" where
  "win_ready k w \<longleftrightarrow> win_ok w \<and> num_seq_map w = [word_of_nat (k mod WIN_SIZE)]"

lemma unat_mod_win: "unat (word_of_nat (k mod WIN_SIZE) :: u16) = k mod WIN_SIZE"
  by (rule unat_word_of_nat_u16) (simp add: WIN_SIZE_def order_less_trans [OF mod_less_divisor])

lemma next_seq_step: "next_seq (word_of_nat (k mod WIN_SIZE)) = word_of_nat (Suc k mod WIN_SIZE)"
proof -
  have "unat (next_seq (word_of_nat (k mod WIN_SIZE))) = Suc k mod WIN_SIZE"
    using unat_next_seq [of "word_of_nat (k mod WIN_SIZE)"] unat_mod_win [of k]
    by (simp add: WIN_SIZE_def WND_SIZE_def mod_Suc_eq)
  then show ?thesis using unat_mod_win [of "Suc k"] by (simp add: word_unat_eq_iff)
qed

text \<open>The first transmission of a packet of the data bearer by any of the windowed egress grafts.\<close>

lemma win_sends:
  assumes "win_ready k w" and "change_tail_ok K" and "outgoing data s"
  obtains t where "win_send_first K ev s w = Some (Inr t)" and "win_ready (Suc k) (tx_maps t)"
    and "numbered k (skb_data (tx_skb t))" and "drop VTL_END (skb_data (tx_skb t)) = data"
    and "sent_frames (tx_calls t) = [skb_data (tx_skb t)]" and "tx_id t = k mod WIN_SIZE"
    and "vtlh_payload_len (skb_data (tx_skb t)) = Some (length data)"
proof -
  have w: "win_ok w" "num_seq_map w ! 0 = word_of_nat (k mod WIN_SIZE)" using assms(1) by (simp_all add: win_ready_def)
  note o = outgoing_sizes [OF assms(3)]
  have f: "vtl_frame (skb_data s)" "vtlh_payload_len (skb_data s) = Some (length data)" "drop VTL_END (skb_data s) = data"
    "unat (skb_len s) = length (skb_data s)"
    using assms(3) by (simp_all add: outgoing_def framed_def)
  obtain t where t: "win_send_first K ev s w = Some (Inr t)"
    by (rule win_send_first_sends [OF w(1) assms(2) f(1,2) o(1,3)]) blast
  note g = win_send_first_frame [OF w(1) assms(2) t f(4) o(2)] and e = win_first [OF w(1) t]
  obtain calls d plen where "tx_calls t = calls @ [CloneRedirect (skb_ifindex (tx_skb t) + 1) (tx_skb t)]"
    "win_save K (s\<lparr>skb_data := d\<rparr>) (w\<lparr>ack_wnd := (ack_wnd w)[unat (num_seq_map w ! 0) := (ack_wnd w ! unat (num_seq_map w ! 0))\<lparr>event := ev\<rparr>]\<rparr>)
       (unat (num_seq_map w ! 0)) (ucast (skb_len s)) plen =
     Inr (tx_skb t, (tx_maps t)\<lparr>num_seq_map := num_seq_map w\<rparr>, calls, tx_save_len t)"
    by (rule win_send_first_Inr [OF w(1) t]) blast
  then have c: "sent_frames (tx_calls t) = [skb_data (tx_skb t)]" by (simp add: win_save_sends)
  have r: "win_ready (Suc k) (tx_maps t)" using e(1,7) w(2) next_seq_step [of k] by (simp add: win_ready_def)
  have n: "numbered k (skb_data (tx_skb t))" using g(1,2) w(2) unat_mod_win [of k] by (simp add: numbered_def)
  show thesis by (rule that [OF t r n _ c]) (use g(7-9) f(2,3) w(2) unat_mod_win [of k] in simp_all)
qed

definition gbn_expects :: "nat \<Rightarrow> u16 list \<Rightarrow> bool" where
  "gbn_expects k r \<longleftrightarrow> r = [word_of_nat (k mod WIN_SIZE)]"

lemma gbn_accepts:
  assumes "gbn_expects k r" and "numbered k p" and "xsk_bound xsks i"
  shows "\<exists>r'. g_ingress gbn_graft K xsks i p r = Some (k_redirect_map K i, p, r') \<and> gbn_expects (Suc k) r'"
proof -
  have p: "vtl_frame p" "vtlh_seq_num p = Some (k mod WIN_SIZE)" using assms(2) by (auto simp: numbered_def sealed_def)
  obtain q where q: "make_nack p = Some q" using safe_make_nack [OF p(1)] by (auto elim: safeE)
  obtain plen where "vtlh_payload_len p = Some plen" "csum_fits p plen"
    "vtlh_checksum p = Some (unat (xor_bytes (covered p plen)))"
    using assms(2) by (auto simp: numbered_def sealed_def)
  then show ?thesis
    using gbn_ingress_frame [OF p(1) _ _ p(2) q, of plen _ K xsks i "word_of_nat (k mod WIN_SIZE)"] assms(1,3)
      unat_mod_win [of k] next_seq_step [of k]
    by (simp add: gbn_graft_def gbn_expects_def)
qed

lemma gbn_sends_once:
  assumes "win_ready k w" and "timely rx" and "change_tail_ok K" and "store_bytes_ok K" and "outgoing data s"
  shows "\<exists>w' p. g_egress gbn_graft K rx s w = Some (w', [p]) \<and> win_ready (Suc k) w' \<and> numbered k p \<and> drop VTL_END p = data"
proof -
  obtain t where t: "gbn_send_first K s w = Some (Inr t)" "win_ready (Suc k) (tx_maps t)"
    "numbered k (skb_data (tx_skb t))" "drop VTL_END (skb_data (tx_skb t)) = data"
    "sent_frames (tx_calls t) = [skb_data (tx_skb t)]" "tx_id t = k mod WIN_SIZE"
    unfolding gbn_send_first_def by (rule win_sends [OF assms(1,3,5)]) blast
  let ?m = "run_listener gbn_listener (rx 0) (ack_wnd (tx_maps t))"
  have w: "win_ok (tx_maps t)" "tx_id t < WND_SIZE" using t(2,6) by (simp_all add: win_ready_def WIN_SIZE_def WND_SIZE_def)
  have "event (?m ! j) = RECV_ACK" if "j \<le> tx_id t" for j
    using gbn.run_acks [of "rx 0" j "ack_wnd (tx_maps t)"] assms(2) w that by (simp add: timely_def win_ok_def)
  then have gap: "first_gap ?m (tx_id t) 0 = None"
    unfolding first_gap_def find_None_iff by (auto simp del: upt_Suc)
  have tx: "(0 :: nat) < RETX_MAX" by (simp add: RETX_MAX_def)
  have "gbn_loop K rx (tx_last_len t) (tx_id t) 0 0 (tx_skb t) (tx_maps t) = (tx_skb t, (tx_maps t)\<lparr>ack_wnd := ?m\<rparr>, [StartTimer 10])"
    using gbn_loop_round [OF w tx, of K rx "tx_last_len t" 0 "tx_skb t"] gap by simp
  moreover have "win_ready (Suc k) ((tx_maps t)\<lparr>ack_wnd := ?m\<rparr>)"
    using t(2) win_ok_ack [OF w(1), of "rx 0"] by (simp add: win_ready_def)
  ultimately show ?thesis using t by (cases "win_flush t") (simp_all add: gbn_graft_def gbn_egress_def)
qed

interpretation gbn_acked: window_sender gbn_graft gbn_expects "\<lambda>_. True" win_ready "\<lambda>_. timely"
  by unfold_locales (use gbn_accepts gbn_sends_once in blast)+

definition sr_ready :: "nat \<Rightarrow> win_maps \<times> u16 list \<Rightarrow> bool" where
  "sr_ready k = (\<lambda>(w, m). win_ready k w \<and> length m = 1)"

lemma sr_accepts:
  assumes "numbered k p" and "xsk_bound xsks i"
  shows "g_ingress sr_graft K xsks i p r = Some (k_redirect_map K i, p, r)"
proof -
  have p: "vtl_frame p" using assms(1) by (simp add: numbered_def sealed_def)
  obtain q where q: "make_nack p = Some q" using safe_make_nack [OF p] by (auto elim: safeE)
  obtain plen where "vtlh_payload_len p = Some plen" "csum_fits p plen"
    "vtlh_checksum p = Some (unat (xor_bytes (covered p plen)))"
    using assms(1) by (auto simp: numbered_def sealed_def)
  then show ?thesis using sr_ingress_frame [OF p _ _ q, of plen _ K xsks i] assms(2) by (simp add: sr_graft_def)
qed

lemma sr_sends_once:
  assumes "sr_ready k wm" and "timely rx" and "change_tail_ok K" and "store_bytes_ok K" and "outgoing data s"
  shows "\<exists>w' p. g_egress sr_graft K rx s wm = Some (w', [p]) \<and> sr_ready (Suc k) w' \<and> numbered k p \<and> drop VTL_END p = data"
proof -
  obtain w m where wm: "wm = (w, m)" "win_ready k w" "length m = 1" using assms(1) by (auto simp: sr_ready_def)
  obtain t where t: "sr_send_first K s w = Some (Inr t)" "win_ready (Suc k) (tx_maps t)"
    "numbered k (skb_data (tx_skb t))" "drop VTL_END (skb_data (tx_skb t)) = data"
    "sent_frames (tx_calls t) = [skb_data (tx_skb t)]" "tx_id t = k mod WIN_SIZE"
    unfolding sr_send_first_def by (rule win_sends [OF wm(2) assms(3,5)]) blast
  let ?t = "\<lparr>sr_skb = tx_skb t, sr_maps = tx_maps t, ack_pkt_map = [0], sr_out = False, sr_calls = tx_calls t\<rparr>"
  have w: "win_ok (sr_maps ?t)" "tx_id t < WND_SIZE" using t(2,6) by (simp_all add: win_ready_def WIN_SIZE_def WND_SIZE_def)
  have "event (run_listener sr_listener (rx 0) (ack_wnd (sr_maps ?t)) ! j) = RECV_ACK" if "j \<le> tx_id t" for j
    using sr.run_acks [of "rx 0" j "ack_wnd (tx_maps t)"] assms(2) w that by (simp add: timely_def win_ok_def)
  then obtain t' cs where "sr_loop K rx (tx_last_len t) (tx_id t) 0 ?t = (TC_ACT_SHOT, t')" "sr_calls t' = tx_calls t @ cs"
    "sent_frames cs = []" "win_ok (sr_maps t')" "num_seq_map (sr_maps t') = num_seq_map (tx_maps t)" "length (ack_pkt_map t') = 1"
    using sr_loop_acked [OF assms(3,4) w, of rx "tx_last_len t"] by auto
  then show ?thesis
    using t wm sr_egress_flush [OF t(1) _ wm(3), of rx]
    by (cases "win_flush t") (simp_all add: sr_graft_def sr_egress_def sr_ready_def win_ready_def)
qed

interpretation sr_acked: window_sender sr_graft "\<lambda>k r. True" "\<lambda>_. True" sr_ready "\<lambda>_. timely"
  by unfold_locales (use sr_accepts sr_sends_once in blast)+

section \<open>Delivery\<close>



section \<open>Instances\<close>

definition sample_link :: link where
  "sample_link = \<lparr>l_net = loop_env, l_kern = strict_kern, l_eth = replicate 14 0, l_ifindex = 3, l_xsks = [True],
     l_queue = 0, l_args = dbr_args\<rparr>"

definition ready_socket :: vtl_socket where
  "ready_socket = zero_socket\<lparr>send_pkt := Some (replicate IP_MAXPACKET 0), src_ip := ''127.0.0.1'', dst_ip := ''localhost''\<rparr>"

definition sample_hosts :: "'w \<Rightarrow> 'r \<Rightarrow> ('w, 'r) hosts" where
  "sample_hosts w r = \<lparr>tx_sock = ready_socket, tx_graft = w, rx_graft = r, rx_dbr = dbr_init, rx_app = no_data\<rparr>"

lemma sample_hosts_simps [simp]:
  "tx_sock (sample_hosts w r) = ready_socket" "tx_graft (sample_hosts w r) = w" "rx_graft (sample_hosts w r) = r"
  "rx_dbr (sample_hosts w r) = dbr_init" "rx_app (sample_hosts w r) = no_data"
  by (simp_all add: sample_hosts_def)

lemma sample_link_ok: "link_ok sample_link"
proof -
  have "k_redirect_map strict_kern 0 = XDP_REDIRECT" "xsk_bound [True] 0" "has_rx dbr_args" "has_vtlh dbr_args" by code_simp+
  then show ?thesis
    using loop_env_ok strict_kern_ok by (simp add: link_ok_def sample_link_def ETH_LEN_def loop_env_def)
qed

lemma resolves_loop_env: "resolves loop_env src dst"
  by (simp add: resolves_def loop_env_def)

lemma ready_socket_can_transmit: "can_transmit sample_link ready_socket"
  using resolves_loop_env by (simp add: can_transmit_def can_send_def ready_socket_def sample_link_def)

lemma sample_maps_start: "win_ok (sample_maps 0)" "num_seq_map (sample_maps 0) = [0]"
  by (simp_all add: sample_maps_ok) (simp add: sample_maps_def)

text \<open>An acknowledgement for every slot.\<close>

definition ack_burst :: "nat \<Rightarrow> bytes list" where
  "ack_burst n = map (\<lambda>j. sample_frame j []) [0..<16]"

lemma sample_acks:
  assumes "j < 16"
  shows "vtl_frame (sample_frame j []) \<and> \<not> is_nack (sample_frame j []) \<and> seq_slot (sample_frame j []) = j"
proof -
  have "\<forall>j\<in>set [0..<16]. vtl_frame (sample_frame j []) \<and> \<not> is_nack (sample_frame j []) \<and> seq_slot (sample_frame j []) = j"
    by code_simp
  then show ?thesis using assms unfolding set_upt by (metis atLeastLessThan_iff zero_le)
qed

lemma timely_ack_burst: "timely ack_burst"
  using sample_acks by (auto simp: timely_def ack_burst_def WND_SIZE_def simp del: upt_rec_numeral upt_Suc)

lemma sample_messages:
  "\<forall>(m, rx)\<in>set [([1, 2, 3], ack_burst), ([4], ack_burst)]. 0 < length m \<and> length m \<le> VTL_DATA_SIZE \<and> timely rx"
  "length (concat (map fst [([1, 2, 3 :: u8], ack_burst), ([4], ack_burst)])) \<le> rx_cap (l_args sample_link)"
  using timely_ack_burst by (simp_all add: VTL_DATA_SIZE_def sample_link_def dbr_args_def)



end
