(* ===== verification/Stream_Unacked.thy ===== *)
theory Stream_Unacked
  imports Stream_Transfer
begin

text \<open>
  Transfers without acknowledgements. None of the ingress grafts ever sends an ACK (their only answers are
  NACKs), so this is how the window senders run against their own peers: the locale \<open>unacked_sender\<close>
  and its interpretations for go-back-N and selective repeat give what the application receives.
\<close>

section \<open>Go-back-N and selective repeat, never acknowledged\<close>

text \<open>The frames of a window repeated are numbered like a longer stream: the window is as long as the cycle of numbers.\<close>

lemma numbered_shift: "list_all2 numbered [0..<length ps] ps \<Longrightarrow> b mod WIN_SIZE = 0 \<Longrightarrow> list_all2 numbered [b..<b + length ps] ps"
proof -
  assume a: "list_all2 numbered [0..<length ps] ps" and b: "b mod WIN_SIZE = 0"
  have "(b + i) mod WIN_SIZE = i mod WIN_SIZE" for i using b by (metis add_0 mod_add_left_eq)
  then show ?thesis using a by (auto simp: list_all2_conv_all_nth numbered_def)
qed

lemma numbered_repeat:
  assumes "list_all2 numbered [0..<length W] W" and "length W = WIN_SIZE" and "b mod WIN_SIZE = 0"
  shows "list_all2 numbered [b..<b + n * WIN_SIZE] (concat (replicate n W))"
  using assms(3)
proof (induction n arbitrary: b)
  case 0
  then show ?case by simp
next
  case (Suc n)
  have "(b + WIN_SIZE) mod WIN_SIZE = 0" using Suc.prems by simp
  from Suc.IH [OF this] have "list_all2 numbered [b + WIN_SIZE..<b + WIN_SIZE + n * WIN_SIZE] (concat (replicate n W))" .
  moreover have "[b..<b + Suc n * WIN_SIZE] = [b..<b + WIN_SIZE] @ [b + WIN_SIZE..<b + WIN_SIZE + n * WIN_SIZE]"
    using upt_add_eq_append [of b "b + WIN_SIZE" "n * WIN_SIZE"] by (simp add: add.assoc)
  ultimately show ?case
    using numbered_shift [OF assms(1) Suc.prems] assms(2) by (simp add: list_all2_appendI)
qed

lemma length_concat_replicate: "length (concat (replicate n xs)) = n * length xs"
  by (induction n) simp_all

lemma map_concat_replicate: "map f (concat (replicate n xs)) = concat (replicate n (map f xs))"
  by (induction n) simp_all

lemma concat_concat_replicate: "concat (concat (replicate n xs)) = concat (replicate n (concat xs))"
  by (induction n) simp_all

lemma transfer_all_append:
  "transfer_all G L (es @ fs) h = do {
     (h1, qs1) \<leftarrow> transfer_all G L es h;
     (h2, qs2) \<leftarrow> transfer_all G L fs h1;
     Some (h2, qs1 @ qs2)
   }"
proof (induction es arbitrary: h)
  case Nil
  then show ?case by (auto split: Option.bind_splits)
next
  case (Cons e es)
  then show ?case by (cases e) (auto split: Option.bind_splits)
qed

text \<open>
  A sender of packets of full size that hears nothing that helps it (\<open>unheard\<close>): it sends each packet once
  while the window fills up (\<open>holds ps\<close>: the frames \<open>ps\<close> are in the window), and with the last one it
  resends the window until the limit.
\<close>

locale unacked_sender = in_order_receiver G expects "\<lambda>_. True"
  for G :: "('w, 'r) graft" and expects :: "nat \<Rightarrow> 'r \<Rightarrow> bool" +
  fixes holds :: "bytes list \<Rightarrow> 'w \<Rightarrow> bool" and unheard :: "(nat \<Rightarrow> bytes list) \<Rightarrow> bool"
  assumes fills: "holds ps w \<Longrightarrow> Suc (length ps) < WIN_SIZE \<Longrightarrow> unheard rx \<Longrightarrow> change_tail_ok K \<Longrightarrow> store_bytes_ok K \<Longrightarrow>
      outgoing data s \<Longrightarrow> length data = VTL_DATA_SIZE \<Longrightarrow>
      \<exists>w' p. g_egress G K rx s w = Some (w', [p]) \<and> holds (ps @ [p]) w' \<and> numbered (length ps) p \<and> drop VTL_END p = data"
    and flushes: "holds ps w \<Longrightarrow> Suc (length ps) = WIN_SIZE \<Longrightarrow> unheard rx \<Longrightarrow> change_tail_ok K \<Longrightarrow> store_bytes_ok K \<Longrightarrow>
      outgoing data s \<Longrightarrow> length data = VTL_DATA_SIZE \<Longrightarrow>
      \<exists>w' p. g_egress G K rx s w = Some (w', p # concat (replicate RETX_MAX (ps @ [p]))) \<and> holds [] w' \<and>
        numbered (length ps) p \<and> drop VTL_END p = data"
begin

definition filling :: "link \<Rightarrow> nat \<Rightarrow> bytes \<Rightarrow> bytes list \<Rightarrow> ('w, 'r) hosts \<Rightarrow> bool" where
  "filling L b X ps h \<longleftrightarrow> can_transmit L (tx_sock h) \<and> holds ps (tx_graft h) \<and> expects (b + length ps) (rx_graft h) \<and>
     synced (b + length ps) X (rx_dbr h) (rx_app h) \<and> list_all2 numbered [0..<length ps] ps \<and> b mod WIN_SIZE = 0"

lemma fill_step:
  assumes "link_ok L" and "filling L b X ps h" and "Suc (length ps) < WIN_SIZE" and "unheard rx"
    and "length data = VTL_DATA_SIZE" and "length (X @ data) \<le> rx_cap (l_args L)"
  shows "\<exists>h' p. transfer G L data rx h = Some (h', []) \<and> filling L b (X @ data) (ps @ [p]) h' \<and> drop VTL_END p = data"
proof -
  have h: "can_transmit L (tx_sock h)" "holds ps (tx_graft h)" "expects (b + length ps) (rx_graft h)"
    "synced (b + length ps) X (rx_dbr h) (rx_app h)" "list_all2 numbered [0..<length ps] ps" "b mod WIN_SIZE = 0"
    using assms(2) by (simp_all add: filling_def)
  have d: "0 < length data" "length data \<le> VTL_DATA_SIZE" using assms(5) by (simp_all add: VTL_DATA_SIZE_def)
  obtain s' pkt to where v: "vtl_send_data (l_net L) (tx_sock h) data = Inr (0, s', [(pkt, to)])" "can_transmit L s'"
    "outgoing data (link_skb L pkt)"
    by (rule vtl_send_data_outgoing [OF assms(1) h(1) d]) blast
  obtain w' p where p: "g_egress G (l_kern L) rx (link_skb L pkt) (tx_graft h) = Some (w', [p])" "holds (ps @ [p]) w'"
    "numbered (length ps) p" "drop VTL_END p = data"
    using fills [OF h(2) assms(3,4) link_okD(1,2) [OF assms(1)] v(3) assms(5)] by blast
  have "(b + length ps) mod WIN_SIZE = length ps mod WIN_SIZE" using h(6) by (metis add_0 mod_add_left_eq)
  then have n: "numbered (b + length ps) p" using p(3) by (simp add: numbered_def)
  have a: "list_all2 numbered [0..<length (ps @ [p])] (ps @ [p])" using h(5) p(3) by (simp add: list_all2_appendI)
  show ?thesis
    using receive_stream [OF assms(1) h(3,4), of "[p]"] n p(1,2,4) assms(6) v h(6) a
    by (auto simp: transfer_def filling_def)
qed

lemma fill_steps:
  assumes "link_ok L" and "filling L b X ps h" and "length ps + length es < WIN_SIZE"
    and "\<forall>(m, rx)\<in>set es. length m = VTL_DATA_SIZE \<and> unheard rx"
    and "length (X @ concat (map fst es)) \<le> rx_cap (l_args L)"
  shows "\<exists>h' qs. transfer_all G L es h = Some (h', []) \<and> filling L b (X @ concat (map fst es)) (ps @ qs) h' \<and>
    map (drop VTL_END) qs = map fst es"
  using assms(2-5)
proof (induction es arbitrary: X ps h)
  case Nil
  then show ?case by simp
next
  case (Cons e es)
  obtain m rx where e: "e = (m, rx)" by (cases e)
  have m: "length m = VTL_DATA_SIZE" "unheard rx" "length (X @ m) \<le> rx_cap (l_args L)" "Suc (length ps) < WIN_SIZE"
    using Cons.prems(2-4) e by auto
  obtain h1 p where h1: "transfer G L m rx h = Some (h1, [])" "filling L b (X @ m) (ps @ [p]) h1" "drop VTL_END p = m"
    using fill_step [OF assms(1) Cons.prems(1) m(4,2,1,3)] by blast
  obtain h' qs where "transfer_all G L es h1 = Some (h', [])" "filling L b ((X @ m) @ concat (map fst es)) ((ps @ [p]) @ qs) h'"
    "map (drop VTL_END) qs = map fst es"
    using Cons.IH [OF h1(2)] Cons.prems(2-4) e by auto
  then show ?case using h1(1,3) e by (intro exI [of _ h'] exI [of _ "p # qs"]) simp
qed

text \<open>The packet that fills the window: all of the window is sent, and delivered, ten times more.\<close>

lemma flush_step:
  assumes "link_ok L" and "filling L b X ps h" and "Suc (length ps) = WIN_SIZE" and "unheard rx"
    and "length data = VTL_DATA_SIZE" and "W = concat (map (drop VTL_END) ps @ [data])"
    and "length (X @ data @ concat (replicate RETX_MAX W)) \<le> rx_cap (l_args L)"
  shows "\<exists>h'. transfer G L data rx h = Some (h', []) \<and>
    filling L (b + Suc RETX_MAX * WIN_SIZE) (X @ data @ concat (replicate RETX_MAX W)) [] h'"
proof -
  have h: "can_transmit L (tx_sock h)" "holds ps (tx_graft h)" "expects (b + length ps) (rx_graft h)"
    "synced (b + length ps) X (rx_dbr h) (rx_app h)" "list_all2 numbered [0..<length ps] ps" "b mod WIN_SIZE = 0"
    using assms(2) by (simp_all add: filling_def)
  have d: "0 < length data" "length data \<le> VTL_DATA_SIZE" using assms(5) by (simp_all add: VTL_DATA_SIZE_def)
  obtain s' pkt to where v: "vtl_send_data (l_net L) (tx_sock h) data = Inr (0, s', [(pkt, to)])" "can_transmit L s'"
    "outgoing data (link_skb L pkt)"
    by (rule vtl_send_data_outgoing [OF assms(1) h(1) d]) blast
  obtain w' p where p: "g_egress G (l_kern L) rx (link_skb L pkt) (tx_graft h) = Some (w', p # concat (replicate RETX_MAX (ps @ [p])))"
    "holds [] w'" "numbered (length ps) p" "drop VTL_END p = data"
    using flushes [OF h(2) assms(3,4) link_okD(1,2) [OF assms(1)] v(3) assms(5)] by blast
  let ?W = "ps @ [p]" and ?k = "b + length ps"
  let ?fs = "p # concat (replicate RETX_MAX ?W)"
  have a: "list_all2 numbered [0..<length ?W] ?W" using h(5) p(3) by (simp add: list_all2_appendI)
  have l: "length ?W = WIN_SIZE" using assms(3) by simp
  have "?k mod WIN_SIZE = length ps mod WIN_SIZE" using h(6) by (metis add_0 mod_add_left_eq)
  then have n: "numbered ?k p" using p(3) by (simp add: numbered_def)
  have k: "Suc ?k = b + WIN_SIZE" using assms(3) by simp
  have "Suc ?k mod WIN_SIZE = 0" unfolding k using h(6) by simp
  from numbered_repeat [OF a l this]
  have r: "list_all2 numbered [Suc ?k..<Suc ?k + RETX_MAX * WIN_SIZE] (concat (replicate RETX_MAX ?W))" .
  have lf: "length ?fs = Suc (RETX_MAX * WIN_SIZE)" using l by (simp add: length_concat_replicate)
  then have nf: "list_all2 numbered [?k..<?k + length ?fs] ?fs" using n r by (simp add: upt_conv_Cons del: upt_Suc)
  have e: "concat (map (drop VTL_END) ?fs) = data @ concat (replicate RETX_MAX W)"
    using p(4) assms(6) by (simp add: map_concat_replicate concat_concat_replicate)
  have t: "?k + length ?fs = b + Suc RETX_MAX * WIN_SIZE" using lf k by simp
  obtain r' ds' rx' where "receive_frames G L ?fs (rx_graft h) (rx_dbr h) (rx_app h) = Some (r', ds', rx', [])"
    "expects (b + Suc RETX_MAX * WIN_SIZE) r'"
    "synced (b + Suc RETX_MAX * WIN_SIZE) (X @ data @ concat (replicate RETX_MAX W)) ds' rx'"
    using receive_stream [OF assms(1) h(3,4) nf] assms(7) unfolding e t by blast
  moreover have "(b + Suc RETX_MAX * WIN_SIZE) mod WIN_SIZE = 0" using h(6) by (metis mod_mult_self1 mult.commute)
  ultimately show ?thesis using p(1,2) v by (simp add: transfer_def filling_def)
qed

lemma window_step:
  assumes "link_ok L" and "filling L b X [] h" and "length es = WIN_SIZE"
    and "\<forall>(m, rx)\<in>set es. length m = VTL_DATA_SIZE \<and> unheard rx"
    and "length (X @ concat (replicate (Suc RETX_MAX) (concat (map fst es)))) \<le> rx_cap (l_args L)"
  shows "\<exists>h'. transfer_all G L es h = Some (h', []) \<and>
    filling L (b + Suc RETX_MAX * WIN_SIZE) (X @ concat (replicate (Suc RETX_MAX) (concat (map fst es)))) [] h'"
proof -
  obtain es' m rx where es: "es = es' @ [(m, rx)]" using assms(3) by (cases es rule: rev_cases) (auto simp: WIN_SIZE_def)
  have m: "length m = VTL_DATA_SIZE" "unheard rx" "length es' < WIN_SIZE" "Suc (length es') = WIN_SIZE"
    using assms(3,4) es by auto
  have "length (X @ concat (map fst es')) \<le> rx_cap (l_args L)" using assms(5) es by simp
  then obtain h1 qs where h1: "transfer_all G L es' h = Some (h1, [])" "filling L b (X @ concat (map fst es')) qs h1"
    "map (drop VTL_END) qs = map fst es'"
    using fill_steps [OF assms(1,2), of es'] m(3) assms(4) es by auto
  have q: "Suc (length qs) = WIN_SIZE" "concat (map fst es) = concat (map (drop VTL_END) qs @ [m])"
    using map_eq_imp_length_eq [OF h1(3)] m(4) es h1(3) by simp_all
  have x: "X @ concat (replicate (Suc RETX_MAX) (concat (map fst es))) =
      (X @ concat (map fst es')) @ m @ concat (replicate RETX_MAX (concat (map fst es)))" using es by simp
  obtain h' where "transfer G L m rx h1 = Some (h', [])"
    "filling L (b + Suc RETX_MAX * WIN_SIZE) ((X @ concat (map fst es')) @ m @ concat (replicate RETX_MAX (concat (map fst es)))) [] h'"
    using flush_step [OF assms(1) h1(2) q(1) m(2,1) q(2)] assms(5) unfolding x by blast
  then show ?thesis using h1(1) es unfolding x by (auto simp: transfer_all_append)
qed

text \<open>Any number of full windows.\<close>

lemma windows_repeated:
  assumes "link_ok L" and "filling L b X [] h"
    and "\<forall>W\<in>set Ws. length W = WIN_SIZE \<and> (\<forall>(m, rx)\<in>set W. length m = VTL_DATA_SIZE \<and> unheard rx)"
    and "length (X @ concat (map (\<lambda>W. concat (replicate (Suc RETX_MAX) (concat (map fst W)))) Ws)) \<le> rx_cap (l_args L)"
  shows "\<exists>h'. transfer_all G L (concat Ws) h = Some (h', []) \<and>
    filling L (b + length Ws * (Suc RETX_MAX * WIN_SIZE))
      (X @ concat (map (\<lambda>W. concat (replicate (Suc RETX_MAX) (concat (map fst W)))) Ws)) [] h'"
  using assms(2-4)
proof (induction Ws arbitrary: b X h)
  case Nil
  then show ?case by simp
next
  case (Cons W Ws)
  let ?W = "concat (replicate (Suc RETX_MAX) (concat (map fst W)))"
  have "length (X @ ?W) \<le> rx_cap (l_args L)" using Cons.prems(3) by (simp del: replicate_Suc)
  then obtain h1 where h1: "transfer_all G L W h = Some (h1, [])" "filling L (b + Suc RETX_MAX * WIN_SIZE) (X @ ?W) [] h1"
    using window_step [OF assms(1) Cons.prems(1), of W] Cons.prems(2) by auto
  obtain h' where "transfer_all G L (concat Ws) h1 = Some (h', [])"
    "filling L (b + Suc RETX_MAX * WIN_SIZE + length Ws * (Suc RETX_MAX * WIN_SIZE))
      ((X @ ?W) @ concat (map (\<lambda>W. concat (replicate (Suc RETX_MAX) (concat (map fst W)))) Ws)) [] h'"
    using Cons.IH [OF h1(2)] Cons.prems(2,3) by (auto simp del: replicate_Suc)
  then show ?case using h1(1) by (simp add: transfer_all_append add.assoc del: replicate_Suc)
qed

lemma transfer_repeats:
  assumes "link_ok L" and "can_transmit L (tx_sock h)" and "holds [] (tx_graft h)" and "expects 0 (rx_graft h)"
    and "rx_dbr h = dbr_init" and "rx_app h = no_data"
    and "\<forall>W\<in>set Ws. length W = WIN_SIZE \<and> (\<forall>(m, rx)\<in>set W. length m = VTL_DATA_SIZE \<and> unheard rx)"
    and "length (concat (map (\<lambda>W. concat (replicate (Suc RETX_MAX) (concat (map fst W)))) Ws)) \<le> rx_cap (l_args L)"
  shows "\<exists>h'. transfer_all G L (concat Ws) h = Some (h', []) \<and>
    rx_data (rx_app h') = concat (map (\<lambda>W. concat (replicate (Suc RETX_MAX) (concat (map fst W)))) Ws)"
proof -
  have "filling L 0 [] [] h" using assms(2-6) synced_init by (simp add: filling_def)
  from windows_repeated [OF assms(1) this assms(7)] assms(8) show ?thesis by (auto simp: filling_def synced_def)
qed

end

text \<open>The frames \<open>ps\<close> are saved, with the event that a sent packet has until it is acknowledged.\<close>

definition saved :: "int \<Rightarrow> bytes list \<Rightarrow> win_maps \<Rightarrow> bool" where
  "saved ev ps w \<longleftrightarrow> length ps < WIN_SIZE \<and> win_ready (length ps) w \<and>
     (\<forall>i<length ps. full_slot w i \<and> buf_wnd w ! i = ps ! i \<and> event (ack_wnd w ! i) = ev)"

lemma saved_Nil: "saved ev [] w \<longleftrightarrow> win_ready 0 w"
  by (simp add: saved_def WIN_SIZE_def)

lemma win_sends_full:
  assumes "saved ev ps w" and "change_tail_ok K" and "outgoing data s" and "length data = VTL_DATA_SIZE"
  obtains t where "win_send_first K ev s w = Some (Inr t)" and "numbered (length ps) (skb_data (tx_skb t))"
    and "drop VTL_END (skb_data (tx_skb t)) = data" and "sent_frames (tx_calls t) = [skb_data (tx_skb t)]"
    and "tx_id t = length ps" and "win_flush t \<longleftrightarrow> Suc (length ps) = WIN_SIZE" and "win_ready (Suc (length ps)) (tx_maps t)"
    and "\<And>i. i \<le> length ps \<Longrightarrow> full_slot (tx_maps t) i \<and> buf_wnd (tx_maps t) ! i = (ps @ [skb_data (tx_skb t)]) ! i \<and>
      event (ack_wnd (tx_maps t) ! i) = ev"
proof -
  have w: "length ps < WIN_SIZE" "win_ready (length ps) w" "win_ok w" using assms(1) by (simp_all add: saved_def win_ready_def)
  obtain t where t: "win_send_first K ev s w = Some (Inr t)" "win_ready (Suc (length ps)) (tx_maps t)"
    "numbered (length ps) (skb_data (tx_skb t))" "drop VTL_END (skb_data (tx_skb t)) = data"
    "sent_frames (tx_calls t) = [skb_data (tx_skb t)]" "tx_id t = length ps mod WIN_SIZE"
    by (rule win_sends [OF w(2) assms(2,3)]) blast
  have i: "tx_id t = length ps" using t(6) w(1) by simp
  have l: "unat (skb_len s) = ON_WIRE_SIZE" "length (skb_data s) = ON_WIRE_SIZE"
    using assms(3,4) by (simp_all add: outgoing_def framed_def VTL_END_def VTL_DATA_SIZE_def ON_WIRE_SIZE_def)
  note f = win_send_first_full [OF w(3) t(1) assms(2) l] and e = win_first(6) [OF w(3) t(1)]
  have fl: "win_flush t \<longleftrightarrow> Suc (length ps) = WIN_SIZE" using f(3) i by (auto simp: win_flush_def WND_SIZE_def WIN_SIZE_def)
  have a: "length ps < length (ack_wnd w)" using w(1,3) by (simp add: win_ok_def WIN_SIZE_def WND_SIZE_def)
  have "full_slot (tx_maps t) j \<and> buf_wnd (tx_maps t) ! j = (ps @ [skb_data (tx_skb t)]) ! j \<and> event (ack_wnd (tx_maps t) ! j) = ev"
    if "j \<le> length ps" for j
  proof (cases "j = length ps")
    case True
    then show ?thesis using f(1,2) e i a by simp
  next
    case False
    then have "full_slot w j" "buf_wnd w ! j = ps ! j" "event (ack_wnd w ! j) = ev" using that assms(1) by (simp_all add: saved_def)
    moreover from this(1) have "full_slot (tx_maps t) j" using f(4) [of j] i False by (simp add: full_slot_def)
    ultimately show ?thesis using f(4) [of j] e i that False by (simp add: nth_append)
  qed
  then show thesis using that t i fl by blast
qed

lemma saved_snoc:
  assumes "Suc (length ps) < WIN_SIZE" and "win_ready (Suc (length ps)) w"
    and "\<And>i. i \<le> length ps \<Longrightarrow> full_slot w i \<and> buf_wnd w ! i = (ps @ [p]) ! i \<and> event (ack_wnd w ! i) = ev"
  shows "saved ev (ps @ [p]) w"
  using assms by (simp add: saved_def less_Suc_eq_le)

lemma window_buffers:
  "(\<And>i. i \<le> length ps \<Longrightarrow> buf_wnd w ! i = (ps @ [p]) ! i) \<Longrightarrow> map ((!) (buf_wnd w)) [0..<Suc (length ps)] = ps @ [p]"
  by (rule nth_equalityI) (auto simp del: upt_Suc)

lemma win_ready_wrap: "win_ready (Suc n) w \<Longrightarrow> Suc n = WIN_SIZE \<Longrightarrow> win_ready 0 w"
  by (simp add: win_ready_def)

definition only_nacks :: "(nat \<Rightarrow> bytes list) \<Rightarrow> bool" where
  "only_nacks rx \<longleftrightarrow> (\<forall>n. \<forall>p\<in>set (rx n). vtl_frame p \<longrightarrow> is_nack p)"

lemma gbn_fills:
  assumes "saved IDLE ps w" and "Suc (length ps) < WIN_SIZE" and "change_tail_ok K" and "outgoing data s" and "length data = VTL_DATA_SIZE"
  shows "\<exists>w' p. g_egress gbn_graft K rx s w = Some (w', [p]) \<and> saved IDLE (ps @ [p]) w' \<and> numbered (length ps) p \<and> drop VTL_END p = data"
proof -
  obtain t where t: "win_send_first K IDLE s w = Some (Inr t)" "numbered (length ps) (skb_data (tx_skb t))"
    "drop VTL_END (skb_data (tx_skb t)) = data" "sent_frames (tx_calls t) = [skb_data (tx_skb t)]" "tx_id t = length ps"
    "win_flush t \<longleftrightarrow> Suc (length ps) = WIN_SIZE" "win_ready (Suc (length ps)) (tx_maps t)"
    "\<And>i. i \<le> length ps \<Longrightarrow> full_slot (tx_maps t) i \<and> buf_wnd (tx_maps t) ! i = (ps @ [skb_data (tx_skb t)]) ! i \<and>
      event (ack_wnd (tx_maps t) ! i) = IDLE"
    by (rule win_sends_full [OF assms(1,3-5)]) blast
  have "saved IDLE (ps @ [skb_data (tx_skb t)]) (tx_maps t)" by (rule saved_snoc [OF assms(2) t(7,8)])
  then show ?thesis using t assms(2) by (simp add: gbn_graft_def gbn_egress_def gbn_send_first_def)
qed

lemma gbn_flushes:
  assumes "saved IDLE ps w" and "Suc (length ps) = WIN_SIZE" and "only_nacks rx" and "change_tail_ok K" and "store_bytes_ok K"
    and "outgoing data s" and "length data = VTL_DATA_SIZE"
  shows "\<exists>w' p. g_egress gbn_graft K rx s w = Some (w', p # concat (replicate RETX_MAX (ps @ [p]))) \<and> saved IDLE [] w' \<and>
    numbered (length ps) p \<and> drop VTL_END p = data"
proof -
  obtain t where t: "win_send_first K IDLE s w = Some (Inr t)" "numbered (length ps) (skb_data (tx_skb t))"
    "drop VTL_END (skb_data (tx_skb t)) = data" "sent_frames (tx_calls t) = [skb_data (tx_skb t)]" "tx_id t = length ps"
    "win_flush t \<longleftrightarrow> Suc (length ps) = WIN_SIZE" "win_ready (Suc (length ps)) (tx_maps t)"
    and b: "\<And>i. i \<le> length ps \<Longrightarrow> full_slot (tx_maps t) i \<and> buf_wnd (tx_maps t) ! i = (ps @ [skb_data (tx_skb t)]) ! i \<and>
      event (ack_wnd (tx_maps t) ! i) = IDLE"
    by (rule win_sends_full [OF assms(1,4,6,7)]) blast
  have w: "win_ok (tx_maps t)" "tx_id t < WND_SIZE" "event (ack_wnd (tx_maps t) ! 0) \<noteq> RECV_ACK"
    using t(5,7) assms(2) b [of 0] by (simp_all add: win_ready_def WIN_SIZE_def WND_SIZE_def event_defs)
  obtain s' w' c where g: "gbn_loop K rx (tx_last_len t) (tx_id t) 0 0 (tx_skb t) (tx_maps t) = (s', w', c)"
    "sent_frames c = concat (replicate (RETX_MAX - 0) (map ((!) (buf_wnd (tx_maps t))) [0..<Suc (tx_id t)]))"
    "win_ok w'" "num_seq_map w' = num_seq_map (tx_maps t)"
    using gbn_loop_unacked [OF assms(4,5) w(1,2) _ _ w(3), of 0 rx "tx_last_len t" "tx_skb t"] b t(5) assms(3)
    by (auto simp: only_nacks_def)
  have "saved IDLE [] w'"
    using win_ready_wrap [OF t(7) assms(2)] g(3,4) by (simp add: saved_Nil win_ready_def)
  moreover have "map ((!) (buf_wnd (tx_maps t))) [0..<Suc (tx_id t)] = ps @ [skb_data (tx_skb t)]"
    unfolding t(5) by (rule window_buffers) (use b in blast)
  ultimately show ?thesis
    using t(1-4,6) assms(2) g(1,2) by (simp add: gbn_graft_def gbn_egress_def gbn_send_first_def)
qed

interpretation gbn_unacked: unacked_sender gbn_graft gbn_expects "saved IDLE" only_nacks
  by unfold_locales (rule gbn_fills gbn_flushes; assumption)+

definition silent :: "(nat \<Rightarrow> bytes list) \<Rightarrow> bool" where
  "silent rx \<longleftrightarrow> (\<forall>n. \<forall>p\<in>set (rx n). \<not> vtl_frame p)"

definition sr_saved :: "bytes list \<Rightarrow> win_maps \<times> u16 list \<Rightarrow> bool" where
  "sr_saved ps = (\<lambda>(w, m). saved TIMEOUT ps w \<and> length m = 1)"

lemma sr_fills:
  assumes "sr_saved ps wm" and "Suc (length ps) < WIN_SIZE" and "change_tail_ok K" and "outgoing data s" and "length data = VTL_DATA_SIZE"
  shows "\<exists>w' p. g_egress sr_graft K rx s wm = Some (w', [p]) \<and> sr_saved (ps @ [p]) w' \<and> numbered (length ps) p \<and> drop VTL_END p = data"
proof -
  obtain w m where wm: "wm = (w, m)" "saved TIMEOUT ps w" "length m = 1" using assms(1) by (auto simp: sr_saved_def)
  obtain t where t: "win_send_first K TIMEOUT s w = Some (Inr t)" "numbered (length ps) (skb_data (tx_skb t))"
    "drop VTL_END (skb_data (tx_skb t)) = data" "sent_frames (tx_calls t) = [skb_data (tx_skb t)]" "tx_id t = length ps"
    "win_flush t \<longleftrightarrow> Suc (length ps) = WIN_SIZE" "win_ready (Suc (length ps)) (tx_maps t)"
    "\<And>i. i \<le> length ps \<Longrightarrow> full_slot (tx_maps t) i \<and> buf_wnd (tx_maps t) ! i = (ps @ [skb_data (tx_skb t)]) ! i \<and>
      event (ack_wnd (tx_maps t) ! i) = TIMEOUT"
    by (rule win_sends_full [OF wm(2) assms(3-5)]) blast
  have "saved TIMEOUT (ps @ [skb_data (tx_skb t)]) (tx_maps t)" by (rule saved_snoc [OF assms(2) t(7,8)])
  then show ?thesis using t wm assms(2) by (simp add: sr_graft_def sr_egress_def sr_send_first_def sr_saved_def)
qed

lemma sr_flushes:
  assumes "sr_saved ps wm" and "Suc (length ps) = WIN_SIZE" and "silent rx" and "change_tail_ok K" and "store_bytes_ok K"
    and "outgoing data s" and "length data = VTL_DATA_SIZE"
  shows "\<exists>w' p. g_egress sr_graft K rx s wm = Some (w', p # concat (replicate RETX_MAX (ps @ [p]))) \<and> sr_saved [] w' \<and>
    numbered (length ps) p \<and> drop VTL_END p = data"
proof -
  obtain w m where wm: "wm = (w, m)" "saved TIMEOUT ps w" "length m = 1" using assms(1) by (auto simp: sr_saved_def)
  obtain t where t: "win_send_first K TIMEOUT s w = Some (Inr t)" "numbered (length ps) (skb_data (tx_skb t))"
    "drop VTL_END (skb_data (tx_skb t)) = data" "sent_frames (tx_calls t) = [skb_data (tx_skb t)]" "tx_id t = length ps"
    "win_flush t \<longleftrightarrow> Suc (length ps) = WIN_SIZE" "win_ready (Suc (length ps)) (tx_maps t)"
    and b: "\<And>i. i \<le> length ps \<Longrightarrow> full_slot (tx_maps t) i \<and> buf_wnd (tx_maps t) ! i = (ps @ [skb_data (tx_skb t)]) ! i \<and>
      event (ack_wnd (tx_maps t) ! i) = TIMEOUT"
    by (rule win_sends_full [OF wm(2) assms(4,6,7)]) blast
  let ?t = "\<lparr>sr_skb = tx_skb t, sr_maps = tx_maps t, ack_pkt_map = [0], sr_out = False, sr_calls = tx_calls t\<rparr>"
  have w: "win_ok (sr_maps ?t)" "tx_id t < WND_SIZE" using t(5,7) assms(2) by (simp_all add: win_ready_def WIN_SIZE_def WND_SIZE_def)
  obtain t' cs where g: "sr_loop K rx (tx_last_len t) (tx_id t) 0 ?t = (TC_ACT_SHOT, t')" "sr_calls t' = tx_calls t @ cs"
    "sent_frames cs = concat (replicate (RETX_MAX - 0) (map ((!) (buf_wnd (tx_maps t))) [0..<Suc (tx_id t)]))"
    "sr_maps t' = tx_maps t" "ack_pkt_map t' = [0]"
    using sr_loop_silent [OF assms(4,5) w, of 0 rx "tx_last_len t"] b t(5) assms(3) by (auto simp: silent_def)
  have "saved TIMEOUT [] (tx_maps t)" using win_ready_wrap [OF t(7) assms(2)] by (simp add: saved_Nil)
  moreover have "map ((!) (buf_wnd (tx_maps t))) [0..<Suc (tx_id t)] = ps @ [skb_data (tx_skb t)]"
    unfolding t(5) by (rule window_buffers) (use b in blast)
  ultimately show ?thesis
    using t(2-4,6) assms(2) g wm sr_egress_flush [OF t(1) [folded sr_send_first_def] _ wm(3), of rx]
    by (simp add: sr_graft_def sr_saved_def)
qed

interpretation sr_unacked: unacked_sender sr_graft "\<lambda>k r. True" sr_saved silent
  by unfold_locales (rule sr_fills sr_flushes; assumption)+

section \<open>Go-back-N with short messages\<close>

definition short_ready :: "nat \<Rightarrow> win_maps \<Rightarrow> bool" where
  "short_ready k w \<longleftrightarrow> win_ready k w \<and> (\<forall>i<k mod WIN_SIZE. unat (len_wnd w ! i) < ON_WIRE_SIZE)"

text \<open>A short packet leaves as one or more equal frames, whatever arrives during the waits.\<close>

lemma short_first:
  assumes "short_ready k w" and "change_tail_ok K" and "outgoing data s" and "length data < VTL_DATA_SIZE"
  obtains t where "win_send_first K ev s w = Some (Inr t)" and "win_flush t" and "numbered k (skb_data (tx_skb t))"
    and "drop VTL_END (skb_data (tx_skb t)) = data" and "sent_frames (tx_calls t) = [skb_data (tx_skb t)]"
    and "win_ok (tx_maps t)" and "tx_id t < WND_SIZE" and "\<And>i. i \<le> tx_id t \<Longrightarrow> unat (len_wnd (tx_maps t) ! i) < ON_WIRE_SIZE"
    and "length (skb_data (tx_skb t)) < ON_WIRE_SIZE" and "unat (tx_last_len t) = length (skb_data (tx_skb t))"
    and "\<And>w'. win_ok w' \<Longrightarrow> num_seq_map w' = num_seq_map (tx_maps t) \<Longrightarrow> len_wnd w' = len_wnd (tx_maps t) \<Longrightarrow> short_ready (Suc k) w'"
    and "vtlh_payload_len (skb_data (tx_skb t)) = Some (length data)"
proof -
  have w: "win_ready k w" "win_ok w" using assms(1) by (simp_all add: short_ready_def win_ready_def)
  obtain t where t: "win_send_first K ev s w = Some (Inr t)" "win_ready (Suc k) (tx_maps t)"
    "numbered k (skb_data (tx_skb t))" "drop VTL_END (skb_data (tx_skb t)) = data"
    "sent_frames (tx_calls t) = [skb_data (tx_skb t)]" "tx_id t = k mod WIN_SIZE"
    "vtlh_payload_len (skb_data (tx_skb t)) = Some (length data)"
    by (rule win_sends [OF w(1) assms(2,3)]) blast
  have s: "unat (skb_len s) = length (skb_data s)" "length (skb_data s) < ON_WIRE_SIZE" "vtlh_payload_len (skb_data s) = Some (length data)"
    using assms(3,4) by (simp_all add: outgoing_def framed_def VTL_END_def VTL_DATA_SIZE_def ON_WIRE_SIZE_def)
  note f = win_send_first_short [OF w(2) t(1) assms(2) s assms(4)]
  have l: "length (skb_data (tx_skb t)) = length (skb_data s)"
    by (rule win_send_first_frame(3) [OF w(2) assms(2) t(1) s(1) less_imp_le [OF s(2)]])
  have len: "unat (len_wnd (tx_maps t) ! i) < ON_WIRE_SIZE" if "i \<le> tx_id t" for i
    using f(1) f(4) [of i] assms(1) that t(6) by (cases "i = tx_id t") (auto simp: short_ready_def)
  have i: "win_ok (tx_maps t)" "tx_id t < WND_SIZE" using t(2,6) by (simp_all add: win_ready_def WIN_SIZE_def WND_SIZE_def)
  have "short_ready (Suc k) w'" if "win_ok w'" "num_seq_map w' = num_seq_map (tx_maps t)" "len_wnd w' = len_wnd (tx_maps t)" for w'
  proof -
    have "unat (len_wnd w' ! j) < ON_WIRE_SIZE" if j: "j < Suc k mod WIN_SIZE" for j
      using len [of j] \<open>len_wnd w' = len_wnd (tx_maps t)\<close> j t(6) by (simp add: mod_Suc split: if_splits)
    then show ?thesis using that(1,2) t(2) by (simp add: short_ready_def win_ready_def)
  qed
  then show thesis using that [OF t(1) f(3) t(3-5) i len] l s(2) f(2) t(7) by metis
qed

lemma gbn_short_copies:
  assumes "short_ready k w" and "change_tail_ok K" and "store_rejects K" and "outgoing data s" and "length data < VTL_DATA_SIZE"
  shows "\<exists>w' n p. g_egress gbn_graft K rx s w = Some (w', replicate (Suc n) p) \<and> short_ready (Suc k) w' \<and> numbered k p \<and>
    drop VTL_END p = data \<and> vtlh_payload_len p = Some (length data)"
proof -
  obtain t where t: "gbn_send_first K s w = Some (Inr t)" "win_flush t" "numbered k (skb_data (tx_skb t))"
    "drop VTL_END (skb_data (tx_skb t)) = data" "sent_frames (tx_calls t) = [skb_data (tx_skb t)]"
    "win_ok (tx_maps t)" "tx_id t < WND_SIZE" "\<And>i. i \<le> tx_id t \<Longrightarrow> unat (len_wnd (tx_maps t) ! i) < ON_WIRE_SIZE"
    "length (skb_data (tx_skb t)) < ON_WIRE_SIZE" "unat (tx_last_len t) = length (skb_data (tx_skb t))"
    "\<And>w'. win_ok w' \<Longrightarrow> num_seq_map w' = num_seq_map (tx_maps t) \<Longrightarrow> len_wnd w' = len_wnd (tx_maps t) \<Longrightarrow> short_ready (Suc k) w'"
    "vtlh_payload_len (skb_data (tx_skb t)) = Some (length data)"
    unfolding gbn_send_first_def by (rule short_first [OF assms(1,2,4,5)]) blast
  obtain s' w' c n where g: "gbn_loop K rx (tx_last_len t) (tx_id t) 0 0 (tx_skb t) (tx_maps t) = (s', w', c)"
    "sent_frames c = replicate n (skb_data (tx_skb t))" "win_ok w'" "num_seq_map w' = num_seq_map (tx_maps t)"
    "len_wnd w' = len_wnd (tx_maps t)"
    using gbn_loop_short [OF assms(2,3) t(6,7) _ t(8-10), of 0 rx 0] by auto
  have "g_egress gbn_graft K rx s w = Some (w', replicate (Suc n) (skb_data (tx_skb t)))"
    using t(1,2,5) g(1,2) by (simp add: gbn_graft_def gbn_egress_def)
  then show ?thesis using t(3,4,12) t(11) [OF g(3-5)] by blast
qed

text \<open>A frame with another number than the expected one is answered with a NACK, as often as it comes.\<close>

lemma gbn_rejects:
  assumes "adjust_tail_ok (l_kern L)" and "gbn_expects j r" and "numbered k p" and "k mod WIN_SIZE \<noteq> j mod WIN_SIZE"
    and "drop VTL_END p = data" and "vtlh_payload_len p = Some (length data)" and "length data \<le> VTL_DATA_SIZE"
  shows "\<exists>qs. receive_frames gbn_graft L (replicate n p) r ds rx = Some (r, ds, rx, qs) \<and> (\<forall>q\<in>set qs. is_nack q)"
proof -
  have p: "vtl_frame p" "csum_fits p (length data)" "vtlh_seq_num p = Some (k mod WIN_SIZE)"
    using assms(3,6) by (auto simp: numbered_def sealed_def)
  have l: "VTL_END + length data \<le> length p" using assms(5) numbered_length [OF assms(3)] by auto
  have ne: "\<not> (intact p \<and> k mod WIN_SIZE = unat (word_of_nat (j mod WIN_SIZE) :: u16))" using assms(4) unat_mod_win [of j] by simp
  obtain q where q: "gbn_ingress (l_kern L) (l_xsks L) (l_queue L) p r = Some (XDP_TX, q, r)" "is_nack q"
    using gbn_nack [OF assms(1) p(1) assms(6) p(2) l assms(7) p(3) ne] assms(2) unfolding gbn_expects_def by blast
  have i: "g_ingress gbn_graft (l_kern L) (l_xsks L) (l_queue L) p r = Some (XDP_TX, q, r)" using q(1) by (simp add: gbn_graft_def)
  have "receive_frames gbn_graft L (replicate n p) r ds rx = Some (r, ds, rx, replicate n q)"
    by (induction n) (simp_all add: i)
  then show ?thesis using q(2) by auto
qed

text \<open>
  A sender with number \<open>k\<close> against a receiver that expects number \<open>j\<close>, less than a window ahead: what is
  sent before the numbers meet is lost, everything after is delivered once.
\<close>

lemma gbn_short_step:
  assumes "link_ok L" and "adjust_tail_ok (l_kern L)" and "store_rejects (l_kern L)"
    and "can_transmit L (tx_sock h)" and "short_ready k (tx_graft h)" and "gbn_expects j (rx_graft h)"
    and "synced j X (rx_dbr h) (rx_app h)" and "k \<le> j" and "j < k + WIN_SIZE" and "0 < length data" and "length data < VTL_DATA_SIZE"
    and "length (X @ data) \<le> rx_cap (l_args L)"
  shows "\<exists>h' qs. transfer gbn_graft L data rx h = Some (h', qs) \<and> (\<forall>q\<in>set qs. is_nack q) \<and>
    can_transmit L (tx_sock h') \<and> short_ready (Suc k) (tx_graft h') \<and>
    (if k = j then gbn_expects (Suc j) (rx_graft h') \<and> synced (Suc j) (X @ data) (rx_dbr h') (rx_app h')
     else gbn_expects j (rx_graft h') \<and> synced j X (rx_dbr h') (rx_app h'))"
proof -
  obtain s' pkt to where v: "vtl_send_data (l_net L) (tx_sock h) data = Inr (0, s', [(pkt, to)])" "can_transmit L s'"
    "outgoing data (link_skb L pkt)"
    by (rule vtl_send_data_outgoing [OF assms(1,4,10) less_imp_le [OF assms(11)]]) blast
  obtain w' n p where e: "g_egress gbn_graft (l_kern L) rx (link_skb L pkt) (tx_graft h) = Some (w', replicate (Suc n) p)"
    and p: "short_ready (Suc k) w'" "numbered k p" "drop VTL_END p = data" "vtlh_payload_len p = Some (length data)"
    using gbn_short_copies [OF assms(5) link_okD(1) [OF assms(1)] assms(3) v(3) assms(11)] by blast
  note rej = gbn_rejects [OF assms(2) _ p(2) _ p(3,4) less_imp_le [OF assms(11)]]
  show ?thesis
  proof (cases "k = j")
    case True
    obtain r1 where r1: "g_ingress gbn_graft (l_kern L) (l_xsks L) (l_queue L) p (rx_graft h) = Some (XDP_REDIRECT, p, r1)" "gbn_expects (Suc j) r1"
      using gbn_accepts [OF assms(6), of p] p(2) link_okD(3,4) [OF assms(1)] True by metis
    obtain ds1 rx1 where p1: "process_packet (l_args L) (\<lambda>_. True) p (rx_dbr h) (rx_app h) = Inr (True, ds1, rx1)"
      "synced (Suc j) (X @ data) ds1 rx1"
      using process_packet_next [OF assms(7) numbered_length [OF p(2)], of "l_args L" "\<lambda>_. True"] p(2,3) assms(12)
        link_okD(5,6) [OF assms(1)] True by (auto simp: numbered_def)
    have "j mod WIN_SIZE \<noteq> Suc j mod WIN_SIZE" by (simp add: mod_Suc WIN_SIZE_def)
    then obtain qs where "receive_frames gbn_graft L (replicate n p) r1 ds1 rx1 = Some (r1, ds1, rx1, qs)" "\<forall>q\<in>set qs. is_nack q"
      using rej [OF r1(2)] True by blast
    then show ?thesis using v e p(1) r1 p1 True by (simp add: transfer_def)
  next
    case False
    then have "k mod WIN_SIZE \<noteq> j mod WIN_SIZE" using mod_window_inj [of k k j] assms(8,9) by (auto simp: WIN_SIZE_def)
    then obtain qs where "receive_frames gbn_graft L (replicate (Suc n) p) (rx_graft h) (rx_dbr h) (rx_app h) =
        Some (rx_graft h, rx_dbr h, rx_app h, qs)" "\<forall>q\<in>set qs. is_nack q"
      using rej [OF assms(6), of "Suc n"] by blast
    then show ?thesis using v e p(1) assms(6,7) False by (simp add: transfer_def del: replicate_Suc)
  qed
qed

lemma gbn_short_all:
  assumes "link_ok L" and "adjust_tail_ok (l_kern L)" and "store_rejects (l_kern L)"
    and "can_transmit L (tx_sock h)" and "short_ready k (tx_graft h)" and "gbn_expects j (rx_graft h)"
    and "synced j X (rx_dbr h) (rx_app h)" and "k \<le> j" and "j < k + WIN_SIZE"
    and "\<forall>(m, rx)\<in>set es. 0 < length m \<and> length m < VTL_DATA_SIZE" and "length (X @ concat (map fst es)) \<le> rx_cap (l_args L)"
  shows "\<exists>h' qs. transfer_all gbn_graft L es h = Some (h', qs) \<and> (\<forall>q\<in>set qs. is_nack q) \<and>
    rx_data (rx_app h') = X @ concat (drop (j - k) (map fst es))"
  using assms(4-11)
proof (induction es arbitrary: h k j X)
  case Nil
  then show ?case by (simp add: synced_def)
next
  case (Cons e es)
  obtain m rx where e: "e = (m, rx)" "0 < length m" "length m < VTL_DATA_SIZE" "length (X @ m) \<le> rx_cap (l_args L)"
    using Cons.prems(7,8) by (cases e) auto
  obtain h1 qs1 where h1: "transfer gbn_graft L m rx h = Some (h1, qs1)" "\<forall>q\<in>set qs1. is_nack q"
    "can_transmit L (tx_sock h1)" "short_ready (Suc k) (tx_graft h1)"
    "if k = j then gbn_expects (Suc j) (rx_graft h1) \<and> synced (Suc j) (X @ m) (rx_dbr h1) (rx_app h1)
     else gbn_expects j (rx_graft h1) \<and> synced j X (rx_dbr h1) (rx_app h1)"
    using gbn_short_step [OF assms(1-3) Cons.prems(1-6) e(2-4)] by blast
  let ?j = "if k = j then Suc j else j" and ?X = "if k = j then X @ m else X"
  have "\<exists>h' qs. transfer_all gbn_graft L es h1 = Some (h', qs) \<and> (\<forall>q\<in>set qs. is_nack q) \<and>
      rx_data (rx_app h') = ?X @ concat (drop (?j - Suc k) (map fst es))"
    by (rule Cons.IH [OF h1(3,4)]) (use h1(5) Cons.prems(5-8) e(1) in \<open>auto split: if_splits\<close>)
  then obtain h' qs where "transfer_all gbn_graft L es h1 = Some (h', qs)" "\<forall>q\<in>set qs. is_nack q"
      "rx_data (rx_app h') = ?X @ concat (drop (?j - Suc k) (map fst es))" by blast
  moreover have "?X @ concat (drop (?j - Suc k) (map fst es)) = X @ concat (drop (j - k) (map fst (e # es)))"
    using Cons.prems(5) e(1) by (cases "k = j") (simp_all add: drop_Cons')
  ultimately show ?case using h1(1,2) e(1) by auto
qed

section \<open>Properties\<close>


text \<open>Selective repeat does the same when nothing arrives.\<close>

lemma sr_full_windows_repeated:
  assumes "link_ok L" and "can_transmit L (tx_sock h)" and "tx_graft h = (w, [a])" and "win_ok w" and "num_seq_map w = [0]"
    and "rx_dbr h = dbr_init" and "rx_app h = no_data"
    and "\<forall>W\<in>set Ws. length W = WIN_SIZE \<and> (\<forall>(m, rx)\<in>set W. length m = VTL_DATA_SIZE \<and> silent rx)"
    and "length (concat (map (\<lambda>W. concat (replicate (Suc RETX_MAX) (concat (map fst W)))) Ws)) \<le> rx_cap (l_args L)"
  shows "\<exists>h'. transfer_all sr_graft L (concat Ws) h = Some (h', []) \<and>
    rx_data (rx_app h') = concat (map (\<lambda>W. concat (replicate (Suc RETX_MAX) (concat (map fst W)))) Ws)"
  using assms(3-5)
  by (intro sr_unacked.transfer_repeats [OF assms(1,2) _ _ assms(6-9)]) (simp_all add: saved_Nil win_ready_def sr_saved_def)


lemma cbr_resets_sequence:
  assumes "win_ok w" and "cbr_create_raw_sock E domain proto w = (fd, w')" and "0 \<le> fd" and "0 \<le> get_map_fd E ''NUM_SEQ_MAP''"
  shows "num_seq_map w' = [0]"
  using assms by (auto simp: cbr_create_raw_sock_def win_ok_def Let_def map_update_ok length_Suc_conv split: if_splits)

text \<open>
  A restarted sender loses its first messages. Opening the raw socket resets the sender's sequence number
  but nothing resets the receiver's: when the receiver expects number \<open>a\<close>, the first \<open>a\<close> short messages of the
  new connection are answered with NACKs, however often they are repeated, and never delivered; from then on the
  numbers agree and the rest of the stream arrives.
\<close>

lemma gbn_restart_loses_messages:
  assumes "link_ok L" and "adjust_tail_ok (l_kern L)" and "store_rejects (l_kern L)" and "can_transmit L (tx_sock h)"
    and "win_ok w" and "cbr_create_raw_sock E domain proto w = (fd, tx_graft h)" and "0 \<le> fd" and "0 \<le> get_map_fd E ''NUM_SEQ_MAP''"
    and "a < WIN_SIZE" and "rx_graft h = [word_of_nat a]" and "synced a X (rx_dbr h) (rx_app h)"
    and "\<forall>(m, rx)\<in>set es. 0 < length m \<and> length m < VTL_DATA_SIZE" and "length (X @ concat (map fst es)) \<le> rx_cap (l_args L)"
  shows "\<exists>h' qs. transfer_all gbn_graft L es h = Some (h', qs) \<and> (\<forall>q\<in>set qs. is_nack q) \<and>
    rx_data (rx_app h') = X @ concat (drop a (map fst es))"
proof -
  have "win_ok (tx_graft h)" "num_seq_map (tx_graft h) = [0]"
    using cbr_create_raw_sock_ok [OF assms(5,6)] cbr_resets_sequence [OF assms(5,6)] assms(7,8) by simp_all
  then show ?thesis
    using gbn_short_all [OF assms(1-4), of 0 a X es] assms(9-13)
    by (simp add: short_ready_def win_ready_def gbn_expects_def)
qed

section \<open>Instances\<close>

definition full_window :: "(bytes \<times> (nat \<Rightarrow> bytes list)) list" where
  "full_window = replicate WIN_SIZE (replicate VTL_DATA_SIZE 7, \<lambda>_. [])"

definition big_link :: link where
  "big_link = sample_link\<lparr>l_args := dbr_args\<lparr>rx_cap := 200000\<rparr>\<rparr>"

lemma link_ok_args: "link_ok L \<Longrightarrow> has_rx a \<Longrightarrow> has_vtlh a \<Longrightarrow> link_ok (L\<lparr>l_args := a\<rparr>)"
proof -
  have e: "l_net (L\<lparr>l_args := a\<rparr>) = l_net L" "l_kern (L\<lparr>l_args := a\<rparr>) = l_kern L" "l_eth (L\<lparr>l_args := a\<rparr>) = l_eth L"
    "l_xsks (L\<lparr>l_args := a\<rparr>) = l_xsks L" "l_queue (L\<lparr>l_args := a\<rparr>) = l_queue L" "l_args (L\<lparr>l_args := a\<rparr>) = a" by simp_all
  assume "link_ok L" "has_rx a" "has_vtlh a"
  then show ?thesis unfolding link_ok_def e by blast
qed

lemma big_link_ok: "link_ok big_link"
  unfolding big_link_def by (rule link_ok_args [OF sample_link_ok]) (simp_all add: dbr_args_def)

lemma full_window_size: "length (concat (replicate (Suc RETX_MAX) (concat (map fst full_window)))) = 180224"
  unfolding length_concat_replicate full_window_def map_replicate fst_conv
  by (simp add: RETX_MAX_def WIN_SIZE_def VTL_DATA_SIZE_def length_concat sum_list_replicate)


lemma sample_link_strict: "adjust_tail_ok (l_kern sample_link)" "store_rejects (l_kern sample_link)"
  using strict_kern_ok by (simp_all add: sample_link_def)

lemma three_messages:
  "\<forall>(m, rx)\<in>set [([1, 2], \<lambda>_ :: nat. [] :: bytes list), ([3], \<lambda>_. []), ([4 :: u8], \<lambda>_. [])]. 0 < length m \<and> length m < VTL_DATA_SIZE"
  by (simp add: VTL_DATA_SIZE_def)


lemma gbn_restart_loses_messages_example:
  "\<exists>w' h' qs. cbr_create_raw_sock sample_env AF_INET IPPROTO_RAW (sample_maps 5) = (3, w') \<and>
     transfer_all gbn_graft sample_link [([1, 2], \<lambda>_. []), ([3], \<lambda>_. []), ([4], \<lambda>_. [])]
       ((sample_hosts w' [2])\<lparr>rx_dbr := dbr_init\<lparr>next_num := 2\<rparr>, rx_app := no_data\<lparr>cnt_pkts := 2\<rparr>\<rparr>) = Some (h', qs) \<and>
     rx_data (rx_app h') = [4]"
proof -
  obtain w' where c: "cbr_create_raw_sock sample_env AF_INET IPPROTO_RAW (sample_maps 5) = (3, w')"
    by (simp add: cbr_create_raw_sock_def get_map_fd_def sample_env_def Let_def)
  let ?h = "(sample_hosts w' [2])\<lparr>rx_dbr := dbr_init\<lparr>next_num := 2\<rparr>, rx_app := no_data\<lparr>cnt_pkts := 2\<rparr>\<rparr>"
  have w: "win_ok (sample_maps 5)" by (rule sample_maps_ok) simp
  have g: "0 \<le> get_map_fd sample_env ''NUM_SEQ_MAP''" by (simp add: get_map_fd_def sample_env_def)
  have s: "synced 2 [] (rx_dbr ?h) (rx_app ?h)" by (simp add: synced_def dbr_init_def no_data_def WIN_SIZE_def)
  have t: "can_transmit sample_link (tx_sock ?h)" using ready_socket_can_transmit by simp
  have c': "cbr_create_raw_sock sample_env AF_INET IPPROTO_RAW (sample_maps 5) = (3, tx_graft ?h)" using c by simp
  have "\<exists>h' qs. transfer_all gbn_graft sample_link [([1, 2], \<lambda>_. []), ([3], \<lambda>_. []), ([4], \<lambda>_. [])] ?h = Some (h', qs) \<and>
      (\<forall>q\<in>set qs. is_nack q) \<and> rx_data (rx_app h') = [] @ concat (drop 2 (map fst [([1, 2], \<lambda>_ :: nat. [] :: bytes list), ([3], \<lambda>_. []), ([4], \<lambda>_. [])]))"
    by (rule gbn_restart_loses_messages [OF sample_link_ok sample_link_strict t w c' _ g _ _ s three_messages])
      (simp_all add: WIN_SIZE_def sample_link_def dbr_args_def)
  then show ?thesis using c by auto
qed

end
