(* ===== verification/Vtl_Apps.thy ===== *)
theory Vtl_Apps
  imports Stream_Unacked
begin

text \<open>
  The two applications of the repository that use the service interface (\<open>tests/vtl_apps\<close>): the server
  reads a file in pieces and gives each of them to \<open>vtl_send_data\<close>, the client calls \<open>vtl_recv_data\<close> in a
  loop and appends what it gets to a file. With the transfer of the earlier theories they make up a file
  transfer.
\<close>

section \<open>Server\<close>

definition DATASIZE :: nat where "DATASIZE = 1024"

datatype app_end = AppExit int | AppReturn int

text \<open>
  The loop \<open>while(!feof(tx_file))\<close>: \<open>feof\<close> holds after a read that found fewer bytes than asked for. The
  state is what is left of the file and the two counters; the packets put on the wire are collected.
\<close>

function server_loop ::
    "net_env \<Rightarrow> bytes \<Rightarrow> vtl_socket \<Rightarrow> u32 \<Rightarrow> u32 \<Rightarrow> api_fault + (app_end \<times> vtl_socket \<times> u32 \<times> u32 \<times> wire)" where
  "server_loop N rest s sent_pkts sent_bytes =
     (let piece = take DATASIZE rest in
      case vtl_send_data N s piece of
        Inl f \<Rightarrow> Inl f
      | Inr (ret, s1, out) \<Rightarrow>
          if ret < 0 then Inr (AppExit 1, s1, sent_pkts, sent_bytes, out)
          else
            (let sent_pkts1 = sent_pkts + 1;
                 sent_bytes1 = sent_bytes + word_of_nat (length piece)
             in if length rest < DATASIZE then Inr (AppReturn 0, s1, sent_pkts1, sent_bytes1, out)
                else map_sum id (\<lambda>(e, s2, p, b, out2). (e, s2, p, b, out @ out2))
                       (server_loop N (drop DATASIZE rest) s1 sent_pkts1 sent_bytes1)))"
  by pat_completeness auto
termination
  by (relation "measure (\<lambda>(N, rest, s, p, b). length rest)") (auto simp: DATASIZE_def)

declare server_loop.simps [simp del]

text \<open>\<open>main\<close>: \<open>tx_file\<close> is the contents of the file, \<open>None\<close> when it cannot be opened.\<close>

definition vtl_server ::
    "api_env \<Rightarrow> net_env \<Rightarrow> bool \<Rightarrow> bytes option \<Rightarrow> win_maps \<Rightarrow>
     (api_fault + (app_end \<times> (u32 \<times> u32) option \<times> wire)) \<times> win_maps" where
  "vtl_server E N calloc_ok tx_file w =
     (case vtl_init E VTL_SENDER_ROLE ''10.0.0.4'' (Some ''10.0.0.5'') ''enp0s3'' w of
        (Inl f, w') \<Rightarrow> (Inl f, w')
      | (Inr None, w') \<Rightarrow> (Inr (AppExit 1, None, []), w')
      | (Inr (Some s), w') \<Rightarrow>
          (case tx_file of
             None \<Rightarrow> (Inr (AppExit 1, None, []), w')
           | Some contents \<Rightarrow>
               if \<not> calloc_ok then (Inr (AppExit 1, None, []), w')
               else (case server_loop N contents s 0 0 of
                       Inl f \<Rightarrow> (Inl f, w')
                     | Inr (AppExit n, _, _, _, out) \<Rightarrow> (Inr (AppExit n, None, out), w')
                     | Inr (AppReturn n, _, p, b, out) \<Rightarrow> (Inr (AppReturn n, Some (p, b), out), w'))))"

section \<open>Client\<close>

definition MAX_DATA_SIZE :: nat where "MAX_DATA_SIZE = 1024 * 10"

text \<open>
  The receive loop. Each turn starts with what the kernel did to the rings since the last one (the
  descriptors it added and the frames it filled); the list ends when the user ends the program.
\<close>

fun client_loop ::
    "(nat \<Rightarrow> bool) \<Rightarrow> (xsk_ctx \<Rightarrow> xsk_ctx) list \<Rightarrow> vtl_socket \<Rightarrow> dbr_state \<Rightarrow> bytes \<Rightarrow> u32 \<Rightarrow>
     (api_fault + (vtl_socket \<times> dbr_state \<times> bytes \<times> u32)) option" where
  "client_loop calloc_ok [] s ds rx_file total_bytes = Some (Inr (s, ds, rx_file, total_bytes))"
| "client_loop calloc_ok (k # ks) s ds rx_file total_bytes =
     (case vtl_recv_data calloc_ok (s\<lparr>xsk_socket := map_option k (xsk_socket s)\<rparr>) (Some MAX_DATA_SIZE) ds of
        None \<Rightarrow> None
      | Some (Inl f) \<Rightarrow> Some (Inl f)
      | Some (Inr (got, s1, ds1)) \<Rightarrow>
          if length got \<noteq> 0
          then client_loop calloc_ok ks s1 ds1 (rx_file @ got) (total_bytes + word_of_nat (length got))
          else client_loop calloc_ok ks s1 ds1 rx_file total_bytes)"

definition vtl_client ::
    "api_env \<Rightarrow> bool \<Rightarrow> bool \<Rightarrow> (nat \<Rightarrow> bool) \<Rightarrow> (xsk_ctx \<Rightarrow> xsk_ctx) list \<Rightarrow> win_maps \<Rightarrow>
     (api_fault + (app_end \<times> bytes)) option \<times> win_maps" where
  "vtl_client E fopen_ok rx_calloc_ok calloc_ok ks w =
     (case vtl_init E VTL_RECVER_ROLE ''10.0.0.5'' None ''enp0s3'' w of
        (Inl f, w') \<Rightarrow> (Some (Inl f), w')
      | (Inr None, w') \<Rightarrow> (Some (Inr (AppExit 1, [])), w')
      | (Inr (Some s), w') \<Rightarrow>
          if \<not> fopen_ok then (Some (Inr (AppExit 1, [])), w')
          else if \<not> rx_calloc_ok then (Some (Inr (AppReturn (-1), [])), w')
          else (map_option (map_sum id (\<lambda>(s', ds', rx_file, total_bytes). (AppReturn 0, rx_file)))
                  (client_loop calloc_ok ks s dbr_init [] 0), w'))"

section \<open>What the server sends\<close>

text \<open>The pieces of the file: the last one is shorter than the others, and empty when the size is a multiple.\<close>

function server_chunks :: "bytes \<Rightarrow> bytes list" where
  "server_chunks f = (if length f < DATASIZE then [f] else take DATASIZE f # server_chunks (drop DATASIZE f))"
  by pat_completeness auto
termination
  by (relation "measure length") (auto simp: DATASIZE_def)

declare server_chunks.simps [simp del]

lemma server_chunks_concat: "concat (server_chunks f) = f"
  by (induction f rule: server_chunks.induct) (subst server_chunks.simps, simp)

lemma server_chunks_sizes:
  "\<exists>cs c. server_chunks f = cs @ [c] \<and> (\<forall>m\<in>set cs. length m = DATASIZE) \<and> length c < DATASIZE \<and>
     length cs = length f div DATASIZE"
proof (induction f rule: server_chunks.induct)
  case (1 f)
  show ?case
  proof (cases "length f < DATASIZE")
    case True
    then show ?thesis by (subst server_chunks.simps) auto
  next
    case False
    then obtain cs c where h: "server_chunks (drop DATASIZE f) = cs @ [c]" "\<forall>m\<in>set cs. length m = DATASIZE" "length c < DATASIZE"
      "length cs = length (drop DATASIZE f) div DATASIZE"
      using "1.IH" by blast
    have "length f div DATASIZE = Suc (length (drop DATASIZE f) div DATASIZE)"
      using False by (simp add: DATASIZE_def le_div_geq)
    then show ?thesis
      using False h by (subst server_chunks.simps, intro exI [of _ "take DATASIZE f # cs"] exI [of _ c]) auto
  qed
qed

text \<open>The messages of a run of the server, in order.\<close>

fun send_messages :: "net_env \<Rightarrow> bytes list \<Rightarrow> vtl_socket \<Rightarrow> (vtl_socket \<times> wire) option" where
  "send_messages N [] s = Some (s, [])"
| "send_messages N (m # ms) s =
     (case vtl_send_data N s m of
        Inr (ret, s1, out) \<Rightarrow> if ret < 0 then None else map_option (\<lambda>(s2, out2). (s2, out @ out2)) (send_messages N ms s1)
      | Inl _ \<Rightarrow> None)"

lemma server_loop_messages:
  assumes "send_messages N (server_chunks f) s = Some (s', out)"
  shows "server_loop N f s p b =
    Inr (AppReturn 0, s', p + word_of_nat (length (server_chunks f)), b + word_of_nat (length f), out)"
  using assms
proof (induction f arbitrary: s p b out rule: server_chunks.induct)
  case (1 f)
  show ?case
  proof (cases "length f < DATASIZE")
    case True
    then have c: "server_chunks f = [f]" by (subst server_chunks.simps) simp
    then obtain ret where "vtl_send_data N s f = Inr (ret, s', out)" "0 \<le> ret"
      using "1.prems" by (auto split: sum.splits if_splits)
    then show ?thesis using True c by (subst server_loop.simps) (simp add: Let_def)
  next
    case False
    then have c: "server_chunks f = take DATASIZE f # server_chunks (drop DATASIZE f)" by (subst server_chunks.simps) simp
    then obtain ret s1 out1 out2 where v: "vtl_send_data N s (take DATASIZE f) = Inr (ret, s1, out1)" "0 \<le> ret"
      "send_messages N (server_chunks (drop DATASIZE f)) s1 = Some (s', out2)" "out = out1 @ out2"
      using "1.prems" by (auto split: sum.splits if_splits)
    have l: "length (take DATASIZE f) = DATASIZE" using False by simp
    have "word_of_nat DATASIZE + word_of_nat (length f - DATASIZE) = (word_of_nat (length f) :: u32)"
      using False by (simp flip: of_nat_add)
    then show ?thesis
      using v c "1.IH" [OF False v(3), of "p + 1" "b + word_of_nat DATASIZE"] False l
      by (subst server_loop.simps) (simp add: Let_def add.assoc)
  qed
qed

text \<open>The payload of a packet behind the two headers.\<close>

definition payload_of :: "bytes \<times> bytes \<Rightarrow> bytes" where
  "payload_of = (\<lambda>(pkt, to). drop (IP4_HDR_LEN + VTL_HDR_SIZE) pkt)"

lemma send_messages_ok:
  assumes "link_ok L" and "can_transmit L s" and "\<forall>m\<in>set ms. length m \<le> VTL_DATA_SIZE"
  shows "\<exists>s' out. send_messages (l_net L) ms s = Some (s', out) \<and> can_transmit L s' \<and> map payload_of out = ms"
  using assms(2,3)
proof (induction ms arbitrary: s)
  case Nil
  then show ?case by simp
next
  case (Cons m ms)
  have m: "length m \<le> VTL_DATA_SIZE" using Cons.prems(2) by simp
  obtain s1 pkt to where v: "vtl_send_data (l_net L) s m = Inr (0, s1, [(pkt, to)])" "can_transmit L s1" "framed m (link_skb L pkt)"
    by (rule vtl_send_data_framed [OF assms(1) Cons.prems(1) m]) blast
  have "length (l_eth L) = ETH_LEN" using assms(1) by (simp add: link_ok_def)
  then have "payload_of (pkt, to) = m"
    using v(3) by (simp add: framed_def link_skb_def payload_of_def VTL_END_def ETH_LEN_def IP4_HDR_LEN_def VTL_HDR_SIZE_def)
  moreover obtain s' out where "send_messages (l_net L) ms s1 = Some (s', out)" "can_transmit L s'" "map payload_of out = ms"
    using Cons.IH [OF v(2)] Cons.prems(2) by auto
  ultimately show ?case using v(1) by simp
qed

text \<open>The packets of a transfer are those of the messages sent one after the other.\<close>

lemma transfer_sock: "transfer G L m rx h = Some (h', qs) \<Longrightarrow> \<exists>ret out. vtl_send_data (l_net L) (tx_sock h) m = Inr (ret, tx_sock h', out)"
  by (auto simp: transfer_def split: sum.splits prod.splits list.splits option.splits)

lemma transfer_all_sock:
  "transfer_all G L es h = Some (h', qs) \<Longrightarrow> send_messages (l_net L) (map fst es) (tx_sock h) = Some (s', out) \<Longrightarrow> tx_sock h' = s'"
proof (induction es arbitrary: h qs out)
  case Nil
  then show ?case by simp
next
  case (Cons e es)
  obtain m rx where e: "e = (m, rx)" by (cases e)
  obtain h1 qs1 qs2 where h1: "transfer G L m rx h = Some (h1, qs1)" "transfer_all G L es h1 = Some (h', qs2)"
    using Cons.prems(1) e by (auto split: Option.bind_splits)
  obtain ret out1 where "vtl_send_data (l_net L) (tx_sock h) m = Inr (ret, tx_sock h1, out1)" using transfer_sock [OF h1(1)] by blast
  then obtain out2 where "send_messages (l_net L) (map fst es) (tx_sock h1) = Some (s', out2)"
    using Cons.prems(2) e by (auto split: if_splits)
  then show ?case using Cons.IH [OF h1(2)] by blast
qed

text \<open>An empty message: the egress graft lets the packet without payload go to the stack and sends nothing.\<close>

lemma gbn_empty_message:
  assumes "link_ok L" and "gbn_acked.in_step L k X h"
  shows "\<exists>h'. transfer gbn_graft L [] rx h = Some (h', []) \<and> gbn_acked.in_step L k X h'"
proof -
  have h: "can_transmit L (tx_sock h)" "win_ready k (tx_graft h)" using assms(2) by (simp_all add: gbn_acked.in_step_def)
  obtain s' pkt to where v: "vtl_send_data (l_net L) (tx_sock h) [] = Inr (0, s', [(pkt, to)])" "can_transmit L s'" "framed [] (link_skb L pkt)"
    by (rule vtl_send_data_framed [OF assms(1) h(1), of "[]"]) (simp, blast)
  let ?s = "link_skb L pkt" and ?n = "word_of_nat (k mod WIN_SIZE) :: u16"
  have p: "vtl_frame (skb_data ?s)" "vtlh_payload_len (skb_data ?s) = Some 0" "\<not> csum_fits (skb_data ?s) 0"
    using v(3) by (simp_all add: framed_def csum_fits_def)
  obtain d where "win_fill_header (skb_data ?s) [?n] = Some (Inl d)"
    using p by (cases rule: win_fill_header_eq [OF p(1,2), of ?n]) auto
  then have "gbn_egress (l_kern L) rx ?s (tx_graft h) = Some (TC_ACT_OK, ?s\<lparr>skb_data := d\<rparr>, tx_graft h, [])"
    using p(1) h(2) by (simp add: gbn_egress_def gbn_send_first_def win_send_first_def with_vtl_hdr_frame win_ready_def)
  then show ?thesis
    using v(1,2) assms(2) by (simp add: transfer_def gbn_graft_def gbn_acked.in_step_def)
qed


section \<open>What the client writes\<close>

text \<open>
  Turns of the client in which the ring holds packets that continue the stream \<open>d\<close>: \<open>bs\<close> gives for every turn
  what the kernel does and the numbers of the packets that have arrived.
\<close>

definition batch_ok :: "(nat \<Rightarrow> bytes) \<Rightarrow> nat set \<Rightarrow> nat list \<Rightarrow> xsk_ctx \<Rightarrow> bool" where
  "batch_ok d A ks c \<longleftrightarrow> (\<exists>ps. received c ps \<and> ps \<noteq> [] \<and> list_all2 (carries d) ks ps) \<and> xsk_pool (frames c) \<and> ring_ok (fillq c) \<and>
     fill_room (fillq c) (frames c) \<le> length (ring (fillq c)) \<and> legal A ks \<and>
     length (payloads d (mex (A \<union> set ks))) \<le> length (payloads d (mex A)) + MAX_DATA_SIZE"

fun fed ::
    "(nat \<Rightarrow> bool) \<Rightarrow> (nat \<Rightarrow> bytes) \<Rightarrow> ((xsk_ctx \<Rightarrow> xsk_ctx) \<times> nat list) list \<Rightarrow> nat set \<Rightarrow> vtl_socket \<Rightarrow> dbr_state \<Rightarrow> bool" where
  "fed calloc_ok d [] A s ds \<longleftrightarrow> True"
| "fed calloc_ok d ((k, ks) # bs) A s ds \<longleftrightarrow>
     (\<exists>c. xsk_socket s = Some c \<and> batch_ok d A ks (k c)) \<and>
     (\<forall>data s' ds'. vtl_recv_data calloc_ok (s\<lparr>xsk_socket := map_option k (xsk_socket s)\<rparr>) (Some MAX_DATA_SIZE) ds =
        Some (Inr (data, s', ds')) \<longrightarrow> fed calloc_ok d bs (A \<union> set ks) s' ds')"

definition arrived :: "nat set \<Rightarrow> ((xsk_ctx \<Rightarrow> xsk_ctx) \<times> nat list) list \<Rightarrow> nat set" where
  "arrived A bs = A \<union> (\<Union>b\<in>set bs. set (snd b))"

lemma client_loop_fed:
  assumes "\<And>n. calloc_ok n" and "fed calloc_ok d bs A s ds" and "finite A"
    and "dbr_inv d A (mex A) ds \<lparr>rx_data = payloads d (mex A), cnt_pkts = sock_cnt_pkts s, cnt_bytes = b\<rparr>"
    and "next_num ds = mex A mod WIN_SIZE"
  shows "\<exists>s' ds' t. client_loop calloc_ok (map fst bs) s ds (payloads d (mex A)) tot =
    Some (Inr (s', ds', payloads d (mex (arrived A bs)), t))"
  using assms(2-5)
proof (induction bs arbitrary: A s ds tot)
  case Nil
  then show ?case by (simp add: arrived_def)
next
  case (Cons e bs)
  obtain k ks where e: "e = (k, ks)" by (cases e)
  obtain c ps where c: "xsk_socket s = Some c" "received (k c) ps" "ps \<noteq> []" "list_all2 (carries d) ks ps" "xsk_pool (frames (k c))"
    "ring_ok (fillq (k c))" "fill_room (fillq (k c)) (frames (k c)) \<le> length (ring (fillq (k c)))" "legal A ks"
    "length (payloads d (mex (A \<union> set ks))) \<le> length (payloads d (mex A)) + MAX_DATA_SIZE"
    using Cons.prems(1) e by (auto simp: batch_ok_def)
  let ?s = "s\<lparr>xsk_socket := map_option k (xsk_socket s)\<rparr>"
  have x: "xsk_socket ?s = Some (k c)" using c(1) by simp
  have i: "dbr_inv d A (mex A) ds \<lparr>rx_data = payloads d (mex A), cnt_pkts = sock_cnt_pkts ?s, cnt_bytes = b\<rparr>" using Cons.prems(3) by simp
  obtain data s1 ds1 where r: "vtl_recv_data calloc_ok ?s (Some MAX_DATA_SIZE) ds = Some (Inr (data, s1, ds1))"
    "payloads d (mex A) @ data = payloads d (mex (A \<union> set ks))"
    "dbr_inv d (A \<union> set ks) (mex (A \<union> set ks)) ds1
      \<lparr>rx_data = payloads d (mex (A \<union> set ks)), cnt_pkts = sock_cnt_pkts s1, cnt_bytes = b\<rparr>"
    "next_num ds1 = mex (A \<union> set ks) mod WIN_SIZE"
    using vtl_recv_data_continues_stream [where calloc_ok = calloc_ok, OF x c(2,3,5-7) i Cons.prems(4,2) c(8,4) assms(1) c(9)] by blast
  have "fed calloc_ok d bs (A \<union> set ks) s1 ds1" using Cons.prems(1) e r(1) by auto
  moreover have "finite (A \<union> set ks)" using Cons.prems(2) by simp
  moreover have "arrived (A \<union> set ks) bs = arrived A (e # bs)" using e by (auto simp: arrived_def)
  ultimately have "\<exists>s' ds' t. client_loop calloc_ok (map fst bs) s1 ds1 (payloads d (mex A) @ data) tot' =
      Some (Inr (s', ds', payloads d (mex (arrived A (e # bs))), t))" for tot'
    using Cons.IH [of "A \<union> set ks" s1 ds1 tot'] r(2-4) by simp
  then show ?case using r(1) e by (cases "data = []") auto
qed


text \<open>Packets of full size that continue the stream overrun a buffer that is too small for all of them.\<close>

lemma process_packets_overflow:
  assumes "synced k X ds rx" and "has_rx args" and "has_vtlh args" and "length X \<le> rx_cap args"
    and "rx_cap args < length X + length ps * VTL_DATA_SIZE"
    and "\<And>i. i < length ps \<Longrightarrow> vtlh_seq_num (ps ! i) = Some ((k + i) mod WIN_SIZE) \<and> length (ps ! i) = VTL_END + VTL_DATA_SIZE"
  shows "process_packets args calloc_ok ps ds rx = Inl RxOverflow"
  using assms(1,4-6)
proof (induction ps arbitrary: k X ds rx)
  case Nil
  then show ?case by simp
next
  case (Cons p ps)
  have p: "vtlh_seq_num p = Some (k mod WIN_SIZE)" "length p = VTL_END + VTL_DATA_SIZE" using Cons.prems(4) [of 0] by simp_all
  show ?case
  proof (cases "length X + VTL_DATA_SIZE \<le> rx_cap args")
    case True
    then obtain ds1 rx1 where q: "process_packet args calloc_ok p ds rx = Inr (True, ds1, rx1)" "synced (Suc k) (X @ drop VTL_END p) ds1 rx1"
      using process_packet_next [OF Cons.prems(1) _ p(1) assms(2,3), of calloc_ok] p(2) by auto
    have "vtlh_seq_num (ps ! i) = Some ((Suc k + i) mod WIN_SIZE) \<and> length (ps ! i) = VTL_END + VTL_DATA_SIZE" if "i < length ps" for i
      using Cons.prems(4) [of "Suc i"] that by simp
    from Cons.IH [OF q(2) _ _ this] True Cons.prems(3) p(2) q(1) show ?thesis by simp
  next
    case False
    then have "process_packet args calloc_ok p ds rx = Inl RxOverflow"
      using Cons.prems(1) p assms(2,3) by (simp add: process_packet_def synced_def Let_def)
    then show ?thesis by simp
  qed
qed

lemma recv_fault:
  assumes "received c ps" and "ps \<noteq> []" and "\<And>n. calloc_ok n" and "process_packets args calloc_ok ps ds rx = Inl f"
  shows "dbr_recv args calloc_ok c ds rx = Some (Inl f)"
proof -
  obtain n idx rq where k: "xsk_ring_cons__peek (rxq c) RX_BATCH_SIZE 0 = (n, idx, rq)"
    by (cases "xsk_ring_cons__peek (rxq c) RX_BATCH_SIZE 0") auto
  have n: "length ps = n"
    and r: "\<And>i. i < n \<Longrightarrow> frame_data (umem_buffer c) (xsk_ring_cons__rx_desc rq (idx + word_of_nat i)) = Some (ps ! i)"
    using assms(1) k by (auto simp: received_def)
  obtain stock fq1 where "xsk_prod_nb_free (fillq c) (word_of_nat (xsk_umem_free_frames (frames c))) = (stock, fq1)"
    by (cases "xsk_prod_nb_free (fillq c) (word_of_nat (xsk_umem_free_frames (frames c)))")
  from stock_fill_ring_eq [OF this] have "stock_fill_ring n (fillq c) (frames c) \<noteq> None" by (simp split: prod.splits)
  then obtain fq x where "stock_fill_ring n (fillq c) (frames c) = Some (fq, x)" by auto
  then show ?thesis
    using receive_loop_eq [where calloc_ok = calloc_ok and args = args and x = x and ds = ds and rx = rx, OF assms(3) n r] assms(2,4) n k
    by (auto simp: dbr_recv_def handle_receive_packets_def Let_def)
qed

text \<open>
  The client's buffer is too small for a batch. One receive call takes up to 64 packets from the ring, but
  the client passes a buffer of 10240 bytes: whenever 11 or more packets of full size that continue the stream
  are waiting, the call writes behind the end of the buffer, however much was received before.
\<close>

lemma vtl_client_buffer_overrun:
  assumes "xsk_socket s = Some c" and "received (k c) ps" and "11 \<le> length ps" and "\<And>n. calloc_ok n"
    and "synced j X ds \<lparr>rx_data = X, cnt_pkts = sock_cnt_pkts s, cnt_bytes = b\<rparr>"
    and "\<forall>i<length ps. vtlh_seq_num (ps ! i) = Some ((j + i) mod WIN_SIZE) \<and> length (ps ! i) = VTL_END + VTL_DATA_SIZE"
  shows "client_loop calloc_ok (k # ks) s ds rx_file tot = Some (Inl (BearerFault RxOverflow))"
proof -
  let ?s = "s\<lparr>xsk_socket := map_option k (xsk_socket s)\<rparr>" and ?args = "\<lparr>has_vtlh = True, has_rx = True, rx_cap = MAX_DATA_SIZE\<rparr>"
  let ?rx = "\<lparr>rx_data = [], cnt_pkts = sock_cnt_pkts s, cnt_bytes = sock_cnt_bytes s\<rparr>"
  have "synced j [] ds ?rx" using assms(5) by (simp add: synced_def)
  then have "process_packets ?args calloc_ok ps ds ?rx = Inl RxOverflow"
    by (rule process_packets_overflow) (use assms(3,6) in \<open>auto simp: MAX_DATA_SIZE_def VTL_DATA_SIZE_def\<close>)
  then have "dbr_recv ?args calloc_ok (k c) ds ?rx = Some (Inl RxOverflow)"
    by (rule recv_fault [rotated 3]) (use assms(2-4) in auto)
  then show ?thesis using assms(1) by (simp add: vtl_recv_data_def)
qed

section \<open>Instances\<close>

text \<open>A file of exactly one piece: the server sends it and an empty message.\<close>

definition one_piece :: bytes where
  "one_piece = replicate DATASIZE 7"

lemma one_piece_chunks: "server_chunks one_piece = [one_piece, []]"
proof -
  have "server_chunks [] = [[]]" by (subst server_chunks.simps) (simp add: DATASIZE_def)
  then show ?thesis by (subst server_chunks.simps) (simp add: one_piece_def)
qed



text \<open>Eleven packets of full size in the receive ring.\<close>

definition full_frames :: "bytes list" where
  "full_frames = map (\<lambda>k. seq_frame k (replicate VTL_DATA_SIZE 0)) [0..<11]"

definition full_ctx :: xsk_ctx where
  "full_ctx = sample_ctx
     \<lparr>rxq := \<lparr>cached_prod = 0, cached_cons = 0, ring_mask = mask 4, ring_size = 16, producer = 11, consumer = 0,
        ring = map (\<lambda>i. \<lparr>desc_addr = word_of_nat (i * 1082), desc_len = 1082\<rparr>) [0..<16]\<rparr>,
      umem_buffer := concat full_frames\<rparr>"

lemma full_frames_sizes: "length full_frames = 11" "\<forall>p\<in>set full_frames. length p = 1082" "length (concat full_frames) = 11902"
proof -
  show s: "length full_frames = 11" "\<forall>p\<in>set full_frames. length p = 1082" by (auto simp: full_frames_def VTL_DATA_SIZE_def)
  have "sum_list (map length xs) = length xs * n" if "\<forall>p\<in>set xs. length p = n" for xs :: "bytes list" and n
    using that by (induction xs) auto
  from this [OF s(2)] s(1) show "length (concat full_frames) = 11902" by (simp add: length_concat)
qed

lemma full_received: "received full_ctx full_frames"
proof -
  let ?rq = "(rxq full_ctx)\<lparr>cached_prod := 11, cached_cons := 11\<rparr>"
  have k: "xsk_ring_cons__peek (rxq full_ctx) RX_BATCH_SIZE 0 = (11, 0, ?rq)"
    by (simp add: xsk_ring_cons__peek_def xsk_cons_nb_avail_def RX_BATCH_SIZE_def full_ctx_def Let_def)
  have "frame_data (umem_buffer full_ctx) (xsk_ring_cons__rx_desc ?rq (0 + word_of_nat i)) = Some (full_frames ! i)" if i: "i < 11" for i
  proof -
    have "unat (word_of_nat i :: u32) = i" by (rule unat_word_of_nat_u32) (use i in simp)
    then have "ring_slot ?rq (word_of_nat i) = i"
      using i by (simp add: ring_slot_def full_ctx_def take_bit_eq_mod unat_mod flip: take_bit_eq_mask)
    then have "xsk_ring_cons__rx_desc ?rq (word_of_nat i) = \<lparr>desc_addr = word_of_nat (i * 1082), desc_len = 1082\<rparr>"
      using i by (simp add: xsk_ring_cons__rx_desc_def full_ctx_def)
    moreover have "unat (word_of_nat (i * 1082) :: u64) = i * 1082" by (rule unat_word_of_nat_u64) (use i in simp)
    ultimately show ?thesis
      using i seg_concat [of full_frames 1082 i] full_frames_sizes(2) full_frames_sizes(1,3)
      by (simp add: frame_data_def full_ctx_def)
  qed
  then show ?thesis unfolding received_def k using full_frames_sizes(1) by simp
qed

lemma vtl_client_buffer_overrun_example:
  "client_loop (\<lambda>_. True) [\<lambda>_. full_ctx] sample_rx_socket dbr_init [] 0 = Some (Inl (BearerFault RxOverflow))"
proof -
  have s: "synced 0 [] dbr_init \<lparr>rx_data = [], cnt_pkts = sock_cnt_pkts sample_rx_socket, cnt_bytes = 0\<rparr>"
    using synced_init by (simp add: synced_def no_data_def sample_rx_socket_def zero_socket_def)
  have "carries (\<lambda>_. replicate VTL_DATA_SIZE 0) i (full_frames ! i)" if "i < 11" for i
    using seq_frame_carries [of i] that by (simp add: full_frames_def WIN_SIZE_def)
  then have f: "\<forall>i<length full_frames. vtlh_seq_num (full_frames ! i) = Some ((0 + i) mod WIN_SIZE) \<and>
      length (full_frames ! i) = VTL_END + VTL_DATA_SIZE"
    using full_frames_sizes by (auto simp: carries_def VTL_END_def VTL_DATA_SIZE_def)
  have x: "xsk_socket sample_rx_socket = Some sample_ctx" by (simp add: sample_rx_socket_def)
  show ?thesis
    by (rule vtl_client_buffer_overrun [OF x _ _ _ s f]) (use full_received full_frames_sizes(1) in simp_all)
qed

end
