(* ===== verification/Stream_Unnumbered.thy ===== *)
theory Stream_Unnumbered
  imports Stream_Transfer
begin

text \<open>
  Transfers over the canonical and the stop-and-wait graft, whose egress functions leave the sequence number
  of the packet as the data bearer wrote it: the locale \<open>unnumbered_graft\<close> and its interpretations.
\<close>

section \<open>Grafts that do not number their packets\<close>

text \<open>After the first packet the bearer waits for number 1: further packets with number 0 stay in the reorder buffer.\<close>

definition waiting :: "bytes \<Rightarrow> dbr_state \<Rightarrow> rx_state \<Rightarrow> bool" where
  "waiting X ds rx \<longleftrightarrow> next_num ds = 1 \<and> rx_data rx = X \<and> cnt_pkts rx = 1"

text \<open>A socket as \<open>vtl_init\<close> leaves it: the header has sequence number 0 and no graft is negotiated.\<close>

definition unnumbered_socket :: "link \<Rightarrow> vtl_socket \<Rightarrow> bool" where
  "unnumbered_socket L s \<longleftrightarrow> can_transmit L s \<and> h_seq_num (vtlh s) = 0 \<and> - 128 \<le> h_gid (vtlh s) \<and> h_gid (vtlh s) \<le> 0"

text \<open>
  The egress graft sends one or more copies of the packet as the bearer built it, with sequence number 0,
  and the ingress graft of the peer redirects them.
\<close>

locale unnumbered_graft =
  fixes G :: "('w, 'r) graft" and tx_ok :: "'w \<Rightarrow> bool" and rx_ok :: "'r \<Rightarrow> bool"
  assumes copies: "tx_ok w \<Longrightarrow> outgoing data s \<Longrightarrow> vtlh_seq_num (skb_data s) = Some 0 \<Longrightarrow>
    vtlh_gid (skb_data s) = Some g \<Longrightarrow> g \<le> 0 \<Longrightarrow>
    \<exists>w' n p. g_egress G K rx s w = Some (w', replicate (Suc n) p) \<and> tx_ok w' \<and> VTL_END \<le> length p \<and>
      vtlh_seq_num p = Some 0 \<and> drop VTL_END p = data \<and>
      (\<forall>xsks i r. xsk_bound xsks i \<and> rx_ok r \<longrightarrow> (\<exists>r'. g_ingress G K xsks i p r = Some (k_redirect_map K i, p, r') \<and> rx_ok r'))"
begin

lemma receive_waiting:
  assumes "link_ok L" and "VTL_END \<le> length p" and "vtlh_seq_num p = Some 0" and "waiting X ds rx" and "rx_ok r"
    and "\<And>r. rx_ok r \<Longrightarrow> \<exists>r'. g_ingress G (l_kern L) (l_xsks L) (l_queue L) p r = Some (XDP_REDIRECT, p, r') \<and> rx_ok r'"
  shows "\<exists>r' ds' rx'. receive_frames G L (replicate n p) r ds rx = Some (r', ds', rx', []) \<and> waiting X ds' rx' \<and> rx_ok r'"
  using assms(4,5)
proof (induction n arbitrary: r ds rx)
  case 0
  then show ?case by simp
next
  case (Suc n)
  obtain r1 where r1: "g_ingress G (l_kern L) (l_xsks L) (l_queue L) p r = Some (XDP_REDIRECT, p, r1)" "rx_ok r1"
    using assms(6) [OF Suc.prems(2)] by blast
  obtain ds1 where p1: "process_packet (l_args L) (\<lambda>_. True) p ds rx = Inr (True, ds1, rx)" "waiting X ds1 rx"
    using assms(2,3) link_okD(5,6) [OF assms(1)] Suc.prems(1)
    by (simp add: process_packet_def Let_def waiting_def WIN_SIZE_def)
  show ?case using Suc.IH [OF p1(2) r1(2)] r1(1) p1(1) by simp
qed

lemma transfer_copies:
  assumes "link_ok L" and "unnumbered_socket L (tx_sock h)" and "tx_ok (tx_graft h)" and "0 < length data" and "length data \<le> VTL_DATA_SIZE"
  obtains s' w' n p where "unnumbered_socket L s'" and "tx_ok w'" and "VTL_END \<le> length p" and "vtlh_seq_num p = Some 0"
    and "drop VTL_END p = data"
    and "\<And>r. rx_ok r \<Longrightarrow> \<exists>r'. g_ingress G (l_kern L) (l_xsks L) (l_queue L) p r = Some (XDP_REDIRECT, p, r') \<and> rx_ok r'"
    and "transfer G L data rx h =
      (case receive_frames G L (replicate (Suc n) p) (rx_graft h) (rx_dbr h) (rx_app h) of None \<Rightarrow> None
       | Some (r', ds', app', replies) \<Rightarrow>
           Some (\<lparr>tx_sock = s', tx_graft = w', rx_graft = r', rx_dbr = ds', rx_app = app'\<rparr>, replies))"
proof -
  have s: "can_transmit L (tx_sock h)" "h_seq_num (vtlh (tx_sock h)) = 0" "- 128 \<le> h_gid (vtlh (tx_sock h))" "h_gid (vtlh (tx_sock h)) \<le> 0"
    using assms(2) by (simp_all add: unnumbered_socket_def)
  obtain s' pkt to where v: "vtl_send_data (l_net L) (tx_sock h) data = Inr (0, s', [(pkt, to)])" "can_transmit L s'"
    "h_seq_num (vtlh s') = h_seq_num (vtlh (tx_sock h))" "h_gid (vtlh s') = h_gid (vtlh (tx_sock h))"
    "outgoing data (link_skb L pkt)" "vtlh_seq_num (skb_data (link_skb L pkt)) = Some (unat (h_seq_num (vtlh (tx_sock h))))"
    "- 128 \<le> h_gid (vtlh (tx_sock h)) \<Longrightarrow> h_gid (vtlh (tx_sock h)) < 128 \<Longrightarrow>
       vtlh_gid (skb_data (link_skb L pkt)) = Some (h_gid (vtlh (tx_sock h)))"
    by (rule vtl_send_data_outgoing [OF assms(1) s(1) assms(4,5)]) blast
  have q: "vtlh_seq_num (skb_data (link_skb L pkt)) = Some 0" "vtlh_gid (skb_data (link_skb L pkt)) = Some (h_gid (vtlh (tx_sock h)))"
    using v(6,7) s by simp_all
  obtain w' n p where p: "g_egress G (l_kern L) rx (link_skb L pkt) (tx_graft h) = Some (w', replicate (Suc n) p)" "tx_ok w'"
    "VTL_END \<le> length p" "vtlh_seq_num p = Some 0" "drop VTL_END p = data"
    "\<And>xsks i r. xsk_bound xsks i \<Longrightarrow> rx_ok r \<Longrightarrow>
       \<exists>r'. g_ingress G (l_kern L) xsks i p r = Some (k_redirect_map (l_kern L) i, p, r') \<and> rx_ok r'"
    using copies [OF assms(3) v(5) q s(4), of "l_kern L" rx] by blast
  have "unnumbered_socket L s'" using v(2-4) s by (simp add: unnumbered_socket_def)
  moreover have "\<exists>r'. g_ingress G (l_kern L) (l_xsks L) (l_queue L) p r = Some (XDP_REDIRECT, p, r') \<and> rx_ok r'" if "rx_ok r" for r
    using p(6) [OF link_okD(4) [OF assms(1)] that] link_okD(3) [OF assms(1)] by simp
  moreover have "transfer G L data rx h =
      (case receive_frames G L (replicate (Suc n) p) (rx_graft h) (rx_dbr h) (rx_app h) of None \<Rightarrow> None
       | Some (r', ds', app', replies) \<Rightarrow>
           Some (\<lparr>tx_sock = s', tx_graft = w', rx_graft = r', rx_dbr = ds', rx_app = app'\<rparr>, replies))"
    using v(1) p(1) by (simp add: transfer_def del: replicate_Suc)
  ultimately show thesis using that p(2-5) by blast
qed

lemma transfer_waiting:
  assumes "link_ok L" and "unnumbered_socket L (tx_sock h)" and "tx_ok (tx_graft h)" and "rx_ok (rx_graft h)"
    and "waiting X (rx_dbr h) (rx_app h)" and "\<forall>(m, rx)\<in>set es. 0 < length m \<and> length m \<le> VTL_DATA_SIZE"
  shows "\<exists>h'. transfer_all G L es h = Some (h', []) \<and> waiting X (rx_dbr h') (rx_app h')"
  using assms(2-6)
proof (induction es arbitrary: h)
  case Nil
  then show ?case by simp
next
  case (Cons e es)
  obtain m rx where e: "e = (m, rx)" "0 < length m" "length m \<le> VTL_DATA_SIZE" using Cons.prems(5) by (cases e) auto
  obtain s' w' n p where t: "unnumbered_socket L s'" "tx_ok w'" "VTL_END \<le> length p" "vtlh_seq_num p = Some 0"
    "\<And>r. rx_ok r \<Longrightarrow> \<exists>r'. g_ingress G (l_kern L) (l_xsks L) (l_queue L) p r = Some (XDP_REDIRECT, p, r') \<and> rx_ok r'"
    "transfer G L m rx h =
      (case receive_frames G L (replicate (Suc n) p) (rx_graft h) (rx_dbr h) (rx_app h) of None \<Rightarrow> None
       | Some (r', ds', app', replies) \<Rightarrow>
           Some (\<lparr>tx_sock = s', tx_graft = w', rx_graft = r', rx_dbr = ds', rx_app = app'\<rparr>, replies))"
    by (rule transfer_copies [OF assms(1) Cons.prems(1,2) e(2,3), where rx = rx]) blast
  obtain r1 ds1 rx1 where "receive_frames G L (replicate (Suc n) p) (rx_graft h) (rx_dbr h) (rx_app h) = Some (r1, ds1, rx1, [])"
    "waiting X ds1 rx1" "rx_ok r1"
    using receive_waiting [OF assms(1) t(3,4) Cons.prems(4,3) t(5), of "Suc n"] by blast
  then show ?case using Cons.IH t(1,2,6) Cons.prems(5) e(1) by simp
qed

text \<open>Only the first message of a socket's life is delivered.\<close>

lemma transfer_first_only:
  assumes "link_ok L" and "unnumbered_socket L (tx_sock h)" and "tx_ok (tx_graft h)" and "rx_ok (rx_graft h)"
    and "rx_dbr h = dbr_init" and "rx_app h = no_data" and "0 < length m" and "length m \<le> rx_cap (l_args L)"
    and "\<forall>(m, rx)\<in>set ((m, rx) # es). 0 < length m \<and> length m \<le> VTL_DATA_SIZE"
  shows "\<exists>h'. transfer_all G L ((m, rx) # es) h = Some (h', []) \<and> rx_data (rx_app h') = m \<and> cnt_pkts (rx_app h') = 1"
proof -
  have m: "length m \<le> VTL_DATA_SIZE" using assms(9) by simp
  obtain s' w' n p where t: "unnumbered_socket L s'" "tx_ok w'" "VTL_END \<le> length p" "vtlh_seq_num p = Some 0" "drop VTL_END p = m"
    "\<And>r. rx_ok r \<Longrightarrow> \<exists>r'. g_ingress G (l_kern L) (l_xsks L) (l_queue L) p r = Some (XDP_REDIRECT, p, r') \<and> rx_ok r'"
    "transfer G L m rx h =
      (case receive_frames G L (replicate (Suc n) p) (rx_graft h) (rx_dbr h) (rx_app h) of None \<Rightarrow> None
       | Some (r', ds', app', replies) \<Rightarrow>
           Some (\<lparr>tx_sock = s', tx_graft = w', rx_graft = r', rx_dbr = ds', rx_app = app'\<rparr>, replies))"
    by (rule transfer_copies [OF assms(1-3,7) m, where rx = rx]) blast
  obtain r1 where r1: "g_ingress G (l_kern L) (l_xsks L) (l_queue L) p (rx_graft h) = Some (XDP_REDIRECT, p, r1)" "rx_ok r1"
    using t(6) [OF assms(4)] by blast
  obtain ds1 rx1 where p1: "process_packet (l_args L) (\<lambda>_. True) p (rx_dbr h) (rx_app h) = Inr (True, ds1, rx1)"
    "synced (Suc 0) m ds1 rx1"
    using process_packet_next [OF synced_init t(3), of "l_args L" "\<lambda>_. True"] t(4,5) link_okD(5,6) [OF assms(1)] assms(5,6,8)
    by auto
  then have "waiting m ds1 rx1" by (simp add: synced_def waiting_def WIN_SIZE_def)
  then obtain r2 ds2 rx2 where "receive_frames G L (replicate n p) r1 ds1 rx1 = Some (r2, ds2, rx2, [])"
    "waiting m ds2 rx2" "rx_ok r2"
    using receive_waiting [OF assms(1) t(3,4) _ r1(2) t(6)] by blast
  then obtain h1 where h1: "transfer G L m rx h = Some (h1, [])" "unnumbered_socket L (tx_sock h1)" "tx_ok (tx_graft h1)"
    "rx_ok (rx_graft h1)" "waiting m (rx_dbr h1) (rx_app h1)"
    using t(1,2,7) r1(1) p1(1) by simp
  have "\<forall>(m, rx)\<in>set es. 0 < length m \<and> length m \<le> VTL_DATA_SIZE" using assms(9) by simp
  from transfer_waiting [OF assms(1) h1(2-5) this] h1(1) show ?thesis by (auto simp: waiting_def)
qed

end

lemma sw_copies:
  assumes "m \<noteq> []" and "outgoing data s" and "vtlh_seq_num (skb_data s) = Some 0"
  shows "\<exists>w' n p. g_egress sw_graft K rx s m = Some (w', replicate (Suc n) p) \<and> w' \<noteq> [] \<and> VTL_END \<le> length p \<and>
    vtlh_seq_num p = Some 0 \<and> drop VTL_END p = data \<and>
    (\<forall>xsks i r. xsk_bound xsks i \<and> True \<longrightarrow> (\<exists>r'. g_ingress sw_graft K xsks i p r = Some (k_redirect_map K i, p, r') \<and> True))"
proof -
  have f: "vtl_frame (skb_data s)" "vtlh_payload_len (skb_data s) = Some (length data)" "drop VTL_END (skb_data s) = data"
    using assms(2) by (simp_all add: outgoing_def framed_def)
  obtain s' where s': "sw_egress rx s m = Some (TC_ACT_SHOT, s', sw_tx_loop rx 0 s' m)" "sealed (skb_data s')"
    "vtlh_seq_num (skb_data s') = vtlh_seq_num (skb_data s)" "drop VTL_END (skb_data s') = drop VTL_END (skb_data s)"
    by (rule sw_egress_frame [OF f(1,2) outgoing_sizes(1) [OF assms(2)]]) blast
  have c: "sent_frames (concat (replicate k (sw_round s'))) = replicate k (skb_data s')" for k
    by (induction k) (simp_all add: sw_round_def)
  obtain n m' where l: "sw_tx_loop rx 0 s' m = (m', concat (replicate (Suc n) (sw_round s')))" "length m' = length m"
    using sw_tx_loop_spec [of m 0 rx s'] assms(1) by (auto simp: Let_def split: option.splits)
  have "g_egress sw_graft K rx s m = Some (m', replicate (Suc n) (skb_data s'))"
    using s'(1) l(1) c [of "Suc n"] by (simp add: sw_graft_def del: replicate_Suc)
  moreover have "g_ingress sw_graft K xsks i (skb_data s') r = Some (k_redirect_map K i, skb_data s', r)" if "xsk_bound xsks i" for xsks i r
    using sw_ingress_frame s'(2) that by (auto simp: sw_graft_def sealed_def)
  moreover have "VTL_END \<le> length (skb_data s')" using s'(2) by (simp add: sealed_def vtl_frame_def)
  moreover have "m' \<noteq> []" using l(2) assms(1) by auto
  ultimately show ?thesis using s'(3,4) f(3) assms(3) by (intro exI [of _ m'] exI [of _ n] exI [of _ "skb_data s'"]) simp
qed

interpretation sw_unnumbered: unnumbered_graft sw_graft "\<lambda>m. m \<noteq> []" "\<lambda>r. True"
  by unfold_locales (rule sw_copies; assumption)

lemma cano_copies:
  assumes "outgoing data s" and "vtlh_seq_num (skb_data s) = Some 0" and "vtlh_gid (skb_data s) = Some g" and "g \<le> 0"
  shows "\<exists>w' n p. g_egress cano_graft K rx s w = Some (w', replicate (Suc n) p) \<and> True \<and> VTL_END \<le> length p \<and>
    vtlh_seq_num p = Some 0 \<and> drop VTL_END p = data \<and>
    (\<forall>xsks i r. xsk_bound xsks i \<and> True \<longrightarrow> (\<exists>r'. g_ingress cano_graft K xsks i p r = Some (k_redirect_map K i, p, r') \<and> True))"
proof -
  have f: "vtl_frame (skb_data s)" "drop VTL_END (skb_data s) = data" "length (skb_data s) = VTL_END + length data"
    using assms(1) by (simp_all add: outgoing_def framed_def)
  obtain s' where s': "cano_egress s = Some (TC_ACT_SHOT, s', [NicTx (skb_ifindex s + 1) s'])"
    "vtlh_gid (skb_data s') = Some g" "vtl_frame (skb_data s')"
    and sg: "\<And>o' w'. o' + w' \<le> 38 \<or> 42 \<le> o' \<Longrightarrow> seg o' w' (skb_data s') = seg o' w' (skb_data s)"
    and l: "length (skb_data s') = length (skb_data s)"
    by (rule cano_egress_frame [OF f(1) assms(3)]) blast
  have "drop VTL_END (skb_data s') = seg VTL_END (length data) (skb_data s')" using l f(3) by (simp add: seg_def)
  also have "\<dots> = data" using sg [of VTL_END "length data"] f(2,3) by (simp add: VTL_END_def seg_def)
  finally have d: "drop VTL_END (skb_data s') = data" .
  have q: "vtlh_seq_num (skb_data s') = Some 0"
    using assms(2) sg [of 52 2] l unfolding vtlh_seq_num_def ld_def by (simp add: seg_def split: if_splits)
  have "g_ingress cano_graft K xsks i (skb_data s') r = Some (k_redirect_map K i, skb_data s', r)" if "xsk_bound xsks i" for xsks i r
    using s'(2,3) that assms(4) by (simp add: cano_graft_def cano_ingress_def with_vtl_hdr_frame)
  moreover have "g_egress cano_graft K rx s w = Some (w, replicate (Suc 0) (skb_data s'))" using s'(1) by (simp add: cano_graft_def)
  moreover have "VTL_END \<le> length (skb_data s')" using l f(3) by simp
  ultimately show ?thesis using q d by (intro exI [of _ w] exI [of _ 0] exI [of _ "skb_data s'"]) simp
qed

interpretation cano_unnumbered: unnumbered_graft cano_graft "\<lambda>w. True" "\<lambda>r. True"
  by unfold_locales (rule cano_copies; assumption)

section \<open>Properties\<close>

text \<open>
  Stop-and-wait delivers one message per connection. Its egress function does not number packets, and the
  receiving bearer delivers by number: of any sequence of messages sent over a link that loses nothing,
  whatever acknowledgements arrive, the application receives exactly the first one; the copies of it and all
  later messages, which carry number 0 too, stay in the reorder buffer.
\<close>

theorem sw_delivers_first_only:
  assumes "link_ok L" and "unnumbered_socket L (tx_sock h)" and "tx_graft h \<noteq> []" and "rx_dbr h = dbr_init" and "rx_app h = no_data"
    and "length m \<le> rx_cap (l_args L)" and "\<forall>(m, rx)\<in>set ((m, rx) # es). 0 < length m \<and> length m \<le> VTL_DATA_SIZE"
  shows "\<exists>h'. transfer_all sw_graft L ((m, rx) # es) h = Some (h', []) \<and> rx_data (rx_app h') = m \<and> cnt_pkts (rx_app h') = 1"
  using assms(7) by (intro sw_unnumbered.transfer_first_only [OF assms(1-3) _ assms(4,5) _ assms(6,7)]) simp_all

text \<open>
  The same for the canonical graft, with which every socket starts: of any sequence of messages exactly the
  first one reaches the application.
\<close>

lemma cano_delivers_first_only:
  assumes "link_ok L" and "unnumbered_socket L (tx_sock h)" and "rx_dbr h = dbr_init" and "rx_app h = no_data"
    and "length m \<le> rx_cap (l_args L)" and "\<forall>(m, rx)\<in>set ((m, rx) # es). 0 < length m \<and> length m \<le> VTL_DATA_SIZE"
  shows "\<exists>h'. transfer_all cano_graft L ((m, rx) # es) h = Some (h', []) \<and> rx_data (rx_app h') = m \<and> cnt_pkts (rx_app h') = 1"
  using assms(6) by (intro cano_unnumbered.transfer_first_only [OF assms(1,2) _ _ assms(3,4) _ assms(5,6)]) simp_all

lemma ready_socket_unnumbered: "unnumbered_socket sample_link ready_socket"
  using ready_socket_can_transmit by (simp add: unnumbered_socket_def ready_socket_def zero_socket_def)

lemma two_messages:
  "length [1, 2, 3 :: u8] \<le> rx_cap (l_args sample_link)"
  "\<forall>(m, rx)\<in>set [([1, 2, 3 :: u8], \<lambda>_ :: nat. [] :: bytes list), ([4], \<lambda>_. [])]. 0 < length m \<and> length m \<le> VTL_DATA_SIZE"
  by (simp_all add: VTL_DATA_SIZE_def sample_link_def dbr_args_def)

theorem sw_delivers_first_only_witness:
  "\<exists>h'. transfer_all sw_graft sample_link [([1, 2, 3], \<lambda>_. []), ([4], \<lambda>_. [])] (sample_hosts [idle_slot] ()) = Some (h', []) \<and>
     rx_data (rx_app h') = [1, 2, 3]"
  using sw_delivers_first_only [OF sample_link_ok _ _ _ _ two_messages, of "sample_hosts [idle_slot] ()"] ready_socket_unnumbered by auto

lemma cano_delivers_first_only_example:
  "\<exists>h'. transfer_all cano_graft sample_link [([1, 2, 3], \<lambda>_. []), ([4], \<lambda>_. [])] (sample_hosts () [0]) = Some (h', []) \<and>
     rx_data (rx_app h') = [1, 2, 3]"
  using cano_delivers_first_only [OF sample_link_ok _ _ _ two_messages, of "sample_hosts () [0]"] ready_socket_unnumbered by auto

end
