(* ===== verification/Graft_Partial.thy ===== *)
theory Graft_Partial
  imports Graft_Window
begin

text \<open>
  The partial-reliability graft (\<open>XTFsPool/store/egress_partial_graft.c\<close>, \<open>ingress_partial_graft.c\<close>).
  The sender tolerates up to \<open>DEFAULT_LOSS\<close> packets that are not acknowledged; the third one that a
  check finds starts a go-back retransmission from there. The receiver checks a checksum of its own
  over a number of bytes it derives from the frame's length.
\<close>

definition DEFAULT_LOSS :: nat where "DEFAULT_LOSS = 2"

section \<open>Egress\<close>

definition pr_listener :: listener where
  "pr_listener = win_listener RECV_NACK"

definition pr_send_first :: "kern \<Rightarrow> skb \<Rightarrow> win_maps \<Rightarrow> (tc_result + tx_ctx) option" where
  "pr_send_first K = win_send_first K RECV_NACK"

text \<open>The ACK checking loop over \<open>ACK_WND_MAP\<close> and \<open>LOST_PKT_MAP\<close>; \<open>Inl\<close> is \<open>return TC_ACT_OK\<close>.\<close>

function pr_scan :: "sock_state list \<Rightarrow> nat \<Rightarrow> nat \<Rightarrow> u16 list \<Rightarrow> u16 list + nat \<times> bool \<times> u16 list" where
  "pr_scan m cw i lm =
     (if i < WND_SIZE then
        if i > cw then Inr (i, False, lm)
        else (case map_lookup m i of
                None \<Rightarrow> Inr (i, False, lm)
              | Some sk_state \<Rightarrow>
                  (case map_lookup lm 0 of
                     None \<Rightarrow> Inl lm
                   | Some lost_packet \<Rightarrow>
                       if event sk_state = RECV_NACK then
                         (let lost_packet' = lost_packet + 1;
                              lm' = fst (map_update lm 0 lost_packet')
                          in if unat lost_packet' > DEFAULT_LOSS then Inr (i, True, lm')
                             else pr_scan m cw (Suc i) lm')
                       else pr_scan m cw (Suc i) lm))
      else Inr (i, False, lm))"
  by pat_completeness auto
termination
  by (relation "measure (\<lambda>(m, cw, i, lm). WND_SIZE - i)") auto

declare pr_scan.simps [simp del]

type_synonym pr_result = "tc_action \<times> skb \<times> win_maps \<times> u16 list \<times> kcall list"

function pr_loop ::
    "kern \<Rightarrow> (nat \<Rightarrow> bytes list) \<Rightarrow> u16 \<Rightarrow> nat \<Rightarrow> nat \<Rightarrow> nat \<Rightarrow> skb \<Rightarrow> win_maps \<Rightarrow> u16 list \<Rightarrow> pr_result" where
  "pr_loop K rx last_len cw tx_num cursor s w lm =
     (let w1 = w\<lparr>ack_wnd := run_listener pr_listener (rx tx_num) (ack_wnd w)\<rparr>;
          tx_num' = Suc tx_num
      in if tx_num' > RETX_MAX then (TC_ACT_SHOT, s, w1, lm, [StartTimer 10])
         else (case pr_scan (ack_wnd w1) cw cursor (fst (map_update lm 0 0)) of
                 Inl lm1 \<Rightarrow> (TC_ACT_OK, s, w1, lm1, [StartTimer 10])
               | Inr (i, lost, lm1) \<Rightarrow>
                   if lost then
                     (let (s2, c2) = win_retx_from K w1 last_len cw i s;
                          (a, s3, w3, lm3, c3) = pr_loop K rx last_len cw tx_num' i s2 w1 lm1
                      in (a, s3, w3, lm3, StartTimer 10 # c2 @ c3))
                   else (TC_ACT_SHOT, s, w1, lm1, [StartTimer 10])))"
  by pat_completeness auto
termination
  by (relation "measure (\<lambda>(K, rx, last_len, cw, tx_num, cursor, s, w, lm). RETX_MAX + 1 - tx_num)") auto

declare pr_loop.simps [simp del]

definition pr_egress ::
    "kern \<Rightarrow> (nat \<Rightarrow> bytes list) \<Rightarrow> skb \<Rightarrow> win_maps \<Rightarrow> u16 list \<Rightarrow> pr_result option" where
  "pr_egress K rx s w lm = do {
     r \<leftarrow> pr_send_first K s w;
     case r of
       Inl (a, s', w', c) \<Rightarrow> Some (a, s', w', lm, c)
     | Inr t \<Rightarrow>
         if win_flush t then
           (let (a, s', w', lm', c) = pr_loop K rx (tx_last_len t) (tx_id t) 0 0 (tx_skb t) (tx_maps t) lm
            in Some (a, s', w', lm', tx_calls t @ c))
         else Some (TC_ACT_SHOT, tx_skb t, tx_maps t, lm, tx_calls t)
   }"

section \<open>Ingress\<close>

function pr_csum_loop :: "bytes \<Rightarrow> nat \<Rightarrow> nat \<Rightarrow> u8 \<Rightarrow> u8 option option" where
  "pr_csum_loop p pload_s y acc =
     (if y < pload_s then
        if length p < VTL_END + y - 1 + 1 then Some None
        else do {
          b \<leftarrow> ld (VTL_END + y - 1) 1 p;
          pr_csum_loop p pload_s (Suc y) (acc XOR word_of_nat b) }
      else Some (Some acc))"
  by pat_completeness auto
termination
  by (relation "measure (\<lambda>(p, pload_s, y, acc). pload_s - y)") auto

declare pr_csum_loop.simps [simp del]

definition pr_pload_s :: "bytes \<Rightarrow> nat" where
  "pr_pload_s p = (if length p = VTL_END + VTL_DATA_SIZE then 1024 else 363)"

definition pr_ingress ::
    "kern \<Rightarrow> bool list \<Rightarrow> nat \<Rightarrow> bytes \<Rightarrow> u16 list \<Rightarrow> (xdp_action \<times> bytes \<times> u16 list) option" where
  "pr_ingress K xsks xsk_index p num_ack_map =
     with_vtl_hdr p (XDP_DROP, p, num_ack_map) (XDP_PASS, p, num_ack_map)
       (if length p < VTL_END + 1 then Some (XDP_DROP, p, num_ack_map)
        else (case map_lookup num_ack_map 0 of
          None \<Rightarrow> Some (XDP_PASS, p, num_ack_map)
        | Some ack_num \<Rightarrow> do {
            send_csum \<leftarrow> vtlh_checksum p;
            r \<leftarrow> pr_csum_loop p (pr_pload_s p) 0 0;
            case r of
              None \<Rightarrow> Some (XDP_DROP, p, num_ack_map)
            | Some recv_csum \<Rightarrow>
                if unat (ucast recv_csum :: u16) = send_csum then
                  (if xsk_bound xsks xsk_index then
                     Some (k_redirect_map K xsk_index, p, fst (map_update num_ack_map 0 ((ack_num + 1) mod 8)))
                   else Some (XDP_PASS, p, num_ack_map))
                else do { q \<leftarrow> make_nack p; Some (XDP_TX, q, num_ack_map) }
          }))"

section \<open>Safety\<close>

lemma pr_csum_loop_eq: "n \<le> VTL_DATA_SIZE + 1 \<Longrightarrow> pr_csum_loop p n y acc = csum_loop p n y acc"
proof (induction p n y acc rule: pr_csum_loop.induct)
  case (1 p n y acc)
  show ?case
  proof (cases "y < n \<and> \<not> length p < VTL_END + y - 1 + 1")
    case True
    then have "\<not> VTL_DATA_SIZE < y" using "1.prems" by simp
    then show ?thesis
      using "1.IH" True "1.prems"
      by (subst pr_csum_loop.simps, subst csum_loop.simps) (auto split: Option.bind_splits)
  next
    case False
    then show ?thesis
      using "1.prems" by (subst pr_csum_loop.simps, subst csum_loop.simps) auto
  qed
qed

lemma pr_pload_s_le: "pr_pload_s p \<le> VTL_DATA_SIZE + 1"
  by (simp add: pr_pload_s_def VTL_DATA_SIZE_def)

lemma safe_pr_csum: "safe (pr_csum_loop p (pr_pload_s p) 0 acc)"
  unfolding pr_csum_loop_eq [OF pr_pload_s_le] by (rule safe_csum_loop)

lemma safe_pr_egress: "safe (pr_egress K rx s w lm)"
  unfolding pr_egress_def pr_send_first_def
  by (intro safe_bind safe_win_send_first) (auto split: sum.splits simp: Let_def split_beta)

lemma safe_pr_ingress: "safe (pr_ingress K xsks i p m)"
  unfolding pr_ingress_def
  by (intro safe_intros safe_with_vtl_hdr safe_vtlh_fields safe_pr_csum safe_make_nack)

interpretation pr: ack_listener pr_listener seq_slot RECV_NACK
  unfolding pr_listener_def by (rule win_listener_contract)

lemmas pr_first = win_first [where ev = RECV_NACK, folded pr_send_first_def]

section \<open>The check of the window\<close>

lemma pr_scan_spec:
  assumes "length m = WND_SIZE" and "cw < WND_SIZE" and "unat n \<le> DEFAULT_LOSS"
  shows "if DEFAULT_LOSS < unat n + length (slots RECV_NACK m cw i)
    then pr_scan m cw i [n] = Inr (slots RECV_NACK m cw i ! (DEFAULT_LOSS - unat n), True, [word_of_nat (DEFAULT_LOSS + 1)])
    else \<exists>k. pr_scan m cw i [n] = Inr (k, False, [n + word_of_nat (length (slots RECV_NACK m cw i))])"
  using assms
proof (induction "Suc cw - i" arbitrary: i n)
  case 0
  then show ?case by (subst pr_scan.simps) (auto simp: slots_end pr_scan.simps)
next
  case (Suc d)
  have i: "i \<le> cw" "i < WND_SIZE" "d = Suc cw - Suc i" using Suc.hyps(2) Suc.prems(2) by simp_all
  have l: "map_lookup m i = Some (m ! i)" "map_lookup [n] 0 = Some n" using i Suc.prems(1) by simp_all
  have n1: "unat (n + 1) = unat n + 1" using Suc.prems(3) by (simp add: unat_word_ariths DEFAULT_LOSS_def)
  show ?case
  proof (cases "event (m ! i) = RECV_NACK")
    case nack: True
    show ?thesis
    proof (cases "unat n = DEFAULT_LOSS")
      case True
      have "word_of_nat (unat (n + 1)) = n + 1" by simp
      then have "n + 1 = word_of_nat (DEFAULT_LOSS + 1)" unfolding n1 True by simp
      then show ?thesis
        using True nack i l n1 slots_rec [OF i(1)] by (subst pr_scan.simps) (simp add: Let_def map_update_ok)
    next
      case False
      then have n2: "unat (n + 1) \<le> DEFAULT_LOSS" using n1 Suc.prems(3) by simp
      have e: "pr_scan m cw i [n] = pr_scan m cw (Suc i) [n + 1]"
        using nack i l n2 by (subst pr_scan.simps) (simp add: Let_def map_update_ok)
      have j: "DEFAULT_LOSS - unat n = Suc (DEFAULT_LOSS - unat (n + 1))" using n1 False Suc.prems(3) by simp
      show ?thesis
        using Suc.hyps(1) [OF i(3) Suc.prems(1,2) n2] slots_rec [OF i(1)] nack n1 unfolding e j
        by (simp add: add.assoc split: if_splits)
    qed
  next
    case False
    then have "pr_scan m cw i [n] = pr_scan m cw (Suc i) [n]"
      using i l by (subst pr_scan.simps) simp
    then show ?thesis using Suc.hyps(1) [OF i(3) Suc.prems(1,2,3)] slots_rec [OF i(1)] False by simp
  qed
qed

section \<open>The wait loop\<close>

definition pr_lost :: "sock_state list \<Rightarrow> nat \<Rightarrow> nat \<Rightarrow> nat list" where
  "pr_lost m cw cur = slots RECV_NACK m cw cur"

lemma pr_loop_last: "RETX_MAX \<le> tx \<Longrightarrow> pr_loop K rx l cw tx cur s w lm =
    (TC_ACT_SHOT, s, w\<lparr>ack_wnd := run_listener pr_listener (rx tx) (ack_wnd w)\<rparr>, lm, [StartTimer 10])"
  by (subst pr_loop.simps) (simp add: Let_def)

lemma pr_loop_round:
  fixes rx :: "nat \<Rightarrow> bytes list" and w :: win_maps
  assumes "win_ok w" and "cw < WND_SIZE" and "tx < RETX_MAX" and "length lm = 1"
  defines "w1 \<equiv> w\<lparr>ack_wnd := run_listener pr_listener (rx tx) (ack_wnd w)\<rparr>"
  shows "pr_loop K rx l cw tx cur s w lm =
    (let lost = pr_lost (ack_wnd w1) cw cur in
     if length lost \<le> DEFAULT_LOSS then (TC_ACT_SHOT, s, w1, [word_of_nat (length lost)], [StartTimer 10])
     else (let (s2, c2) = win_retx_from K w1 l cw (lost ! DEFAULT_LOSS) s;
               (a, s3, w3, lm3, c3) = pr_loop K rx l cw (Suc tx) (lost ! DEFAULT_LOSS) s2 w1
                                        [word_of_nat (DEFAULT_LOSS + 1)]
           in (a, s3, w3, lm3, StartTimer 10 # c2 @ c3)))"
proof -
  have len: "length (ack_wnd w1) = WND_SIZE" using assms(1) by (simp add: w1_def win_ok_def)
  have t: "\<not> RETX_MAX < Suc tx" using assms(3) by simp
  have z: "fst (map_update lm 0 0) = [0]" using assms(4) by (auto simp: map_update_def length_Suc_conv)
  have n0: "unat (0 :: u16) \<le> DEFAULT_LOSS" by simp
  show ?thesis
  proof (cases "length (pr_lost (ack_wnd w1) cw cur) \<le> DEFAULT_LOSS")
    case True
    then obtain k where "pr_scan (ack_wnd w1) cw cur [0] = Inr (k, False, [word_of_nat (length (pr_lost (ack_wnd w1) cw cur))])"
      using pr_scan_spec [OF len assms(2) n0, of cur] by (auto simp: pr_lost_def)
    then show ?thesis using True t z by (subst pr_loop.simps) (simp add: Let_def w1_def)
  next
    case False
    then have "pr_scan (ack_wnd w1) cw cur [0] =
        Inr (pr_lost (ack_wnd w1) cw cur ! DEFAULT_LOSS, True, [word_of_nat (DEFAULT_LOSS + 1)])"
      using pr_scan_spec [OF len assms(2) n0, of cur] by (simp add: pr_lost_def)
    then show ?thesis using False t z by (subst pr_loop.simps) (simp add: Let_def w1_def)
  qed
qed

lemma pr_lost_cursor:
  assumes "DEFAULT_LOSS < length (pr_lost m cw cur)"
  shows "cur \<le> pr_lost m cw cur ! DEFAULT_LOSS" and "pr_lost m cw cur ! DEFAULT_LOSS \<le> cw"
  using nth_mem [OF assms] unfolding pr_lost_def set_slots by simp_all

lemma win_ok_ack_wnd: "win_ok w \<Longrightarrow> length m = length (ack_wnd w) \<Longrightarrow> win_ok (w\<lparr>ack_wnd := m\<rparr>)"
  by (simp add: win_ok_def)

lemma pr_loop_maps:
  "win_ok w \<Longrightarrow> cw < WND_SIZE \<Longrightarrow> tx \<le> RETX_MAX \<Longrightarrow> length lm = 1 \<Longrightarrow>
   (case pr_loop K rx l cw tx cur s w lm of (a, s', w', lm', c) \<Rightarrow>
      a = TC_ACT_SHOT \<and> win_ok w' \<and> num_seq_map w' = num_seq_map w \<and> length lm' = 1 \<and>
      0 < timers c \<and> timers c \<le> Suc RETX_MAX - tx \<and> transmissions c \<le> (Suc cw - cur) * (RETX_MAX - tx))"
proof (induction "RETX_MAX - tx" arbitrary: tx cur s w lm)
  case 0
  then show ?case by (simp add: pr_loop_last win_ok_ack_wnd)
next
  case (Suc d)
  let ?w = "w\<lparr>ack_wnd := run_listener pr_listener (rx tx) (ack_wnd w)\<rparr>"
  let ?lost = "pr_lost (ack_wnd ?w) cw cur"
  have tx: "tx < RETX_MAX" using Suc.hyps(2) by simp
  have ok: "win_ok ?w" using Suc.prems(1) by (simp add: win_ok_ack_wnd)
  note round = pr_loop_round [OF Suc.prems(1,2) tx Suc.prems(4), of K rx l cur s]
  show ?case
  proof (cases "length ?lost \<le> DEFAULT_LOSS")
    case True
    then show ?thesis using round ok tx by simp
  next
    case False
    let ?k = "?lost ! DEFAULT_LOSS"
    have k: "cur \<le> ?k" using False pr_lost_cursor(1) [of "ack_wnd ?w" cw cur] by simp
    obtain s2 c2 where r: "win_retx_from K ?w l cw ?k s = (s2, c2)" by (cases "win_retx_from K ?w l cw ?k s")
    obtain a s3 w3 lm3 c3 where g: "pr_loop K rx l cw (Suc tx) ?k s2 ?w [word_of_nat (DEFAULT_LOSS + 1)] = (a, s3, w3, lm3, c3)"
      using prod_cases5 by blast
    have c2: "transmissions c2 = Suc cw - ?k" "timers c2 = 0"
      using win_retx_from_spec(2,3) [of ?w cw K l ?k s] ok Suc.prems(2) r by (auto simp: win_ok_def)
    have IH: "a = TC_ACT_SHOT \<and> win_ok w3 \<and> num_seq_map w3 = num_seq_map w \<and> length lm3 = 1 \<and>
      0 < timers c3 \<and> timers c3 \<le> Suc RETX_MAX - Suc tx \<and> transmissions c3 \<le> (Suc cw - ?k) * (RETX_MAX - Suc tx)"
      using Suc.hyps(1) [of "Suc tx" ?w "[word_of_nat (DEFAULT_LOSS + 1)]" ?k s2] Suc.hyps(2) ok Suc.prems tx g by simp
    have "(Suc cw - ?k) + (Suc cw - ?k) * (RETX_MAX - Suc tx) = (Suc cw - ?k) * (RETX_MAX - tx)"
      using tx by (metis Suc_diff_Suc mult_Suc_right)
    also have "\<dots> \<le> (Suc cw - cur) * (RETX_MAX - tx)" using k by (intro mult_le_mono1) simp
    finally have "transmissions c2 + transmissions c3 \<le> (Suc cw - cur) * (RETX_MAX - tx)" using IH c2 by linarith
    moreover have "Suc (timers c3) \<le> Suc RETX_MAX - tx" using IH tx by linarith
    moreover have "pr_loop K rx l cw tx cur s w lm = (a, s3, w3, lm3, StartTimer 10 # c2 @ c3)"
      using round False r g by (simp add: Let_def)
    ultimately show ?thesis using IH c2 by simp
  qed
qed

text \<open>A window of short packets: whatever arrives, the rounds send copies of the current packet only.\<close>

lemma pr_loop_short:
  assumes "change_tail_ok K" and "store_rejects K" and "win_ok w" and "cw < WND_SIZE" and "tx \<le> RETX_MAX" and "length lm = 1"
    and "\<And>i. i \<le> cw \<Longrightarrow> unat (len_wnd w ! i) < ON_WIRE_SIZE"
    and "length (skb_data s) < ON_WIRE_SIZE" and "unat l = length (skb_data s)"
  shows "\<exists>a s' w' lm' c n. pr_loop K rx l cw tx cur s w lm = (a, s', w', lm', c) \<and> sent_frames c = replicate n (skb_data s) \<and>
    win_ok w' \<and> num_seq_map w' = num_seq_map w \<and> len_wnd w' = len_wnd w \<and> length lm' = 1"
  using assms(3-9)
proof (induction "RETX_MAX - tx" arbitrary: tx cur s w lm)
  case 0
  then show ?case by (auto simp: pr_loop_last win_ok_ack_wnd intro: exI [of _ 0])
next
  case (Suc n)
  let ?w = "w\<lparr>ack_wnd := run_listener pr_listener (rx tx) (ack_wnd w)\<rparr>"
  let ?lost = "pr_lost (ack_wnd ?w) cw cur"
  have tx: "tx < RETX_MAX" using Suc.hyps(2) by simp
  have i: "win_ok ?w" using Suc.prems(1) by (simp add: win_ok_ack_wnd)
  note round = pr_loop_round [OF Suc.prems(1,2) tx Suc.prems(4), of K rx l cur s]
  show ?case
  proof (cases "length ?lost \<le> DEFAULT_LOSS")
    case True
    then show ?thesis using round i by (auto intro: exI [of _ 0])
  next
    case False
    let ?k = "?lost ! DEFAULT_LOSS"
    obtain s2 c2 where r: "win_retx_from K ?w l cw ?k s = (s2, c2)" by (cases "win_retx_from K ?w l cw ?k s")
    have c2: "sent_frames c2 = replicate (Suc cw - ?k) (skb_data s)" "skb_data s2 = skb_data s"
      using win_retx_from_short [OF assms(1,2) i Suc.prems(2) _ Suc.prems(6,7), of ?k] Suc.prems(5) r by auto
    have n: "n = RETX_MAX - Suc tx" "Suc tx \<le> RETX_MAX" using Suc.hyps(2) by simp_all
    obtain a s3 w3 lm3 c3 m where g: "pr_loop K rx l cw (Suc tx) ?k s2 ?w [word_of_nat (DEFAULT_LOSS + 1)] = (a, s3, w3, lm3, c3)"
      "sent_frames c3 = replicate m (skb_data s)" "win_ok w3" "num_seq_map w3 = num_seq_map w" "len_wnd w3 = len_wnd w" "length lm3 = 1"
      using Suc.hyps(1) [OF n(1) i Suc.prems(2) n(2), of "[word_of_nat (DEFAULT_LOSS + 1)]" s2 ?k] Suc.prems(5-7) c2(2) by auto
    have "sent_frames (StartTimer 10 # c2 @ c3) = replicate (Suc cw - ?k + m) (skb_data s)"
      using c2(1) g(2) by (simp add: replicate_add)
    then show ?thesis using round False r g by (auto simp: Let_def simp del: sent_frames_Cons)
  qed
qed

section \<open>Properties\<close>

lemma pr_egress_cases:
  assumes "win_ok w" and "length lm = 1" and "pr_egress K rx s w lm = Some (a, s', w', lm', c)"
  obtains (early) "a = TC_ACT_OK" "transmissions c = 0" "timers c = 0" "win_ok w'"
    | (sent) t where "pr_send_first K s w = Some (Inr t)" "\<not> win_flush t" "a = TC_ACT_SHOT"
      "w' = tx_maps t" "c = tx_calls t"
    | (flushed) t c' where "pr_send_first K s w = Some (Inr t)" "win_flush t" "c = tx_calls t @ c'"
      "pr_loop K rx (tx_last_len t) (tx_id t) 0 0 (tx_skb t) (tx_maps t) lm = (a, s', w', lm', c')"
proof -
  obtain r where r: "pr_send_first K s w = Some r"
    using safe_win_send_first [of K RECV_NACK s w] by (auto simp: pr_send_first_def elim: safeE)
  show thesis
  proof (cases r)
    case (Inl x)
    then have "win_send_first K RECV_NACK s w = Some (Inl (a, s', w', c))"
      using assms(3) r by (cases x) (auto simp: pr_egress_def pr_send_first_def)
    from win_send_first_Inl [OF this] assms(1) show thesis by (intro early) auto
  next
    case (Inr t)
    show thesis
    proof (cases "win_flush t")
      case True
      then show thesis
        using flushed [OF r [unfolded Inr] True] assms(3) r Inr
        by (auto simp: pr_egress_def split: prod.splits)
    next
      case False
      then show thesis using sent [OF r [unfolded Inr] False] assms(3) r Inr by (auto simp: pr_egress_def)
    qed
  qed
qed

text \<open>
  Every run of the partial-reliability egress function keeps the sender's maps well formed; a
  packet that is sent advances the sequence number by one modulo the window, and the run makes at
  most 161 transmissions and waits at most 11 times.
\<close>

theorem pr_egress_invariant:
  assumes "win_ok w" and "length lm = 1"
  shows "\<exists>a s' w' lm' c. pr_egress K rx s w lm = Some (a, s', w', lm', c) \<and> win_ok w' \<and>
    timers c \<le> Suc RETX_MAX \<and>
    (a = TC_ACT_SHOT \<longrightarrow> unat (num_seq_map w' ! 0) = (unat (num_seq_map w ! 0) + 1) mod WND_SIZE \<and>
       1 \<le> transmissions c \<and> transmissions c \<le> 1 + WND_SIZE * RETX_MAX)"
proof -
  obtain a s' w' lm' c where e: "pr_egress K rx s w lm = Some (a, s', w', lm', c)"
    using safe_pr_egress [of K rx s w lm] by (auto elim!: safeE)
  have n: "unat (next_seq (num_seq_map w ! 0)) = (unat (num_seq_map w ! 0) + 1) mod WND_SIZE"
    using assms by (simp add: unat_next_seq win_ok_def)
  from assms e have "win_ok w' \<and> timers c \<le> Suc RETX_MAX \<and>
    (a = TC_ACT_SHOT \<longrightarrow> unat (num_seq_map w' ! 0) = (unat (num_seq_map w ! 0) + 1) mod WND_SIZE \<and>
       1 \<le> transmissions c \<and> transmissions c \<le> 1 + WND_SIZE * RETX_MAX)"
  proof (cases rule: pr_egress_cases)
    case early
    then show ?thesis by simp
  next
    case (sent t)
    then show ?thesis using pr_first [OF assms(1) sent(1)] n by simp
  next
    case (flushed t c')
    note f = pr_first [OF assms(1) flushed(1)]
    have "win_ok w' \<and> num_seq_map w' = num_seq_map (tx_maps t) \<and> timers c' \<le> Suc RETX_MAX \<and>
      transmissions c' \<le> Suc (tx_id t) * RETX_MAX"
      using pr_loop_maps [OF f(1,3) _ assms(2), where tx = 0 and K = K and rx = rx and l = "tx_last_len t"
        and cur = 0 and s = "tx_skb t"] flushed(4) by simp
    moreover have "Suc (tx_id t) * RETX_MAX \<le> WND_SIZE * RETX_MAX" using f(3) by (intro mult_le_mono1) simp
    ultimately show ?thesis using f n flushed(3) by simp
  qed
  then show ?thesis using e by blast
qed

theorem pr_egress_invariant_witness:
  "\<exists>a s' w' lm' c. pr_egress doc_kern (\<lambda>_. []) sample_skb (sample_maps 15) [0] = Some (a, s', w', lm', c) \<and> win_ok w'"
proof -
  have "win_ok (sample_maps 15)" "length [0 :: u16] = 1" by (simp_all add: sample_maps_ok)
  from pr_egress_invariant [OF this, of doc_kern "\<lambda>_. []" sample_skb] show ?thesis by blast
qed

text \<open>
  One round of the partial-reliability wait loop. If at most \<open>DEFAULT_LOSS\<close> slots from the cursor
  on are not acknowledged after the wait, nothing is resent and the loop ends; otherwise the saved
  packets from the third such slot up to the current packet are written and sent in sequence order,
  and the next round looks at the window from there on only.
\<close>

lemma pr_round_tolerates_loss:
  assumes "win_ok w" and "cw < WND_SIZE" and "tx < RETX_MAX" and "length lm = 1"
    and "w1 = w\<lparr>ack_wnd := run_listener pr_listener (rx tx) (ack_wnd w)\<rparr>" and "lost = slots RECV_NACK (ack_wnd w1) cw cur"
    and "pr_loop K rx l cw tx cur s w lm = (a, s', w', lm', c)"
  shows "if length lost \<le> DEFAULT_LOSS then a = TC_ACT_SHOT \<and> s' = s \<and> w' = w1 \<and> c = [StartTimer 10]
    else \<exists>s2 c2 c3. c = StartTimer 10 # c2 @ c3 \<and>
      resent c2 = map ((!) (buf_wnd w)) [lost ! DEFAULT_LOSS..<Suc cw] \<and>
      transmissions c2 = Suc cw - lost ! DEFAULT_LOSS \<and>
      pr_loop K rx l cw (Suc tx) (lost ! DEFAULT_LOSS) s2 w1 [3] = (a, s', w', lm', c3)"
proof -
  note round = pr_loop_round [OF assms(1-4), of K rx l cur s, folded assms(5), unfolded pr_lost_def, folded assms(6)]
  show ?thesis
  proof (cases "length lost \<le> DEFAULT_LOSS")
    case True
    then show ?thesis using round assms(7) by (auto simp: Let_def)
  next
    case False
    let ?k = "lost ! DEFAULT_LOSS"
    obtain s2 c2 where r: "win_retx_from K w1 l cw ?k s = (s2, c2)" by (cases "win_retx_from K w1 l cw ?k s")
    obtain b s3 w3 lm3 c3 where g: "pr_loop K rx l cw (Suc tx) ?k s2 w1 [3] = (b, s3, w3, lm3, c3)"
      using prod_cases5 by blast
    have "length (buf_wnd w1) = WND_SIZE" "length (len_wnd w1) = WND_SIZE" "buf_wnd w1 = buf_wnd w"
      using assms(1,5) by (simp_all add: win_ok_def)
    then have v: "resent c2 = map ((!) (buf_wnd w)) [?k..<Suc cw]" "transmissions c2 = Suc cw - ?k"
      using win_retx_from_spec(1,2) [of w1 cw K l ?k s] assms(2) r by auto
    have "word_of_nat (DEFAULT_LOSS + 1) = (3 :: u16)" by (simp add: DEFAULT_LOSS_def)
    then have "(a, s', w', lm', c) = (b, s3, w3, lm3, StartTimer 10 # c2 @ c3)"
      using round False r g assms(7) by (simp add: Let_def)
    then show ?thesis using False v g by (simp del: upt_Suc) blast
  qed
qed

definition lossy_maps :: "nat \<Rightarrow> win_maps" where
  "lossy_maps n = (sample_maps n)\<lparr>ack_wnd := replicate 16 (idle_slot\<lparr>event := RECV_NACK\<rparr>)\<rparr>"

lemma lossy_maps_ok: "n < 16 \<Longrightarrow> win_ok (lossy_maps n)"
  using sample_maps_ok [of n] by (simp add: lossy_maps_def win_ok_def WND_SIZE_def)

lemma pr_round_tolerates_loss_example:
  "\<exists>a s' w' lm' c. pr_loop doc_kern (\<lambda>_. []) 61 1 0 0 sample_skb (lossy_maps 2) [0] = (a, s', w', lm', c) \<and>
     c = [StartTimer 10]"
proof -
  let ?w = "lossy_maps 2"
  obtain a s' w' lm' c where g: "pr_loop doc_kern (\<lambda>_. []) 61 1 0 0 sample_skb ?w [0] = (a, s', w', lm', c)"
    using prod_cases5 by blast
  have w: "?w = ?w\<lparr>ack_wnd := run_listener pr_listener ((\<lambda>_. []) (0 :: nat)) (ack_wnd ?w)\<rparr>" by simp
  have l: "length (slots RECV_NACK (ack_wnd ?w) 1 0) \<le> DEFAULT_LOSS" by code_simp
  have p: "win_ok ?w" "1 < WND_SIZE" "0 < RETX_MAX" "length [0 :: u16] = 1"
    by (simp_all add: lossy_maps_ok WND_SIZE_def RETX_MAX_def)
  show ?thesis using pr_round_tolerates_loss [OF p w refl g] l g by simp
qed

text \<open>
  The tolerated losses add up over the rounds. In this run six packets are in the window, one
  acknowledgement (of packet 2) arrives during the second wait and none afterwards; the sender stops
  after three waits, well before its limit, with five packets not acknowledged.
\<close>

theorem pr_losses_exceed_default:
  "case pr_egress doc_kern (\<lambda>k. if k = 1 then [sample_frame 2 []] else []) sample_skb (lossy_maps 5) [0] of
     Some (a, s', w', lm', c) \<Rightarrow> a = TC_ACT_SHOT \<and> timers c = 3 \<and>
       slots RECV_NACK (ack_wnd w') 5 0 = [0, 1, 3, 4, 5] \<and> DEFAULT_LOSS < length (slots RECV_NACK (ack_wnd w') 5 0)
   | None \<Rightarrow> False"
  by code_simp

section \<open>The receiver\<close>

lemma pr_ingress_frame:
  assumes "vtl_frame p" and "VTL_END < length p" and "vtlh_checksum p = Some c"
  shows "pr_ingress K xsks i p [a] =
    (if length p < VTL_END - 1 + pr_pload_s p then Some (XDP_DROP, p, [a])
     else if unat (xor_bytes (covered p (pr_pload_s p))) = c
     then Some (if xsk_bound xsks i then (k_redirect_map K i, p, [(a + 1) mod 8]) else (XDP_PASS, p, [a]))
     else do { q \<leftarrow> make_nack p; Some (XDP_TX, q, [a]) })"
proof -
  let ?n = "pr_pload_s p"
  have m: "min ?n (VTL_DATA_SIZE + 1) = ?n" using pr_pload_s_le by (simp add: min_def)
  have n0: "0 < ?n" by (simp add: pr_pload_s_def)
  have e: "pr_csum_loop p ?n 0 0 = (if length p < VTL_END - 1 + ?n then Some None else Some (Some (xor_bytes (covered p ?n))))"
    unfolding pr_csum_loop_eq [OF pr_pload_s_le]
    using csum_loop_short [of ?n ?n p 0 0] csum_loop_fits [of p ?n] m n0 assms(2)
    by (auto simp: csum_fits_def)
  show ?thesis
    using assms e by (auto simp: pr_ingress_def with_vtl_hdr_frame map_lookup_def map_update_ok)
qed

text \<open>
  The partial-reliability receiver accepts the full-size packets that the sender transmits: a
  frame of \<open>ON_WIRE_SIZE\<close> bytes that announces \<open>VTL_DATA_SIZE\<close> bytes of payload is redirected to the
  socket and counted modulo 8.
\<close>

theorem pr_ingress_accepts_full_size:
  assumes "win_ok w" and "change_tail_ok K" and "pr_send_first K s w = Some (Inr t)"
    and "unat (skb_len s) = ON_WIRE_SIZE" and "length (skb_data s) = ON_WIRE_SIZE"
    and "p = skb_data (tx_skb t)" and "vtlh_payload_len p = Some VTL_DATA_SIZE" and "xsk_bound xsks i"
  shows "pr_ingress K xsks i p [a] = Some (k_redirect_map K i, p, [(a + 1) mod 8])"
proof -
  have l: "unat (skb_len s) = length (skb_data s)" "length (skb_data s) \<le> ON_WIRE_SIZE" using assms(4,5) by simp_all
  note f = win_send_first_frame [OF assms(1,2) assms(3) [unfolded pr_send_first_def] l, folded assms(6)]
  have s: "pr_pload_s p = VTL_DATA_SIZE" "VTL_END < length p" "VTL_END - 1 + VTL_DATA_SIZE \<le> length p"
    using f(3) assms(5) by (simp_all add: pr_pload_s_def wire_consts)
  have "vtl_frame p" "vtlh_checksum p = Some (unat (xor_bytes (covered p VTL_DATA_SIZE)))"
    using f(1) assms(7) by (auto simp: sealed_def)
  then show ?thesis using pr_ingress_frame [of p _ K xsks i a] s assms(8) by simp
qed

theorem pr_ingress_accepts_full_size_witness:
  "\<exists>t. pr_send_first doc_kern \<lparr>skb_data = sample_frame 0 (replicate 1024 7), skb_len = 1082, skb_ifindex = 3\<rparr>
        (sample_maps 0) = Some (Inr t) \<and>
     pr_ingress doc_kern [True] 0 (skb_data (tx_skb t)) [7] = Some (XDP_REDIRECT, skb_data (tx_skb t), [0])"
proof -
  let ?s = "\<lparr>skb_data = sample_frame 0 (replicate 1024 7), skb_len = 1082, skb_ifindex = 3\<rparr>"
  have w: "win_ok (sample_maps 0)" by (rule sample_maps_ok) simp
  have h: "vtl_frame (skb_data ?s)" "vtlh_payload_len (skb_data ?s) = Some VTL_DATA_SIZE"
    "csum_fits (skb_data ?s) VTL_DATA_SIZE" "unat (skb_len ?s) = ON_WIRE_SIZE" "length (skb_data ?s) = ON_WIRE_SIZE"
    "xsk_bound [True] 0"
    by code_simp+
  obtain t where t: "pr_send_first doc_kern ?s (sample_maps 0) = Some (Inr t)"
    unfolding pr_send_first_def
    by (rule win_send_first_sends [OF w doc_kern_change_tail_ok h(1-3)]) (use h(5) in auto)
  have "vtlh_payload_len (skb_data (tx_skb t)) = Some VTL_DATA_SIZE"
    using win_send_first_frame(8) [OF w doc_kern_change_tail_ok t [unfolded pr_send_first_def]] h by simp
  then show ?thesis
    using pr_ingress_accepts_full_size [OF w doc_kern_change_tail_ok t h(4,5) refl _ h(6), of 7] t
    by (simp add: doc_kern_def)
qed

text \<open>
  A short packet does not pass the partial-reliability receiver: a frame that is not of full size
  and carries fewer than 362 bytes after the headers is dropped, whatever its checksum, because the
  receiver then sums 363 bytes.
\<close>

theorem pr_ingress_drops_short:
  assumes "vtl_frame p" and "length p < VTL_END + 362"
  shows "pr_ingress K xsks i p [a] = Some (XDP_DROP, p, [a])"
proof -
  obtain c where c: "vtlh_checksum p = Some c" using safe_vtlh_fields(4) [OF assms(1)] by (auto elim: safeE)
  have s: "pr_pload_s p = 363" using assms(2) by (simp add: pr_pload_s_def VTL_DATA_SIZE_def)
  show ?thesis
  proof (cases "VTL_END < length p")
    case True
    then show ?thesis using pr_ingress_frame [OF assms(1) True c, of K xsks i a] s assms(2) by (simp add: VTL_END_def)
  next
    case False
    then show ?thesis using assms(1) by (simp add: pr_ingress_def with_vtl_hdr_frame)
  qed
qed

theorem pr_ingress_drops_short_witness:
  "pr_ingress doc_kern [True] 0 sealed_frame [0] = Some (XDP_DROP, sealed_frame, [0])"
proof -
  have "vtl_frame sealed_frame" "length sealed_frame < VTL_END + 362" by code_simp+
  then show ?thesis by (rule pr_ingress_drops_short)
qed

end
