(* ===== verification/Stream_Partial.thy ===== *)
theory Stream_Partial
  imports Stream_Unacked Graft_Partial
begin

text \<open>
  Streams over the partial-reliability graft: with the composition of \<open>Stream_Transfer\<close>, messages of full
  size arrive although some of their acknowledgements are missing, and short messages never arrive.
\<close>

definition pr_graft :: "(win_maps \<times> u16 list, u16 list) graft" where
  "pr_graft = \<lparr>g_egress = (\<lambda>K rx s (w, lm). map_option (\<lambda>(a, s', w', lm', c). ((w', lm'), sent_frames c)) (pr_egress K rx s w lm)),
     g_ingress = pr_ingress\<rparr>"

section \<open>Missing acknowledgements\<close>

text \<open>During the first wait no NACK arrives and at most \<open>DEFAULT_LOSS\<close> slots of the window are not acknowledged.\<close>

definition silent_slots :: "bytes list \<Rightarrow> nat list" where
  "silent_slots ps = filter (\<lambda>j. \<not> (\<exists>p\<in>set ps. vtl_frame p \<and> seq_slot p = j)) [0..<WND_SIZE]"

definition tolerable :: "(nat \<Rightarrow> bytes list) \<Rightarrow> bool" where
  "tolerable rx \<longleftrightarrow> (\<forall>p\<in>set (rx 0). vtl_frame p \<longrightarrow> \<not> is_nack p) \<and> length (silent_slots (rx 0)) \<le> DEFAULT_LOSS"

lemma pr_lost_tolerable:
  assumes "tolerable rx" and "length m = WND_SIZE" and "cw < WND_SIZE"
  shows "length (pr_lost (run_listener pr_listener (rx 0) m) cw 0) \<le> DEFAULT_LOSS"
proof -
  let ?m = "run_listener pr_listener (rx 0) m"
  have "j \<in> set (silent_slots (rx 0))" if "j \<in> set (pr_lost ?m cw 0)" for j
  proof (rule ccontr)
    assume n: "j \<notin> set (silent_slots (rx 0))"
    have j: "j < WND_SIZE" "event (?m ! j) = RECV_NACK" using that assms(3) by (auto simp: pr_lost_def set_slots)
    then have "event (?m ! j) = RECV_ACK"
      using pr.run_acks [of "rx 0" j m] assms(1,2) n by (auto simp: tolerable_def silent_slots_def)
    then show False using j(2) by (simp add: event_defs)
  qed
  then have "card (set (pr_lost ?m cw 0)) \<le> card (set (silent_slots (rx 0)))" by (intro card_mono) auto
  moreover have "distinct (pr_lost ?m cw 0)" "distinct (silent_slots (rx 0))"
    by (simp_all add: pr_lost_def slots_def silent_slots_def)
  ultimately show ?thesis using assms(1) by (simp add: distinct_card tolerable_def)
qed

definition pr_admits :: "bytes \<Rightarrow> bool" where
  "pr_admits p \<longleftrightarrow> length p = VTL_END + VTL_DATA_SIZE \<and> vtlh_payload_len p = Some VTL_DATA_SIZE"

lemma pr_accepts:
  assumes "length r = 1" and "numbered k p" and "pr_admits p" and "xsk_bound xsks i"
  shows "\<exists>r'. g_ingress pr_graft K xsks i p r = Some (k_redirect_map K i, p, r') \<and> length r' = 1"
proof -
  obtain a where a: "r = [a]" using assms(1) by (auto simp: length_Suc_conv)
  have p: "vtl_frame p" "vtlh_checksum p = Some (unat (xor_bytes (covered p VTL_DATA_SIZE)))"
    using assms(2,3) by (auto simp: numbered_def sealed_def pr_admits_def)
  have l: "VTL_END < length p" "pr_pload_s p = VTL_DATA_SIZE" "\<not> length p < VTL_END - 1 + VTL_DATA_SIZE"
    using assms(3) by (simp_all add: pr_admits_def pr_pload_s_def VTL_DATA_SIZE_def)
  show ?thesis using pr_ingress_frame [OF p(1) l(1) p(2), of K xsks i a] l(2,3) assms(4) a by (simp add: pr_graft_def)
qed

definition pr_ready :: "nat \<Rightarrow> win_maps \<times> u16 list \<Rightarrow> bool" where
  "pr_ready k = (\<lambda>(w, lm). win_ready k w \<and> length lm = 1)"

lemma pr_sends_once:
  assumes "pr_ready k wm" and "length data = VTL_DATA_SIZE \<and> tolerable rx" and "change_tail_ok K" and "outgoing data s"
  shows "\<exists>w' p. g_egress pr_graft K rx s wm = Some (w', [p]) \<and> pr_ready (Suc k) w' \<and> numbered k p \<and> pr_admits p \<and>
    drop VTL_END p = data"
proof -
  obtain w lm where wm: "wm = (w, lm)" "win_ready k w" "length lm = 1" using assms(1) by (auto simp: pr_ready_def)
  obtain t where t: "pr_send_first K s w = Some (Inr t)" "win_ready (Suc k) (tx_maps t)"
    "numbered k (skb_data (tx_skb t))" "drop VTL_END (skb_data (tx_skb t)) = data"
    "sent_frames (tx_calls t) = [skb_data (tx_skb t)]" "tx_id t = k mod WIN_SIZE"
    "vtlh_payload_len (skb_data (tx_skb t)) = Some (length data)"
    unfolding pr_send_first_def by (rule win_sends [OF wm(2) assms(3,4)]) blast
  let ?m = "run_listener pr_listener (rx 0) (ack_wnd (tx_maps t))"
  have w: "win_ok (tx_maps t)" "tx_id t < WND_SIZE" using t(2,6) by (simp_all add: win_ready_def WIN_SIZE_def WND_SIZE_def)
  have "length (pr_lost ?m (tx_id t) 0) \<le> DEFAULT_LOSS"
    using pr_lost_tolerable [OF _ _ w(2)] assms(2) w(1) by (simp add: win_ok_def)
  moreover have "(0 :: nat) < RETX_MAX" by (simp add: RETX_MAX_def)
  ultimately obtain lm' where l: "pr_loop K rx (tx_last_len t) (tx_id t) 0 0 (tx_skb t) (tx_maps t) lm =
      (TC_ACT_SHOT, tx_skb t, (tx_maps t)\<lparr>ack_wnd := ?m\<rparr>, lm', [StartTimer 10])" "length lm' = 1"
    using pr_loop_round [OF w _ wm(3), of 0 K rx "tx_last_len t" 0 "tx_skb t"] by simp
  have r: "win_ready (Suc k) ((tx_maps t)\<lparr>ack_wnd := ?m\<rparr>)"
    using t(2) win_ok_ack_wnd [OF w(1)] by (simp add: win_ready_def w(1) [unfolded win_ok_def])
  have "length (skb_data (tx_skb t)) - VTL_END = length data" using t(4) by (metis length_drop)
  then have "pr_admits (skb_data (tx_skb t))"
    using t(7) assms(2) numbered_length [OF t(3)] by (simp add: pr_admits_def VTL_DATA_SIZE_def)
  then show ?thesis
    using t l r wm by (cases "win_flush t") (simp_all add: pr_graft_def pr_egress_def pr_ready_def)
qed

interpretation pr_acked: window_sender pr_graft "\<lambda>k r. length r = 1" pr_admits pr_ready
  "\<lambda>m rx. length m = VTL_DATA_SIZE \<and> tolerable rx"
  by unfold_locales (use pr_accepts pr_sends_once in blast)+


section \<open>Short messages\<close>

lemma pr_short_copies:
  assumes "short_ready k w" and "length lm = 1" and "change_tail_ok K" and "store_rejects K" and "outgoing data s"
    and "length data < VTL_DATA_SIZE"
  shows "\<exists>w' lm' n p. g_egress pr_graft K rx s (w, lm) = Some ((w', lm'), replicate (Suc n) p) \<and> short_ready (Suc k) w' \<and>
    length lm' = 1 \<and> vtl_frame p \<and> length p = VTL_END + length data"
proof -
  obtain t where t: "pr_send_first K s w = Some (Inr t)" "win_flush t" "numbered k (skb_data (tx_skb t))"
    "drop VTL_END (skb_data (tx_skb t)) = data" "sent_frames (tx_calls t) = [skb_data (tx_skb t)]"
    "win_ok (tx_maps t)" "tx_id t < WND_SIZE" "\<And>i. i \<le> tx_id t \<Longrightarrow> unat (len_wnd (tx_maps t) ! i) < ON_WIRE_SIZE"
    "length (skb_data (tx_skb t)) < ON_WIRE_SIZE" "unat (tx_last_len t) = length (skb_data (tx_skb t))"
    "\<And>w'. win_ok w' \<Longrightarrow> num_seq_map w' = num_seq_map (tx_maps t) \<Longrightarrow> len_wnd w' = len_wnd (tx_maps t) \<Longrightarrow> short_ready (Suc k) w'"
    unfolding pr_send_first_def by (rule short_first [OF assms(1,3,5,6)]) blast
  obtain a s' w' lm' c n where g: "pr_loop K rx (tx_last_len t) (tx_id t) 0 0 (tx_skb t) (tx_maps t) lm = (a, s', w', lm', c)"
    "sent_frames c = replicate n (skb_data (tx_skb t))" "win_ok w'" "num_seq_map w' = num_seq_map (tx_maps t)"
    "len_wnd w' = len_wnd (tx_maps t)" "length lm' = 1"
    using pr_loop_short [OF assms(3,4) t(6,7) _ assms(2) t(8-10), of 0 rx 0] by auto
  have "length (skb_data (tx_skb t)) - VTL_END = length data" using t(4) by (metis length_drop)
  then have "length (skb_data (tx_skb t)) = VTL_END + length data" using numbered_length [OF t(3)] by simp
  moreover have "vtl_frame (skb_data (tx_skb t))" using t(3) by (simp add: numbered_def sealed_def)
  moreover have "g_egress pr_graft K rx s (w, lm) = Some ((w', lm'), replicate (Suc n) (skb_data (tx_skb t)))"
    using t(1,2,5) g(1,2) by (simp add: pr_graft_def pr_egress_def)
  ultimately show ?thesis using t(11) [OF g(3-5)] g(6) by blast
qed

lemma pr_drops_copies:
  assumes "vtl_frame p" and "length p < VTL_END + 362" and "length r = 1"
  shows "receive_frames pr_graft L (replicate n p) r ds rx = Some (r, ds, rx, [])"
proof -
  obtain a where "r = [a]" using assms(3) by (auto simp: length_Suc_conv)
  then have "g_ingress pr_graft (l_kern L) (l_xsks L) (l_queue L) p r = Some (XDP_DROP, p, r)"
    using pr_ingress_drops_short [OF assms(1,2)] by (simp add: pr_graft_def)
  then show ?thesis by (induction n) simp_all
qed

lemma pr_short_all:
  assumes "link_ok L" and "store_rejects (l_kern L)"
    and "can_transmit L (tx_sock h)" and "tx_graft h = (w, lm)" and "short_ready k w" and "length lm = 1" and "length (rx_graft h) = 1"
    and "\<forall>(m, rx)\<in>set es. 0 < length m \<and> length m < 362"
  shows "\<exists>h'. transfer_all pr_graft L es h = Some (h', []) \<and> rx_app h' = rx_app h \<and> rx_dbr h' = rx_dbr h"
  using assms(3-8)
proof (induction es arbitrary: h w lm k)
  case Nil
  then show ?case by simp
next
  case (Cons e es)
  obtain m rx where e: "e = (m, rx)" "0 < length m" "length m < 362" using Cons.prems(6) by (cases e) auto
  have m: "length m \<le> VTL_DATA_SIZE" "length m < VTL_DATA_SIZE" using e(3) by (simp_all add: VTL_DATA_SIZE_def)
  obtain s' pkt to where v: "vtl_send_data (l_net L) (tx_sock h) m = Inr (0, s', [(pkt, to)])" "can_transmit L s'"
    "outgoing m (link_skb L pkt)"
    by (rule vtl_send_data_outgoing [OF assms(1) Cons.prems(1) e(2) m(1)]) blast
  obtain w' lm' n p where p: "g_egress pr_graft (l_kern L) rx (link_skb L pkt) (w, lm) = Some ((w', lm'), replicate (Suc n) p)"
    "short_ready (Suc k) w'" "length lm' = 1" "vtl_frame p" "length p = VTL_END + length m"
    using pr_short_copies [OF Cons.prems(3,4) link_okD(1) [OF assms(1)] assms(2) v(3) m(2)] by blast
  let ?h = "h\<lparr>tx_sock := s', tx_graft := (w', lm')\<rparr>"
  have "receive_frames pr_graft L (replicate (Suc n) p) (rx_graft h) (rx_dbr h) (rx_app h) = Some (rx_graft h, rx_dbr h, rx_app h, [])"
    by (rule pr_drops_copies [OF p(4) _ Cons.prems(5)]) (use p(5) e(3) in simp)
  then have "transfer pr_graft L m rx h = Some (?h, [])"
    using v(1) p(1) Cons.prems(2) by (simp add: transfer_def del: replicate_Suc)
  moreover have "\<exists>h'. transfer_all pr_graft L es ?h = Some (h', []) \<and> rx_app h' = rx_app ?h \<and> rx_dbr h' = rx_dbr ?h"
    by (rule Cons.IH [of ?h w' lm' "Suc k"]) (use v(2) p(2,3) Cons.prems(5,6) in auto)
  ultimately show ?case using e(1) by auto
qed

section \<open>What reaches the application\<close>


text \<open>
  Short messages never arrive over the partial-reliability graft. Its receiver sums 363 bytes of every
  frame that is not of full size: of any sequence of messages of fewer than 362 bytes, whatever frames come
  back, all transmissions and retransmissions are dropped without an answer and nothing reaches the
  application.
\<close>

lemma pr_short_messages_lost:
  assumes "link_ok L" and "store_rejects (l_kern L)" and "can_transmit L (tx_sock h)" and "tx_graft h = (w, [n])"
    and "win_ok w" and "num_seq_map w = [0]" and "rx_graft h = [a]"
    and "\<forall>(m, rx)\<in>set es. 0 < length m \<and> length m < 362"
  shows "\<exists>h'. transfer_all pr_graft L es h = Some (h', []) \<and> rx_app h' = rx_app h"
  using pr_short_all [OF assms(1-4), of 0 es] assms(5-8) by (auto simp: short_ready_def win_ready_def)

section \<open>Instances\<close>

text \<open>Acknowledgements for all slots but the first two.\<close>

definition ack_most :: "nat \<Rightarrow> bytes list" where
  "ack_most k = map (\<lambda>j. sample_frame j []) [2..<16]"

lemma tolerable_ack_most: "tolerable ack_most"
proof -
  have "set (silent_slots (ack_most 0)) \<subseteq> {0, 1}"
  proof
    fix j assume "j \<in> set (silent_slots (ack_most 0))"
    then have "j < 16" "\<not> 2 \<le> j" using sample_acks [of j] by (auto simp: silent_slots_def ack_most_def WND_SIZE_def simp del: upt_rec_numeral)
    then show "j \<in> {0, 1}" by auto
  qed
  then have "card (set (silent_slots (ack_most 0))) \<le> card {0 :: nat, 1}" by (intro card_mono) simp_all
  moreover have "distinct (silent_slots (ack_most 0))" by (simp add: silent_slots_def)
  ultimately have "length (silent_slots (ack_most 0)) \<le> DEFAULT_LOSS" by (simp add: distinct_card DEFAULT_LOSS_def)
  then show ?thesis using sample_acks by (auto simp: tolerable_def ack_most_def simp del: upt_rec_numeral)
qed

definition full_message :: bytes where "full_message = replicate VTL_DATA_SIZE 7"

lemma full_messages:
  "\<forall>(m, rx)\<in>set [(full_message, ack_most), (full_message, ack_most)]. length m = VTL_DATA_SIZE \<and> tolerable rx"
  "length (concat (map fst [(full_message, ack_most), (full_message, ack_most)])) \<le> rx_cap (l_args sample_link)"
  using tolerable_ack_most by (simp_all add: full_message_def sample_link_def dbr_args_def VTL_DATA_SIZE_def)


lemma pr_short_messages_lost_example:
  "\<exists>h'. transfer_all pr_graft sample_link [([1, 2], \<lambda>_. []), ([3], ack_most)] (sample_hosts (sample_maps 0, [0]) [0]) = Some (h', []) \<and>
     rx_app h' = no_data"
  using pr_short_messages_lost [OF sample_link_ok sample_link_strict(2), of "sample_hosts (sample_maps 0, [0]) [0]" "sample_maps 0" 0 0
      "[([1, 2], \<lambda>_. []), ([3], ack_most)]"]
    ready_socket_can_transmit sample_maps_start by auto

end
