(* ===== verification/Hooker_Progs.thy ===== *)
theory Hooker_Progs
  imports VTL_Wire
begin

text \<open>
  The kernel part of the hooker (\<open>XTFsPool/store/hooker_progs.c\<close>, and the listener of
  \<open>XTFsPool/hooker_test_progs.c\<close>, which also parses SYN-ACK packets): the sockops program that follows
  the TCP connections of the hooked applications and writes the VTL option, the redirector between
  application and hooker sockets, and the XDP listener that registers streams and looks for the VTL
  option in TCP options. The maps are shared by the three programs.
\<close>

section \<open>Byte order\<close>

definition bswap32 :: "u32 \<Rightarrow> u32" where
  "bswap32 x = word_of_nat (le_get (rev (le_put 4 (unat x))))"

definition bswap16 :: "u16 \<Rightarrow> u16" where
  "bswap16 x = word_of_nat (le_get (rev (le_put 2 (unat x))))"

lemma bswap32_bswap32 [simp]: "bswap32 (bswap32 x) = x"
proof -
  have l: "le_get (rev (le_put 4 n)) < 2 ^ 32" for n
    using le_get_less [of "rev (le_put 4 n)"] by simp
  have "unat x < 2 ^ 32" using unsigned_less [of x, where 'a = nat] by simp
  then have "le_get (le_put 4 (unat x)) = unat x" by (simp add: le_get_le_put del: le_put.simps)
  moreover have "le_put 4 (le_get (rev (le_put 4 (unat x)))) = rev (le_put 4 (unat x))"
    by (rule le_put_le_get_len) simp
  ultimately show ?thesis using l [of "unat x"] by (simp add: bswap32_def unat_of_nat)
qed

lemma bswap32_0 [simp]: "bswap32 0 = 0"
proof -
  have "le_put k 0 = replicate k 0" for k by (induction k) simp_all
  moreover have "le_get (replicate k 0) = 0" for k by (induction k) simp_all
  ultimately show ?thesis by (simp add: bswap32_def del: le_put.simps)
qed

section \<open>Maps and sockets\<close>

definition SERVER_PORT :: u32 where "SERVER_PORT = 2222"
definition CLIENT_PORT :: u32 where "CLIENT_PORT = 2223"
definition HK_REDIR_PORT :: u32 where "HK_REDIR_PORT = 10000"

lemmas port_defs = SERVER_PORT_def CLIENT_PORT_def HK_REDIR_PORT_def

datatype tcp_host_role = TCP_CLIENT | TCP_SERVER

record stream_tuple =
  src_ip :: u32
  dst_ip :: u32
  src_port :: u32
  dst_port :: u32

text \<open>Of \<open>vtl_tcp_stream_info\<close> the programs set and read \<open>gid\<close> and \<open>profil\<close>; the rest stays zero.\<close>

record vtl_tcp_stream_info =
  gid :: u8
  profil :: u32

text \<open>
  A socket is named by its address tuple as \<open>bpf_sock_ops\<close> shows it. \<open>HK_SOCK_MAP\<close> is a hash map, the
  others are arrays; \<open>None\<close> in the role map is the zero of a fresh entry. The cache array has
  \<open>MAX_HANDLED_TCP_STREAMS\<close> entries, indexed by a 16-bit cookie.
\<close>

record hk_maps =
  HK_SOCK_MAP :: "nat \<rightharpoonup> stream_tuple"
  APP_HASH_ID_MAP :: "nat list"
  TCP_STREAMS_CACHE_MAP :: "u16 \<Rightarrow> vtl_tcp_stream_info"
  TCP_HOST_ROLE_MAP :: "tcp_host_role option list"
  PRFLNG_TRIES_NUM_MAP :: "int list"
  SYN_HDR_INFO_MAP :: "stream_tuple list"

definition HK_SOCK_MAX :: nat where "HK_SOCK_MAX = 20"

text \<open>
  \<open>bpf_sock_hash_update\<close> with \<open>BPF_NOEXIST\<close>: -17 (EEXIST) when the key is taken, -7 (E2BIG) when the map
  is full (\<open>linux/bpf.h\<close>, helper \<open>bpf_sock_hash_update\<close>).
\<close>

definition sock_hash_update_noexist ::
    "(nat \<rightharpoonup> stream_tuple) \<Rightarrow> nat \<Rightarrow> stream_tuple \<Rightarrow> (nat \<rightharpoonup> stream_tuple) \<times> int" where
  "sock_hash_update_noexist m k sk =
     (if m k \<noteq> None then (m, -17)
      else if HK_SOCK_MAX \<le> length (filter (\<lambda>i. m i \<noteq> None) [0..<HK_SOCK_MAX]) then (m, -7)
      else (m(k \<mapsto> sk), 0))"

record sk_ops =
  local_ip4 :: u32
  remote_ip4 :: u32
  local_port :: u32
  remote_port :: u32
  op :: int
  args1 :: u32
  reply :: int

definition sock_of :: "sk_ops \<Rightarrow> stream_tuple" where
  "sock_of sk = \<lparr>src_ip = local_ip4 sk, dst_ip = remote_ip4 sk, src_port = local_port sk, dst_port = remote_port sk\<rparr>"

section \<open>The sockops program\<close>

definition app_hash_of :: "sk_ops \<Rightarrow> nat" where
  "app_hash_of sk =
     unat (vtl_compute_tcp_stream_cookie (bswap32 (local_ip4 sk)) (bswap32 (remote_ip4 sk))
             (local_port sk) (bswap32 (remote_port sk))) mod 20"

definition hk_record_app_info :: "sk_ops \<Rightarrow> tcp_host_role \<Rightarrow> hk_maps \<Rightarrow> hk_maps" where
  "hk_record_app_info sk h_role m =
     (let app_hash = app_hash_of sk;
          port_num = (case h_role of
                        TCP_SERVER \<Rightarrow> SERVER_PORT
                      | TCP_CLIENT \<Rightarrow> (if CLIENT_PORT = SERVER_PORT then local_port sk else CLIENT_PORT));
          m1 = (if local_port sk = port_num
                then m\<lparr>APP_HASH_ID_MAP := fst (map_update (APP_HASH_ID_MAP m) 0 app_hash)\<rparr> else m)
      in m1\<lparr>HK_SOCK_MAP := fst (sock_hash_update_noexist (HK_SOCK_MAP m1) app_hash (sock_of sk))\<rparr>)"

text \<open>
  A \<open>struct tcp_opt\<close> (kind 253, length 4, the option in network order) copied into an \<open>int\<close>, and the
  option field as the \<open>uint16_t\<close> that \<open>option_type\<close> takes.
\<close>

definition tcp_opt_bytes :: "nat \<Rightarrow> bytes" where
  "tcp_opt_bytes v = [253, 4] @ le_put 2 (unat (bswap16 (word_of_nat v)))"

definition opt_int :: "bytes \<Rightarrow> int" where
  "opt_int bs = sint (word_of_nat (le_get bs) :: u32)"

text \<open>
  \<open>cb_flags_set\<close> is the result of \<open>bpf_sock_ops_cb_flags_set\<close>; \<open>junk\<close> is the value of the uninitialised
  variable \<open>opt_buff\<close>.
\<close>

definition write_opt :: "int \<Rightarrow> sk_ops \<Rightarrow> int \<times> u16" where
  "write_opt junk sk =
     (if args1 sk = 100 then (opt_int (tcp_opt_bytes 1), bswap16 1)
      else if args1 sk = 200 then (opt_int (tcp_opt_bytes 2), bswap16 2)
      else if args1 sk = 300 then (opt_int (tcp_opt_bytes 3), bswap16 3)
      else (junk, - 1))"

text \<open>The stream that answering a SYN looks up, from the tuple the listener saved.\<close>

definition nego_stream :: "hk_maps \<Rightarrow> vtl_tcp_stream_info option" where
  "nego_stream m =
     (case map_lookup (SYN_HDR_INFO_MAP m) 0 of
        None \<Rightarrow> None
      | Some syn_info \<Rightarrow>
          Some (TCP_STREAMS_CACHE_MAP m
            (vtl_compute_tcp_stream_cookie (src_ip syn_info) (dst_ip syn_info) (src_port syn_info) (dst_port syn_info))))"

definition hooker_monitor_apps :: "(int \<Rightarrow> int) \<Rightarrow> int \<Rightarrow> sk_ops \<Rightarrow> hk_maps \<Rightarrow> sk_ops \<times> hk_maps" where
  "hooker_monitor_apps cb_flags_set junk sk m =
     (if local_port sk \<noteq> SERVER_PORT \<and> local_port sk \<noteq> CLIENT_PORT \<and>
         bswap32 (remote_port sk) \<noteq> SERVER_PORT \<and> bswap32 (remote_port sk) \<noteq> CLIENT_PORT
      then (sk\<lparr>reply := -1\<rparr>, m)
      else
        (let (rv, m') =
           (if op sk = 3 then
              (cb_flags_set 16, m\<lparr>TCP_HOST_ROLE_MAP := fst (map_update (TCP_HOST_ROLE_MAP m) 0 (Some TCP_CLIENT))\<rparr>)
            else if op sk = 11 then
              (cb_flags_set 16,
               m\<lparr>TCP_HOST_ROLE_MAP := fst (map_update (TCP_HOST_ROLE_MAP m) 0 (Some TCP_SERVER)),
                 PRFLNG_TRIES_NUM_MAP := fst (map_update (PRFLNG_TRIES_NUM_MAP m) 0 0)\<rparr>)
            else if op sk = 4 then (-1, hk_record_app_info sk TCP_CLIENT m)
            else if op sk = 5 then (cb_flags_set 0, hk_record_app_info sk TCP_SERVER m)
            else if op sk = 100 then (if unat (args1 sk) + 4 \<le> 40 then 4 else 0, m)
            else if op sk = 200 then
              (let (opt_buff, option_type) = write_opt junk sk
               in (if option_type > 0 then opt_buff else -1, m))
            else if op sk = 300 then (cb_flags_set 0, m)
            else (-1, m))
         in (sk\<lparr>reply := rv\<rparr>, m')))"

section \<open>The redirector\<close>

datatype sk_verdict = SK_DROP | SK_PASS | SK_REDIRECT stream_tuple

text \<open>\<open>bpf_msg_redirect_hash\<close>: to the socket under the key, \<open>SK_DROP\<close> when there is none.\<close>

definition msg_redirect_hash :: "(nat \<rightharpoonup> stream_tuple) \<Rightarrow> nat \<Rightarrow> sk_verdict" where
  "msg_redirect_hash m k = (case m k of Some sk \<Rightarrow> SK_REDIRECT sk | None \<Rightarrow> SK_DROP)"

definition hooker_switch_packet_data :: "u32 \<Rightarrow> hk_maps \<Rightarrow> sk_verdict" where
  "hooker_switch_packet_data msg_local_port m =
     (if msg_local_port = HK_REDIR_PORT then
        (case map_lookup (APP_HASH_ID_MAP m) 0 of
           None \<Rightarrow> SK_PASS
         | Some app_hash \<Rightarrow> msg_redirect_hash (HK_SOCK_MAP m) app_hash)
      else msg_redirect_hash (HK_SOCK_MAP m) 0)"

section \<open>The listener\<close>

definition TCP_END :: nat where "TCP_END = 54"

definition tcp_source :: "bytes \<Rightarrow> nat option" where "tcp_source = ld 34 2"
definition tcp_dest :: "bytes \<Rightarrow> nat option" where "tcp_dest = ld 36 2"
definition tcp_doff :: "bytes \<Rightarrow> nat option" where "tcp_doff p = map_option (\<lambda>b. b div 16) (ld 46 1 p)"
definition tcp_syn :: "bytes \<Rightarrow> bool option" where "tcp_syn p = map_option (\<lambda>b. odd (b div 2)) (ld 47 1 p)"
definition tcp_ack :: "bytes \<Rightarrow> bool option" where "tcp_ack p = map_option (\<lambda>b. odd (b div 16)) (ld 47 1 p)"

text \<open>
  The option loop, \<open>n\<close> iterations left (7 at the start). \<open>None\<close> is an access outside the packet; the
  result tells how the loop was left: a check against \<open>data_end\<close> failed, a VTL option at an offset,
  or the end of the options or of the loop.
\<close>

datatype opt_exit = OptError | OptFound nat | OptEnd

fun opt_loop :: "bytes \<Rightarrow> nat \<Rightarrow> nat \<Rightarrow> int \<Rightarrow> opt_exit option" where
  "opt_loop p 0 ptr len = Some OptEnd"
| "opt_loop p (Suc n) ptr len = do {
     opcode \<leftarrow> ld ptr 1 p;
     if len \<le> 0 then Some OptEnd
     else if opcode = 253 \<or> opcode = 254 then
       (if length p < ptr + 4 then Some OptError else Some (OptFound ptr))
     else if opcode = 1 then
       (if length p < ptr + 1 + 1 then Some OptError else opt_loop p n (ptr + 1) (len - 1))
     else if length p < ptr + 1 + 1 then Some OptError
     else do {
       opsize \<leftarrow> ld (ptr + 1) 1 p;
       if length p < ptr + opsize + 1 then Some OptError
       else opt_loop p n (ptr + opsize) (len - int opsize)
     }
   }"

text \<open>\<open>length = doff * 4 - sizeof(struct tcphdr)\<close>, the options from the byte after the header.\<close>

definition parse_options :: "bytes \<Rightarrow> opt_exit option" where
  "parse_options p = do {
     doff \<leftarrow> tcp_doff p;
     if length p < TCP_END + 1 then Some OptError
     else opt_loop p 7 TCP_END (int (doff * 4) - 20)
   }"

text \<open>Registering the stream of a packet that reaches a server; the tuple is zero otherwise.\<close>

definition hk_profile :: "bytes \<Rightarrow> hk_maps \<Rightarrow> (stream_tuple \<times> hk_maps) option" where
  "hk_profile p m =
     (let none = \<lparr>src_ip = 0, dst_ip = 0, src_port = 0, dst_port = 0\<rparr> in
      case map_lookup (TCP_HOST_ROLE_MAP m) 0 of
        Some (Some TCP_SERVER) \<Rightarrow>
          (case map_lookup (PRFLNG_TRIES_NUM_MAP m) 0 of
             Some tries \<Rightarrow>
               if tries < MAX_PROFILING_TRIES then do {
                 daddr \<leftarrow> ip_daddr p;
                 saddr \<leftarrow> ip_saddr p;
                 dport \<leftarrow> tcp_dest p;
                 sport \<leftarrow> tcp_source p;
                 let t = \<lparr>src_ip = bswap32 (word_of_nat daddr), dst_ip = bswap32 (word_of_nat saddr),
                          src_port = ucast (bswap16 (word_of_nat dport)), dst_port = ucast (bswap16 (word_of_nat sport))\<rparr>;
                 let cookie = vtl_compute_tcp_stream_cookie (src_ip t) (dst_ip t) (src_port t) (dst_port t);
                 Some (t, m\<lparr>PRFLNG_TRIES_NUM_MAP := fst (map_update (PRFLNG_TRIES_NUM_MAP m) 0 (tries + 1)),
                           TCP_STREAMS_CACHE_MAP := (TCP_STREAMS_CACHE_MAP m)(cookie := \<lparr>gid = -1, profil = 0\<rparr>)\<rparr>)
               }
               else Some (none, m)
           | None \<Rightarrow> Some (none, m))
      | _ \<Rightarrow> Some (none, m))"

definition hooker_get_vtl_opt :: "bytes \<Rightarrow> hk_maps \<Rightarrow> (xdp_action \<times> hk_maps) option" where
  "hooker_get_vtl_opt p m =
     (if length p < ETH_LEN then Some (XDP_PASS, m)
      else if length p < IP_END then Some (XDP_PASS, m)
      else do {
        proto \<leftarrow> ip_protocol p;
        if proto = 6 then
          if length p < TCP_END then Some (XDP_PASS, m)
          else do {
            (t, m1) \<leftarrow> hk_profile p m;
            syn \<leftarrow> tcp_syn p;
            ack \<leftarrow> tcp_ack p;
            if syn \<and> \<not> ack then
              if length p < TCP_END + 1 then Some (XDP_PASS, m1)
              else do {
                let m2 = m1\<lparr>SYN_HDR_INFO_MAP := fst (map_update (SYN_HDR_INFO_MAP m1) 0 t)\<rparr>;
                r \<leftarrow> parse_options p;
                Some (XDP_PASS, m2)
              }
            else Some (XDP_PASS, m1)
          }
        else Some (XDP_PASS, m)
      })"

text \<open>
  The listener of \<open>hooker_test_progs.c\<close>: the SYN tuple is saved before the options are checked, and
  the options of a SYN-ACK are parsed as well.
\<close>

definition hooker_test_get_vtl_opt :: "bytes \<Rightarrow> hk_maps \<Rightarrow> (xdp_action \<times> hk_maps) option" where
  "hooker_test_get_vtl_opt p m =
     (if length p < ETH_LEN then Some (XDP_PASS, m)
      else if length p < IP_END then Some (XDP_PASS, m)
      else do {
        proto \<leftarrow> ip_protocol p;
        if proto = 6 then
          if length p < TCP_END then Some (XDP_PASS, m)
          else do {
            (t, m1) \<leftarrow> hk_profile p m;
            syn \<leftarrow> tcp_syn p;
            ack \<leftarrow> tcp_ack p;
            if syn \<and> \<not> ack then do {
              let m2 = m1\<lparr>SYN_HDR_INFO_MAP := fst (map_update (SYN_HDR_INFO_MAP m1) 0 t)\<rparr>;
              r \<leftarrow> parse_options p;
              Some (XDP_PASS, m2)
            }
            else if syn \<and> ack then do {
              r \<leftarrow> parse_options p;
              Some (XDP_PASS, m1)
            }
            else Some (XDP_PASS, m1)
          }
        else Some (XDP_PASS, m)
      })"

section \<open>Memory safety\<close>

lemma safe_opt_loop: "ptr < length p \<Longrightarrow> safe (opt_loop p n ptr len)"
  by (induction n arbitrary: ptr len) (auto intro!: safe_intros)

lemma safe_parse_options: "TCP_END \<le> length p \<Longrightarrow> safe (parse_options p)"
  unfolding parse_options_def
  by (intro safe_intros safe_opt_loop) (auto simp: tcp_doff_def TCP_END_def)

lemma safe_hk_profile: "TCP_END \<le> length p \<Longrightarrow> safe (hk_profile p m)"
  by (auto simp: hk_profile_def Let_def TCP_END_def get_defs tcp_dest_def tcp_source_def
      split: option.splits tcp_host_role.splits intro!: safe_bind)

lemmas safe_listener_intros = safe_intros safe_hk_profile safe_parse_options

lemma safe_hooker_get_vtl_opt: "safe (hooker_get_vtl_opt p m)"
  unfolding hooker_get_vtl_opt_def
  by (intro safe_listener_intros) (auto simp: ip_protocol_def tcp_syn_def tcp_ack_def TCP_END_def IP_END_def)

lemma safe_hooker_test_get_vtl_opt: "safe (hooker_test_get_vtl_opt p m)"
  unfolding hooker_test_get_vtl_opt_def
  by (intro safe_listener_intros) (auto simp: ip_protocol_def tcp_syn_def tcp_ack_def TCP_END_def IP_END_def)

section \<open>Properties of the redirection\<close>

definition hk_ok :: "hk_maps \<Rightarrow> bool" where
  "hk_ok m \<longleftrightarrow> length (APP_HASH_ID_MAP m) = 1 \<and> length (TCP_HOST_ROLE_MAP m) = 1 \<and>
     length (PRFLNG_TRIES_NUM_MAP m) = 1 \<and> length (SYN_HDR_INFO_MAP m) = 1 \<and>
     (\<forall>k\<ge>HK_SOCK_MAX. HK_SOCK_MAP m k = None) \<and> APP_HASH_ID_MAP m ! 0 < HK_SOCK_MAX \<and>
     PRFLNG_TRIES_NUM_MAP m ! 0 \<in> {0..MAX_PROFILING_TRIES}"

lemma app_hash_less: "app_hash_of sk < HK_SOCK_MAX"
  by (simp add: app_hash_of_def HK_SOCK_MAX_def)

text \<open>A free key below the size of the map leaves room: the update does not fail for lack of space.\<close>

lemma sock_hash_free:
  assumes "m k = None" and "k < HK_SOCK_MAX"
  shows "sock_hash_update_noexist m k sk = (m(k \<mapsto> sk), 0)"
proof -
  have "length (filter (\<lambda>i. m i \<noteq> None) [0..<HK_SOCK_MAX]) < length [0..<HK_SOCK_MAX]"
    by (rule length_filter_less [of k]) (use assms in auto)
  then show ?thesis using assms by (simp add: sock_hash_update_noexist_def)
qed

lemma sock_hash_taken: "m k \<noteq> None \<Longrightarrow> sock_hash_update_noexist m k sk = (m, -17)"
  by (simp add: sock_hash_update_noexist_def)

lemma hk_record_ok: "hk_ok m \<Longrightarrow> hk_ok (hk_record_app_info sk r m)"
proof -
  assume m: "hk_ok m"
  have d: "fst (sock_hash_update_noexist (HK_SOCK_MAP m) (app_hash_of sk) (sock_of sk)) k = None"
    if "HK_SOCK_MAX \<le> k" for k
    using m that app_hash_less [of sk] by (simp add: hk_ok_def sock_hash_update_noexist_def)
  then show ?thesis
    using m app_hash_less [of sk] by (auto simp: hk_ok_def hk_record_app_info_def Let_def map_update_ok)
qed

lemma map_update_single: "length m = 1 \<Longrightarrow> fst (map_update m 0 v) = [v]"
  by (auto simp: map_update_def length_Suc_conv)

lemma hooker_monitor_apps_ok:
  assumes "hk_ok m"
  shows "hk_ok (snd (hooker_monitor_apps cb junk sk m))"
proof -
  have 1: "hk_ok (m\<lparr>TCP_HOST_ROLE_MAP := fst (map_update (TCP_HOST_ROLE_MAP m) 0 r)\<rparr>)" for r
    using assms by (simp add: hk_ok_def)
  have 2: "hk_ok (m\<lparr>TCP_HOST_ROLE_MAP := fst (map_update (TCP_HOST_ROLE_MAP m) 0 r),
      PRFLNG_TRIES_NUM_MAP := fst (map_update (PRFLNG_TRIES_NUM_MAP m) 0 0)\<rparr>)" for r
    using assms by (simp add: hk_ok_def map_update_single MAX_PROFILING_TRIES_def)
  show ?thesis
    using assms 1 2 hk_record_ok [OF assms]
    by (simp add: hooker_monitor_apps_def Let_def split_beta)
qed

lemma hk_profile_ok:
  assumes "hk_ok m" and "hk_profile p m = Some (t, m')"
  shows "hk_ok m' \<and> HK_SOCK_MAP m' = HK_SOCK_MAP m \<and> APP_HASH_ID_MAP m' = APP_HASH_ID_MAP m \<and>
    TCP_HOST_ROLE_MAP m' = TCP_HOST_ROLE_MAP m"
  using assms
  by (auto simp: hk_profile_def hk_ok_def Let_def map_update_single Option.bind_eq_Some_conv
      split: option.splits tcp_host_role.splits if_splits)

text \<open>Both listeners let every packet pass and touch only the profiling maps.\<close>

lemma hooker_get_vtl_opt_cases:
  assumes "hooker_get_vtl_opt p m = Some (a, m')"
  obtains "a = XDP_PASS" "m' = m"
    | t m1 where "a = XDP_PASS" "hk_profile p m = Some (t, m1)" "m' = m1"
    | t m1 where "a = XDP_PASS" "hk_profile p m = Some (t, m1)"
      "m' = m1\<lparr>SYN_HDR_INFO_MAP := fst (map_update (SYN_HDR_INFO_MAP m1) 0 t)\<rparr>"
  using assms unfolding hooker_get_vtl_opt_def Let_def
  by (auto simp: Option.bind_eq_Some_conv split: if_splits)

lemma hooker_test_get_vtl_opt_cases:
  assumes "hooker_test_get_vtl_opt p m = Some (a, m')"
  obtains "a = XDP_PASS" "m' = m"
    | t m1 where "a = XDP_PASS" "hk_profile p m = Some (t, m1)" "m' = m1"
    | t m1 where "a = XDP_PASS" "hk_profile p m = Some (t, m1)"
      "m' = m1\<lparr>SYN_HDR_INFO_MAP := fst (map_update (SYN_HDR_INFO_MAP m1) 0 t)\<rparr>"
  using assms unfolding hooker_test_get_vtl_opt_def Let_def
  by (auto simp: Option.bind_eq_Some_conv split: if_splits)

lemma hk_ok_syn: "hk_ok m \<Longrightarrow> hk_ok (m\<lparr>SYN_HDR_INFO_MAP := fst (map_update (SYN_HDR_INFO_MAP m) 0 t)\<rparr>)"
  by (simp add: hk_ok_def)

lemma hooker_get_vtl_opt_ok:
  assumes "hk_ok m" and "hooker_get_vtl_opt p m = Some (a, m')"
  shows "a = XDP_PASS \<and> hk_ok m' \<and> HK_SOCK_MAP m' = HK_SOCK_MAP m \<and> APP_HASH_ID_MAP m' = APP_HASH_ID_MAP m"
  using assms(2) by (cases rule: hooker_get_vtl_opt_cases) (use assms(1) hk_profile_ok hk_ok_syn in simp_all)

lemma hooker_test_get_vtl_opt_ok:
  assumes "hk_ok m" and "hooker_test_get_vtl_opt p m = Some (a, m')"
  shows "a = XDP_PASS \<and> hk_ok m' \<and> HK_SOCK_MAP m' = HK_SOCK_MAP m \<and> APP_HASH_ID_MAP m' = APP_HASH_ID_MAP m"
  using assms(2) by (cases rule: hooker_test_get_vtl_opt_cases) (use assms(1) hk_profile_ok hk_ok_syn in simp_all)

section \<open>The hooker as a transition system\<close>

text \<open>
  The three programs run in any order, on any event: socket operations, messages (which change
  nothing) and packets.
\<close>

inductive hk_step :: "hk_maps \<Rightarrow> hk_maps \<Rightarrow> bool" where
  sockops: "hk_step m (snd (hooker_monitor_apps cb junk sk m))"
| packet: "hooker_get_vtl_opt p m = Some (a, m') \<Longrightarrow> hk_step m m'"
| test_packet: "hooker_test_get_vtl_opt p m = Some (a, m') \<Longrightarrow> hk_step m m'"

inductive_cases hk_stepE: "hk_step m m'"

lemma hk_step_ok: "hk_step m m' \<Longrightarrow> hk_ok m \<Longrightarrow> hk_ok m'"
  by (erule hk_stepE) (auto dest: hooker_monitor_apps_ok hooker_get_vtl_opt_ok hooker_test_get_vtl_opt_ok)

text \<open>A socket that was recorded stays recorded under its key: updates never replace an entry.\<close>

lemma hk_step_sock_map:
  assumes "hk_step m m'" and "hk_ok m" and "HK_SOCK_MAP m k = Some s"
  shows "HK_SOCK_MAP m' k = Some s"
  using assms
proof (cases rule: hk_step.cases)
  case (sockops cb junk sk)
  have "HK_SOCK_MAP (hk_record_app_info sk r m) k = Some s" for r
    using assms(3) by (auto simp: hk_record_app_info_def Let_def sock_hash_update_noexist_def)
  then show ?thesis
    using assms(3) by (simp add: sockops hooker_monitor_apps_def Let_def split_beta)
next
  case (packet p a)
  then show ?thesis using hooker_get_vtl_opt_ok [OF assms(2)] assms(3) by metis
next
  case (test_packet p a)
  then show ?thesis using hooker_test_get_vtl_opt_ok [OF assms(2)] assms(3) by metis
qed

text \<open>
  C17: whatever sequence of socket operations and packets the hooker programs see, the maps stay well
  formed (the hash map holds at most its 20 entries, the recorded application key is one of them, at
  most five profiling attempts are counted), and the hooker's own socket, once entered under key 0,
  is never replaced, so that application data always goes to it.
\<close>

theorem hooker_reachable_invariant:
  assumes "hk_step\<^sup>*\<^sup>* m m'" and "hk_ok m" and "HK_SOCK_MAP m 0 = Some hooker"
  shows "hk_ok m' \<and> card (dom (HK_SOCK_MAP m')) \<le> HK_SOCK_MAX \<and>
    (port \<noteq> HK_REDIR_PORT \<longrightarrow> hooker_switch_packet_data port m' = SK_REDIRECT hooker)"
proof -
  have "hk_ok m' \<and> HK_SOCK_MAP m' 0 = Some hooker"
    using assms by (induction rule: rtranclp_induct) (auto intro: hk_step_ok hk_step_sock_map)
  moreover have "card (dom (HK_SOCK_MAP m')) \<le> HK_SOCK_MAX" if "hk_ok m'"
    using that card_mono [of "{..<HK_SOCK_MAX}" "dom (HK_SOCK_MAP m')"]
    by (fastforce simp: hk_ok_def intro: leI)
  ultimately show ?thesis by (simp add: hooker_switch_packet_data_def msg_redirect_hash_def)
qed

definition hk_tuple :: stream_tuple where
  "hk_tuple = \<lparr>src_ip = 0x0100007f, dst_ip = 0x0100007f, src_port = 10000, dst_port = 0\<rparr>"

definition hk_init :: hk_maps where
  "hk_init = \<lparr>HK_SOCK_MAP = [0 \<mapsto> hk_tuple], APP_HASH_ID_MAP = [0],
     TCP_STREAMS_CACHE_MAP = (\<lambda>_. \<lparr>gid = 0, profil = 0\<rparr>), TCP_HOST_ROLE_MAP = [None],
     PRFLNG_TRIES_NUM_MAP = [0],
     SYN_HDR_INFO_MAP = [\<lparr>src_ip = 0, dst_ip = 0, src_port = 0, dst_port = 0\<rparr>]\<rparr>"

lemma hk_init_ok: "hk_ok hk_init" "HK_SOCK_MAP hk_init 0 = Some hk_tuple"
  by (auto simp: hk_ok_def hk_init_def HK_SOCK_MAX_def MAX_PROFILING_TRIES_def split: if_splits)

theorem hooker_reachable_invariant_witness:
  "hooker_switch_packet_data 2222 (snd (hooker_monitor_apps (\<lambda>_. 0) 0
     \<lparr>local_ip4 = 1, remote_ip4 = 2, local_port = 2222, remote_port = 5, op = 5, args1 = 0, reply = 0\<rparr> hk_init)) =
   SK_REDIRECT hk_tuple"
proof -
  let ?m = "snd (hooker_monitor_apps (\<lambda>_. 0) 0
     \<lparr>local_ip4 = 1, remote_ip4 = 2, local_port = 2222, remote_port = 5, op = 5, args1 = 0, reply = 0\<rparr> hk_init)"
  have "hk_step\<^sup>*\<^sup>* hk_init ?m" by (intro r_into_rtranclp hk_step.sockops)
  from hooker_reachable_invariant [OF this hk_init_ok, of 2222] show ?thesis by (simp add: HK_REDIR_PORT_def)
qed

text \<open>A connection that is taken in: its key is free, and the verdicts for both directions.\<close>

definition takes_in :: "hk_maps \<Rightarrow> stream_tuple \<Rightarrow> sk_ops \<Rightarrow> bool" where
  "takes_in m hooker sk \<longleftrightarrow> hk_ok m \<and> HK_SOCK_MAP m 0 = Some hooker \<and> HK_SOCK_MAP m (app_hash_of sk) = None \<and>
     (op sk = 4 \<and> local_port sk = CLIENT_PORT \<or> op sk = 5 \<and> local_port sk = SERVER_PORT)"

lemma monitor_redirects:
  assumes "takes_in m hooker sk"
  shows "hooker_switch_packet_data HK_REDIR_PORT (snd (hooker_monitor_apps cb junk sk m)) = SK_REDIRECT (sock_of sk)"
    "hooker_switch_packet_data (local_port sk) (snd (hooker_monitor_apps cb junk sk m)) = SK_REDIRECT hooker"
proof -
  have u: "sock_hash_update_noexist (HK_SOCK_MAP m) (app_hash_of sk) (sock_of sk) =
      ((HK_SOCK_MAP m)(app_hash_of sk \<mapsto> sock_of sk), 0)"
    by (rule sock_hash_free) (use assms app_hash_less in \<open>simp_all add: takes_in_def\<close>)
  have "app_hash_of sk \<noteq> 0" using assms unfolding takes_in_def by (metis option.distinct(1))
  then show "hooker_switch_packet_data HK_REDIR_PORT (snd (hooker_monitor_apps cb junk sk m)) = SK_REDIRECT (sock_of sk)"
    "hooker_switch_packet_data (local_port sk) (snd (hooker_monitor_apps cb junk sk m)) = SK_REDIRECT hooker"
    using assms u
    by (auto simp: takes_in_def hooker_monitor_apps_def hk_record_app_info_def hooker_switch_packet_data_def hk_ok_def
        Let_def map_update_single msg_redirect_hash_def port_defs)
qed


text \<open>
  A client that did not bind its port to \<open>CLIENT_PORT\<close> is entered into the socket map, but its key is not
  stored: what the hooker sends goes where it went before, with fresh maps to the hooker itself.
\<close>

theorem unbound_client_unreached:
  assumes "hk_ok m" and "HK_SOCK_MAP m 0 = Some hooker" and "APP_HASH_ID_MAP m = [0]"
    and "op sk = 4" and "local_port sk \<noteq> CLIENT_PORT"
  shows "hooker_switch_packet_data HK_REDIR_PORT (snd (hooker_monitor_apps cb junk sk m)) = SK_REDIRECT hooker"
  using assms
  by (auto simp: hooker_monitor_apps_def hk_record_app_info_def hooker_switch_packet_data_def map_lookup_def
      sock_hash_update_noexist_def Let_def msg_redirect_hash_def port_defs)

text \<open>
  Key collision with the hooker. An application whose stream cookie is a multiple of 20 hashes
  to key 0, where the hooker's own socket is: its socket is not recorded, and messages that the hooker
  sends for it are redirected to the hooker itself.
\<close>

theorem hooker_hash_zero_loops:
  assumes "hk_ok m" and "HK_SOCK_MAP m 0 = Some hooker" and "app_hash_of sk = 0"
    and "op sk = 4 \<and> local_port sk = CLIENT_PORT \<or> op sk = 5 \<and> local_port sk = SERVER_PORT"
  shows "\<exists>sk' m'. hooker_monitor_apps cb junk sk m = (sk', m') \<and> HK_SOCK_MAP m' = HK_SOCK_MAP m \<and>
    hooker_switch_packet_data HK_REDIR_PORT m' = SK_REDIRECT hooker"
  using assms
  by (auto simp: hooker_monitor_apps_def hk_record_app_info_def hooker_switch_packet_data_def hk_ok_def
      Let_def map_update_single msg_redirect_hash_def port_defs sock_hash_taken)

definition sample_conn :: "u32 \<Rightarrow> sk_ops" where
  "sample_conn ip = \<lparr>local_ip4 = 0, remote_ip4 = bswap32 ip, local_port = 2222, remote_port = 0, op = 5, args1 = 0, reply = 0\<rparr>"

lemma sample_conn_hash: "app_hash_of (sample_conn ip) = ((unat ip + 2222) mod 65536) mod 20"
  by (simp add: app_hash_of_def sample_conn_def unat_cookie)


theorem hooker_hash_zero_loops_witness:
  "\<exists>sk' m'. hooker_monitor_apps (\<lambda>_. 0) 0 (sample_conn 18) hk_init = (sk', m') \<and>
     HK_SOCK_MAP m' = HK_SOCK_MAP hk_init \<and> hooker_switch_packet_data HK_REDIR_PORT m' = SK_REDIRECT hk_tuple"
proof -
  have h: "app_hash_of (sample_conn 18) = 0"
    "op (sample_conn 18) = 4 \<and> local_port (sample_conn 18) = CLIENT_PORT \<or>
     op (sample_conn 18) = 5 \<and> local_port (sample_conn 18) = SERVER_PORT"
    by (simp add: sample_conn_hash) (simp_all add: sample_conn_def port_defs)
  show ?thesis by (rule hooker_hash_zero_loops [OF hk_init_ok h])
qed

section \<open>Properties of the listener\<close>

text \<open>
  C33: both listeners read only bytes of the packet, whatever its length and its TCP options, and let
  every packet through.
\<close>

theorem hooker_listeners_safe:
  "(\<exists>m'. hooker_get_vtl_opt p m = Some (XDP_PASS, m')) \<and> (\<exists>m'. hooker_test_get_vtl_opt p m = Some (XDP_PASS, m'))"
proof
  obtain a m1 where a: "hooker_get_vtl_opt p m = Some (a, m1)"
    using safe_hooker_get_vtl_opt [of p m] by (auto elim!: safeE)
  then have "a = XDP_PASS" by (cases rule: hooker_get_vtl_opt_cases) auto
  with a show "\<exists>m'. hooker_get_vtl_opt p m = Some (XDP_PASS, m')" by blast
  obtain b m2 where b: "hooker_test_get_vtl_opt p m = Some (b, m2)"
    using safe_hooker_test_get_vtl_opt [of p m] by (auto elim!: safeE)
  then have "b = XDP_PASS" by (cases rule: hooker_test_get_vtl_opt_cases) auto
  with b show "\<exists>m'. hooker_test_get_vtl_opt p m = Some (XDP_PASS, m')" by blast
qed

text \<open>TCP options as a sender writes them: no-operations and options with kind, length and data.\<close>

datatype tcp_option = Nop | Opt u8 bytes

fun opt_bytes :: "tcp_option \<Rightarrow> bytes" where
  "opt_bytes Nop = [1]"
| "opt_bytes (Opt k d) = k # word_of_nat (length d + 2) # d"

fun opt_plain :: "tcp_option \<Rightarrow> bool" where
  "opt_plain Nop \<longleftrightarrow> True"
| "opt_plain (Opt k d) \<longleftrightarrow> k \<noteq> 1 \<and> k \<noteq> 253 \<and> k \<noteq> 254 \<and> length d + 2 < 256"

lemma opt_bytes_pos: "0 < length (opt_bytes x)"
  by (cases x) simp_all

lemma opt_loop_step:
  assumes "opt_plain x" and "drop ptr p = opt_bytes x @ r" and "r \<noteq> []" and "0 < len"
  shows "opt_loop p (Suc n) ptr len = opt_loop p n (ptr + length (opt_bytes x)) (len - int (length (opt_bytes x)))"
proof -
  have lp: "length p = ptr + length (opt_bytes x) + length r"
  proof -
    have "length p - ptr = length (opt_bytes x) + length r" using assms(2) by (metis length_append length_drop)
    then show ?thesis using opt_bytes_pos [of x] by linarith
  qed
  have nth: "p ! (ptr + i) = (opt_bytes x @ r) ! i" for i
    using nth_drop [of ptr p i] lp unfolding assms(2) by simp
  show ?thesis
  proof (cases x)
    case Nop
    then show ?thesis using lp nth [of 0] assms(3,4) by simp
  next
    case (Opt k d)
    have k: "unat k \<noteq> 1" "unat k \<noteq> 253" "unat k \<noteq> 254"
      using assms(1) Opt word_unat_eq_iff [of k 1] word_unat_eq_iff [of k 253] word_unat_eq_iff [of k 254] by simp_all
    have "unat (word_of_nat (length d + 2) :: u8) = length d + 2"
      by (rule unat_word_of_nat_u8) (use assms(1) Opt in simp)
    then show ?thesis
      using lp nth [of 0] nth [of 1] assms(3,4) k Opt by simp
  qed
qed

text \<open>
  The option loop finds the VTL option of a well-formed SYN: when at most six other options
  (no-operations included) stand before it, the loop stops exactly at it.
\<close>

theorem opt_loop_finds_vtl_option:
  assumes "\<forall>x\<in>set pre. opt_plain x" and "length pre \<le> 6"
    and "drop TCP_END p = concat (map opt_bytes pre) @ kind # rest" and "kind = 253 \<or> kind = 254"
    and "3 \<le> length rest" and "ld 46 1 p = Some (16 * doff)"
    and "length (concat (map opt_bytes pre)) + 20 < doff * 4"
  shows "parse_options p = Some (OptFound (TCP_END + length (concat (map opt_bytes pre))))"
proof -
  have go: "opt_loop p n ptr len = Some (OptFound (ptr + length (concat (map opt_bytes pre))))"
    if "\<forall>x\<in>set pre. opt_plain x" "length pre < n" "drop ptr p = concat (map opt_bytes pre) @ kind # rest"
      "int (length (concat (map opt_bytes pre))) < len" for pre n ptr len
    using that
  proof (induction pre arbitrary: n ptr len)
    case Nil
    then obtain j where n: "n = Suc j" by (cases n) auto
    have d: "drop ptr p = kind # rest" using Nil.prems(3) by simp
    then have "length p - ptr = Suc (length rest)" by (metis length_Cons length_drop)
    then have l: "ptr + 4 \<le> length p" using assms(5) by simp
    have "ptr < length p" using l by simp
    then have "p ! ptr = kind" using d by (metis hd_drop_conv_nth list.sel(1))
    then have "ld ptr 1 p = Some 253 \<or> ld ptr 1 p = Some 254" using l assms(4) by auto
    then show ?case using n l Nil.prems(4) by auto
  next
    case (Cons x pre)
    then obtain j where n: "n = Suc j" by (cases n) auto
    let ?r = "concat (map opt_bytes pre) @ kind # rest"
    have d: "drop ptr p = opt_bytes x @ ?r" using Cons.prems(3) by simp
    have "drop (length (opt_bytes x)) (drop ptr p) = ?r" unfolding d by simp
    then have "drop (ptr + length (opt_bytes x)) p = ?r" by (simp add: add.commute)
    then have "opt_loop p j (ptr + length (opt_bytes x)) (len - int (length (opt_bytes x))) =
        Some (OptFound (ptr + length (opt_bytes x) + length (concat (map opt_bytes pre))))"
      by (intro Cons.IH) (use Cons.prems(1,2,4) n in auto)
    moreover have "opt_loop p (Suc j) ptr len =
        opt_loop p j (ptr + length (opt_bytes x)) (len - int (length (opt_bytes x)))"
      by (rule opt_loop_step [OF _ d]) (use Cons.prems(1,4) in auto)
    ultimately show ?case unfolding n by (simp only: list.map concat.simps length_append add.assoc)
  qed
  have "length p - TCP_END = length (concat (map opt_bytes pre)) + Suc (length rest)"
    using assms(3) by (metis length_Cons length_append length_drop)
  then have "TCP_END + 1 \<le> length p" by simp
  moreover have "tcp_doff p = Some doff" using assms(6) by (simp add: tcp_doff_def)
  moreover have "opt_loop p 7 TCP_END (int (doff * 4) - 20) = Some (OptFound (TCP_END + length (concat (map opt_bytes pre))))"
    by (rule go [OF assms(1) _ assms(3)]) (use assms(2,7) in linarith)+
  ultimately show ?thesis by (simp add: parse_options_def)
qed

definition sample_syn :: bytes where
  "sample_syn = replicate 23 0 @ [6] @ replicate 22 0 @ [128, 2] @ replicate 6 0 @
     [2, 4, 5, 180] @ [1] @ [253, 4, 0, 1] @ replicate 3 0"

theorem opt_loop_finds_vtl_option_witness: "parse_options sample_syn = Some (OptFound 59)"
proof -
  let ?pre = "[Opt 2 [5, 180], Nop]"
  have p: "\<forall>x\<in>set ?pre. opt_plain x" "length ?pre \<le> 6" by simp_all
  have d: "drop TCP_END sample_syn = concat (map opt_bytes ?pre) @ 253 # [4, 0, 1, 0, 0, 0]"
    "ld 46 1 sample_syn = Some (16 * 8)"
    by code_simp+
  have l: "3 \<le> length [4 :: u8, 0, 1, 0, 0, 0]" "length (concat (map opt_bytes ?pre)) + 20 < 8 * 4" by simp_all
  show ?thesis using opt_loop_finds_vtl_option [OF p d(1) _ l(1) d(2) l(2)] by (simp add: TCP_END_def)
qed

text \<open>The parts of a SYN that the listener stores.\<close>

lemma listener_syn:
  assumes "TCP_END < length p" and "ip_protocol p = Some 6" and "tcp_syn p = Some True" and "tcp_ack p = Some False"
    and "hk_profile p m = Some (t, m1)"
  shows "hooker_get_vtl_opt p m =
    Some (XDP_PASS, m1\<lparr>SYN_HDR_INFO_MAP := fst (map_update (SYN_HDR_INFO_MAP m1) 0 t)\<rparr>)"
proof -
  have "TCP_END \<le> length p" using assms(1) by simp
  then obtain r where r: "parse_options p = Some r" using safe_parse_options by (auto elim: safeE)
  then show ?thesis
    using assms by (simp add: hooker_get_vtl_opt_def Let_def ETH_LEN_def IP_END_def TCP_END_def)
qed

text \<open>
  The listener and the sockops program agree on the stream. After a SYN reached a server that
  still profiles, the stream that the sockops program looks up when it answers (from the saved SYN
  tuple) is the one that the listener registered, with the default graft id.
\<close>

theorem hooker_nego_finds_registered_stream:
  assumes "hk_ok m" and "TCP_HOST_ROLE_MAP m = [Some TCP_SERVER]" and "PRFLNG_TRIES_NUM_MAP m = [n]"
    and "n < MAX_PROFILING_TRIES" and "TCP_END < length p" and "ip_protocol p = Some 6"
    and "tcp_syn p = Some True" and "tcp_ack p = Some False"
  shows "\<exists>m'. hooker_get_vtl_opt p m = Some (XDP_PASS, m') \<and> PRFLNG_TRIES_NUM_MAP m' = [n + 1] \<and>
    nego_stream m' = Some \<lparr>gid = -1, profil = 0\<rparr>"
proof -
  have "TCP_END \<le> length p" using assms(5) by simp
  then obtain t m1 where t: "hk_profile p m = Some (t, m1)" using safe_hk_profile [of p m] by (auto elim!: safeE)
  have "m1 = m\<lparr>PRFLNG_TRIES_NUM_MAP := [n + 1], TCP_STREAMS_CACHE_MAP := (TCP_STREAMS_CACHE_MAP m)
      (vtl_compute_tcp_stream_cookie (src_ip t) (dst_ip t) (src_port t) (dst_port t) := \<lparr>gid = -1, profil = 0\<rparr>)\<rparr>"
    using t assms(2-4) by (auto simp: hk_profile_def Let_def map_update_single Option.bind_eq_Some_conv)
  then show ?thesis
    using listener_syn [OF assms(5-8) t] assms(1)
    by (simp add: nego_stream_def map_update_single hk_ok_def)
qed

text \<open>
  After five profiling attempts the link is lost. A SYN that arrives when the attempts are
  exhausted (or when the host is not a server) overwrites the saved tuple with zeros: the answer to it
  is looked up under cookie 0, whatever the addresses and ports of the connection.
\<close>

theorem hooker_exhausted_profiling_forgets_syn:
  assumes "hk_ok m" and "TCP_HOST_ROLE_MAP m \<noteq> [Some TCP_SERVER] \<or> PRFLNG_TRIES_NUM_MAP m = [MAX_PROFILING_TRIES]"
    and "TCP_END < length p" and "ip_protocol p = Some 6" and "tcp_syn p = Some True" and "tcp_ack p = Some False"
  shows "\<exists>m'. hooker_get_vtl_opt p m = Some (XDP_PASS, m') \<and>
    SYN_HDR_INFO_MAP m' = [\<lparr>src_ip = 0, dst_ip = 0, src_port = 0, dst_port = 0\<rparr>] \<and>
    nego_stream m' = Some (TCP_STREAMS_CACHE_MAP m 0)"
proof -
  obtain r where r: "TCP_HOST_ROLE_MAP m = [r]" using assms(1) by (auto simp: hk_ok_def length_Suc_conv)
  obtain n where n: "PRFLNG_TRIES_NUM_MAP m = [n]" using assms(1) by (auto simp: hk_ok_def length_Suc_conv)
  have "hk_profile p m = Some (\<lparr>src_ip = 0, dst_ip = 0, src_port = 0, dst_port = 0\<rparr>, m)"
    using assms(2) r n by (auto simp: hk_profile_def Let_def split: option.splits tcp_host_role.splits)
  moreover have "vtl_compute_tcp_stream_cookie 0 0 0 0 = 0" by (simp add: vtl_compute_tcp_stream_cookie_def)
  ultimately show ?thesis
    using listener_syn [OF assms(3-6)] assms(1) by (simp add: nego_stream_def map_update_single hk_ok_def)
qed

lemma sample_syn_fields:
  "TCP_END < length sample_syn" "ip_protocol sample_syn = Some 6" "tcp_syn sample_syn = Some True"
  "tcp_ack sample_syn = Some False"
  by code_simp+

theorem hooker_nego_finds_registered_stream_witness:
  "\<exists>m'. hooker_get_vtl_opt sample_syn (hk_init\<lparr>TCP_HOST_ROLE_MAP := [Some TCP_SERVER]\<rparr>) = Some (XDP_PASS, m') \<and>
     nego_stream m' = Some \<lparr>gid = -1, profil = 0\<rparr>"
proof -
  let ?m = "hk_init\<lparr>TCP_HOST_ROLE_MAP := [Some TCP_SERVER]\<rparr>"
  have h: "hk_ok ?m" "TCP_HOST_ROLE_MAP ?m = [Some TCP_SERVER]" "PRFLNG_TRIES_NUM_MAP ?m = [0]" "0 < MAX_PROFILING_TRIES"
    using hk_init_ok(1) by (simp_all add: hk_ok_def hk_init_def MAX_PROFILING_TRIES_def)
  show ?thesis using hooker_nego_finds_registered_stream [OF h sample_syn_fields] by blast
qed

theorem hooker_exhausted_profiling_forgets_syn_witness:
  "\<exists>m'. hooker_get_vtl_opt sample_syn hk_init = Some (XDP_PASS, m') \<and>
     nego_stream m' = Some (TCP_STREAMS_CACHE_MAP hk_init 0)"
proof -
  have "TCP_HOST_ROLE_MAP hk_init \<noteq> [Some TCP_SERVER] \<or> PRFLNG_TRIES_NUM_MAP hk_init = [MAX_PROFILING_TRIES]"
    by (simp add: hk_init_def)
  from hooker_exhausted_profiling_forgets_syn [OF hk_init_ok(1) this sample_syn_fields] show ?thesis by blast
qed

section \<open>The VTL option\<close>

text \<open>
  The option that the sockops program writes. For the three requests of the kernel (100, 200,
  300) the reply is the option of kind 253 and length 4 with the option number in network order, which
  the option loop recognises; for any other request the reply is the uninitialised variable, because
  \<open>option_type\<close> starts at -1 and is unsigned.
\<close>

theorem hooker_write_opt_reply:
  assumes "op sk = 200" and "local_port sk = SERVER_PORT"
  shows "reply (fst (hooker_monitor_apps cb junk sk m)) =
    (if args1 sk = 100 then opt_int [253, 4, 0, 1]
     else if args1 sk = 200 then opt_int [253, 4, 0, 2]
     else if args1 sk = 300 then opt_int [253, 4, 0, 3] else junk)"
proof -
  have b: "tcp_opt_bytes 1 = [253, 4, 0, 1]" "tcp_opt_bytes 2 = [253, 4, 0, 2]" "tcp_opt_bytes 3 = [253, 4, 0, 3]"
    "bswap16 1 > 0" "bswap16 2 > 0" "bswap16 3 > 0" "(- 1 :: u16) > 0"
    by code_simp+
  show ?thesis
    using assms b by (auto simp: hooker_monitor_apps_def write_opt_def Let_def)
qed

theorem hooker_write_opt_reply_witness:
  "reply (fst (hooker_monitor_apps (\<lambda>_. 0) 77
     \<lparr>local_ip4 = 0, remote_ip4 = 0, local_port = 2222, remote_port = 0, op = 200, args1 = 400, reply = 0\<rparr> hk_init)) = 77"
  by (subst hooker_write_opt_reply) (simp_all add: SERVER_PORT_def)

end
