(* ===== verification/Launcher_Elf.thy ===== *)
theory Launcher_Elf
  imports VTL_Prelude "HOL-Library.Multiset"
begin

text \<open>
  The part of the launcher (\<open>launcher/launcher.c\<close>) that reads an object file: sections, the map
  definitions of the \<open>maps\<close> section, and the relocations that put the map descriptors into the
  instructions. The ELF library is a parameter: an object file is what its functions return for it.
  A fault is an access, a division or an assertion of the C code that fails.
\<close>

section \<open>Object files\<close>

record elf_shdr =
  sh_type :: nat
  sh_flags :: nat
  sh_size :: nat
  sh_entsize :: nat
  sh_link :: nat
  sh_info :: nat

record elf_sym =
  st_name :: nat
  st_value :: nat
  st_shndx :: nat

text \<open>What \<open>gelf_getshdr\<close>, \<open>elf_strptr\<close> and the successive calls of \<open>elf_getdata\<close> give for a section.\<close>

record elf_sec =
  sec_shdr :: "elf_shdr option"
  sec_shname :: "string option"
  sec_data :: "bytes list"

text \<open>
  \<open>elf_getscn\<close>, and the decoders \<open>elf_strptr\<close>, \<open>gelf_getrel\<close> (offset and symbol index) and
  \<open>gelf_getsym\<close>.
\<close>

record elf =
  elf_secs :: "elf_sec option list"
  elf_strptr :: "nat \<Rightarrow> nat \<Rightarrow> string option"
  gelf_getrel :: "bytes \<Rightarrow> nat \<Rightarrow> (nat \<times> nat) option"
  gelf_getsym :: "bytes \<Rightarrow> nat \<Rightarrow> elf_sym option"

definition elf_getscn :: "elf \<Rightarrow> nat \<Rightarrow> elf_sec option" where
  "elf_getscn E i = (if i < length (elf_secs E) then elf_secs E ! i else None)"

text \<open>\<open>__get_sec\<close>: the error code, or name, header and data.\<close>

definition get_sec :: "elf \<Rightarrow> nat \<Rightarrow> nat + (string \<times> elf_shdr \<times> bytes)" where
  "get_sec E i =
     (case elf_getscn E i of
        None \<Rightarrow> Inl 1
      | Some scn \<Rightarrow>
          (case sec_shdr scn of
             None \<Rightarrow> Inl 2
           | Some shdr \<Rightarrow>
               (case sec_shname scn of
                  None \<Rightarrow> Inl 3
                | Some shname \<Rightarrow>
                    if sh_size shdr = 0 then Inl 3
                    else (case sec_data scn of [d] \<Rightarrow> Inr (shname, shdr, d) | _ \<Rightarrow> Inl 4))))"

section \<open>Maps\<close>

record bpf_load_map_def =
  map_type :: u32
  key_size :: u32
  value_size :: u32
  max_entries :: u32
  map_flags :: u32
  inner_map_idx :: u32
  numa_node :: u32

record bpf_map_data =
  map_fd :: int
  map_name :: string
  elf_offset :: nat
  map_def :: bpf_load_map_def

definition MAX_MAPS :: nat where "MAX_MAPS = 32"
definition MAP_DEF_SIZE :: nat where "MAP_DEF_SIZE = 28"
definition SYM_SIZE :: nat where "SYM_SIZE = 24"

datatype launch_fault = DivByZero | BadIndex | Uninitialised | AssertFailed | NullArg

text \<open>The structure as it lies in memory.\<close>

definition word_at :: "bytes \<Rightarrow> nat \<Rightarrow> u32" where
  "word_at b i = word_of_nat (le_get (seg (4 * i) 4 b))"

definition decode_def :: "bytes \<Rightarrow> bpf_load_map_def" where
  "decode_def b =
     \<lparr>map_type = word_at b 0, key_size = word_at b 1, value_size = word_at b 2, max_entries = word_at b 3,
      map_flags = word_at b 4, inner_map_idx = word_at b 5, numa_node = word_at b 6\<rparr>"

text \<open>The loop over the symbol table; at most \<open>MAX_MAPS + 1\<close> symbols may be recorded when a turn begins.\<close>

fun collect_syms :: "elf \<Rightarrow> bytes \<Rightarrow> nat \<Rightarrow> nat list \<Rightarrow> elf_sym list \<Rightarrow> launch_fault + elf_sym list" where
  "collect_syms E symbols maps_shndx [] acc = Inr acc"
| "collect_syms E symbols maps_shndx (i # is) acc =
     (if \<not> length acc < MAX_MAPS + 1 then Inl AssertFailed
      else (case gelf_getsym E symbols i of
              None \<Rightarrow> collect_syms E symbols maps_shndx is acc
            | Some s \<Rightarrow>
                if st_shndx s \<noteq> maps_shndx then collect_syms E symbols maps_shndx is acc
                else collect_syms E symbols maps_shndx is (acc @ [s])))"

text \<open>
  One turn of the loop that copies the definitions: a fault, or the error (0 for none) and the entry,
  which is already written when an error is returned. \<open>sz_copy\<close> bytes are copied over a zeroed
  structure; bytes up to \<open>sz_elf\<close> have to be zero. A NULL name is the empty string.
\<close>

definition read_map ::
    "elf \<Rightarrow> nat \<Rightarrow> bytes \<Rightarrow> nat \<Rightarrow> nat \<Rightarrow> bool \<Rightarrow> elf_sym \<Rightarrow> bpf_map_data \<Rightarrow> launch_fault + (int \<times> bpf_map_data)" where
  "read_map E strtabidx data sz_copy sz_elf strdup_ok s m =
     (case elf_strptr E strtabidx (st_name s) of
        None \<Rightarrow> Inl NullArg
      | Some name \<Rightarrow>
          if \<not> strdup_ok then Inr (-12, m\<lparr>map_name := []\<rparr>)
          else
            (let offset = st_value s;
                 def = seg offset sz_copy data;
                 rest = seg (offset + sz_copy) (sz_elf - sz_copy) data;
                 m' = m\<lparr>map_name := name, elf_offset := offset,
                        map_def := decode_def (def @ replicate (MAP_DEF_SIZE - sz_copy) 0)\<rparr>
             in if length data < offset + sz_copy then Inl BadIndex
                else if \<exists>b\<in>set rest. b \<noteq> 0 then Inr (-27, m')
                else if length data < offset + sz_elf then Inl BadIndex
                else Inr (0, m')))"

fun read_maps ::
    "elf \<Rightarrow> nat \<Rightarrow> bytes \<Rightarrow> nat \<Rightarrow> nat \<Rightarrow> bool \<Rightarrow> elf_sym list \<Rightarrow> nat \<Rightarrow> bpf_map_data list \<Rightarrow>
     launch_fault + (int \<times> bpf_map_data list)" where
  "read_maps E strtabidx data sz_copy sz_elf strdup_ok [] i maps = Inr (int i, maps)"
| "read_maps E strtabidx data sz_copy sz_elf strdup_ok (s # syms) i maps =
     (if length maps \<le> i then Inl BadIndex
      else (case read_map E strtabidx data sz_copy sz_elf strdup_ok s (maps ! i) of
              Inl f \<Rightarrow> Inl f
            | Inr (e, m) \<Rightarrow>
                if e \<noteq> 0 then Inr (e, maps[i := m])
                else read_maps E strtabidx data sz_copy sz_elf strdup_ok syms (Suc i) (maps[i := m])))"

text \<open>
  \<open>__load_elf_maps_section\<close>: the number of maps or a negative error. The symbols are sorted by value as
  \<open>__cmp_symbols\<close> orders them; the order of symbols with equal values, which \<open>qsort\<close> leaves open, is
  that of the table.
\<close>

definition load_elf_maps_section ::
    "elf \<Rightarrow> bool \<Rightarrow> bpf_map_data list \<Rightarrow> int \<Rightarrow> bytes \<Rightarrow> nat \<Rightarrow> launch_fault + (int \<times> bpf_map_data list)" where
  "load_elf_maps_section E strdup_ok maps maps_shndx symbols strtabidx =
     (if maps_shndx < 0 then Inr (-22, maps)
      else (case elf_getscn E (nat maps_shndx) of
              None \<Rightarrow> Inr (-22, maps)
            | Some scn \<Rightarrow>
                (case sec_data scn of
                   [] \<Rightarrow> Inr (-22, maps)
                 | data # _ \<Rightarrow>
                     (case collect_syms E symbols (nat maps_shndx) [0..<length symbols div SYM_SIZE] [] of
                        Inl f \<Rightarrow> Inl f
                      | Inr syms \<Rightarrow>
                          if syms = [] then Inl DivByZero
                          else
                            (let map_sz_elf = length data div length syms;
                                 map_sz_copy = min map_sz_elf MAP_DEF_SIZE
                             in read_maps E strtabidx data map_sz_copy map_sz_elf strdup_ok
                                  (sort_key st_value syms) 0 maps)))))"

lemma read_maps_length: "read_maps E k data c z ok syms i maps = Inr (n, maps') \<Longrightarrow> length maps' = length maps"
  by (induction syms arbitrary: i maps) (auto split: if_splits sum.splits prod.splits)

lemma load_elf_maps_length:
  "load_elf_maps_section E ok maps shndx symbols strtabidx = Inr (n, maps') \<Longrightarrow> length maps' = length maps"
  by (auto simp: load_elf_maps_section_def Let_def split: if_splits option.splits list.splits sum.splits dest: read_maps_length)

section \<open>Relocations\<close>

text \<open>
  An instruction is eight bytes: code, registers (source in the high half), offset, immediate value.
  The turns of the loop over the relocation entries; the program is left as far as it was rewritten.
\<close>

definition find_map :: "bpf_map_data list \<Rightarrow> nat \<Rightarrow> nat \<Rightarrow> bpf_map_data option" where
  "find_map maps nr_maps value = List.find (\<lambda>m. elf_offset m = value) (take nr_maps maps)"

definition relo_insn :: "bpf_map_data list \<Rightarrow> nat \<Rightarrow> elf_sym option \<Rightarrow> nat \<Rightarrow> bytes \<Rightarrow> launch_fault + (nat \<times> bytes)" where
  "relo_insn maps nr_maps symb insn_idx insn =
     (case ld (8 * insn_idx) 1 insn of
        None \<Rightarrow> Inl BadIndex
      | Some code \<Rightarrow>
          if code \<noteq> 0x18 then Inr (1, insn)
          else
            (case ld (8 * insn_idx + 1) 1 insn of
               None \<Rightarrow> Inl BadIndex
             | Some regs \<Rightarrow>
                 (case st (8 * insn_idx + 1) 1 (regs mod 16 + 16) insn of
                    None \<Rightarrow> Inl BadIndex
                  | Some insn1 \<Rightarrow>
                      (case symb of
                         None \<Rightarrow> Inl Uninitialised
                       | Some s \<Rightarrow>
                           (case find_map maps nr_maps (st_value s) of
                              None \<Rightarrow> Inr (1, insn1)
                            | Some m \<Rightarrow>
                                (case st (8 * insn_idx + 4) 4 (nat (map_fd m mod 2 ^ 32)) insn1 of
                                   None \<Rightarrow> Inl BadIndex
                                 | Some insn2 \<Rightarrow> Inr (0, insn2)))))))"

fun relo_loop ::
    "elf \<Rightarrow> bytes \<Rightarrow> bytes \<Rightarrow> bpf_map_data list \<Rightarrow> nat \<Rightarrow> nat list \<Rightarrow> bytes \<Rightarrow> launch_fault + (nat \<times> bytes)" where
  "relo_loop E data symbols maps nr_maps [] insn = Inr (0, insn)"
| "relo_loop E data symbols maps nr_maps (i # is) insn =
     (case gelf_getrel E data i of
        None \<Rightarrow> Inl Uninitialised
      | Some (r_offset, r_sym) \<Rightarrow>
          (case relo_insn maps nr_maps (gelf_getsym E symbols r_sym) (unat (word_of_nat (r_offset div 8) :: u32)) insn of
             Inl f \<Rightarrow> Inl f
           | Inr (ret, insn') \<Rightarrow>
               if ret \<noteq> 0 then Inr (ret, insn') else relo_loop E data symbols maps nr_maps is insn'))"

definition parse_relo_and_apply ::
    "elf \<Rightarrow> bytes \<Rightarrow> bytes \<Rightarrow> elf_shdr \<Rightarrow> bytes \<Rightarrow> bpf_map_data list \<Rightarrow> nat \<Rightarrow> launch_fault + (nat \<times> bytes)" where
  "parse_relo_and_apply E data symbols shdr insn maps nr_maps =
     (if sh_entsize shdr = 0 then Inl DivByZero
      else relo_loop E data symbols maps nr_maps [0..<sh_size shdr div sh_entsize shdr] insn)"

section \<open>What a relocation writes\<close>

definition relo_touches :: "nat \<Rightarrow> nat \<Rightarrow> bool" where
  "relo_touches k j \<longleftrightarrow> j = 8 * k + 1 \<or> 8 * k + 4 \<le> j \<and> j < 8 * k + 8"

text \<open>The instruction that entry \<open>i\<close> of the relocation section points to.\<close>

definition relo_idx :: "elf \<Rightarrow> bytes \<Rightarrow> nat \<Rightarrow> nat" where
  "relo_idx E data i = (case gelf_getrel E data i of None \<Rightarrow> 0 | Some (r_offset, _) \<Rightarrow> unat (word_of_nat (r_offset div 8) :: u32))"

text \<open>Instruction \<open>k\<close> is a 64-bit load of the descriptor of the map at \<open>value\<close>.\<close>

definition loads_map :: "bpf_map_data list \<Rightarrow> nat \<Rightarrow> nat \<Rightarrow> nat \<Rightarrow> bytes \<Rightarrow> bool" where
  "loads_map maps nr_maps v k insn \<longleftrightarrow>
     (\<exists>m r. find_map maps nr_maps v = Some m \<and> ld (8 * k) 1 insn = Some 0x18 \<and>
        ld (8 * k + 1) 1 insn = Some r \<and> r div 16 = 1 \<and> ld (8 * k + 4) 4 insn = Some (nat (map_fd m mod 2 ^ 32)))"

lemma loads_map_cong:
  assumes "length q = length p" and "\<And>j. 8 * k \<le> j \<Longrightarrow> j < 8 * k + 8 \<Longrightarrow> j < length p \<Longrightarrow> q ! j = p ! j"
  shows "loads_map maps n v k q = loads_map maps n v k p"
proof -
  have "seg o' w q = seg o' w p" if "8 * k \<le> o'" "o' + w \<le> 8 * k + 8" for o' w
    using assms that by (intro seg_cong) auto
  then have "ld o' w q = ld o' w p" if "8 * k \<le> o'" "o' + w \<le> 8 * k + 8" for o' w
    using that assms(1) by (intro ld_seg_cong) auto
  then show ?thesis by (simp add: loads_map_def)
qed

lemma nat_mod_u32: "nat (x mod 2 ^ 32) < 256 ^ 4"
  by (simp add: nat_less_iff)

lemma relo_insn_ok:
  assumes "relo_insn maps nr_maps symb k insn = Inr (0, insn')"
  obtains s where "symb = Some s" and "loads_map maps nr_maps (st_value s) k insn'" and "length insn' = length insn"
    and "\<And>j. j < length insn \<Longrightarrow> \<not> relo_touches k j \<Longrightarrow> insn' ! j = insn ! j"
proof -
  obtain regs insn1 s m where c: "ld (8 * k) 1 insn = Some 0x18" and g: "ld (8 * k + 1) 1 insn = Some regs"
    and a: "st (8 * k + 1) 1 (regs mod 16 + 16) insn = Some insn1" and s: "symb = Some s"
    and m: "find_map maps nr_maps (st_value s) = Some m"
    and b: "st (8 * k + 4) 4 (nat (map_fd m mod 2 ^ 32)) insn1 = Some insn'"
    using assms by (auto simp: relo_insn_def split: option.splits if_splits)
  have "ld (8 * k) 1 insn' = Some 0x18"
    using ld_st_disjoint [OF b, of "8 * k" 1] ld_st_disjoint [OF a, of "8 * k" 1] c by simp
  moreover have lt: "regs mod 16 < 16" by simp
  have "ld (8 * k + 1) 1 insn' = Some (regs mod 16 + 16)"
    using ld_st_disjoint [OF b, of "8 * k + 1" 1] ld_st_same [OF a] lt by simp
  moreover have "(regs mod 16 + 16) div 16 = 1" using lt by simp
  moreover have "ld (8 * k + 4) 4 insn' = Some (nat (map_fd m mod 2 ^ 32))"
    using ld_st_same [OF b] nat_mod_u32 [of "map_fd m"] by simp
  ultimately have "loads_map maps nr_maps (st_value s) k insn'" using m unfolding loads_map_def by blast
  moreover have "insn' ! j = insn ! j" if "j < length insn" "\<not> relo_touches k j" for j
  proof -
    have "j < 8 * k + 1 \<or> 8 * k + 1 + 1 \<le> j" "j < 8 * k + 4 \<or> 8 * k + 4 + 4 \<le> j"
      using that(2) unfolding relo_touches_def by linarith+
    then show ?thesis using st_nth [OF a that(1)] st_nth [OF b, of j] that(1) st_length [OF a] by simp
  qed
  ultimately show thesis using that s st_length [OF a] st_length [OF b] by auto
qed

lemma relo_loop_ok:
  assumes "relo_loop E data symbols maps nr_maps is insn = Inr (0, insn')"
  shows "length insn' = length insn \<and>
    (\<forall>j<length insn. (\<forall>i\<in>set is. \<not> relo_touches (relo_idx E data i) j) \<longrightarrow> insn' ! j = insn ! j) \<and>
    (distinct (map (relo_idx E data) is) \<longrightarrow>
       (\<forall>i\<in>set is. \<exists>off n s. gelf_getrel E data i = Some (off, n) \<and> gelf_getsym E symbols n = Some s \<and>
          loads_map maps nr_maps (st_value s) (relo_idx E data i) insn'))"
  using assms
proof (induction "is" arbitrary: insn)
  case Nil
  then show ?case by simp
next
  case (Cons i "is")
  obtain off n insn1 where r: "gelf_getrel E data i = Some (off, n)"
    and a: "relo_insn maps nr_maps (gelf_getsym E symbols n) (unat (word_of_nat (off div 8) :: u32)) insn = Inr (0, insn1)"
    and b: "relo_loop E data symbols maps nr_maps is insn1 = Inr (0, insn')"
    using Cons.prems by (auto split: option.splits sum.splits prod.splits if_splits)
  have k: "relo_idx E data i = unat (word_of_nat (off div 8) :: u32)" by (simp add: relo_idx_def r)
  obtain s where s: "gelf_getsym E symbols n = Some s" "loads_map maps nr_maps (st_value s) (relo_idx E data i) insn1"
    "length insn1 = length insn" "\<And>j. j < length insn \<Longrightarrow> \<not> relo_touches (relo_idx E data i) j \<Longrightarrow> insn1 ! j = insn ! j"
    by (rule relo_insn_ok [OF a]) (auto simp: k)
  note IH = Cons.IH [OF b]
  have "loads_map maps nr_maps (st_value s) (relo_idx E data i) insn'" if "distinct (map (relo_idx E data) (i # is))"
  proof -
    have "insn' ! j = insn1 ! j" if j: "8 * relo_idx E data i \<le> j" "j < 8 * relo_idx E data i + 8" "j < length insn1" for j
    proof -
      have "\<not> relo_touches (relo_idx E data i') j" if "i' \<in> set is" for i'
      proof -
        have "relo_idx E data i' \<noteq> relo_idx E data i" using that \<open>distinct (map (relo_idx E data) (i # is))\<close> by (metis distinct.simps(2) image_eqI list.set_map list.simps(9))
        then show ?thesis using j by (auto simp: relo_touches_def)
      qed
      then show ?thesis using IH j(3) by blast
    qed
    then show ?thesis using loads_map_cong [of insn' insn1] IH s(2) by blast
  qed
  moreover have "insn' ! j = insn ! j" if "j < length insn" "\<forall>i\<in>set (i # is). \<not> relo_touches (relo_idx E data i) j" for j
    using IH s(3,4) that by auto
  ultimately show ?case using IH r s(1,3) by auto
qed

text \<open>
  C21: relocation links a program to its maps. When \<open>__parse_relo_and_apply\<close> reports success and every
  entry points to another instruction, each of these instructions is a 64-bit immediate load marked
  as a map descriptor whose value is the descriptor of the map at the offset of the entry's symbol, and
  no other byte of the program has changed.
\<close>

theorem parse_relo_links_maps:
  assumes "parse_relo_and_apply E data symbols shdr insn maps nr_maps = Inr (0, insn')"
    and "distinct (map (relo_idx E data) [0..<sh_size shdr div sh_entsize shdr])"
  shows "length insn' = length insn \<and>
    (\<forall>i < sh_size shdr div sh_entsize shdr. \<exists>off n s m r. gelf_getrel E data i = Some (off, n) \<and>
       gelf_getsym E symbols n = Some s \<and> List.find (\<lambda>m. elf_offset m = st_value s) (take nr_maps maps) = Some m \<and>
       ld (8 * relo_idx E data i) 1 insn' = Some 0x18 \<and> ld (8 * relo_idx E data i + 1) 1 insn' = Some r \<and> r div 16 = 1 \<and>
       ld (8 * relo_idx E data i + 4) 4 insn' = Some (nat (map_fd m mod 2 ^ 32))) \<and>
    (\<forall>j<length insn. (\<forall>i < sh_size shdr div sh_entsize shdr. \<not> relo_touches (relo_idx E data i) j) \<longrightarrow> insn' ! j = insn ! j)"
proof -
  have "relo_loop E data symbols maps nr_maps [0..<sh_size shdr div sh_entsize shdr] insn = Inr (0, insn')"
    using assms(1) by (simp add: parse_relo_and_apply_def split: if_splits)
  note r = relo_loop_ok [OF this]
  show ?thesis using r assms(2) by (fastforce simp: loads_map_def find_map_def)
qed

text \<open>A program of one load with one relocation to the second of two maps.\<close>

definition sample_maps_data :: "bpf_map_data list" where
  "sample_maps_data =
     [\<lparr>map_fd = 7, map_name = ''A'', elf_offset = 0, map_def = decode_def []\<rparr>,
      \<lparr>map_fd = 9, map_name = ''B'', elf_offset = 28, map_def = decode_def []\<rparr>]"

definition sample_elf :: elf where
  "sample_elf = \<lparr>elf_secs = [], elf_strptr = (\<lambda>_ _. Some ''B''), gelf_getrel = (\<lambda>_ i. if i = 0 then Some (0, 1) else None),
     gelf_getsym = (\<lambda>_ i. if i = 1 then Some \<lparr>st_name = 0, st_value = 28, st_shndx = 3\<rparr> else None)\<rparr>"

definition sample_rel_shdr :: elf_shdr where
  "sample_rel_shdr = \<lparr>sh_type = 9, sh_flags = 0, sh_size = 16, sh_entsize = 16, sh_link = 0, sh_info = 0\<rparr>"

theorem parse_relo_links_maps_witness:
  "\<exists>insn'. parse_relo_and_apply sample_elf [] [] sample_rel_shdr [0x18, 1, 0, 0, 0, 0, 0, 0] sample_maps_data 2 = Inr (0, insn') \<and>
     ld 4 4 insn' = Some 9"
proof -
  have "case parse_relo_and_apply sample_elf [] [] sample_rel_shdr [0x18, 1, 0, 0, 0, 0, 0, 0] sample_maps_data 2 of
      Inr (n, _) \<Rightarrow> n = 0 | Inl _ \<Rightarrow> False"
    by code_simp
  then obtain insn' where p: "parse_relo_and_apply sample_elf [] [] sample_rel_shdr [0x18, 1, 0, 0, 0, 0, 0, 0] sample_maps_data 2 = Inr (0, insn')"
    by (auto split: sum.splits)
  have d: "distinct (map (relo_idx sample_elf []) [0..<sh_size sample_rel_shdr div sh_entsize sample_rel_shdr])" by code_simp
  have i: "0 < sh_size sample_rel_shdr div sh_entsize sample_rel_shdr" "relo_idx sample_elf [] 0 = 0" by code_simp+
  have f: "gelf_getrel sample_elf [] 0 = Some (0, 1)" "gelf_getsym sample_elf [] 1 = Some \<lparr>st_name = 0, st_value = 28, st_shndx = 3\<rparr>"
    "List.find (\<lambda>m. elf_offset m = 28) (take 2 sample_maps_data) = Some (sample_maps_data ! 1)" "map_fd (sample_maps_data ! 1) = 9"
    by (simp_all add: sample_elf_def sample_maps_data_def)
  from parse_relo_links_maps [OF p d] i f p show ?thesis by fastforce
qed

section \<open>Reading the map definitions\<close>

definition encode_def :: "bpf_load_map_def \<Rightarrow> bytes" where
  "encode_def d = concat (map (\<lambda>w. le_put 4 (unat w))
     [map_type d, key_size d, value_size d, max_entries d, map_flags d, inner_map_idx d, numa_node d])"

lemma length_encode_def [simp]: "length (encode_def d) = MAP_DEF_SIZE"
  by (simp add: encode_def_def MAP_DEF_SIZE_def)

lemma word_of_le_put: "word_of_nat (le_get (le_put 4 (unat (w :: u32)))) = w"
  using unsigned_less [of w, where 'a = nat] by (simp add: le_get_le_put del: le_put.simps)

lemma decode_encode_def: "decode_def (encode_def d) = d"
  by (simp add: decode_def_def encode_def_def word_at_def seg_def word_of_le_put del: le_put.simps)

text \<open>A definition in a file whose structure has \<open>sz\<close> bytes: a prefix, or followed by zeros.\<close>

definition fit_def :: "nat \<Rightarrow> bpf_load_map_def \<Rightarrow> bytes" where
  "fit_def sz d = take sz (encode_def d) @ replicate (sz - MAP_DEF_SIZE) 0"

lemma length_fit_def [simp]: "length (fit_def sz d) = sz"
  by (simp add: fit_def_def)

lemma length_concat_const: "(\<And>x. x \<in> set xs \<Longrightarrow> length x = sz) \<Longrightarrow> length (concat xs) = length xs * sz"
  by (induction xs) auto

definition map_syms :: "elf \<Rightarrow> bytes \<Rightarrow> nat \<Rightarrow> elf_sym list" where
  "map_syms E symbols shndx =
     filter (\<lambda>s. st_shndx s = shndx) (List.map_filter (gelf_getsym E symbols) [0..<length symbols div SYM_SIZE])"

lemma collect_syms_eq:
  assumes "length acc + length (filter (\<lambda>s. st_shndx s = shndx) (List.map_filter (gelf_getsym E symbols) is)) \<le> MAX_MAPS"
  shows "collect_syms E symbols shndx is acc = Inr (acc @ filter (\<lambda>s. st_shndx s = shndx) (List.map_filter (gelf_getsym E symbols) is))"
  using assms
proof (induction "is" arbitrary: acc)
  case Nil
  then show ?case by (simp add: List.map_filter_simps)
next
  case (Cons i "is")
  then show ?case by (cases "gelf_getsym E symbols i") (auto simp: List.map_filter_simps)
qed

lemma read_map_ok:
  assumes "elf_strptr E strtabidx (st_name s) = Some name" and "seg (st_value s) sz data = fit_def sz d"
    and "st_value s + sz \<le> length data"
  shows "read_map E strtabidx data (min sz MAP_DEF_SIZE) sz True s m =
    Inr (0, m\<lparr>map_name := name, elf_offset := st_value s,
      map_def := decode_def (take sz (encode_def d) @ replicate (MAP_DEF_SIZE - sz) 0)\<rparr>)"
proof -
  let ?c = "min sz MAP_DEF_SIZE"
  have "seg (st_value s) ?c data = take ?c (seg (st_value s) sz data)" by (simp add: seg_def min_def)
  then have a: "seg (st_value s) ?c data = take sz (encode_def d)" by (simp add: assms(2) fit_def_def min_def)
  have "seg (st_value s + ?c) (sz - ?c) data = drop ?c (seg (st_value s) sz data)"
    by (simp add: seg_def drop_take add.commute)
  then have b: "seg (st_value s + ?c) (sz - ?c) data = replicate (sz - MAP_DEF_SIZE) 0"
    by (simp add: assms(2) fit_def_def min_def)
  show ?thesis using assms(1,3) a b by (simp add: read_map_def Let_def min_def)
qed

lemma read_maps_ok:
  assumes "\<And>j. j < length syms \<Longrightarrow> \<exists>name. elf_strptr E strtabidx (st_name (syms ! j)) = Some name"
    and "\<And>j. j < length syms \<Longrightarrow> seg (st_value (syms ! j)) sz data = fit_def sz (defs j) \<and> st_value (syms ! j) + sz \<le> length data"
    and "i + length syms \<le> length maps"
  shows "\<exists>maps'. read_maps E strtabidx data (min sz MAP_DEF_SIZE) sz True syms i maps = Inr (int (i + length syms), maps') \<and>
    length maps' = length maps \<and> (\<forall>j<i. maps' ! j = maps ! j) \<and>
    (\<forall>j<length syms. map_fd (maps' ! (i + j)) = map_fd (maps ! (i + j)) \<and> elf_offset (maps' ! (i + j)) = st_value (syms ! j) \<and>
       Some (map_name (maps' ! (i + j))) = elf_strptr E strtabidx (st_name (syms ! j)) \<and>
       map_def (maps' ! (i + j)) = decode_def (take sz (encode_def (defs j)) @ replicate (MAP_DEF_SIZE - sz) 0))"
  using assms
proof (induction syms arbitrary: i maps defs)
  case Nil
  then show ?case by simp
next
  case (Cons s syms)
  obtain name where n: "elf_strptr E strtabidx (st_name s) = Some name" using Cons.prems(1) [of 0] by auto
  have d: "seg (st_value s) sz data = fit_def sz (defs 0)" "st_value s + sz \<le> length data" using Cons.prems(2) [of 0] by auto
  let ?m = "(maps ! i)\<lparr>map_name := name, elf_offset := st_value s,
      map_def := decode_def (take sz (encode_def (defs 0)) @ replicate (MAP_DEF_SIZE - sz) 0)\<rparr>"
  have "\<exists>maps'. read_maps E strtabidx data (min sz MAP_DEF_SIZE) sz True syms (Suc i) (maps[i := ?m]) = Inr (int (Suc i + length syms), maps') \<and>
    length maps' = length (maps[i := ?m]) \<and> (\<forall>j<Suc i. maps' ! j = maps[i := ?m] ! j) \<and>
    (\<forall>j<length syms. map_fd (maps' ! (Suc i + j)) = map_fd (maps[i := ?m] ! (Suc i + j)) \<and> elf_offset (maps' ! (Suc i + j)) = st_value (syms ! j) \<and>
       Some (map_name (maps' ! (Suc i + j))) = elf_strptr E strtabidx (st_name (syms ! j)) \<and>
       map_def (maps' ! (Suc i + j)) = decode_def (take sz (encode_def (defs (Suc j))) @ replicate (MAP_DEF_SIZE - sz) 0))"
    by (rule Cons.IH) (use Cons.prems(1) [of "Suc _"] Cons.prems(2) [of "Suc _"] Cons.prems(3) in auto)
  then obtain maps' where h: "read_maps E strtabidx data (min sz MAP_DEF_SIZE) sz True syms (Suc i) (maps[i := ?m]) = Inr (int (Suc i + length syms), maps')"
    "length maps' = length maps" "\<forall>j<Suc i. maps' ! j = maps[i := ?m] ! j"
    "\<forall>j<length syms. map_fd (maps' ! (Suc i + j)) = map_fd (maps[i := ?m] ! (Suc i + j)) \<and> elf_offset (maps' ! (Suc i + j)) = st_value (syms ! j) \<and>
       Some (map_name (maps' ! (Suc i + j))) = elf_strptr E strtabidx (st_name (syms ! j)) \<and>
       map_def (maps' ! (Suc i + j)) = decode_def (take sz (encode_def (defs (Suc j))) @ replicate (MAP_DEF_SIZE - sz) 0)"
    by auto
  have i: "i < length maps" using Cons.prems(3) by simp
  have 0: "maps' ! i = ?m" using h(3) i by simp
  have "map_fd (maps' ! (i + j)) = map_fd (maps ! (i + j)) \<and> elf_offset (maps' ! (i + j)) = st_value ((s # syms) ! j) \<and>
       Some (map_name (maps' ! (i + j))) = elf_strptr E strtabidx (st_name ((s # syms) ! j)) \<and>
       map_def (maps' ! (i + j)) = decode_def (take sz (encode_def (defs j)) @ replicate (MAP_DEF_SIZE - sz) 0)"
    if "j < length (s # syms)" for j
    using 0 h(4) n that by (cases j) auto
  moreover have "\<forall>j<i. maps' ! j = maps ! j" using h(3) by auto
  moreover have "read_maps E strtabidx data (min sz MAP_DEF_SIZE) sz True (s # syms) i maps = Inr (int (i + length (s # syms)), maps')"
    using h(1) i read_map_ok [OF n d, of "maps ! i"] by simp
  ultimately show ?case using h(2) by blast
qed

text \<open>
  C22: the definitions in the file are the definitions that are loaded. For a \<open>maps\<close> section that holds
  up to 32 structures of \<open>sz\<close> bytes, with one symbol each in whatever order of the symbol table,
  \<open>__load_elf_maps_section\<close> returns their number and fills \<open>maps\<close> in the order of the section. A larger
  structure with zeros behind the known fields gives exactly the definition, a smaller one (an older
  file) the fields it has and zeros for the rest.
\<close>

theorem load_elf_maps_roundtrip:
  assumes "0 \<le> shndx" and "elf_getscn E (nat shndx) = Some scn" and "sec_data scn = concat (map (fit_def sz) defs) # rest"
    and "defs \<noteq> []" and "length defs \<le> MAX_MAPS" and "length maps = MAX_MAPS"
    and "mset (map st_value (map_syms E symbols (nat shndx))) = mset (map (\<lambda>k. k * sz) [0..<length defs])"
    and "\<forall>s\<in>set (map_syms E symbols (nat shndx)). elf_strptr E strtabidx (st_name s) \<noteq> None"
  shows "\<exists>maps'. load_elf_maps_section E True maps shndx symbols strtabidx = Inr (int (length defs), maps') \<and>
    length maps' = MAX_MAPS \<and>
    (\<forall>k<length defs. map_fd (maps' ! k) = map_fd (maps ! k) \<and> elf_offset (maps' ! k) = k * sz \<and>
       map_def (maps' ! k) = decode_def (take sz (encode_def (defs ! k)) @ replicate (MAP_DEF_SIZE - sz) 0) \<and>
       (MAP_DEF_SIZE \<le> sz \<longrightarrow> map_def (maps' ! k) = defs ! k))"
proof -
  let ?syms = "map_syms E symbols (nat shndx)" and ?data = "concat (map (fit_def sz) defs)"
  let ?sorted = "sort_key st_value ?syms"
  have "sorted (map (\<lambda>k. k * sz) [0..<length defs])" by (auto simp: sorted_iff_nth_mono)
  then have "sort (map st_value ?syms) = map (\<lambda>k. k * sz) [0..<length defs]"
    using assms(7) by (intro properties_for_sort) simp_all
  moreover have "sort (map st_value ?syms) = map st_value ?sorted"
    by (rule properties_for_sort) simp_all
  ultimately have "map st_value ?sorted = map (\<lambda>k. k * sz) [0..<length defs]" by simp
  then have v: "length ?sorted = length defs" "\<And>k. k < length defs \<Longrightarrow> st_value (?sorted ! k) = k * sz"
  proof -
    assume m: "map st_value ?sorted = map (\<lambda>k. k * sz) [0..<length defs]"
    show l: "length ?sorted = length defs" using arg_cong [OF m, of length] by simp
    fix k assume "k < length defs"
    then show "st_value (?sorted ! k) = k * sz" using arg_cong [OF m, of "\<lambda>xs. xs ! k"] l by simp
  qed
  have len: "length ?syms = length defs" using v(1) by simp
  have fit: "length x = sz" if "x \<in> set (map (fit_def sz) defs)" for x using that by auto
  have ld: "length ?data = length defs * sz" using length_concat_const [of "map (fit_def sz) defs" sz, OF fit] by simp
  have div: "length ?data div length ?syms = sz" using ld len assms(4) by simp
  have c: "collect_syms E symbols (nat shndx) [0..<length symbols div SYM_SIZE] [] = Inr ?syms"
    using collect_syms_eq [of "[]" "nat shndx" E symbols "[0..<length symbols div SYM_SIZE]"] len assms(5)
    by (simp add: map_syms_def)
  have n: "\<exists>name. elf_strptr E strtabidx (st_name (?sorted ! j)) = Some name" if "j < length ?sorted" for j
    using assms(8) nth_mem [OF that] by (metis not_None_eq set_sort)
  have sg: "seg (st_value (?sorted ! j)) sz ?data = fit_def sz (defs ! j) \<and> st_value (?sorted ! j) + sz \<le> length ?data"
    if "j < length ?sorted" for j
  proof -
    have j: "j < length defs" using that v(1) by simp
    then have "Suc j * sz \<le> length defs * sz" by (intro mult_le_mono1) simp
    then show ?thesis using seg_concat [of "map (fit_def sz) defs" sz j, OF fit] j v(2) [OF j] ld by simp
  qed
  have e: "load_elf_maps_section E True maps shndx symbols strtabidx =
      read_maps E strtabidx ?data (min sz MAP_DEF_SIZE) sz True ?sorted 0 maps"
    using assms(1-4) c len div by (auto simp: load_elf_maps_section_def Let_def)
  obtain maps' where m: "read_maps E strtabidx ?data (min sz MAP_DEF_SIZE) sz True ?sorted 0 maps = Inr (int (length ?sorted), maps')"
    "length maps' = length maps"
    "\<forall>j<length ?sorted. map_fd (maps' ! j) = map_fd (maps ! j) \<and> elf_offset (maps' ! j) = st_value (?sorted ! j) \<and>
       map_def (maps' ! j) = decode_def (take sz (encode_def (defs ! j)) @ replicate (MAP_DEF_SIZE - sz) 0)"
    using read_maps_ok [OF n sg, of 0 maps] v(1) assms(5,6) by auto
  then show ?thesis using e v assms(6) by (auto simp: decode_encode_def)
qed

definition sample_defs :: "bpf_load_map_def list" where
  "sample_defs = [\<lparr>map_type = 2, key_size = 4, value_size = 8, max_entries = 16, map_flags = 0, inner_map_idx = 0, numa_node = 0\<rparr>,
     \<lparr>map_type = 18, key_size = 4, value_size = 4, max_entries = 20, map_flags = 0, inner_map_idx = 0, numa_node = 0\<rparr>]"

text \<open>Two definitions of 32 bytes, their symbols in reverse order.\<close>

definition sample_maps_elf :: elf where
  "sample_maps_elf = \<lparr>elf_secs = [None, Some \<lparr>sec_shdr = None, sec_shname = None, sec_data = [concat (map (fit_def 32) sample_defs)]\<rparr>],
     elf_strptr = (\<lambda>_ _. Some ''M''), gelf_getrel = (\<lambda>_ _. None),
     gelf_getsym = (\<lambda>_ i. if i = 0 then Some \<lparr>st_name = 0, st_value = 32, st_shndx = 1\<rparr> else Some \<lparr>st_name = 0, st_value = 0, st_shndx = 1\<rparr>)\<rparr>"

theorem load_elf_maps_roundtrip_witness:
  "\<exists>maps'. load_elf_maps_section sample_maps_elf True (replicate 32 (sample_maps_data ! 0)) 1 (replicate 48 0) 5 = Inr (2, maps') \<and>
     map_def (maps' ! 1) = sample_defs ! 1"
proof -
  have s: "map_syms sample_maps_elf (replicate 48 0) (nat 1) =
      [\<lparr>st_name = 0, st_value = 32, st_shndx = 1\<rparr>, \<lparr>st_name = 0, st_value = 0, st_shndx = 1\<rparr>]"
    by (simp add: map_syms_def sample_maps_elf_def SYM_SIZE_def upt_rec List.map_filter_simps)
  have l: "length sample_defs = 2" by (simp add: sample_defs_def)
  have "mset (map st_value (map_syms sample_maps_elf (replicate 48 0) (nat 1))) = mset (map (\<lambda>k. k * 32) [0..<length sample_defs])"
    unfolding s l by (simp add: upt_rec)
  moreover have "elf_getscn sample_maps_elf (nat 1) = Some \<lparr>sec_shdr = None, sec_shname = None, sec_data = [concat (map (fit_def 32) sample_defs)]\<rparr>"
    by (simp add: elf_getscn_def sample_maps_elf_def)
  moreover have "\<forall>s\<in>set (map_syms sample_maps_elf (replicate 48 0) (nat 1)). elf_strptr sample_maps_elf 5 (st_name s) \<noteq> None"
    by (simp add: sample_maps_elf_def)
  ultimately obtain maps' where
    "load_elf_maps_section sample_maps_elf True (replicate 32 (sample_maps_data ! 0)) 1 (replicate 48 0) 5 = Inr (int (length sample_defs), maps')"
    "\<forall>k<length sample_defs. MAP_DEF_SIZE \<le> 32 \<longrightarrow> map_def (maps' ! k) = sample_defs ! k"
    using load_elf_maps_roundtrip [of 1 sample_maps_elf _ 32 sample_defs "[]" "replicate 32 (sample_maps_data ! 0)" "replicate 48 0" 5] l
    by (fastforce simp: MAX_MAPS_def sample_defs_def)
  then show ?thesis using l by (auto simp: MAP_DEF_SIZE_def)
qed

end
