(* ===== verification/Attach_Helpers.thy ===== *)
theory Attach_Helpers
  imports Launcher_Elf
begin

text \<open>
  The helpers that attach and detach programs (\<open>include/common/tc_user_helpers.c\<close> and
  \<open>xdp_user_helpers.c\<close>). The host, that is the kernel, libbpf and the shell, is a parameter: its answer
  to a call may depend on all calls made before it and their answers, which the functions thread
  through as a trace.
\<close>

section \<open>The host\<close>

datatype prog_type = SOCK_OPS | SK_MSG | SK_SKB | XDP
datatype attach_type = CGROUP_SOCK_OPS | SK_MSG_VERDICT | SK_SKB_STREAM_PARSER | SK_SKB_STREAM_VERDICT

text \<open>
  The calls. \<open>GetLinkXdpId\<close> stands for \<open>bpf_get_link_xdp_id\<close>: its answer is the identifier of the program, or
  negative for an error; \<open>OpenXattr\<close> is negative for an error or NULL.
\<close>

datatype hcall =
    CreateMap bpf_map_data "int option" int
  | LoadProgram prog_type bytes nat bytes
  | AttachProg int int attach_type
  | OpenDir string
  | Pin int string
  | UpdateProgArray int int int
  | SetLinkXdpFd nat int u32
  | GetLinkXdpId nat u32
  | System string
  | ProgLoadXattr string nat
  | OpenXattr string
  | SetProgXdp string nat
  | SetMapIfindex string nat
  | ObjGet string
  | ReuseFd string int
  | ObjectLoad string
  | InfoByFd int
  | PinMaps string string

type_synonym trace = "(hcall \<times> int) list"

text \<open>
  Besides the answers: interface indices, the allocator, the programs (title and descriptor) and maps of
  an object file as libbpf gives them, and whether a map is \<open>offload_neutral\<close>.
\<close>

record host =
  answer :: "trace \<Rightarrow> hcall \<Rightarrow> int"
  if_nametoindex :: "string \<Rightarrow> nat"
  calloc_works :: bool
  programs :: "trace \<Rightarrow> string \<Rightarrow> (string \<times> int) list"
  object_maps :: "string \<Rightarrow> string list"
  offload_neutral :: "string \<Rightarrow> bool"

definition invoke :: "'a host_scheme \<Rightarrow> hcall \<Rightarrow> trace \<Rightarrow> int \<times> trace" where
  "invoke E c tr = (answer E tr c, tr @ [(c, answer E tr c)])"

definition EXIT_OK :: int where "EXIT_OK = 0"
definition EXIT_FAIL :: int where "EXIT_FAIL = 1"
definition EXIT_FAIL_OPTION :: int where "EXIT_FAIL_OPTION = 2"
definition EXIT_FAIL_XDP :: int where "EXIT_FAIL_XDP = 30"
definition EXIT_FAIL_BPF :: int where "EXIT_FAIL_BPF = 40"

lemmas exit_codes = EXIT_OK_def EXIT_FAIL_def EXIT_FAIL_OPTION_def EXIT_FAIL_XDP_def EXIT_FAIL_BPF_def

definition UPDATE_IF_NOEXIST :: u32 where "UPDATE_IF_NOEXIST = 1"
definition SKB_MODE :: u32 where "SKB_MODE = 2"
definition DRV_MODE :: u32 where "DRV_MODE = 4"
definition HW_MODE :: u32 where "HW_MODE = 8"
definition XDP_MODES :: u32 where "XDP_MODES = 14"

lemmas xdp_flags_defs = UPDATE_IF_NOEXIST_def SKB_MODE_def DRV_MODE_def HW_MODE_def XDP_MODES_def

text \<open>What \<open>snprintf\<close> leaves of a text in a buffer of \<open>n\<close> bytes.\<close>

definition snprintf :: "nat \<Rightarrow> string \<Rightarrow> string" where
  "snprintf n s = take (n - 1) s"

section \<open>Traffic control\<close>

definition CMD_MAX :: nat where "CMD_MAX = 2048"

definition WIFEXITED :: "int \<Rightarrow> bool" where
  "WIFEXITED status \<longleftrightarrow> status mod 128 = 0"

definition tc_egress_attach_bpf :: "'a host_scheme \<Rightarrow> string \<Rightarrow> string \<Rightarrow> string \<Rightarrow> trace \<Rightarrow> int \<times> trace" where
  "tc_egress_attach_bpf E ifname bpf_obj sec_name tr =
     (case invoke E (System (snprintf CMD_MAX (''tc qdisc del dev '' @ ifname @ '' clsact 2> /dev/null''))) tr of
        (ret, tr1) \<Rightarrow>
          if \<not> WIFEXITED ret then (-1, tr1)
          else
            (case invoke E (System (snprintf CMD_MAX (''tc qdisc add dev '' @ ifname @ '' clsact''))) tr1 of
               (ret, tr2) \<Rightarrow>
                 if ret \<noteq> 0 then (-1, tr2)
                 else
                   (case invoke E (System (snprintf CMD_MAX (''tc filter add dev '' @ ifname @
                             '' egress prio 1 handle 1 bpf da obj '' @ bpf_obj @ '' sec '' @ sec_name))) tr2 of
                      (ret, tr3) \<Rightarrow> if ret \<noteq> 0 then (-1, tr3) else (ret, tr3))))"

definition tc_remove_egress :: "'a host_scheme \<Rightarrow> string \<Rightarrow> trace \<Rightarrow> int \<times> trace" where
  "tc_remove_egress E dev tr =
     (case invoke E (System (snprintf CMD_MAX (''tc filter delete dev '' @ dev @ '' egress''))) tr of
        (ret, tr1) \<Rightarrow> if ret \<noteq> 0 then (-1, tr1) else (ret, tr1))"

section \<open>Pinned maps\<close>

definition PATH_MAX :: nat where "PATH_MAX = 4096"

text \<open>The loop of \<open>reuse_maps\<close> over the maps of the object; \<open>-36\<close> is \<open>-ENAMETOOLONG\<close>.\<close>

fun reuse_loop :: "'a host_scheme \<Rightarrow> string \<Rightarrow> string list \<Rightarrow> trace \<Rightarrow> int \<times> trace" where
  "reuse_loop E path [] tr = (0, tr)"
| "reuse_loop E path (name # names) tr =
     (if PATH_MAX \<le> length (path @ ''/'' @ name) then (-36, tr)
      else
        (case invoke E (ObjGet (path @ ''/'' @ name)) tr of
           (pinned_map_fd, tr1) \<Rightarrow>
             if pinned_map_fd < 0 then (pinned_map_fd, tr1)
             else
               (case invoke E (ReuseFd name pinned_map_fd) tr1 of
                  (err, tr2) \<Rightarrow> if err \<noteq> 0 then (err, tr2) else reuse_loop E path names tr2)))"

text \<open>\<open>None\<close> is the NULL pointer; the error codes are \<open>-ENOENT\<close> and \<open>-EINVAL\<close>.\<close>

definition reuse_maps :: "'a host_scheme \<Rightarrow> string option \<Rightarrow> string option \<Rightarrow> trace \<Rightarrow> int \<times> trace" where
  "reuse_maps E obj path tr =
     (case obj of
        None \<Rightarrow> (-2, tr)
      | Some file \<Rightarrow> (case path of None \<Rightarrow> (-22, tr) | Some dir \<Rightarrow> reuse_loop E dir (object_maps E file) tr))"

record bpf_map_info =
  info_type :: u32
  info_key_size :: u32
  info_value_size :: u32
  info_max_entries :: u32

definition check_map_fd_info :: "bpf_map_info \<Rightarrow> bpf_map_info \<Rightarrow> int" where
  "check_map_fd_info info ex =
     (if info_key_size ex \<noteq> 0 \<and> info_key_size ex \<noteq> info_key_size info then EXIT_FAIL
      else if info_value_size ex \<noteq> 0 \<and> info_value_size ex \<noteq> info_value_size info then EXIT_FAIL
      else if info_max_entries ex \<noteq> 0 \<and> info_max_entries ex \<noteq> info_max_entries info then EXIT_FAIL
      else if info_type ex \<noteq> 0 \<and> info_type ex \<noteq> info_type info then EXIT_FAIL
      else 0)"

definition open_bpf_map_file :: "'a host_scheme \<Rightarrow> string \<Rightarrow> string \<Rightarrow> bool \<Rightarrow> trace \<Rightarrow> int \<times> trace" where
  "open_bpf_map_file E pin_dir mapname want_info tr =
     (case invoke E (ObjGet (snprintf PATH_MAX (pin_dir @ ''/'' @ mapname))) tr of
        (fd, tr1) \<Rightarrow>
          if fd < 0 then (fd, tr1)
          else if want_info then
            (case invoke E (InfoByFd fd) tr1 of (err, tr2) \<Rightarrow> if err \<noteq> 0 then (EXIT_FAIL_BPF, tr2) else (fd, tr2))
          else (fd, tr1))"

definition pin_maps_in_bpf_object :: "'a host_scheme \<Rightarrow> string \<Rightarrow> string \<Rightarrow> trace \<Rightarrow> int \<times> trace" where
  "pin_maps_in_bpf_object E file subdir tr =
     (case invoke E (PinMaps file (snprintf PATH_MAX (''/sys/fs/bpf/'' @ subdir))) tr of
        (err, tr1) \<Rightarrow> if err \<noteq> 0 then (EXIT_FAIL_BPF, tr1) else (0, tr1))"

section \<open>Object files\<close>

text \<open>An object is named by its file; false is NULL.\<close>

definition load_xdp_object_file :: "'a host_scheme \<Rightarrow> string \<Rightarrow> nat \<Rightarrow> trace \<Rightarrow> bool \<times> trace" where
  "load_xdp_object_file E filename ifindex tr =
     (case invoke E (ProgLoadXattr filename ifindex) tr of (err, tr1) \<Rightarrow> (err = 0, tr1))"

fun invoke_all :: "'a host_scheme \<Rightarrow> hcall list \<Rightarrow> trace \<Rightarrow> trace" where
  "invoke_all E [] tr = tr"
| "invoke_all E (c # cs) tr = invoke_all E cs (snd (invoke E c tr))"

definition open_xdp_object :: "'a host_scheme \<Rightarrow> string \<Rightarrow> nat \<Rightarrow> trace \<Rightarrow> bool \<times> trace" where
  "open_xdp_object E file ifindex tr =
     (case invoke E (OpenXattr file) tr of
        (err, tr1) \<Rightarrow>
          if err < 0 then (False, tr1)
          else
            (let progs = programs E tr1 file;
                 tr2 = invoke_all E (map (\<lambda>(title, _). SetProgXdp title ifindex) progs) tr1;
                 tr3 = invoke_all E (map (\<lambda>name. SetMapIfindex name ifindex)
                                       (filter (\<lambda>name. \<not> offload_neutral E name) (object_maps E file))) tr2
             in (progs \<noteq> [], tr3)))"

definition load_xdp_object_file_reuse_maps :: "'a host_scheme \<Rightarrow> string \<Rightarrow> nat \<Rightarrow> string \<Rightarrow> trace \<Rightarrow> bool \<times> trace" where
  "load_xdp_object_file_reuse_maps E file ifindex pin_dir tr =
     (case open_xdp_object E file ifindex tr of
        (False, tr1) \<Rightarrow> (False, tr1)
      | (True, tr1) \<Rightarrow>
          (case reuse_maps E (Some file) (Some pin_dir) tr1 of
             (err, tr2) \<Rightarrow>
               if err \<noteq> 0 then (False, tr2)
               else (case invoke E (ObjectLoad file) tr2 of (err, tr3) \<Rightarrow> (err = 0, tr3))))"

section \<open>The XDP hook\<close>

text \<open>The flags for removing a program of the opposite mode.\<close>

definition other_mode :: "u32 \<Rightarrow> u32" where
  "other_mode old_flags =
     (old_flags AND NOT XDP_MODES) OR (if old_flags AND SKB_MODE \<noteq> 0 then DRV_MODE else SKB_MODE)"

definition xdp_link_attach :: "'a host_scheme \<Rightarrow> nat \<Rightarrow> u32 \<Rightarrow> int \<Rightarrow> trace \<Rightarrow> int \<times> trace" where
  "xdp_link_attach E ifindex xdp_flags prog_fd tr =
     (let (err, tr1) = invoke E (SetLinkXdpFd ifindex prog_fd xdp_flags) tr;
          (err', tr2) =
            (if err = -17 \<and> xdp_flags AND UPDATE_IF_NOEXIST = 0 then
               (let (e, t) = invoke E (SetLinkXdpFd ifindex (-1) (other_mode xdp_flags)) tr1
                in if e = 0 then invoke E (SetLinkXdpFd ifindex prog_fd xdp_flags) t else (e, t))
             else (err, tr1))
      in if err' < 0 then (EXIT_FAIL_XDP, tr2) else (EXIT_OK, tr2))"

definition xdp_generic_off :: "string \<Rightarrow> hcall" where
  "xdp_generic_off iface = System (snprintf 2048 (''ip link set dev '' @ iface @ '' xdpgeneric off''))"

definition xdp_generic_link_attach :: "'a host_scheme \<Rightarrow> string \<Rightarrow> string \<Rightarrow> string \<Rightarrow> trace \<Rightarrow> int \<times> trace" where
  "xdp_generic_link_attach E iface file sec_name tr =
     (case invoke E (xdp_generic_off iface) tr of
        (ret, tr1) \<Rightarrow>
          if ret = -1 then (EXIT_FAIL_XDP, tr1)
          else
            (case invoke E (System (snprintf 2048 (''ip link set dev '' @ iface @ '' xdpgeneric obj '' @ file @ '' sec '' @ sec_name))) tr1 of
               (ret, tr2) \<Rightarrow> if ret = -1 then (EXIT_FAIL_XDP, tr2) else (EXIT_OK, tr2)))"

definition xdp_link_detach :: "'a host_scheme \<Rightarrow> nat \<Rightarrow> u32 \<Rightarrow> nat \<Rightarrow> trace \<Rightarrow> int \<times> trace" where
  "xdp_link_detach E ifindex xdp_flags expected_prog_id tr =
     (case invoke E (GetLinkXdpId ifindex xdp_flags) tr of
        (curr_prog_id, tr1) \<Rightarrow>
          if curr_prog_id < 0 then (EXIT_FAIL_XDP, tr1)
          else if curr_prog_id = 0 then (EXIT_OK, tr1)
          else if expected_prog_id \<noteq> 0 \<and> curr_prog_id \<noteq> int expected_prog_id then (EXIT_FAIL, tr1)
          else (case invoke E (SetLinkXdpFd ifindex (-1) xdp_flags) tr1 of
                  (err, tr2) \<Rightarrow> if err < 0 then (EXIT_FAIL_XDP, tr2) else (EXIT_OK, tr2)))"

definition xdp_generic_link_detach :: "'a host_scheme \<Rightarrow> string \<Rightarrow> trace \<Rightarrow> int \<times> trace" where
  "xdp_generic_link_detach E iface tr =
     (case invoke E (xdp_generic_off iface) tr of
        (ret, tr1) \<Rightarrow> if ret = -1 then (EXIT_FAIL_XDP, tr1) else (EXIT_OK, tr1))"

definition BPF_FILE_SIZE :: nat where "BPF_FILE_SIZE = 512"
definition BPF_PROGSEC_SIZE :: nat where "BPF_PROGSEC_SIZE = 32"

text \<open>
  \<open>bpf_object__find_program_by_title\<close>, and the choice of \<open>load_bpf_and_xdp_attach\<close>: the program of the
  section, or the first one when no section is named.
\<close>

definition find_program :: "'a host_scheme \<Rightarrow> trace \<Rightarrow> string \<Rightarrow> string \<Rightarrow> int option" where
  "find_program E tr file title = map_option snd (List.find (\<lambda>(t, _). t = title) (programs E tr file))"

definition select_program :: "'a host_scheme \<Rightarrow> trace \<Rightarrow> string \<Rightarrow> string \<Rightarrow> int option" where
  "select_program E tr file progsec =
     (if progsec \<noteq> [] then find_program E tr file progsec
      else case programs E tr file of [] \<Rightarrow> None | (_, fd) # _ \<Rightarrow> Some fd)"

text \<open>
  \<open>strcpy\<close> into the fields of the zeroed configuration needs room for the text and its end mark; the test
  before it rejects only if all three texts are too long. \<open>pin_dir\<close> stays empty.
\<close>

definition load_bpf_and_xdp_attach ::
    "'a host_scheme \<Rightarrow> string \<Rightarrow> string \<Rightarrow> string \<Rightarrow> u32 \<Rightarrow> bool \<Rightarrow> trace \<Rightarrow> launch_fault + (bool \<times> trace)" where
  "load_bpf_and_xdp_attach E filename ifname sec_name xdp_flags reuse tr =
     (if BPF_FILE_SIZE \<le> length filename \<and> BPF_PROGSEC_SIZE \<le> length sec_name \<and> IF_NAMESIZE \<le> length ifname
      then Inr (False, tr)
      else if \<not> calloc_works E then Inl NullArg
      else if BPF_FILE_SIZE \<le> length filename \<or> BPF_PROGSEC_SIZE \<le> length sec_name \<or> IF_NAMESIZE \<le> length ifname
      then Inl BadIndex
      else
        (let ifindex = if_nametoindex E ifname;
             offload_ifindex = (if xdp_flags AND HW_MODE \<noteq> 0 then ifindex else 0)
         in case (if reuse then load_xdp_object_file_reuse_maps E filename offload_ifindex [] tr
                  else load_xdp_object_file E filename offload_ifindex tr) of
              (False, tr1) \<Rightarrow> Inr (False, tr1)
            | (True, tr1) \<Rightarrow>
                (case select_program E tr1 filename sec_name of
                   None \<Rightarrow> Inr (False, tr1)
                 | Some prog_fd \<Rightarrow>
                     if prog_fd \<le> 0 then Inr (False, tr1)
                     else (case xdp_link_attach E ifindex xdp_flags prog_fd tr1 of
                             (err, tr2) \<Rightarrow> Inr (err = 0, tr2)))))"

section \<open>What is attached to an interface\<close>

text \<open>
  The program on the XDP hook of an interface after a trace, with its mode: of an interface whose driver
  supports XDP, a program is in generic mode if the flags ask for it and in driver mode otherwise, and
  removing a program in the other mode has no effect.
\<close>

definition xdp_skb :: "u32 \<Rightarrow> bool" where
  "xdp_skb flags \<longleftrightarrow> flags AND SKB_MODE \<noteq> 0"

fun xdp_step :: "nat \<Rightarrow> hcall \<times> int \<Rightarrow> (int \<times> bool) option \<Rightarrow> (int \<times> bool) option" where
  "xdp_step ix (SetLinkXdpFd i fd flags, r) p =
     (if i = ix \<and> r = 0 then
        (if 0 \<le> fd then Some (fd, xdp_skb flags)
         else case p of None \<Rightarrow> None | Some (q, skb) \<Rightarrow> if skb = xdp_skb flags then None else p)
      else p)"
| "xdp_step ix _ p = p"

definition xdp_hook :: "(int \<times> bool) option \<Rightarrow> nat \<Rightarrow> trace \<Rightarrow> (int \<times> bool) option" where
  "xdp_hook p ix tr = fold (xdp_step ix) tr p"

lemma xdp_hook_simps [simp]:
  "xdp_hook p ix [] = p"
  "xdp_hook p ix (e # tr) = xdp_hook (xdp_step ix e p) ix tr"
  "xdp_hook p ix (tr @ tr') = xdp_hook (xdp_hook p ix tr) ix tr'"
  by (simp_all add: xdp_hook_def)

text \<open>
  Documented behaviour of \<open>bpf_set_link_xdp_fd\<close>: 0 or a negative error code; and of a kernel that
  refuses a program only because one of the other mode is attached (\<open>-EEXIST\<close>), or because any is and
  the flags forbid replacing it (\<open>-EBUSY\<close>), and whose \<open>bpf_get_link_xdp_id\<close> gives a positive identifier exactly
  for an attached program of the mode asked for.
\<close>

definition set_xdp_ok :: "'a host_scheme \<Rightarrow> nat \<Rightarrow> bool" where
  "set_xdp_ok E ix \<longleftrightarrow> (\<forall>tr fd flags. answer E tr (SetLinkXdpFd ix fd flags) \<le> 0)"

definition xdp_kernel_ok :: "'a host_scheme \<Rightarrow> (int \<times> bool) option \<Rightarrow> nat \<Rightarrow> bool" where
  "xdp_kernel_ok E p ix \<longleftrightarrow>
     (\<forall>tr fd flags. answer E tr (SetLinkXdpFd ix fd flags) =
        (case xdp_hook p ix tr of
           None \<Rightarrow> 0
         | Some (q, skb) \<Rightarrow>
             if fd < 0 then 0
             else if skb \<noteq> xdp_skb flags then -17
             else if flags AND UPDATE_IF_NOEXIST \<noteq> 0 then -16 else 0)) \<and>
     (\<forall>tr flags. if (\<exists>q. xdp_hook p ix tr = Some (q, xdp_skb flags)) then 0 < answer E tr (GetLinkXdpId ix flags)
        else answer E tr (GetLinkXdpId ix flags) = 0)"

lemma xdp_kernel_set_ok: "xdp_kernel_ok E p ix \<Longrightarrow> set_xdp_ok E ix"
  by (auto simp: xdp_kernel_ok_def set_xdp_ok_def split: option.splits)

lemma xdp_skb_other [simp]:
  "xdp_skb (other_mode flags) \<longleftrightarrow> \<not> xdp_skb flags"
proof -
  have "(flags AND NOT XDP_MODES) AND SKB_MODE = 0" by (simp add: and.assoc xdp_flags_defs)
  moreover have "DRV_MODE AND SKB_MODE = 0" "SKB_MODE AND SKB_MODE \<noteq> 0" by (simp_all add: xdp_flags_defs)
  ultimately have "(flags AND NOT XDP_MODES OR DRV_MODE) AND SKB_MODE = 0"
    "(flags AND NOT XDP_MODES OR SKB_MODE) AND SKB_MODE \<noteq> 0"
    by (simp_all only: bit.conj_disj_distrib2 or.left_neutral or.right_neutral, simp_all)
  then show ?thesis by (simp add: xdp_skb_def other_mode_def)
qed

text \<open>
  For every behaviour of the kernel, \<open>xdp_link_attach\<close> makes at most three calls; it reports success
  exactly when the program is on the hook of the interface in the mode asked for, and after a failure
  the hook is as before or, when the program of the other mode was removed and the new one then
  refused, empty. Hooks of other interfaces are untouched.
\<close>

lemma xdp_link_attach_effect:
  assumes "set_xdp_ok E ifindex" and "0 \<le> prog_fd" and "xdp_link_attach E ifindex flags prog_fd tr = (r, tr')"
  shows "length tr' \<le> length tr + 3 \<and>
    (r = EXIT_OK \<and> xdp_hook p ifindex tr' = Some (prog_fd, xdp_skb flags) \<or>
     r = EXIT_FAIL_XDP \<and> (xdp_hook p ifindex tr' = xdp_hook p ifindex tr \<or> xdp_hook p ifindex tr' = None)) \<and>
    (\<forall>ix. ix \<noteq> ifindex \<longrightarrow> xdp_hook q ix tr' = xdp_hook q ix tr)"
proof -
  have le: "answer E t (SetLinkXdpFd ifindex fd fl) < 0 \<longleftrightarrow> answer E t (SetLinkXdpFd ifindex fd fl) \<noteq> 0" for t fd fl
    using assms(1) unfolding set_xdp_ok_def by (metis le_less less_irrefl)
  show ?thesis
    using assms(2,3)
    by (auto simp: xdp_link_attach_def invoke_def Let_def le exit_codes split: if_splits option.splits)
qed

lemma xdp_kernel_answers:
  assumes "xdp_kernel_ok E p ix"
  shows "answer E t (SetLinkXdpFd ix fd flags) =
      (case xdp_hook p ix t of None \<Rightarrow> 0 | Some (q, skb) \<Rightarrow> if fd < 0 then 0 else if skb \<noteq> xdp_skb flags then -17
         else if flags AND UPDATE_IF_NOEXIST \<noteq> 0 then -16 else 0)"
    and "xdp_hook p ix t = Some (q, xdp_skb flags) \<Longrightarrow> 0 < answer E t (GetLinkXdpId ix flags)"
  using assms unfolding xdp_kernel_ok_def by (blast, meson)

lemma xdp_detach_empties:
  assumes "xdp_kernel_ok E p ix" and "xdp_hook p ix tr = Some (fd, xdp_skb flags)"
  shows "\<exists>tr'. xdp_link_detach E ix flags 0 tr = (EXIT_OK, tr') \<and> xdp_hook p ix tr' = None"
  using assms(2) xdp_kernel_answers(2) [OF assms(1,2)]
  by (auto simp: xdp_link_detach_def invoke_def xdp_kernel_answers(1) [OF assms(1)])


text \<open>A host that follows the documentation and accepts everything else.\<close>

definition doc_host :: host where
  "doc_host =
     \<lparr>answer = (\<lambda>tr c. case c of
         SetLinkXdpFd ix fd flags \<Rightarrow>
           (case xdp_hook None ix tr of
              None \<Rightarrow> 0
            | Some (q, skb) \<Rightarrow> if fd < 0 then 0 else if skb \<noteq> xdp_skb flags then -17
                              else if flags AND UPDATE_IF_NOEXIST \<noteq> 0 then -16 else 0)
       | GetLinkXdpId ix flags \<Rightarrow>
           (case xdp_hook None ix tr of None \<Rightarrow> 0 | Some (q, skb) \<Rightarrow> if skb = xdp_skb flags then 7 else 0)
       | CreateMap _ _ _ \<Rightarrow> 5 | LoadProgram _ _ _ _ \<Rightarrow> 8 | OpenDir _ \<Rightarrow> 4 | ObjGet _ \<Rightarrow> 3
       | _ \<Rightarrow> 0),
      if_nametoindex = (\<lambda>_. 2), calloc_works = True, programs = (\<lambda>_ _. [(''ingress_tf_sec'', 6)]),
      object_maps = (\<lambda>_. [''xsks_map'']), offload_neutral = (\<lambda>_. False)\<rparr>"

lemma doc_host_ok: "xdp_kernel_ok doc_host None ix"
  by (auto simp: xdp_kernel_ok_def doc_host_def split: option.splits)


text \<open>
  The length test of \<open>load_bpf_and_xdp_attach\<close> rejects only when all three texts are too long: any one
  of them alone is copied over the end of its field.
\<close>

lemma xdp_config_overflow:
  assumes "calloc_works E" and "BPF_FILE_SIZE \<le> length filename" and "length sec_name < BPF_PROGSEC_SIZE"
  shows "load_bpf_and_xdp_attach E filename ifname sec_name flags reuse tr = Inl BadIndex"
  using assms by (simp add: load_bpf_and_xdp_attach_def)

text \<open>A successful load leaves a program of the object on the hook of the interface.\<close>

lemma load_bpf_and_xdp_attach_hook:
  assumes "set_xdp_ok E (if_nametoindex E ifname)" and "load_bpf_and_xdp_attach E filename ifname sec_name flags False tr = Inr (True, tr')"
  shows "\<exists>tr1 fd. select_program E tr1 filename sec_name = Some fd \<and> 0 < fd \<and>
    xdp_hook p (if_nametoindex E ifname) tr' = Some (fd, xdp_skb flags)"
proof -
  obtain tr1 fd where f: "select_program E tr1 filename sec_name = Some fd" "0 < fd"
    and a: "xdp_link_attach E (if_nametoindex E ifname) flags fd tr1 = (0, tr')"
    using assms(2)
    by (auto simp: load_bpf_and_xdp_attach_def Let_def split: if_splits prod.splits bool.splits option.splits)
  have "xdp_hook p (if_nametoindex E ifname) tr' = Some (fd, xdp_skb flags)"
    using xdp_link_attach_effect [OF assms(1) _ a] f(2) by (simp add: exit_codes)
  with f show ?thesis by blast
qed

text \<open>The maps of an object are reused in order, each from its file in the directory, until one fails.\<close>

lemma reuse_maps_complete:
  assumes "reuse_loop E path names tr = (0, tr')"
  shows "\<exists>fds. length fds = length names \<and> (\<forall>fd\<in>set fds. 0 \<le> fd) \<and>
    tr' = tr @ concat (map (\<lambda>(n, fd). [(ObjGet (path @ ''/'' @ n), fd), (ReuseFd n fd, 0)]) (zip names fds))"
  using assms
proof (induction names arbitrary: tr)
  case Nil
  then show ?case by simp
next
  case (Cons n names)
  let ?f = "answer E tr (ObjGet (path @ ''/'' @ n))"
  let ?tr = "tr @ [(ObjGet (path @ ''/'' @ n), ?f), (ReuseFd n ?f, 0)]"
  have "0 \<le> ?f" "reuse_loop E path names ?tr = (0, tr')"
    using Cons.prems by (auto simp: invoke_def split: if_splits)
  with Cons.IH [of ?tr] obtain fds where "length fds = length names" "\<forall>fd\<in>set fds. 0 \<le> fd"
    "tr' = ?tr @ concat (map (\<lambda>(n, fd). [(ObjGet (path @ ''/'' @ n), fd), (ReuseFd n fd, 0)]) (zip names fds))"
    by blast
  with \<open>0 \<le> ?f\<close> show ?case by (intro exI [of _ "?f # fds"]) simp
qed

end
