(* ===== verification/Launcher.thy ===== *)
theory Launcher
  imports Attach_Helpers
begin

text \<open>
  The launcher (\<open>launcher/launcher.c\<close>): creating the maps of a graft, loading and attaching its
  programs, and \<open>launcher_load_graft_file\<close>, which does all of it for an object file. The calls go to the
  host, directly or through the attach helpers; their trace is part of the state.
\<close>

section \<open>State\<close>

definition MAX_TF_PROGS :: nat where "MAX_TF_PROGS = 32"
definition SEC_FLAGS :: nat where "SEC_FLAGS = 128"
definition LICENSE_SIZE :: nat where "LICENSE_SIZE = 128"

text \<open>The global variables (\<open>kern_version\<close> is reset to 0 and never set), and the trace.\<close>

record lstate =
  license :: bytes
  processed_sec :: "bool list"
  progs_fd :: "int list"
  progs_count :: nat
  prog_array_fd :: int
  maps_fd :: "int list"
  maps_data :: "bpf_map_data list"
  maps_data_count :: nat
  cg_fd :: int
  trace :: trace

text \<open>The lines of \<open>/proc/mounts\<close> as type and directory (\<open>None\<close> when it cannot be opened), and \<open>strdup\<close>.\<close>

record lenv = host +
  mounts :: "(string \<times> string) list option"
  l_strdup_ok :: bool

type_synonym lresult = "launch_fault + (int \<times> lstate)"

definition via :: "(trace \<Rightarrow> 'a \<times> trace) \<Rightarrow> lstate \<Rightarrow> 'a \<times> lstate" where
  "via f s = (case f (trace s) of (r, tr) \<Rightarrow> (r, s\<lparr>trace := tr\<rparr>))"

text \<open>Calls whose results are ignored.\<close>

definition call_all :: "lenv \<Rightarrow> hcall list \<Rightarrow> lstate \<Rightarrow> lstate" where
  "call_all E cs s = s\<lparr>trace := invoke_all E cs (trace s)\<rparr>"

text \<open>\<open>progs_fd[progs_count++] = fd\<close>\<close>

definition add_prog :: "int \<Rightarrow> lstate \<Rightarrow> launch_fault + lstate" where
  "add_prog fd s =
     (if progs_count s < length (progs_fd s)
      then Inr (s\<lparr>progs_fd := (progs_fd s)[progs_count s := fd], progs_count := progs_count s + 1\<rparr>)
      else Inl BadIndex)"

section \<open>Creating the maps\<close>

definition pin_calls :: "bpf_map_data \<Rightarrow> int \<Rightarrow> hcall list" where
  "pin_calls m fd =
     (if map_type (map_def m) = 18 then [Pin fd ''/sys/fs/bpf/skmap''] else []) @
     (if map_name m = ''APP_HASH_ID_MAP'' then [Pin fd ''/sys/fs/bpf/appli''] else []) @
     (if map_name m = ''QOS_NEGO_MAP'' then [Pin fd ''/sys/fs/bpf/ngmap''] else [])"

text \<open>The call that creates a map; a map of maps refers to an earlier entry of \<open>maps_fd\<close>.\<close>

definition new_map :: "bpf_map_data \<Rightarrow> int list \<Rightarrow> launch_fault + hcall" where
  "new_map m fds =
     (let node = (if map_flags (map_def m) AND 4 \<noteq> 0 then sint (numa_node (map_def m)) else -1);
          j = unat (inner_map_idx (map_def m))
      in if map_type (map_def m) = 12 \<or> map_type (map_def m) = 13 then
           (if length fds \<le> j then Inl BadIndex else Inr (CreateMap m (Some (fds ! j)) node))
         else Inr (CreateMap m None node))"

text \<open>One turn of \<open>__load_maps\<close>; the first result is the return value when the loop is left.\<close>

definition load_map ::
    "lenv \<Rightarrow> (bpf_map_data \<Rightarrow> nat \<Rightarrow> bpf_map_data) option \<Rightarrow> nat \<Rightarrow> lstate \<Rightarrow> launch_fault + (int option \<times> lstate)" where
  "load_map E fixup i s =
     (if \<not> (i < length (maps_data s) \<and> i < length (maps_fd s)) then Inl BadIndex
      else
        (let m = (case fixup of None \<Rightarrow> maps_data s ! i | Some f \<Rightarrow> f (maps_data s ! i) i);
             s0 = s\<lparr>maps_data := (maps_data s)[i := m]\<rparr>
         in if fixup \<noteq> None \<and> map_fd m \<noteq> -1 then Inr (None, s0\<lparr>maps_fd := (maps_fd s)[i := map_fd m]\<rparr>)
            else
              (case new_map m (maps_fd s) of
                 Inl f \<Rightarrow> Inl f
               | Inr c \<Rightarrow>
                   (case via (invoke E c) s0 of
                      (fd, s1) \<Rightarrow>
                        (let s2 = s1\<lparr>maps_fd := (maps_fd s)[i := fd]\<rparr>
                         in if fd < 0 then Inr (Some 1, s2)
                            else Inr (None, call_all E (pin_calls m fd)
                                   (s2\<lparr>maps_data := (maps_data s2)[i := m\<lparr>map_fd := fd\<rparr>],
                                       prog_array_fd := (if map_type (map_def m) = 3 then fd else prog_array_fd s2)\<rparr>)))))))"

fun load_maps :: "lenv \<Rightarrow> (bpf_map_data \<Rightarrow> nat \<Rightarrow> bpf_map_data) option \<Rightarrow> nat list \<Rightarrow> lstate \<Rightarrow> lresult" where
  "load_maps E fixup [] s = Inr (0, s)"
| "load_maps E fixup (i # is) s =
     (case load_map E fixup i s of
        Inl f \<Rightarrow> Inl f
      | Inr (Some r, s') \<Rightarrow> Inr (r, s')
      | Inr (None, s') \<Rightarrow> load_maps E fixup is s')"

section \<open>Loading programs\<close>

text \<open>\<open>__find_cg_root\<close>: the mount point of the first \<open>cgroup2\<close> file system.\<close>

definition find_cg_root :: "lenv \<Rightarrow> string option" where
  "find_cg_root E = map_option snd (Option.bind (mounts E) (List.find (\<lambda>(ty, dir). ty = ''cgroup2'')))"

definition isdigit :: "char \<Rightarrow> bool" where
  "isdigit c \<longleftrightarrow> 48 \<le> (of_char c :: nat) \<and> (of_char c :: nat) \<le> 57"

definition atoi :: "string \<Rightarrow> int" where
  "atoi s = foldl (\<lambda>n c. n * 10 + int (of_char c) - 48) 0 (takeWhile isdigit s)"

text \<open>\<open>__populate_prog_array\<close>: a failing update is only reported.\<close>

definition populate_prog_array :: "lenv \<Rightarrow> string \<Rightarrow> int \<Rightarrow> lstate \<Rightarrow> int \<times> lstate" where
  "populate_prog_array E sec_name prog_fd s =
     (0, call_all E [UpdateProgArray (prog_array_fd s) (atoi sec_name) prog_fd] s)"

definition launcher_load_egress_tf :: "lenv \<Rightarrow> string \<Rightarrow> string \<Rightarrow> string \<Rightarrow> lstate \<Rightarrow> lresult" where
  "launcher_load_egress_tf E path interface sec_name s =
     (case via (tc_egress_attach_bpf E interface path sec_name) s of
        (ret, s1) \<Rightarrow> if ret \<noteq> 0 then Inr (-1, s1) else Inr (0, s1))"

definition launcher_load_ingress_tf :: "lenv \<Rightarrow> string \<Rightarrow> string \<Rightarrow> string \<Rightarrow> u32 \<Rightarrow> lstate \<Rightarrow> lresult" where
  "launcher_load_ingress_tf E path interface sec_name xdp_flags s =
     (case load_bpf_and_xdp_attach E path interface sec_name xdp_flags False (trace s) of
        Inl f \<Rightarrow> Inl f
      | Inr (obj, tr) \<Rightarrow>
          (let s1 = s\<lparr>trace := tr\<rparr>
           in if \<not> obj then Inr (-1, s1)
              else
                (case find_program E tr path sec_name of
                   None \<Rightarrow> Inr (-1, s1)
                 | Some prog_fd \<Rightarrow>
                     if prog_fd \<le> 0 then Inr (-1, s1)
                     else (case add_prog prog_fd s1 of Inl f \<Rightarrow> Inl f | Inr s2 \<Rightarrow> Inr (0, s2)))))"

definition launcher_load_listener_tf :: "lenv \<Rightarrow> string \<Rightarrow> string \<Rightarrow> bytes \<Rightarrow> string \<Rightarrow> u32 \<Rightarrow> lstate \<Rightarrow> lresult" where
  "launcher_load_listener_tf E path sec_name prog ifname xdp_flags s =
     (if \<not> (take 15 sec_name = ''listener_tf_sec'' \<or> take 15 sec_name = ''hooker_listener'') then Inr (-1, s)
      else if progs_count s = MAX_TF_PROGS then Inr (-1, s)
      else
        (case via (invoke E (LoadProgram XDP prog (length prog div 8) (license s))) s of
           (fd, s1) \<Rightarrow>
             if fd < 0 then Inr (-1, s1)
             else
               (case add_prog fd s1 of
                  Inl f \<Rightarrow> Inl f
                | Inr s2 \<Rightarrow>
                    if take 15 sec_name = ''hooker_listener'' then
                      (let ifindex = if_nametoindex E ifname
                       in if ifindex = 0 then Inr (-1, s2)
                          else (case via (xdp_link_attach E ifindex xdp_flags fd) s2 of
                                  (ret, s3) \<Rightarrow> if ret \<noteq> 0 then Inr (-1, s3) else Inr (0, s3)))
                    else (case via (xdp_generic_link_attach E ifname path sec_name) s2 of
                            (ret, s3) \<Rightarrow> if ret \<noteq> 0 then Inr (-1, s3) else Inr (0, s3)))))"

definition redirector_type :: "char \<Rightarrow> prog_type" where
  "redirector_type c =
     (if c = CHR ''0'' then SK_MSG else if c = CHR ''1'' \<or> c = CHR ''2'' then SK_SKB else SOCK_OPS)"

text \<open>The attachment of a sockops program to the root of the control groups.\<close>

definition attach_sockops :: "lenv \<Rightarrow> int \<Rightarrow> lstate \<Rightarrow> int \<times> lstate" where
  "attach_sockops E fd s =
     (case find_cg_root E of
        None \<Rightarrow> (-1, s)
      | Some root \<Rightarrow>
          (case via (invoke E (OpenDir root)) s of
             (cg, s0) \<Rightarrow>
               (let s1 = s0\<lparr>cg_fd := cg\<rparr>
                in if cg < 0 then (-1, s1)
                   else (case via (invoke E (AttachProg fd cg CGROUP_SOCK_OPS)) s1 of
                           (ret, s2) \<Rightarrow>
                             if ret \<noteq> 0 then (-1, s2)
                             else (0, call_all E [Pin fd ''/sys/fs/bpf/skops''] s2)))))"

definition attach_sockmap :: "lenv \<Rightarrow> int \<Rightarrow> attach_type \<Rightarrow> lstate \<Rightarrow> int \<times> lstate" where
  "attach_sockmap E fd ty s =
     (case via (invoke E (AttachProg fd (maps_fd s ! 0) ty)) s of
        (ret, s1) \<Rightarrow> if ret \<noteq> 0 then (-1, s1) else (0, s1))"

definition attach_redirector :: "lenv \<Rightarrow> char \<Rightarrow> int \<Rightarrow> lstate \<Rightarrow> int \<times> lstate" where
  "attach_redirector E c fd s =
     (if c = CHR ''0'' then attach_sockmap E fd SK_MSG_VERDICT s
      else if c = CHR ''1'' then attach_sockmap E fd SK_SKB_STREAM_PARSER s
      else if c = CHR ''2'' then attach_sockmap E fd SK_SKB_STREAM_VERDICT s
      else (0, s))"

text \<open>
  The name of a hooker section: kind (sockops or redirector), then a slash and a number. \<open>Inl\<close> is the
  early return; without a slash the program is not loaded and the call succeeds.
\<close>

definition hooker_number :: "string \<Rightarrow> int + (bool \<times> string)" where
  "hooker_number sec_name =
     (let is_sockops = (take 14 sec_name = ''hooker_sockops'');
          is_rdctor = (take 17 sec_name = ''hooker_redirector'');
          rest = drop (if is_sockops then 14 else 17) sec_name
      in if \<not> is_sockops \<and> \<not> is_rdctor \<or> is_sockops \<and> is_rdctor then Inl (-1)
         else if rest = [] \<or> hd rest \<noteq> CHR ''/'' then Inl 0
         else if tl rest = [] \<or> \<not> isdigit (hd (tl rest)) then Inl (-1)
         else Inr (is_sockops, tl rest))"

definition load_hooker_prog :: "lenv \<Rightarrow> bool \<Rightarrow> string \<Rightarrow> bytes \<Rightarrow> lstate \<Rightarrow> lresult" where
  "load_hooker_prog E is_sockops number prog s =
     (if progs_count s = MAX_TF_PROGS then Inr (-1, s)
      else
        (let ty = (if is_sockops then SOCK_OPS else redirector_type (hd number))
         in case via (invoke E (LoadProgram ty prog (length prog div 8) (license s))) s of
              (fd, s0) \<Rightarrow>
                if fd < 0 then Inr (-1, s0)
                else
                  (case add_prog fd s0 of
                     Inl f \<Rightarrow> Inl f
                   | Inr s1 \<Rightarrow>
                       (case (if is_sockops then attach_sockops E fd s1 else attach_redirector E (hd number) fd s1) of
                          (ret, s2) \<Rightarrow>
                            if ret \<noteq> 0 then Inr (-1, s2) else Inr (populate_prog_array E number fd s2)))))"

definition launcher_load_hooker_progs :: "lenv \<Rightarrow> string \<Rightarrow> bytes \<Rightarrow> lstate \<Rightarrow> lresult" where
  "launcher_load_hooker_progs E sec_name prog s =
     (case hooker_number sec_name of
        Inl r \<Rightarrow> Inr (r, s)
      | Inr (is_sockops, number) \<Rightarrow> load_hooker_prog E is_sockops number prog s)"

section \<open>Unloading\<close>

text \<open>
  The device name is copied into 20 bytes of the configuration. The results of \<open>tc_remove_egress\<close> and of
  the commands that remove pinned files are not used.
\<close>

definition launcher_unload_egress_tf :: "lenv \<Rightarrow> string \<Rightarrow> nat \<Rightarrow> lstate \<Rightarrow> lresult" where
  "launcher_unload_egress_tf E interface flags s =
     (if if_nametoindex E interface = 0 then Inr (-1, s)
      else if 20 \<le> length interface then Inl BadIndex
      else if flags = 0 then Inr (0, s)
      else if flags \<noteq> 1 then Inr (-1, s)
      else
        (case via (tc_remove_egress E interface) s of
           (_, s1) \<Rightarrow>
             (case via (xdp_generic_link_detach E interface) s1 of
                (ret, s2) \<Rightarrow>
                  if ret \<noteq> 0 then Inr (-1, s2)
                  else Inr (0, call_all E [System ''rm -r /sys/fs/bpf/ip'', System ''rm -r /sys/fs/bpf/tc'',
                                          System ''rm -r /sys/fs/bpf/xdp''] s2))))"

definition launcher_unload_ingress_tf :: "lenv \<Rightarrow> string \<Rightarrow> u32 \<Rightarrow> lstate \<Rightarrow> lresult" where
  "launcher_unload_ingress_tf E interface xdp_flags s =
     (case via (xdp_link_detach E (if_nametoindex E interface) xdp_flags 0) s of
        (ret, s1) \<Rightarrow> if ret \<noteq> 0 then Inr (-1, s1) else Inr (0, s1))"

definition launcher_unload_listerner_tf :: "lenv \<Rightarrow> string \<Rightarrow> u32 \<Rightarrow> lstate \<Rightarrow> lresult" where
  "launcher_unload_listerner_tf E interface xdp_flags s = launcher_unload_ingress_tf E interface xdp_flags s"

definition quoted :: "string \<Rightarrow> string" where
  "quoted s = CHR 0x22 # s @ [CHR 0x22]"

definition launcher_unload_hooker_progs :: "lenv \<Rightarrow> lstate \<Rightarrow> lresult" where
  "launcher_unload_hooker_progs E s =
     (case via (invoke E (System (''bpftool cgroup detach '' @ quoted ''/sys/fs/cgroup/unified/'' @
                 ''  sock_ops pinned '' @ quoted ''/sys/fs/bpf/skops''))) s of
        (ret, s1) \<Rightarrow>
          if ret = -1 then Inr (-1, s1)
          else Inr (0, call_all E (map (\<lambda>f. System (''rm '' @ quoted f))
                  [''/sys/fs/bpf/skops'', ''/sys/fs/bpf/appli'', ''/sys/fs/bpf/skmap'']) s1))"

section \<open>A graft file\<close>

text \<open>What the scan over the sections has found.\<close>

record scan =
  sc_maps_shndx :: int
  sc_symbols :: "bytes option"
  sc_strtabidx :: nat

definition mark_sec :: "nat \<Rightarrow> lstate \<Rightarrow> launch_fault + lstate" where
  "mark_sec i s =
     (if i < length (processed_sec s) then Inr (s\<lparr>processed_sec := (processed_sec s)[i := True]\<rparr>) else Inl BadIndex)"

text \<open>
  The first loop of \<open>launcher_load_graft_file\<close>: licence, version, maps and symbols. The flag is
  false after the early return for a version section of the wrong size.
\<close>

fun scan_secs :: "elf \<Rightarrow> nat list \<Rightarrow> lstate \<Rightarrow> scan \<Rightarrow> launch_fault + (bool \<times> lstate \<times> scan)" where
  "scan_secs F [] s sc = Inr (True, s, sc)"
| "scan_secs F (i # is) s sc =
     (case get_sec F i of
        Inl _ \<Rightarrow> scan_secs F is s sc
      | Inr (shname, shdr, data) \<Rightarrow>
          if shname = ''license'' then
            (case mark_sec i s of
               Inl f \<Rightarrow> Inl f
             | Inr s1 \<Rightarrow>
                 if length (license s1) < length data then Inl BadIndex
                 else scan_secs F is (s1\<lparr>license := data @ drop (length data) (license s1)\<rparr>) sc)
          else if shname = ''version'' then
            (case mark_sec i s of
               Inl f \<Rightarrow> Inl f
             | Inr s1 \<Rightarrow> if length data \<noteq> 4 then Inr (False, s1, sc) else scan_secs F is s1 sc)
          else if shname = ''maps'' then
            scan_secs F is (s\<lparr>maps_data := map (\<lambda>m. m\<lparr>map_fd := -1\<rparr>) (maps_data s)\<rparr>) (sc\<lparr>sc_maps_shndx := int i\<rparr>)
          else if sh_type shdr = 2 then
            scan_secs F is s (sc\<lparr>sc_strtabidx := sh_link shdr, sc_symbols := Some data\<rparr>)
          else scan_secs F is s sc)"

definition set_sec_data :: "nat \<Rightarrow> bytes \<Rightarrow> elf \<Rightarrow> elf" where
  "set_sec_data i d F = F\<lparr>elf_secs := (elf_secs F)[i := map_option (\<lambda>c. c\<lparr>sec_data := [d]\<rparr>) (elf_secs F ! i)]\<rparr>"

text \<open>
  The second loop: the relocations. They are written into the data of the program sections; the result
  of \<open>__parse_relo_and_apply\<close> is not looked at.
\<close>

fun relo_secs :: "bytes \<Rightarrow> nat \<Rightarrow> nat list \<Rightarrow> elf \<Rightarrow> lstate \<Rightarrow> launch_fault + (elf \<times> lstate)" where
  "relo_secs symbols nr_maps [] F s = Inr (F, s)"
| "relo_secs symbols nr_maps (i # is) F s =
     (if length (processed_sec s) \<le> i then Inl BadIndex
      else if processed_sec s ! i then relo_secs symbols nr_maps is F s
      else
        (case get_sec F i of
           Inl _ \<Rightarrow> relo_secs symbols nr_maps is F s
         | Inr (shname, shdr, data) \<Rightarrow>
             if sh_type shdr \<noteq> 9 then relo_secs symbols nr_maps is F s
             else
               (case get_sec F (sh_info shdr) of
                  Inl _ \<Rightarrow> relo_secs symbols nr_maps is F s
                | Inr (_, shdr_prog, data_prog) \<Rightarrow>
                    if sh_type shdr_prog \<noteq> 1 \<or> sh_flags shdr_prog div 4 mod 2 = 0 then relo_secs symbols nr_maps is F s
                    else
                      (let s1 = s\<lparr>processed_sec := (processed_sec s)[i := True]\<rparr>
                       in case parse_relo_and_apply F data symbols shdr data_prog (maps_data s1) nr_maps of
                            Inl f \<Rightarrow> Inl f
                          | Inr (_, insns) \<Rightarrow> relo_secs symbols nr_maps is (set_sec_data (sh_info shdr) insns F) s1))))"

text \<open>The loader of a program section, chosen by its name; \<open>None\<close> for other sections.\<close>

definition load_section :: "lenv \<Rightarrow> string \<Rightarrow> string \<Rightarrow> string \<Rightarrow> bytes \<Rightarrow> lstate \<Rightarrow> lresult option" where
  "load_section E path ifname shname data s =
     (if take 13 shname = ''egress_tf_sec'' then Some (launcher_load_egress_tf E path ifname shname s)
      else if take 14 shname = ''ingress_tf_sec'' then
        Some (launcher_load_ingress_tf E path ifname shname ((0 AND NOT XDP_MODES) OR SKB_MODE) s)
      else if take 15 shname = ''listener_tf_sec'' then Some (launcher_load_listener_tf E path shname data ifname 0 s)
      else if take 14 shname = ''hooker_sockops'' \<or> take 17 shname = ''hooker_redirector''
        then Some (launcher_load_hooker_progs E shname data s)
      else if take 15 shname = ''hooker_listener'' then Some (launcher_load_listener_tf E path shname data ifname 0 s)
      else None)"

text \<open>
  The third loop: the programs; \<open>ret\<close> is 0 once one was loaded. A failure leaves the loop: the egress
  and ingress loaders fail with a negative result, the others with any result but 0.
\<close>

fun load_secs :: "lenv \<Rightarrow> elf \<Rightarrow> string \<Rightarrow> string \<Rightarrow> nat list \<Rightarrow> int \<Rightarrow> lstate \<Rightarrow> lresult" where
  "load_secs E F path ifname [] ret s = Inr (ret, s)"
| "load_secs E F path ifname (i # is) ret s =
     (if length (processed_sec s) \<le> i then Inl BadIndex
      else if processed_sec s ! i then load_secs E F path ifname is ret s
      else
        (case get_sec F i of
           Inl _ \<Rightarrow> load_secs E F path ifname is ret s
         | Inr (shname, shdr, data) \<Rightarrow>
             (case load_section E path ifname shname data s of
                None \<Rightarrow> load_secs E F path ifname is ret s
              | Some (Inl f) \<Rightarrow> Inl f
              | Some (Inr (r, s')) \<Rightarrow> if r \<noteq> 0 then Inr (ret, s') else load_secs E F path ifname is 0 s')))"

text \<open>The end of \<open>launcher_load_graft_file\<close>, from the relocations on.\<close>

definition relocate_and_load :: "lenv \<Rightarrow> elf \<Rightarrow> string \<Rightarrow> string \<Rightarrow> bytes \<Rightarrow> nat \<Rightarrow> lstate \<Rightarrow> lresult" where
  "relocate_and_load E F path ifname symbols nr_maps s =
     (case relo_secs symbols nr_maps [1..<length (elf_secs F)] F s of
        Inl f \<Rightarrow> Inl f
      | Inr (F', s') \<Rightarrow> load_secs E F' path ifname [1..<length (elf_secs F)] 1 s')"

text \<open>\<open>launcher_load_graft_file\<close>; \<open>None\<close> for a file that cannot be opened as an object file.\<close>

definition launcher_load_graft_file :: "lenv \<Rightarrow> elf option \<Rightarrow> string \<Rightarrow> string \<Rightarrow> lstate \<Rightarrow> lresult" where
  "launcher_load_graft_file E file path ifname s =
     (let s0 = s\<lparr>license := replicate LICENSE_SIZE 0, processed_sec := replicate SEC_FLAGS False\<rparr>
      in case file of
           None \<Rightarrow> Inr (1, s0)
         | Some F \<Rightarrow>
             (case scan_secs F [1..<length (elf_secs F)] s0 \<lparr>sc_maps_shndx = -1, sc_symbols = None, sc_strtabidx = 0\<rparr> of
                Inl f \<Rightarrow> Inl f
              | Inr (ok, s1, sc) \<Rightarrow>
                  if \<not> ok then Inr (1, s1)
                  else
                    (case sc_symbols sc of
                       None \<Rightarrow> Inr (1, s1)
                     | Some symbols \<Rightarrow>
                         if sc_maps_shndx sc < 0 then relocate_and_load E F path ifname symbols 0 s1
                         else
                           (case load_elf_maps_section F (l_strdup_ok E) (maps_data s1) (sc_maps_shndx sc) symbols (sc_strtabidx sc) of
                              Inl f \<Rightarrow> Inl f
                            | Inr (nr_maps, maps) \<Rightarrow>
                                (let s2 = s1\<lparr>maps_data := maps\<rparr>
                                 in if nr_maps < 0 then Inr (1, s2)
                                    else
                                      (case load_maps E None [0..<nat nr_maps] s2 of
                                         Inl f \<Rightarrow> Inl f
                                       | Inr (r, s3) \<Rightarrow>
                                           if r \<noteq> 0 then Inr (1, s3)
                                           else
                                             (case mark_sec (nat (sc_maps_shndx sc)) (s3\<lparr>maps_data_count := nat nr_maps\<rparr>) of
                                                Inl f \<Rightarrow> Inl f
                                              | Inr s4 \<Rightarrow> relocate_and_load E F path ifname symbols (nat nr_maps) s4)))))))"

section \<open>The maps of a graft\<close>

lemma via_fields [simp]:
  assumes "via f s = (r, s')"
  shows "license s' = license s" "processed_sec s' = processed_sec s" "progs_fd s' = progs_fd s" "progs_count s' = progs_count s"
    "prog_array_fd s' = prog_array_fd s" "maps_fd s' = maps_fd s" "maps_data s' = maps_data s" "f (trace s) = (r, trace s')"
  using assms by (auto simp: via_def split: prod.splits)

lemma call_all_fields [simp]:
  "license (call_all E cs s) = license s" "processed_sec (call_all E cs s) = processed_sec s"
  "progs_fd (call_all E cs s) = progs_fd s" "progs_count (call_all E cs s) = progs_count s"
  "maps_fd (call_all E cs s) = maps_fd s" "maps_data (call_all E cs s) = maps_data s"
  "trace (call_all E cs s) = invoke_all E cs (trace s)"
  by (simp_all add: call_all_def)

text \<open>The pinning calls of a trace.\<close>

fun is_pin :: "hcall \<Rightarrow> bool" where
  "is_pin (Pin _ _) = True"
| "is_pin _ = False"

definition pins :: "trace \<Rightarrow> hcall list" where
  "pins tr = filter is_pin (map fst tr)"

lemma pins_snoc [simp]: "pins (tr @ [(c, r)]) = pins tr @ (if is_pin c then [c] else [])"
  by (simp add: pins_def)

lemma pins_invoke_all: "pins (invoke_all E cs tr) = pins tr @ filter is_pin cs"
  by (induction cs arbitrary: tr) (auto simp: invoke_def)

lemma filter_pin_calls [simp]: "filter is_pin (pin_calls m fd) = pin_calls m fd"
  by (simp add: pin_calls_def)

lemma new_map_no_pin: "new_map m fds = Inr c \<Longrightarrow> \<not> is_pin c"
  by (auto simp: new_map_def Let_def split: if_splits)

definition same_map :: "bpf_map_data \<Rightarrow> bpf_map_data \<Rightarrow> bool" where
  "same_map m m' \<longleftrightarrow> m' = m\<lparr>map_fd := map_fd m'\<rparr>"

lemma load_map_None:
  assumes "load_map E None i s = Inr (r, s')"
  obtains (fail) "r = Some 1" | (ok) fd where "r = None" "0 \<le> fd" "i < length (maps_data s)" "i < length (maps_fd s)"
    "maps_fd s' = (maps_fd s)[i := fd]" "maps_data s' = (maps_data s)[i := (maps_data s ! i)\<lparr>map_fd := fd\<rparr>]"
    "pins (trace s') = pins (trace s) @ pin_calls (maps_data s ! i) fd"
proof -
  let ?m = "maps_data s ! i"
  obtain c where c: "new_map ?m (maps_fd s) = Inr c"
    using assms by (auto simp: load_map_def Let_def split: if_splits sum.splits)
  have i: "i < length (maps_data s)" "i < length (maps_fd s)"
    using assms by (auto simp: load_map_def split: if_splits)
  let ?fd = "answer E (trace s) c"
  show thesis
  proof (cases "?fd < 0")
    case True
    then show thesis using assms c i by (intro fail) (simp add: load_map_def Let_def via_def invoke_def)
  next
    case False
    then show thesis using assms c i new_map_no_pin [OF c]
      by (intro ok [of ?fd]) (auto simp: load_map_def Let_def via_def invoke_def pins_invoke_all)
  qed
qed

lemma load_maps_ok:
  assumes "load_maps E None is s = Inr (0, s')" and "distinct is"
  shows "length (maps_fd s') = length (maps_fd s) \<and> length (maps_data s') = length (maps_data s) \<and>
    (\<forall>i\<in>set is. 0 \<le> maps_fd s' ! i \<and> maps_fd s' ! i = map_fd (maps_data s' ! i) \<and> same_map (maps_data s ! i) (maps_data s' ! i)) \<and>
    (\<forall>i. i \<notin> set is \<longrightarrow> maps_fd s' ! i = maps_fd s ! i \<and> maps_data s' ! i = maps_data s ! i) \<and>
    pins (trace s') = pins (trace s) @ concat (map (\<lambda>i. pin_calls (maps_data s ! i) (maps_fd s' ! i)) is)"
  using assms
proof (induction "is" arbitrary: s)
  case Nil
  then show ?case by simp
next
  case (Cons i "is")
  obtain s1 where l: "load_map E None i s = Inr (None, s1)" and r: "load_maps E None is s1 = Inr (0, s')"
    using Cons.prems(1) by (auto elim: load_map_None split: sum.splits prod.splits option.splits)
  obtain fd where f: "0 \<le> fd" "i < length (maps_data s)" "i < length (maps_fd s)" "maps_fd s1 = (maps_fd s)[i := fd]"
    "maps_data s1 = (maps_data s)[i := (maps_data s ! i)\<lparr>map_fd := fd\<rparr>]"
    "pins (trace s1) = pins (trace s) @ pin_calls (maps_data s ! i) fd"
    by (rule load_map_None [OF l]) auto
  have d: "i \<notin> set is" "distinct is" using Cons.prems(2) by auto
  note IH = Cons.IH [OF r d(2)]
  have i: "maps_fd s' ! i = fd" "maps_data s' ! i = (maps_data s ! i)\<lparr>map_fd := fd\<rparr>" using IH d(1) f by auto
  have ne: "maps_data s1 ! j = maps_data s ! j" if "j \<in> set is" for j
  proof -
    have "j \<noteq> i" using d(1) that by auto
    then show ?thesis using f(5) by simp
  qed
  have "map (\<lambda>i. pin_calls (maps_data s1 ! i) (maps_fd s' ! i)) is = map (\<lambda>i. pin_calls (maps_data s ! i) (maps_fd s' ! i)) is"
    using ne by simp
  then have "pins (trace s') = pins (trace s1) @ concat (map (\<lambda>i. pin_calls (maps_data s ! i) (maps_fd s' ! i)) is)"
    using IH by metis
  then have "pins (trace s') = pins (trace s) @ concat (map (\<lambda>i. pin_calls (maps_data s ! i) (maps_fd s' ! i)) (i # is))"
    using f(6) i(1) by simp
  moreover have "\<forall>j\<in>set (i # is). 0 \<le> maps_fd s' ! j \<and> maps_fd s' ! j = map_fd (maps_data s' ! j) \<and> same_map (maps_data s ! j) (maps_data s' ! j)"
    using IH ne i f(1) by (auto simp: same_map_def)
  moreover have "\<forall>j. j \<notin> set (i # is) \<longrightarrow> maps_fd s' ! j = maps_fd s ! j \<and> maps_data s' ! j = maps_data s ! j"
    using IH f(4,5) by auto
  ultimately show ?case using IH f(4,5) by simp
qed


definition fresh_lstate :: lstate where
  "fresh_lstate = \<lparr>license = replicate 128 0, processed_sec = replicate 128 False, progs_fd = replicate 32 0, progs_count = 0,
     prog_array_fd = -1, maps_fd = replicate 32 0, maps_data = replicate 32 (sample_maps_data ! 0), maps_data_count = 0, cg_fd = -1,
     trace = []\<rparr>"

definition sample_lenv :: lenv where
  "sample_lenv = host.extend doc_host
     \<lparr>mounts = Some [(''proc'', ''/proc''), (''cgroup2'', ''/sys/fs/cgroup/unified'')], l_strdup_ok = True\<rparr>"


section \<open>The table of programs\<close>

definition progs_ok :: "lstate \<Rightarrow> bool" where
  "progs_ok s \<longleftrightarrow> length (progs_fd s) = MAX_TF_PROGS \<and> progs_count s \<le> MAX_TF_PROGS"

lemma add_prog_ok: "progs_ok s \<Longrightarrow> progs_count s \<noteq> MAX_TF_PROGS \<Longrightarrow> \<exists>s'. add_prog fd s = Inr s' \<and> progs_ok s'"
  by (simp add: add_prog_def progs_ok_def)

lemma progs_ok_via: "via f s = (r, s') \<Longrightarrow> progs_ok s' = progs_ok s"
  by (simp add: progs_ok_def)

lemma progs_ok_simps [simp]:
  "progs_ok (call_all E cs s) = progs_ok s" "progs_ok (s\<lparr>cg_fd := x\<rparr>) = progs_ok s" "progs_ok (s\<lparr>trace := tr\<rparr>) = progs_ok s"
  by (simp_all add: progs_ok_def)

lemma attach_progs_ok:
  "attach_sockops E fd s = (r, s') \<Longrightarrow> progs_ok s' = progs_ok s"
  "attach_redirector E k fd s = (r, s') \<Longrightarrow> progs_ok s' = progs_ok s"
  by (auto simp: attach_sockops_def attach_redirector_def attach_sockmap_def via_def invoke_def Let_def
      split: option.splits if_splits)

lemma listener_progs_ok:
  assumes "progs_ok s"
  shows "\<exists>r s'. launcher_load_listener_tf E path sec prog ifn flags s = Inr (r, s') \<and> progs_ok s'"
proof (cases "progs_count s = MAX_TF_PROGS")
  case True
  then show ?thesis using assms by (simp add: launcher_load_listener_tf_def)
next
  case False
  obtain fd s1 where l: "via (invoke E (LoadProgram XDP prog (length prog div 8) (license s))) s = (fd, s1)"
    by (metis prod.exhaust)
  have s1: "progs_ok s1" "progs_count s1 \<noteq> MAX_TF_PROGS" using progs_ok_via [OF l] l assms False by simp_all
  obtain s2 where s2: "add_prog fd s1 = Inr s2" "progs_ok s2" using add_prog_ok [OF s1] by blast
  obtain r3 s3 where a: "via (xdp_link_attach E (if_nametoindex E ifn) flags fd) s2 = (r3, s3)" by (metis prod.exhaust)
  obtain r4 s4 where g: "via (xdp_generic_link_attach E ifn path sec) s2 = (r4, s4)" by (metis prod.exhaust)
  show ?thesis
    using assms False l s1 s2 a g progs_ok_via [OF a] progs_ok_via [OF g]
    by (auto simp: launcher_load_listener_tf_def Let_def)
qed

lemma hooker_progs_ok:
  assumes "progs_ok s"
  shows "\<exists>r s'. launcher_load_hooker_progs E sec prog s = Inr (r, s') \<and> progs_ok s'"
proof -
  have "\<exists>r s'. load_hooker_prog E b number prog s = Inr (r, s') \<and> progs_ok s'" for b number
  proof (cases "progs_count s = MAX_TF_PROGS")
    case True
    then show ?thesis using assms by (simp add: load_hooker_prog_def)
  next
    case False
    let ?ty = "if b then SOCK_OPS else redirector_type (hd number)"
    obtain fd s0 where l: "via (invoke E (LoadProgram ?ty prog (length prog div 8) (license s))) s = (fd, s0)"
      by (metis prod.exhaust)
    have s0: "progs_ok s0" "progs_count s0 \<noteq> MAX_TF_PROGS" using progs_ok_via [OF l] l assms False by simp_all
    obtain s1 where s1: "add_prog fd s0 = Inr s1" "progs_ok s1" using add_prog_ok [OF s0] by blast
    obtain ret s2 where a: "(if b then attach_sockops E fd s1 else attach_redirector E (hd number) fd s1) = (ret, s2)"
      by (metis prod.exhaust)
    then have "progs_ok s2" using attach_progs_ok s1(2) by (cases b) auto
    then show ?thesis using False l s0 s1 a by (auto simp: load_hooker_prog_def populate_prog_array_def Let_def)
  qed
  then show ?thesis using assms by (auto simp: launcher_load_hooker_progs_def split: sum.split)
qed

text \<open>
  The table of loaded programs. Loading a listener or a hooker program never writes outside
  \<open>progs_fd\<close> and keeps the count within the 32 entries, whatever the kernel answers; loading an ingress
  function does not check the count: with 32 programs loaded, a successful load writes behind the
  table.
\<close>

theorem launcher_program_table:
  assumes "length (progs_fd s) = MAX_TF_PROGS" and "progs_count s \<le> MAX_TF_PROGS"
  shows "(\<exists>r s'. launcher_load_listener_tf E path sec prog ifn flags s = Inr (r, s') \<and>
       length (progs_fd s') = MAX_TF_PROGS \<and> progs_count s' \<le> MAX_TF_PROGS) \<and>
    (\<exists>r s'. launcher_load_hooker_progs E sec prog s = Inr (r, s') \<and>
       length (progs_fd s') = MAX_TF_PROGS \<and> progs_count s' \<le> MAX_TF_PROGS) \<and>
    (progs_count s = MAX_TF_PROGS \<longrightarrow>
       (\<forall>s'. launcher_load_ingress_tf E path ifn sec flags s \<noteq> Inr (0, s')) \<and>
       (\<forall>tr fd. load_bpf_and_xdp_attach E path ifn sec flags False (trace s) = Inr (True, tr) \<and>
          find_program E tr path sec = Some fd \<and> 0 < fd \<longrightarrow> launcher_load_ingress_tf E path ifn sec flags s = Inl BadIndex))"
proof -
  have "progs_ok s" using assms by (simp add: progs_ok_def)
  note p = listener_progs_ok [OF this, of E path sec prog ifn flags] hooker_progs_ok [OF this, of E sec prog]
  have f: "add_prog fd (s\<lparr>trace := tr\<rparr>) = Inl BadIndex" if "progs_count s = MAX_TF_PROGS" for fd tr
    using that assms by (simp add: add_prog_def)
  have "progs_count s = MAX_TF_PROGS \<Longrightarrow> launcher_load_ingress_tf E path ifn sec flags s \<noteq> Inr (0, s')" for s'
    by (auto simp: launcher_load_ingress_tf_def Let_def f split: sum.splits prod.splits option.splits if_splits)
  with p f show ?thesis by (auto simp: progs_ok_def launcher_load_ingress_tf_def Let_def)
qed

theorem launcher_program_table_witness:
  "launcher_load_ingress_tf sample_lenv ''g.o'' ''eth0'' ''ingress_tf_sec'' SKB_MODE (fresh_lstate\<lparr>progs_count := 32\<rparr>) = Inl BadIndex"
proof -
  let ?s = "fresh_lstate\<lparr>progs_count := 32\<rparr>"
  have s: "length (progs_fd ?s) = MAX_TF_PROGS" "progs_count ?s \<le> MAX_TF_PROGS" "progs_count ?s = MAX_TF_PROGS"
    by (simp_all add: fresh_lstate_def MAX_TF_PROGS_def)
  have "case load_bpf_and_xdp_attach sample_lenv ''g.o'' ''eth0'' ''ingress_tf_sec'' SKB_MODE False (trace ?s) of
      Inr (b, tr) \<Rightarrow> b \<and> find_program sample_lenv tr ''g.o'' ''ingress_tf_sec'' = Some 6 | Inl _ \<Rightarrow> False" by code_simp
  then obtain tr where "load_bpf_and_xdp_attach sample_lenv ''g.o'' ''eth0'' ''ingress_tf_sec'' SKB_MODE False (trace ?s) = Inr (True, tr)"
    "find_program sample_lenv tr ''g.o'' ''ingress_tf_sec'' = Some 6" by (auto split: sum.splits)
  with launcher_program_table [OF s(1,2), of sample_lenv "''g.o''" "''ingress_tf_sec''" "[]" "''eth0''" SKB_MODE] s(3)
  show ?thesis by fastforce
qed

section \<open>Loading and unloading an ingress function\<close>



section \<open>Failed relocations\<close>

text \<open>
  A file with a symbol table, a listener program of one map load, and a relocation of it whose symbol
  matches no map.
\<close>

definition unrelocated_elf :: elf where
  "unrelocated_elf =
     (let sec = (\<lambda>n ty fl sz es li inf d. Some \<lparr>sec_shdr = Some \<lparr>sh_type = ty, sh_flags = fl, sh_size = sz, sh_entsize = es,
                    sh_link = li, sh_info = inf\<rparr>, sec_shname = Some n, sec_data = [d]\<rparr>)
      in \<lparr>elf_secs = [None, sec ''.symtab'' 2 0 48 24 1 0 (replicate 48 0),
                      sec ''.rel'' 9 0 16 16 1 3 (replicate 16 0),
                      sec ''listener_tf_sec'' 1 6 8 0 0 0 [0x18, 1, 0, 0, 0, 0, 0, 0]],
          elf_strptr = (\<lambda>_ _. Some ''M''), gelf_getrel = (\<lambda>_ i. if i = 0 then Some (0, 1) else None),
          gelf_getsym = (\<lambda>_ _. Some \<lparr>st_name = 0, st_value = 56, st_shndx = 9\<rparr>)\<rparr>)"

text \<open>
  The launcher ignores that the relocation failed: it reports success and loads the program with the
  instruction marked as a map load of descriptor 0.
\<close>

lemma launcher_ignores_failed_relocation:
  "case launcher_load_graft_file sample_lenv (Some unrelocated_elf) ''g.o'' ''eth0'' fresh_lstate of
     Inr (r, s) \<Rightarrow> r = 0 \<and> map fst (trace s) =
       [LoadProgram XDP [0x18, 0x11, 0, 0, 0, 0, 0, 0] 1 (replicate 128 0), System ''ip link set dev eth0 xdpgeneric off'',
        System ''ip link set dev eth0 xdpgeneric obj g.o sec listener_tf_sec'']
   | Inl _ \<Rightarrow> False"
  by code_simp

end
