(* ===== verification/Hooker_Daemon.thy ===== *)
theory Hooker_Daemon
  imports Launcher
begin

text \<open>
  The user-space part of the hooker (\<open>hooker/hooker.c\<close>): the sockets of the daemon, the two relay
  loops between the redirected application and the selected transport protocol, and \<open>main\<close>. System calls are
  parameters given by their results; what the daemon sends is recorded.
\<close>

definition MAXDATASIZE :: nat where "MAXDATASIZE = 1024"

definition IPPROTO_UDP :: int where "IPPROTO_UDP = 17"
definition IPPROTO_DCCP :: int where "IPPROTO_DCCP = 33"
definition IPPROTO_SCTP :: int where "IPPROTO_SCTP = 132"
definition IPPROTO_UDPLITE :: int where "IPPROTO_UDPLITE = 136"
definition IPPROTO_QUIC :: int where "IPPROTO_QUIC = 142"

lemmas proto_consts = IPPROTO_UDP_def IPPROTO_DCCP_def IPPROTO_SCTP_def IPPROTO_UDPLITE_def IPPROTO_QUIC_def

text \<open>The global variables.\<close>

record hk_daemon =
  hk_redir_fd :: int
  hk_phony_fd :: int
  hk_l4_graft_fd :: int
  hk_l4_graft_fd_cpy :: int
  selected_l4_proto_graft :: int
  quic_sock :: bool

definition hk_daemon_init :: hk_daemon where
  "hk_daemon_init = \<lparr>hk_redir_fd = 0, hk_phony_fd = 0, hk_l4_graft_fd = 0, hk_l4_graft_fd_cpy = -1,
     selected_l4_proto_graft = 0, quic_sock = False\<rparr>"

section \<open>The sockets\<close>

datatype hk_call =
    SocketRedir | SocketPhony | ReusePhony | NonblockPhony | BindPhony | ListenPhony
  | ReuseRedir | BindRedir | ConnectRedir | AcceptPhony
  | SocketGraft int | QuicInit | BindGraft | SctpInit | ListenGraft | AcceptGraft | QuicAccept
  | ConnectGraft | QuicConnect

text \<open>
  The last two calls are those of the connecting side (\<open>hooker_backup_client.c\<close>).
  The result of each call (for \<open>vtl_quic_init\<close>, 0 stands for a pointer that is not NULL); \<open>in_progress\<close>
  tells whether a failed \<open>connect\<close> left \<open>EINPROGRESS\<close>, \<open>hk_errno\<close> is \<open>errno\<close> after a call, and
  \<open>hk_map_update\<close> the result of \<open>bpf_map_update_elem\<close>. A call that fails ends the set-up, which then
  returns \<open>errno\<close>: the model returns the call that failed. Options whose result the code ignores
  (\<open>UDPLITE_SEND_CSCOV\<close>, \<open>DCCP_SOCKOPT_SERVICE\<close>, the last \<open>SO_REUSEADDR\<close>) have no call here.
\<close>

record hk_env =
  hk_result :: "hk_call \<Rightarrow> int"
  in_progress :: bool
  hk_errno :: "hk_call \<Rightarrow> int"
  hk_map_update :: int

text \<open>The selection of the transport protocol.\<close>

definition hk_select_graft :: "hk_env \<Rightarrow> int \<Rightarrow> hk_daemon \<Rightarrow> hk_call option \<times> hk_daemon" where
  "hk_select_graft E proto d =
     (if proto = IPPROTO_UDP then
        (let fd = hk_result E (SocketGraft (selected_l4_proto_graft d)); d' = d\<lparr>hk_l4_graft_fd := fd\<rparr>
         in if fd < 0 then (Some (SocketGraft (selected_l4_proto_graft d)), d') else (None, d'))
      else if proto = IPPROTO_UDPLITE \<or> proto = IPPROTO_DCCP \<or> proto = IPPROTO_SCTP then
        (let fd = hk_result E (SocketGraft proto); d' = d\<lparr>selected_l4_proto_graft := proto, hk_l4_graft_fd := fd\<rparr>
         in if fd < 0 then (Some (SocketGraft proto), d') else (None, d'))
      else if proto = IPPROTO_QUIC then
        (let d' = d\<lparr>selected_l4_proto_graft := proto, quic_sock := (hk_result E QuicInit = 0)\<rparr>
         in if \<not> quic_sock d' then (Some QuicInit, d') else (None, d'))
      else (None, d))"

text \<open>Binding the graft socket and waiting for the remote hooker.\<close>

definition hk_open_graft :: "hk_env \<Rightarrow> int \<Rightarrow> hk_daemon \<Rightarrow> hk_call option \<times> hk_daemon" where
  "hk_open_graft E proto d =
     (if selected_l4_proto_graft d \<noteq> IPPROTO_QUIC \<and> hk_result E BindGraft < 0 then (Some BindGraft, d)
      else if proto = IPPROTO_DCCP \<or> proto = IPPROTO_SCTP then
        (if proto = IPPROTO_SCTP \<and> hk_result E SctpInit < 0 then (Some SctpInit, d)
         else if hk_result E ListenGraft < 0 then (Some ListenGraft, d)
         else (let fd = hk_result E AcceptGraft; d' = d\<lparr>hk_l4_graft_fd_cpy := fd\<rparr>
               in if fd < 0 then (Some AcceptGraft, d') else (None, d')))
      else if proto = IPPROTO_QUIC then
        (if hk_result E QuicAccept \<noteq> 0 then (Some QuicAccept, d) else (None, d))
      else (None, d))"

text \<open>The connection between the redirecting socket and the phony one: the first call that fails.\<close>

definition hk_phony_connection :: "hk_env \<Rightarrow> hk_call option" where
  "hk_phony_connection E =
     List.find (\<lambda>c. if c = ReusePhony \<or> c = ReuseRedir then hk_result E c \<noteq> 0
                    else if c = ConnectRedir then hk_result E c < 0 \<and> \<not> in_progress E
                    else hk_result E c < 0)
       [ReusePhony, NonblockPhony, BindPhony, ListenPhony, ReuseRedir, BindRedir, ConnectRedir, AcceptPhony]"

definition hk_init_sockets :: "hk_env \<Rightarrow> int \<Rightarrow> hk_daemon \<Rightarrow> hk_call option \<times> hk_daemon" where
  "hk_init_sockets E proto d =
     (let d1 = d\<lparr>hk_redir_fd := hk_result E SocketRedir\<rparr>;
          d2 = d1\<lparr>hk_phony_fd := hk_result E SocketPhony\<rparr>
      in if hk_redir_fd d1 = -1 then (Some SocketRedir, d1)
         else if hk_phony_fd d2 = -1 then (Some SocketPhony, d2)
         else (case hk_phony_connection E of
                 Some c \<Rightarrow> (Some c, d2)
               | None \<Rightarrow>
                   (case hk_select_graft E proto d2 of
                      (Some c, d3) \<Rightarrow> (Some c, d3)
                    | (None, d3) \<Rightarrow> hk_open_graft E proto d3)))"

section \<open>The relay loops\<close>

datatype relay_end = Running | Failed | BufferOverrun

text \<open>\<open>strlen\<close> of a buffer; \<open>None\<close> when no byte of it is zero, so that the function reads on behind it.\<close>

definition c_strlen :: "bytes \<Rightarrow> nat option" where
  "c_strlen buf = (if 0 \<in> set buf then Some (length (takeWhile (\<lambda>b. b \<noteq> 0) buf)) else None)"

text \<open>The zeroed buffer after a receive call with the length limit \<open>MAXDATASIZE\<close>.\<close>

definition zero_pad :: "nat \<Rightarrow> bytes \<Rightarrow> bytes" where
  "zero_pad sz msg = msg @ replicate (sz - length msg) 0"

definition recv_into :: "nat \<Rightarrow> bytes \<Rightarrow> bytes" where
  "recv_into sz msg = zero_pad sz (take MAXDATASIZE msg)"

text \<open>
  \<open>hk_listen_app\<close>: one element per turn, with what \<open>recv\<close> gives (\<open>None\<close> for -1) and whether the sending
  call succeeds. DCCP repeats the call while it would block and ignores other failures.
\<close>

fun hk_listen_app :: "hk_daemon \<Rightarrow> (bytes option \<times> bool) list \<Rightarrow> bytes list \<times> relay_end" where
  "hk_listen_app d [] = ([], Running)"
| "hk_listen_app d ((r, sent) # es) =
     (case r of
        None \<Rightarrow> ([], Failed)
      | Some msg \<Rightarrow>
          (let buffer = recv_into MAXDATASIZE msg in
           case c_strlen buffer of
             None \<Rightarrow> ([], BufferOverrun)
           | Some n \<Rightarrow>
               if \<not> sent then
                 (if selected_l4_proto_graft d = IPPROTO_DCCP then hk_listen_app d es else ([], Failed))
               else (case hk_listen_app d es of (out, e) \<Rightarrow> (take n buffer # out, e))))"

text \<open>
  \<open>hk_receive\<close> is one receive call of the selected protocol into a zeroed buffer of \<open>sz\<close> bytes: SCTP ignores
  a failure and goes on with the empty buffer, QUIC calls again until there is data (\<open>Repeat\<close>) and passes
  no length limit.
\<close>

datatype hk_received = Repeat | RecvFailed | Overflow | Got bytes

definition hk_receive :: "nat \<Rightarrow> hk_daemon \<Rightarrow> bytes option \<Rightarrow> hk_received" where
  "hk_receive sz d r =
     (if selected_l4_proto_graft d = IPPROTO_QUIC then
        (case r of
           None \<Rightarrow> Repeat
         | Some msg \<Rightarrow> if msg = [] then Repeat
                       else if sz < length msg then Overflow
                       else Got (zero_pad sz msg))
      else if selected_l4_proto_graft d = IPPROTO_SCTP then
        Got (recv_into sz (case r of None \<Rightarrow> [] | Some msg \<Rightarrow> msg))
      else (case r of None \<Rightarrow> RecvFailed | Some msg \<Rightarrow> Got (recv_into sz msg)))"

text \<open>\<open>hk_sendto_app\<close>: the buffer has 1024 times \<open>MAXDATASIZE\<close> bytes.\<close>

fun hk_sendto_app :: "hk_daemon \<Rightarrow> (bytes option \<times> bool) list \<Rightarrow> bytes list \<times> relay_end" where
  "hk_sendto_app d [] = ([], Running)"
| "hk_sendto_app d ((r, sent) # es) =
     (case hk_receive (MAXDATASIZE * 1024) d r of
        Repeat \<Rightarrow> hk_sendto_app d es
      | RecvFailed \<Rightarrow> ([], Failed)
      | Overflow \<Rightarrow> ([], BufferOverrun)
      | Got buffer \<Rightarrow>
          (case c_strlen buffer of
             None \<Rightarrow> ([], BufferOverrun)
           | Some n \<Rightarrow>
               if \<not> sent then ([], Failed)
               else (case hk_sendto_app d es of (out, e) \<Rightarrow> (take n buffer # out, e))))"

section \<open>The main program\<close>

text \<open>
  \<open>main\<close> polls for the pinned map (the list gives the successive results of \<open>bpf_obj_get\<close>; \<open>None\<close> when it
  still sleeps at the end of the list), opens the sockets, puts the redirecting socket into the first
  entry of the socket map and relays in the direction that the mode selects. After the relay it
  closes its sockets and returns 0.
\<close>

fun hk_wait_map :: "int list \<Rightarrow> int option" where
  "hk_wait_map [] = None"
| "hk_wait_map (fd # fds) = (if fd < 0 then hk_wait_map fds else Some fd)"

text \<open>\<open>atoi\<close> on an argument: white space, a sign, digits.\<close>

definition arg_atoi :: "string \<Rightarrow> int" where
  "arg_atoi s = (let t = dropWhile (\<lambda>c. c = CHR '' '' \<or> (9 \<le> (of_char c :: nat) \<and> (of_char c :: nat) \<le> 13)) s
     in case t of [] \<Rightarrow> 0
        | c # u \<Rightarrow> if c = CHR ''-'' then - atoi u else if c = CHR ''+'' then atoi u else atoi t)"

datatype hk_exit =
    Waiting
  | Usage
  | Exit int hk_daemon
  | Serving hk_daemon "int \<times> int \<times> int" "bytes list" relay_end "int list"

definition hk_closes :: "hk_daemon \<Rightarrow> int list" where
  "hk_closes d = [hk_phony_fd d, hk_redir_fd d, hk_l4_graft_fd d] @
     (if hk_l4_graft_fd_cpy d \<noteq> -1 then [hk_l4_graft_fd_cpy d] else [])"

definition hk_main :: "hk_env \<Rightarrow> int list \<Rightarrow> string list \<Rightarrow> hk_daemon \<Rightarrow> (bytes option \<times> bool) list \<Rightarrow> hk_exit" where
  "hk_main E fds argv d es =
     (case hk_wait_map fds of
        None \<Rightarrow> Waiting
      | Some mfd \<Rightarrow>
          if length argv \<noteq> 3 then Usage
          else
            (case hk_init_sockets E (arg_atoi (argv ! 1)) d of
               (c, d') \<Rightarrow>
                 if (case c of None \<Rightarrow> False | Some c' \<Rightarrow> hk_errno E c' \<noteq> 0) then Exit (-1) d'
                 else if hk_map_update E \<noteq> 0 then Exit (-1) d'
                 else
                   (case (if argv ! 2 = ''server'' \<or> argv ! 2 = ''SERVER'' then hk_listen_app d' es
                          else hk_sendto_app d' es) of
                      (out, e) \<Rightarrow> Serving d' (mfd, 0, hk_redir_fd d') out e
                                    (if e = Failed then hk_closes d' else []))))"

section \<open>What is relayed\<close>

lemma recv_into_strlen:
  assumes "length msg < sz" and "length msg \<le> MAXDATASIZE"
  shows "\<exists>n. c_strlen (recv_into sz msg) = Some n \<and> take n (recv_into sz msg) = takeWhile (\<lambda>b. b \<noteq> 0) msg"
proof -
  have e: "recv_into sz msg = msg @ 0 # replicate (sz - length msg - 1) 0"
    using assms by (cases "sz - length msg") (auto simp: recv_into_def zero_pad_def)
  have "takeWhile (\<lambda>b. b \<noteq> 0) (recv_into sz msg) = takeWhile (\<lambda>b. b \<noteq> 0) msg"
    unfolding e by (simp add: takeWhile_tail)
  then show ?thesis
    by (metis (no_types, lifting) c_strlen_def e in_set_conv_decomp takeWhile_eq_take)
qed

text \<open>
  The relay loops of the daemons have one shape: every turn emits a message, is skipped, or ends the loop.
  \<open>relay_loop\<close> states it for a loop and the effect of one turn; \<open>text_relay\<close> adds that a message that fits
  the buffer with room for a terminator is emitted up to its first zero byte.
\<close>

datatype turn_effect = Emit bytes | Skip | Stop relay_end

abbreviation c_string :: "bytes \<Rightarrow> bytes" where
  "c_string \<equiv> takeWhile (\<lambda>b. b \<noteq> 0)"

lemma c_string_text: "0 \<notin> set m \<Longrightarrow> c_string m = m"
  by (auto simp: takeWhile_eq_all_conv)

definition buffer_effect :: "bool \<Rightarrow> turn_effect \<Rightarrow> bytes \<Rightarrow> turn_effect" where
  "buffer_effect sent on_error buffer =
     (case c_strlen buffer of
        None \<Rightarrow> Stop BufferOverrun
      | Some n \<Rightarrow> if sent then Emit (take n buffer) else on_error)"

lemma buffer_effect_short:
  "length m < sz \<Longrightarrow> length m \<le> MAXDATASIZE \<Longrightarrow> buffer_effect True e (recv_into sz m) = Emit (c_string m)"
  using recv_into_strlen [of m sz] by (auto simp: buffer_effect_def)

locale relay_loop =
  fixes relay :: "(bytes option \<times> bool) list \<Rightarrow> bytes list \<times> relay_end"
    and turn :: "bytes option \<times> bool \<Rightarrow> turn_effect"
  assumes relay_Nil: "relay [] = ([], Running)"
    and relay_Cons: "relay (e # es) =
      (case turn e of Emit m \<Rightarrow> apfst (Cons m) (relay es) | Skip \<Rightarrow> relay es | Stop x \<Rightarrow> ([], x))"
    and stop_ends: "turn e \<noteq> Stop Running"
begin

lemma relay_append:
  "relay (xs @ ys) = (case relay xs of (out, Running) \<Rightarrow> apfst ((@) out) (relay ys) | (out, x) \<Rightarrow> (out, x))"
proof (induction xs)
  case Nil
  then show ?case by (cases "relay ys") (simp add: relay_Nil)
next
  case (Cons e es)
  then show ?case
    using stop_ends [of e]
    by (cases "relay ys") (auto simp: relay_Cons split: turn_effect.split prod.split relay_end.split)
qed

lemma relay_snoc:
  assumes "relay xs = (out, Running)"
  shows "relay (xs @ [e]) = (case turn e of Emit m \<Rightarrow> (out @ [m], Running) | Skip \<Rightarrow> (out, Running) | Stop x \<Rightarrow> (out, x))"
  using assms by (simp add: relay_append relay_Cons relay_Nil split: turn_effect.split)

end

locale text_relay = relay_loop +
  assumes turn_text: "m \<noteq> [] \<Longrightarrow> length m < MAXDATASIZE \<Longrightarrow> turn (Some m, True) = Emit (c_string m)"
begin

lemma relay_cut:
  assumes "\<forall>m\<in>set ms. m \<noteq> [] \<and> length m < MAXDATASIZE"
  shows "relay (map (\<lambda>m. (Some m, True)) ms) = (map c_string ms, Running)"
  using assms by (induction ms) (simp_all add: relay_Nil relay_Cons turn_text)

lemma relay_text:
  assumes "\<forall>m\<in>set ms. m \<noteq> [] \<and> length m < MAXDATASIZE \<and> 0 \<notin> set m"
  shows "relay (map (\<lambda>m. (Some m, True)) ms) = (ms, Running)"
  using relay_cut [of ms] assms by (auto simp: c_string_text intro: map_idI)

end

definition hk_listen_turn :: "hk_daemon \<Rightarrow> bytes option \<times> bool \<Rightarrow> turn_effect" where
  "hk_listen_turn d e = (case fst e of
     None \<Rightarrow> Stop Failed
   | Some m \<Rightarrow> buffer_effect (snd e) (if selected_l4_proto_graft d = IPPROTO_DCCP then Skip else Stop Failed)
                 (recv_into MAXDATASIZE m))"

definition sendto_turn :: "nat \<Rightarrow> hk_daemon \<Rightarrow> bytes option \<times> bool \<Rightarrow> turn_effect" where
  "sendto_turn sz d e = (case hk_receive sz d (fst e) of
     Repeat \<Rightarrow> Skip
   | RecvFailed \<Rightarrow> Stop Failed
   | Overflow \<Rightarrow> Stop BufferOverrun
   | Got buffer \<Rightarrow> buffer_effect (snd e) (Stop Failed) buffer)"

lemma sendto_turn_text:
  assumes "m \<noteq> []" and "length m < MAXDATASIZE" and "MAXDATASIZE \<le> sz"
  shows "sendto_turn sz d (Some m, True) = Emit (c_string m)"
proof -
  have "zero_pad sz m = recv_into sz m" using assms(2) by (simp add: recv_into_def)
  then show ?thesis
    using buffer_effect_short [of m sz "Stop Failed"] assms
    by (simp add: sendto_turn_def hk_receive_def)
qed

lemma sendto_turn_ends: "sendto_turn sz d e \<noteq> Stop Running"
  by (auto simp: sendto_turn_def buffer_effect_def split: hk_received.split option.split)

interpretation hk_listen: text_relay "hk_listen_app d" "hk_listen_turn d" for d
proof
  show "hk_listen_app d (e # es) =
      (case hk_listen_turn d e of Emit m \<Rightarrow> apfst (Cons m) (hk_listen_app d es) | Skip \<Rightarrow> hk_listen_app d es | Stop x \<Rightarrow> ([], x))" for e es
    by (cases e) (auto simp: hk_listen_turn_def buffer_effect_def Let_def split: option.splits prod.splits)
  show "hk_listen_turn d e \<noteq> Stop Running" for e
    by (auto simp: hk_listen_turn_def buffer_effect_def split: option.splits)
qed (simp_all add: hk_listen_turn_def buffer_effect_short)

interpretation hk_sendto: text_relay "hk_sendto_app d" "sendto_turn (MAXDATASIZE * 1024) d" for d
proof
  show "hk_sendto_app d (e # es) =
      (case sendto_turn (MAXDATASIZE * 1024) d e of Emit m \<Rightarrow> apfst (Cons m) (hk_sendto_app d es) | Skip \<Rightarrow> hk_sendto_app d es | Stop x \<Rightarrow> ([], x))" for e es
    by (cases e) (auto simp: sendto_turn_def buffer_effect_def split: hk_received.splits option.splits prod.splits)
qed (simp_all add: sendto_turn_ends sendto_turn_text)

text \<open>
  The relay is faithful to text only. Messages of fewer than 1024 bytes are passed on one by one in both
  directions and with every protocol, each cut at its first zero byte.
\<close>

theorem hk_relay_cuts_at_zero:
  assumes "\<forall>m\<in>set ms. m \<noteq> [] \<and> length m < MAXDATASIZE"
  shows "hk_listen_app d (map (\<lambda>m. (Some m, True)) ms) = (map c_string ms, Running) \<and>
    hk_sendto_app d (map (\<lambda>m. (Some m, True)) ms) = (map c_string ms, Running)"
  using hk_listen.relay_cut [OF assms] hk_sendto.relay_cut [OF assms] by blast

text \<open>A full buffer without a zero byte is read beyond its end.\<close>

lemma hk_relay_overreads:
  assumes "length m = MAXDATASIZE" and "0 \<notin> set m"
  shows "hk_listen_app d ((Some m, sent) # es) = ([], BufferOverrun)"
  using assms by (simp add: recv_into_def zero_pad_def c_strlen_def Let_def)

lemma hk_wait_map_nonneg: "hk_wait_map fds = Some fd \<Longrightarrow> fd \<in> set fds \<and> 0 \<le> fd"
  by (induction fds) (auto split: if_splits)

text \<open>After a successful set-up the socket that the relay sends on is open.\<close>

lemma hk_init_graft_open:
  assumes "hk_init_sockets E proto d = (None, d')"
  shows "(proto = IPPROTO_UDP \<or> proto = IPPROTO_UDPLITE \<longrightarrow> 0 \<le> hk_l4_graft_fd d') \<and>
    (proto = IPPROTO_DCCP \<or> proto = IPPROTO_SCTP \<longrightarrow> 0 \<le> hk_l4_graft_fd_cpy d' \<and> selected_l4_proto_graft d' = proto) \<and>
    (proto = IPPROTO_QUIC \<longrightarrow> quic_sock d' \<and> selected_l4_proto_graft d' = proto)"
  using assms
  by (auto simp: hk_init_sockets_def hk_select_graft_def hk_open_graft_def Let_def proto_consts
      split: if_splits option.splits prod.splits)

lemma hk_select_graft_redir: "hk_select_graft E proto d = (c, d') \<Longrightarrow> hk_redir_fd d' = hk_redir_fd d"
  by (auto simp: hk_select_graft_def Let_def split: if_splits)

lemma hk_open_graft_redir: "hk_open_graft E proto d = (c, d') \<Longrightarrow> hk_redir_fd d' = hk_redir_fd d"
  by (auto simp: hk_open_graft_def Let_def split: if_splits)

lemma hk_init_redir_open:
  assumes "hk_init_sockets E proto d = (None, d')"
  shows "hk_redir_fd d' = hk_result E SocketRedir \<and> hk_redir_fd d' \<noteq> -1"
  using assms
  by (auto simp: hk_init_sockets_def Let_def split: if_splits option.splits prod.splits
      dest!: hk_select_graft_redir hk_open_graft_redir)

text \<open>
  Whenever the daemon relays, it has registered the socket it receives on at index 0 of the socket
  map, the entry that the redirecting eBPF program sends the application's messages to; and if every
  failing call sets \<open>errno\<close>, that socket and the one of the selected protocol are open.
\<close>

theorem hk_main_registers_open_socket:
  assumes "hk_main E fds argv d es = Serving d' upd out e cl" and "\<And>c. hk_errno E c \<noteq> 0"
    and "\<And>c. -1 \<le> hk_result E c"
  shows "\<exists>mfd\<in>set fds. upd = (mfd, 0, hk_redir_fd d') \<and> 0 \<le> mfd \<and> 0 \<le> hk_redir_fd d' \<and>
    (arg_atoi (argv ! 1) \<in> {IPPROTO_UDP, IPPROTO_UDPLITE} \<longrightarrow> 0 \<le> hk_l4_graft_fd d') \<and>
    (arg_atoi (argv ! 1) \<in> {IPPROTO_DCCP, IPPROTO_SCTP} \<longrightarrow> 0 \<le> hk_l4_graft_fd_cpy d')"
proof -
  from assms(1,2) obtain mfd where w: "hk_wait_map fds = Some mfd" "upd = (mfd, 0, hk_redir_fd d')"
    and i: "hk_init_sockets E (arg_atoi (argv ! 1)) d = (None, d')"
    by (auto simp: hk_main_def split: option.splits if_splits prod.splits)
  note hk_wait_map_nonneg [OF w(1)] hk_init_graft_open [OF i] hk_init_redir_open [OF i]
  moreover have "-1 \<le> hk_redir_fd d'" using hk_init_redir_open [OF i] assms(3) [of SocketRedir] by simp
  ultimately show ?thesis using w(2) by auto
qed

definition hk_env_ok :: hk_env where
  "hk_env_ok = \<lparr>hk_result = (\<lambda>c. if c = SocketRedir then 5 else if c = SocketGraft 0 then 7 else 0), in_progress = False,
     hk_errno = (\<lambda>_. 1), hk_map_update = 0\<rparr>"

theorem hk_main_registers_open_socket_witness:
  "hk_main hk_env_ok [-1, 3] [''hooker'', ''17'', ''server''] hk_daemon_init [] =
     Serving (hk_daemon_init\<lparr>hk_redir_fd := 5, hk_l4_graft_fd := 7\<rparr>) (3, 0, 5) [] Running [] \<and>
   (\<exists>mfd\<in>set [-1, 3]. (3, 0, 5) = (mfd, 0 :: int, 5 :: int) \<and> (0 :: int) \<le> mfd)"
proof
  show m: "hk_main hk_env_ok [-1, 3] [''hooker'', ''17'', ''server''] hk_daemon_init [] =
     Serving (hk_daemon_init\<lparr>hk_redir_fd := 5, hk_l4_graft_fd := 7\<rparr>) (3, 0, 5) [] Running []"
    by code_simp
  show "\<exists>mfd\<in>set [-1, 3]. (3, 0, 5) = (mfd, 0 :: int, 5 :: int) \<and> (0 :: int) \<le> mfd"
    using hk_main_registers_open_socket [OF m] by (auto simp: hk_env_ok_def)
qed

end
