(* ===== verification/Hooker_Client.thy ===== *)
theory Hooker_Client
  imports Hooker_Daemon
begin

text \<open>
  The connecting side of the hooker (\<open>hooker/hooker_backup_client.c\<close>). \<open>hooker.c\<close> only ever accepts
  connections of its transport; this daemon is its peer. The phony connection and the selection of the
  protocol are the code of \<open>hooker.c\<close> (options whose result is ignored apart); the graft socket is connected
  instead of accepted on, the receive buffer of \<open>hk_listen_app\<close> is 1024 times larger, and a failure to send
  over DCCP ends the loop.
\<close>

section \<open>The sockets\<close>

definition hkc_open_graft :: "hk_env \<Rightarrow> int \<Rightarrow> hk_daemon \<Rightarrow> hk_call option \<times> hk_daemon" where
  "hkc_open_graft E proto d =
     (if selected_l4_proto_graft d \<noteq> IPPROTO_QUIC \<and> hk_result E BindGraft < 0 then (Some BindGraft, d)
      else if proto = IPPROTO_DCCP \<or> proto = IPPROTO_SCTP then
        (if hk_result E ConnectGraft \<noteq> 0 then (Some ConnectGraft, d) else (None, d))
      else if proto = IPPROTO_QUIC then
        (if hk_result E QuicConnect \<noteq> 0 then (Some QuicConnect, d) else (None, d))
      else (None, d))"

definition hkc_init_sockets :: "hk_env \<Rightarrow> int \<Rightarrow> hk_daemon \<Rightarrow> hk_call option \<times> hk_daemon" where
  "hkc_init_sockets E proto d =
     (let d1 = d\<lparr>hk_redir_fd := hk_result E SocketRedir\<rparr>;
          d2 = d1\<lparr>hk_phony_fd := hk_result E SocketPhony\<rparr>
      in if hk_redir_fd d1 = -1 then (Some SocketRedir, d1)
         else if hk_phony_fd d2 = -1 then (Some SocketPhony, d2)
         else (case hk_phony_connection E of
                 Some c \<Rightarrow> (Some c, d2)
               | None \<Rightarrow>
                   (case hk_select_graft E proto d2 of
                      (Some c, d3) \<Rightarrow> (Some c, d3)
                    | (None, d3) \<Rightarrow> hkc_open_graft E proto d3)))"

section \<open>The relay loops\<close>

fun hkc_listen_app :: "hk_daemon \<Rightarrow> (bytes option \<times> bool) list \<Rightarrow> bytes list \<times> relay_end" where
  "hkc_listen_app d [] = ([], Running)"
| "hkc_listen_app d ((r, sent) # es) =
     (case r of
        None \<Rightarrow> ([], Failed)
      | Some msg \<Rightarrow>
          (let buffer = recv_into (MAXDATASIZE * 1024) msg in
           case c_strlen buffer of
             None \<Rightarrow> ([], BufferOverrun)
           | Some n \<Rightarrow>
               if \<not> sent then ([], Failed)
               else (case hkc_listen_app d es of (out, e) \<Rightarrow> (take n buffer # out, e))))"

fun hkc_sendto_app :: "hk_daemon \<Rightarrow> (bytes option \<times> bool) list \<Rightarrow> bytes list \<times> relay_end" where
  "hkc_sendto_app d [] = ([], Running)"
| "hkc_sendto_app d ((r, sent) # es) =
     (case hk_receive (MAXDATASIZE * 1024) d r of
        Repeat \<Rightarrow> hkc_sendto_app d es
      | RecvFailed \<Rightarrow> ([], Failed)
      | Overflow \<Rightarrow> ([], BufferOverrun)
      | Got buffer \<Rightarrow>
          (case c_strlen buffer of
             None \<Rightarrow> ([], BufferOverrun)
           | Some n \<Rightarrow>
               if \<not> sent then ([], Failed)
               else (case hkc_sendto_app d es of (out, e) \<Rightarrow> (take n buffer # out, e))))"

definition hkc_main :: "hk_env \<Rightarrow> int list \<Rightarrow> string list \<Rightarrow> hk_daemon \<Rightarrow> (bytes option \<times> bool) list \<Rightarrow> hk_exit" where
  "hkc_main E fds argv d es =
     (case hk_wait_map fds of
        None \<Rightarrow> Waiting
      | Some mfd \<Rightarrow>
          if length argv \<noteq> 3 then Usage
          else
            (case hkc_init_sockets E (arg_atoi (argv ! 1)) d of
               (c, d') \<Rightarrow>
                 if (case c of None \<Rightarrow> False | Some c' \<Rightarrow> hk_errno E c' \<noteq> 0) then Exit (-1) d'
                 else if hk_map_update E \<noteq> 0 then Exit (-1) d'
                 else
                   (case (if argv ! 2 = ''server'' \<or> argv ! 2 = ''SERVER'' then hkc_listen_app d' es
                          else hkc_sendto_app d' es) of
                      (out, e) \<Rightarrow> Serving d' (mfd, 0, hk_redir_fd d') out e
                                    (if e = Failed then [hk_phony_fd d', hk_redir_fd d', hk_l4_graft_fd d'] else []))))"

section \<open>The loops as relays\<close>

definition hkc_listen_turn :: "bytes option \<times> bool \<Rightarrow> turn_effect" where
  "hkc_listen_turn e = (case fst e of
     None \<Rightarrow> Stop Failed
   | Some m \<Rightarrow> buffer_effect (snd e) (Stop Failed) (recv_into (MAXDATASIZE * 1024) m))"

interpretation hkc_listen: text_relay "hkc_listen_app d" hkc_listen_turn for d
proof
  show "hkc_listen_app d (e # es) =
      (case hkc_listen_turn e of Emit m \<Rightarrow> apfst (Cons m) (hkc_listen_app d es) | Skip \<Rightarrow> hkc_listen_app d es | Stop x \<Rightarrow> ([], x))" for e es
    by (cases e) (auto simp: hkc_listen_turn_def buffer_effect_def Let_def split: option.splits prod.splits)
  show "hkc_listen_turn e \<noteq> Stop Running" for e
    by (auto simp: hkc_listen_turn_def buffer_effect_def split: option.splits)
qed (simp_all add: hkc_listen_turn_def buffer_effect_short)

interpretation hkc_sendto: text_relay "hkc_sendto_app d" "sendto_turn (MAXDATASIZE * 1024) d" for d
proof
  show "hkc_sendto_app d (e # es) =
      (case sendto_turn (MAXDATASIZE * 1024) d e of Emit m \<Rightarrow> apfst (Cons m) (hkc_sendto_app d es) | Skip \<Rightarrow> hkc_sendto_app d es | Stop x \<Rightarrow> ([], x))" for e es
    by (cases e) (auto simp: sendto_turn_def buffer_effect_def split: hk_received.splits option.splits prod.splits)
qed (simp_all add: sendto_turn_ends sendto_turn_text)

text \<open>
  The larger buffer makes the connecting side safe where \<open>hooker.c\<close> is not: whatever is received, its
  listening loop never runs over its buffer, because at most \<open>MAXDATASIZE\<close> bytes of it are not zero.
\<close>

lemma hkc_listen_no_overrun: "snd (hkc_listen_app d es) \<noteq> BufferOverrun"
proof (induction es)
  case (Cons e es)
  have s: "(c_strlen (recv_into (MAXDATASIZE * 1024) m) = None) = False" for m
    by (simp add: c_strlen_def recv_into_def zero_pad_def MAXDATASIZE_def)
  then show ?case using Cons by (cases e) (auto simp: s Let_def split: option.split prod.split)
qed simp

lemma hkc_main_client:
  assumes "hkc_main E fds [n, proto, mode] d es = Serving d' upd out e cl" and "mode \<noteq> ''server''" and "mode \<noteq> ''SERVER''"
  shows "hkc_sendto_app d' es = (out, e) \<and> upd = (fst upd, 0, hk_redir_fd d')"
  using assms by (auto simp: hkc_main_def split: option.splits if_splits prod.splits)

text \<open>After a successful set-up the socket of the selected protocol is open and connected.\<close>

lemma hkc_init_graft_open:
  assumes "hkc_init_sockets E proto d = (None, d')"
  shows "(proto \<in> {IPPROTO_UDP, IPPROTO_UDPLITE, IPPROTO_DCCP, IPPROTO_SCTP} \<longrightarrow> 0 \<le> hk_l4_graft_fd d') \<and>
    (proto \<in> {IPPROTO_DCCP, IPPROTO_SCTP} \<longrightarrow> hk_result E ConnectGraft = 0) \<and>
    (proto = IPPROTO_QUIC \<longrightarrow> quic_sock d' \<and> hk_result E QuicConnect = 0)"
  using assms
  by (auto simp: hkc_init_sockets_def hk_select_graft_def hkc_open_graft_def Let_def proto_consts
      split: if_splits option.splits prod.splits)

end
