(* ===== verification/Hooked_Apps.thy ===== *)
theory Hooked_Apps
  imports Hooker_Progs Hooker_Client
begin

text \<open>
  A hooked legacy application from end to end. \<open>tests/legacy_server.c\<close> sends a file over TCP and
  \<open>tests/legacy_client.c\<close> receives it; with the hooker in between, the messages of the server are redirected
  by \<open>hooker_switch_packet_data\<close> to the daemon of \<open>hooker.c\<close>, relayed over the selected transport to the
  daemon of \<open>hooker_backup_client.c\<close>, and redirected from its socket to the client.
\<close>

section \<open>The legacy applications\<close>

definition LEG_MAX :: nat where "LEG_MAX = 1024"

text \<open>The results of the socket calls.\<close>

record leg_env =
  leg_socket :: int
  leg_bind :: int
  leg_listen :: int
  leg_accept :: int
  leg_connect :: int

text \<open>How a program ends: \<open>exit(0)\<close>, a call with a NULL file, or the end of its work.\<close>

datatype 'w leg_end = LegExit | NullFile | LegDone 'w

text \<open>The server's loop \<open>while(!feof(tx_file))\<close>: the messages given to \<open>send\<close>.\<close>

function legacy_sends :: "bytes \<Rightarrow> bytes list" where
  "legacy_sends f = (if length f < LEG_MAX then [f] else take LEG_MAX f # legacy_sends (drop LEG_MAX f))"
  by pat_completeness auto
termination
  by (relation "measure length") (auto simp: LEG_MAX_def)

declare legacy_sends.simps [simp del]

definition legacy_server_apps :: "bytes option \<Rightarrow> bytes list leg_end" where
  "legacy_server_apps tx_file = (case tx_file of None \<Rightarrow> NullFile | Some f \<Rightarrow> LegDone (legacy_sends f))"

definition legacy_server :: "leg_env \<Rightarrow> bytes option \<Rightarrow> bytes list leg_end" where
  "legacy_server E tx_file =
     (if leg_socket E = -1 then LegExit
      else if leg_bind E \<noteq> 0 then LegExit
      else if leg_listen E \<noteq> 0 then LegExit
      else if leg_accept E < 0 then LegExit
      else legacy_server_apps tx_file)"

text \<open>
  The client writes what every \<open>read\<close> returns until one returns nothing (\<open>Some []\<close>) or fails (\<open>None\<close>). The
  result is what is in the file when the list of reads ends.
\<close>

fun legacy_client_apps :: "bool \<Rightarrow> bytes option list \<Rightarrow> bytes leg_end" where
  "legacy_client_apps fopen_ok [] = LegDone []"
| "legacy_client_apps fopen_ok (r # rs) =
     (case r of
        None \<Rightarrow> LegDone []
      | Some n \<Rightarrow>
          if n = [] then LegDone []
          else if \<not> fopen_ok then NullFile
          else map_leg_end ((@) n) (legacy_client_apps fopen_ok rs))"

definition legacy_client :: "leg_env \<Rightarrow> bool \<Rightarrow> bytes option list \<Rightarrow> bytes leg_end" where
  "legacy_client E fopen_ok reads =
     (if leg_socket E = -1 then LegExit
      else if leg_connect E \<noteq> 0 then LegExit
      else legacy_client_apps fopen_ok reads)"

lemma legacy_sends_concat: "concat (legacy_sends f) = f"
  by (induction f rule: legacy_sends.induct) (subst legacy_sends.simps, simp)

lemma legacy_client_apps_stream:
  "[] \<notin> set gets \<Longrightarrow> legacy_client_apps True (map Some gets @ [Some []]) = LegDone (concat gets)"
  by (induction gets) auto

section \<open>The pieces together\<close>

text \<open>
  A daemon registers its redirecting socket with \<open>bpf_map_update_elem\<close>, given as map, key and descriptor;
  \<open>sock_at\<close> is the socket behind a descriptor.
\<close>

definition register_hooker :: "(int \<Rightarrow> stream_tuple) \<Rightarrow> int \<times> int \<times> int \<Rightarrow> hk_maps \<Rightarrow> hk_maps" where
  "register_hooker sock_at upd m =
     (case upd of (mfd, key, fd) \<Rightarrow> m\<lparr>HK_SOCK_MAP := (HK_SOCK_MAP m)(nat key \<mapsto> sock_at fd)\<rparr>)"

text \<open>The maps of a host after the daemon is registered and the connection of the application is established.\<close>

definition hooked_maps ::
    "(int \<Rightarrow> stream_tuple) \<Rightarrow> int \<times> int \<times> int \<Rightarrow> (int \<Rightarrow> int) \<Rightarrow> int \<Rightarrow> sk_ops \<Rightarrow> hk_maps \<Rightarrow> hk_maps" where
  "hooked_maps sock_at upd cb junk sk m = snd (hooker_monitor_apps cb junk sk (register_hooker sock_at upd m))"

text \<open>What of the messages of a socket reaches another one; a byte stream keeps the bytes, not the messages.\<close>

definition reaching :: "sk_verdict \<Rightarrow> stream_tuple \<Rightarrow> bytes list \<Rightarrow> bytes list" where
  "reaching v sk msgs = (if v = SK_REDIRECT sk then msgs else [])"

definition carried :: "bytes list \<Rightarrow> bytes list \<Rightarrow> bool" where
  "carried sent got \<longleftrightarrow> concat got = concat sent \<and> [] \<notin> set got"

lemma register_hooker_ok:
  "hk_ok m \<Longrightarrow> hk_ok (register_hooker sock_at (mfd, 0, fd) m)"
  "HK_SOCK_MAP (register_hooker sock_at (mfd, 0, fd) m) 0 = Some (sock_at fd)"
  by (auto simp: register_hooker_def hk_ok_def HK_SOCK_MAX_def)

text \<open>
  The daemons in their directions: what each relays of what it receives, when the receives are shorter
  than its buffer.
\<close>

lemma hk_main_server:
  assumes "hk_main E fds [n, proto, ''server''] d es = Serving d' upd out e cl"
  shows "hk_listen_app d' es = (out, e) \<and> upd = (fst upd, 0, hk_redir_fd d')"
  using assms by (auto simp: hk_main_def split: option.splits if_splits prod.splits)

lemma server_relays:
  assumes "hk_main E fds [n, proto, ''server''] d (map (\<lambda>m. (Some m, True)) reads) = Serving d' upd out e cl"
    and "carried sent reads" and "\<forall>m\<in>set reads. length m < MAXDATASIZE" and "0 \<notin> set (concat sent)"
  shows "out = reads \<and> e = Running"
proof -
  have "0 \<notin> set m \<and> m \<noteq> []" if "m \<in> set reads" for m
    using assms(2,4) that unfolding carried_def by (metis UN_I set_concat)
  then show ?thesis using hk_main_server [OF assms(1)] hk_listen.relay_text [of reads d'] assms(3) by auto
qed

lemma client_relays:
  assumes "hkc_main E fds [n, proto, ''client''] d (map (\<lambda>m. (Some m, True)) reads) = Serving d' upd out e cl"
    and "carried sent reads" and "\<forall>m\<in>set reads. length m < MAXDATASIZE" and "0 \<notin> set (concat sent)"
  shows "out = reads \<and> e = Running"
proof -
  have "0 \<notin> set m \<and> m \<noteq> []" if "m \<in> set reads" for m
    using assms(2,4) that unfolding carried_def by (metis UN_I set_concat)
  then show ?thesis using hkc_main_client [OF assms(1)] hkc_sendto.relay_text [of reads d'] assms(3) by auto
qed

section \<open>A hooked download\<close>


text \<open>
  A file that fills a message overruns the daemon. \<open>legacy_server\<close> sends 1024 bytes at a time and the buffer
  of \<open>hooker.c\<close> has 1024 bytes, so a first read of a whole message without zero bytes leaves no terminator:
  \<open>strlen\<close> runs beyond the buffer before anything is relayed.
\<close>

theorem hooked_large_file_overruns:
  assumes "LEG_MAX \<le> length f" and "0 \<notin> set (take LEG_MAX f)"
    and "hk_main ES fS [nS, proto, ''server''] dS ((Some (hd (legacy_sends f)), s) # es) = Serving dS' updS relayed eS clS"
  shows "relayed = [] \<and> eS = BufferOverrun"
proof -
  have "hd (legacy_sends f) = take LEG_MAX f" using assms(1) by (subst legacy_sends.simps) simp
  then show ?thesis
    using hk_main_server [OF assms(3)] hk_relay_overreads [of "take LEG_MAX f" dS' s es] assms(1,2)
    by (simp add: LEG_MAX_def MAXDATASIZE_def)
qed

section \<open>An instance\<close>

definition leg_ok :: leg_env where
  "leg_ok = \<lparr>leg_socket = 3, leg_bind = 0, leg_listen = 0, leg_accept = 4, leg_connect = 0\<rparr>"

definition client_conn :: sk_ops where
  "client_conn = (sample_conn 5)\<lparr>op := 4, local_port := 2223\<rparr>"

definition sample_daemon :: hk_daemon where
  "sample_daemon = hk_daemon_init\<lparr>hk_redir_fd := 5, hk_l4_graft_fd := 7\<rparr>"

lemma sample_takes_in:
  "takes_in (register_hooker (\<lambda>_. hk_tuple) (3, 0, 5) hk_init) hk_tuple (sample_conn 5)"
  "takes_in (register_hooker (\<lambda>_. hk_tuple) (3, 0, 5) hk_init) hk_tuple client_conn"
proof -
  have h: "app_hash_of (sample_conn 5) = 7" "app_hash_of client_conn = 8"
    by (simp_all add: sample_conn_hash) (simp add: client_conn_def sample_conn_def app_hash_of_def unat_cookie)
  have m: "hk_ok (register_hooker (\<lambda>_. hk_tuple) (3, 0, 5) hk_init)"
    "HK_SOCK_MAP (register_hooker (\<lambda>_. hk_tuple) (3, 0, 5) hk_init) = [0 \<mapsto> hk_tuple]"
    using register_hooker_ok(1) [OF hk_init_ok(1)] by (auto simp: register_hooker_def hk_init_def)
  show "takes_in (register_hooker (\<lambda>_. hk_tuple) (3, 0, 5) hk_init) hk_tuple (sample_conn 5)"
    "takes_in (register_hooker (\<lambda>_. hk_tuple) (3, 0, 5) hk_init) hk_tuple client_conn"
    using m h by (simp_all add: takes_in_def sample_conn_def client_conn_def port_defs)
qed

lemma sample_daemons:
  "hk_main hk_env_ok [3] [''hooker'', ''17'', ''server''] hk_daemon_init (map (\<lambda>m. (Some m, True)) [[72, 105]]) =
     Serving sample_daemon (3, 0, 5) [[72, 105]] Running []"
  "hkc_main hk_env_ok [3] [''hooker'', ''17'', ''client''] hk_daemon_init (map (\<lambda>m. (Some m, True)) [[72, 105]]) =
     Serving sample_daemon (3, 0, 5) [[72, 105]] Running []"
proof -
  have i: "hk_init_sockets hk_env_ok 17 hk_daemon_init = (None, sample_daemon)" "hkc_init_sockets hk_env_ok 17 hk_daemon_init = (None, sample_daemon)"
    "arg_atoi ''17'' = 17" "hk_map_update hk_env_ok = 0" "hk_redir_fd sample_daemon = 5"
    by code_simp+
  have t: "\<forall>m\<in>set [[72, 105 :: u8]]. m \<noteq> [] \<and> length m < MAXDATASIZE \<and> 0 \<notin> set m" by (simp add: MAXDATASIZE_def)
  show "hk_main hk_env_ok [3] [''hooker'', ''17'', ''server''] hk_daemon_init (map (\<lambda>m. (Some m, True)) [[72, 105]]) =
     Serving sample_daemon (3, 0, 5) [[72, 105]] Running []"
    using i hk_listen.relay_text [OF t, of sample_daemon] by (simp add: hk_main_def del: hk_listen_app.simps)
  show "hkc_main hk_env_ok [3] [''hooker'', ''17'', ''client''] hk_daemon_init (map (\<lambda>m. (Some m, True)) [[72, 105]]) =
     Serving sample_daemon (3, 0, 5) [[72, 105]] Running []"
    using i hkc_sendto.relay_text [OF t, of sample_daemon] by (simp add: hkc_main_def del: hkc_sendto_app.simps)
qed


end
