(* ===== verification/Hooker_Threads.thy ===== *)
theory Hooker_Threads
  imports Hooker_Daemon
begin

text \<open>
  The hooker daemon with two threads (\<open>hooker/hooker_backup.c\<close>): \<open>thread_listen\<close> relays from the local
  application to the remote hooker while \<open>thread_sendto\<close> relays the other way. Set-up and \<open>hk_listen_app\<close> are
  the code of \<open>hooker.c\<close>; \<open>hk_sendto_app\<close> has a buffer of \<open>MAXDATASIZE\<close> bytes. The threads share the sockets
  and the address \<open>to\<close>, which \<open>recvfrom\<close> overwrites and \<open>sendto\<close> reads. A step is one system call of one
  thread, and a run is any interleaving of such steps.
\<close>

section \<open>Threads\<close>

type_synonym peer = "string \<times> nat"

text \<open>\<open>AtSend b\<close>: the thread has received and is about to send the \<open>strlen(buffer)\<close> bytes \<open>b\<close> of its buffer.\<close>

datatype thread_pc = AtRecv | AtSend bytes | Stopped relay_end

record hk_threads =
  to_addr :: peer
  listen_pc :: thread_pc
  sendto_pc :: thread_pc
  sent_remote :: "(peer option \<times> bytes) list"
  sent_local :: "bytes list"

definition remote_peer :: peer where "remote_peer = (''10.0.0.5'', 6666)"

definition threads_init :: hk_threads where
  "threads_init = \<lparr>to_addr = remote_peer, listen_pc = AtRecv, sendto_pc = AtRecv, sent_remote = [], sent_local = []\<rparr>"

definition send_pc :: "bytes \<Rightarrow> thread_pc" where
  "send_pc buffer = (case c_strlen buffer of None \<Rightarrow> Stopped BufferOverrun | Some n \<Rightarrow> AtSend (take n buffer))"

text \<open>The result of a sending call: all sent, \<open>EAGAIN\<close>, or another error.\<close>

datatype send_result = Sent | WouldBlock | SendError

text \<open>\<open>hk_listen_app\<close>: the receive call, and the sending call of the selected protocol.\<close>

definition listen_recv :: "bytes option \<Rightarrow> hk_threads \<Rightarrow> hk_threads" where
  "listen_recv r t = t\<lparr>listen_pc := (case r of None \<Rightarrow> Stopped Failed | Some msg \<Rightarrow> send_pc (recv_into MAXDATASIZE msg))\<rparr>"

definition listen_send :: "hk_daemon \<Rightarrow> send_result \<Rightarrow> bytes \<Rightarrow> hk_threads \<Rightarrow> hk_threads" where
  "listen_send d r b t =
     (if selected_l4_proto_graft d = IPPROTO_DCCP then
        (case r of
           WouldBlock \<Rightarrow> t
         | SendError \<Rightarrow> t\<lparr>listen_pc := AtRecv\<rparr>
         | Sent \<Rightarrow> t\<lparr>listen_pc := AtRecv, sent_remote := sent_remote t @ [(None, b)]\<rparr>)
      else if r \<noteq> Sent then t\<lparr>listen_pc := Stopped Failed\<rparr>
      else
        (let dest = (if selected_l4_proto_graft d = IPPROTO_SCTP \<or> selected_l4_proto_graft d = IPPROTO_QUIC
                     then None else Some (to_addr t))
         in t\<lparr>listen_pc := AtRecv, sent_remote := sent_remote t @ [(dest, b)]\<rparr>))"

text \<open>\<open>hk_sendto_app\<close>: the datagram protocols store the sender of what they receive in \<open>to\<close>.\<close>

definition sendto_recv :: "hk_daemon \<Rightarrow> (peer \<times> bytes) option \<Rightarrow> hk_threads \<Rightarrow> hk_threads" where
  "sendto_recv d r t =
     (let t1 = (case r of
                  Some (src, _) \<Rightarrow>
                    if selected_l4_proto_graft d \<in> {IPPROTO_DCCP, IPPROTO_SCTP, IPPROTO_QUIC} then t
                    else t\<lparr>to_addr := src\<rparr>
                | None \<Rightarrow> t)
      in case hk_receive MAXDATASIZE d (map_option snd r) of
           Repeat \<Rightarrow> t1
         | RecvFailed \<Rightarrow> t1\<lparr>sendto_pc := Stopped Failed\<rparr>
         | Overflow \<Rightarrow> t1\<lparr>sendto_pc := Stopped BufferOverrun\<rparr>
         | Got buffer \<Rightarrow> t1\<lparr>sendto_pc := send_pc buffer\<rparr>)"

definition sendto_send :: "bool \<Rightarrow> bytes \<Rightarrow> hk_threads \<Rightarrow> hk_threads" where
  "sendto_send sent b t =
     (if sent then t\<lparr>sendto_pc := AtRecv, sent_local := sent_local t @ [b]\<rparr>
      else t\<lparr>sendto_pc := Stopped Failed\<rparr>)"

datatype hk_event =
    ListenRecv "bytes option"
  | ListenSend send_result
  | SendtoRecv "(peer \<times> bytes) option"
  | SendtoSend bool

text \<open>One step of the process: the thread of the event is at the call of the event.\<close>

inductive hkb_step :: "hk_daemon \<Rightarrow> hk_threads \<Rightarrow> hk_event \<Rightarrow> hk_threads \<Rightarrow> bool" for d where
  listen_recv: "listen_pc t = AtRecv \<Longrightarrow> hkb_step d t (ListenRecv r) (listen_recv r t)"
| listen_send: "listen_pc t = AtSend b \<Longrightarrow> hkb_step d t (ListenSend r) (listen_send d r b t)"
| sendto_recv: "sendto_pc t = AtRecv \<Longrightarrow> hkb_step d t (SendtoRecv r) (sendto_recv d r t)"
| sendto_send: "sendto_pc t = AtSend b \<Longrightarrow> hkb_step d t (SendtoSend s) (sendto_send s b t)"

inductive_cases hkb_stepE: "hkb_step d t e t'"

inductive hkb_run :: "hk_daemon \<Rightarrow> hk_threads \<Rightarrow> hk_event list \<Rightarrow> hk_threads \<Rightarrow> bool" for d where
  start: "hkb_run d t [] t"
| snoc: "hkb_run d t es t' \<Longrightarrow> hkb_step d t' e t'' \<Longrightarrow> hkb_run d t (es @ [e]) t''"

section \<open>Main program\<close>

datatype hkb_exit =
    HkbWaiting
  | HkbUsage
  | HkbExit int hk_daemon
  | HkbThreads hk_daemon "int \<times> int \<times> int"

text \<open>The set-up is line by line that of \<open>hooker.c\<close>.\<close>

definition hkb_init_sockets :: "hk_env \<Rightarrow> int \<Rightarrow> hk_daemon \<Rightarrow> hk_call option \<times> hk_daemon" where
  "hkb_init_sockets E proto d = hk_init_sockets E proto d"

text \<open>\<open>main\<close> up to the point where both threads run; \<open>create1\<close> and \<open>create2\<close> are the results of \<open>pthread_create\<close>.\<close>

definition hkb_main :: "hk_env \<Rightarrow> int list \<Rightarrow> string list \<Rightarrow> hk_daemon \<Rightarrow> int \<Rightarrow> int \<Rightarrow> hkb_exit" where
  "hkb_main E fds argv d create1 create2 =
     (case hk_wait_map fds of
        None \<Rightarrow> HkbWaiting
      | Some mfd \<Rightarrow>
          if length argv \<noteq> 2 then HkbUsage
          else
            (case hkb_init_sockets E (arg_atoi (argv ! 1)) d of
               (c, d') \<Rightarrow>
                 if (case c of None \<Rightarrow> False | Some c' \<Rightarrow> hk_errno E c' \<noteq> 0) then HkbExit (-1) d'
                 else if hk_map_update E \<noteq> 0 then HkbExit (-1) d'
                 else if create1 \<noteq> 0 then HkbExit (-1) d'
                 else if create2 \<noteq> 0 then HkbExit (-1) d'
                 else HkbThreads d' (mfd, 0, hk_redir_fd d')))"

text \<open>
  The end of \<open>main\<close>: \<open>pthread_join\<close> waits for each thread (\<open>None\<close> while one of them is not at its end; a thread
  that ran over its buffer has no defined end), then the sockets are closed.
\<close>

definition hkb_finish :: "int \<Rightarrow> int \<Rightarrow> hk_daemon \<Rightarrow> hk_threads \<Rightarrow> (int \<times> int list) option" where
  "hkb_finish join1 join2 d t =
     (if listen_pc t \<noteq> Stopped Failed then None
      else if join1 \<noteq> 0 then Some (-1, [])
      else if sendto_pc t \<noteq> Stopped Failed then None
      else if join2 \<noteq> 0 then Some (-1, [])
      else Some (0, hk_closes d))"

section \<open>The loop of the second thread\<close>

fun hkb_sendto_app :: "hk_daemon \<Rightarrow> (bytes option \<times> bool) list \<Rightarrow> bytes list \<times> relay_end" where
  "hkb_sendto_app d [] = ([], Running)"
| "hkb_sendto_app d ((r, sent) # es) =
     (case hk_receive MAXDATASIZE d r of
        Repeat \<Rightarrow> hkb_sendto_app d es
      | RecvFailed \<Rightarrow> ([], Failed)
      | Overflow \<Rightarrow> ([], BufferOverrun)
      | Got buffer \<Rightarrow>
          (case c_strlen buffer of
             None \<Rightarrow> ([], BufferOverrun)
           | Some n \<Rightarrow>
               if \<not> sent then ([], Failed)
               else (case hkb_sendto_app d es of (out, e) \<Rightarrow> (take n buffer # out, e))))"

interpretation hkb_sendto: text_relay "hkb_sendto_app d" "sendto_turn MAXDATASIZE d" for d
proof
  show "hkb_sendto_app d (e # es) =
      (case sendto_turn MAXDATASIZE d e of Emit m \<Rightarrow> apfst (Cons m) (hkb_sendto_app d es) | Skip \<Rightarrow> hkb_sendto_app d es | Stop x \<Rightarrow> ([], x))" for e es
    by (cases e) (auto simp: sendto_turn_def buffer_effect_def split: hk_received.splits option.splits prod.splits)
qed (simp_all add: sendto_turn_ends sendto_turn_text)

section \<open>A thread follows its loop\<close>

text \<open>
  \<open>follows reads out pc\<close>: with the receive calls \<open>reads\<close> and the messages \<open>out\<close> a thread at \<open>pc\<close> is where
  the sequential loop is after some turns, and a message it holds is one that the loop would emit next.
\<close>

definition pc_end :: "thread_pc \<Rightarrow> relay_end" where
  "pc_end pc = (case pc of Stopped x \<Rightarrow> x | _ \<Rightarrow> Running)"

context relay_loop
begin

definition follows :: "bytes option list \<Rightarrow> bytes list \<Rightarrow> thread_pc \<Rightarrow> bool" where
  "follows reads out pc \<longleftrightarrow> (\<exists>turns. relay turns = (out, pc_end pc) \<and>
     (case pc of
        AtSend b \<Rightarrow> \<exists>r. reads = map fst turns @ [r] \<and> turn (r, True) = Emit b
      | _ \<Rightarrow> reads = map fst turns))"

lemma follows_start: "follows [] [] AtRecv"
  by (auto simp: follows_def pc_end_def relay_Nil intro: exI [of _ "[]"])

lemma follows_hold: "follows reads out AtRecv \<Longrightarrow> turn (r, True) = Emit b \<Longrightarrow> follows (reads @ [r]) out (AtSend b)"
  by (auto simp: follows_def pc_end_def)

lemma follows_recv:
  assumes "follows reads out AtRecv" and "turn (r, s) = Skip \<and> pc = AtRecv \<or> turn (r, s) = Stop x \<and> pc = Stopped x"
  shows "follows (reads @ [r]) out pc"
proof -
  obtain turns where t: "relay turns = (out, Running)" "reads = map fst turns"
    using assms(1) by (auto simp: follows_def pc_end_def)
  then show ?thesis
    using assms(2) relay_snoc [OF t(1), of "(r, s)"] unfolding follows_def
    by (intro exI [of _ "turns @ [(r, s)]"]) (auto simp: pc_end_def)
qed

lemma follows_sent: "follows reads out (AtSend b) \<Longrightarrow> follows reads (out @ [b]) AtRecv"
  by (force simp: follows_def pc_end_def relay_snoc intro: exI [of _ "_ @ [(_, True)]"])

lemma follows_ignored:
  assumes "follows reads out (AtSend b)" and "\<And>r. turn (r, True) = Emit b \<Longrightarrow> turn (r, False) = Skip"
  shows "follows reads out AtRecv"
  using assms by (force simp: follows_def pc_end_def relay_snoc intro: exI [of _ "_ @ [(_, False)]"])

lemma follows_failed:
  assumes "follows reads out (AtSend b)" and "\<And>r. turn (r, True) = Emit b \<Longrightarrow> turn (r, False) = Stop x"
  shows "follows reads out (Stopped x)"
  using assms by (force simp: follows_def pc_end_def relay_snoc intro: exI [of _ "_ @ [(_, False)]"])

end

section \<open>Every interleaving gives the two loops\<close>

definition listen_reads :: "hk_event list \<Rightarrow> bytes option list" where
  "listen_reads es = List.map_filter (\<lambda>e. case e of ListenRecv r \<Rightarrow> Some r | _ \<Rightarrow> None) es"

definition sendto_reads :: "hk_event list \<Rightarrow> bytes option list" where
  "sendto_reads es = List.map_filter (\<lambda>e. case e of SendtoRecv r \<Rightarrow> Some (map_option snd r) | _ \<Rightarrow> None) es"

lemma map_filter_append: "List.map_filter f (xs @ ys) = List.map_filter f xs @ List.map_filter f ys"
  by (induction xs) (simp_all add: List.map_filter_simps split: option.split)

lemmas reads_snoc = listen_reads_def sendto_reads_def map_filter_append List.map_filter_simps

lemma send_pc_cases:
  obtains (overrun) "send_pc b = Stopped BufferOverrun" "\<And>s e. buffer_effect s e b = Stop BufferOverrun"
    | (hold) c where "send_pc b = AtSend c" "\<And>e. buffer_effect True e b = Emit c" "\<And>e. buffer_effect False e b = e"
  by (cases "c_strlen b") (auto simp: send_pc_def buffer_effect_def)

lemma buffer_effect_False: "buffer_effect True e b = Emit c \<Longrightarrow> buffer_effect False e' b = e'"
  by (auto simp: buffer_effect_def split: option.splits)

lemma listen_recv_follows:
  assumes "hk_listen.follows d reads out AtRecv"
  shows "hk_listen.follows d (reads @ [r]) out (listen_pc (listen_recv r t))"
proof (cases r)
  case None
  then show ?thesis using hk_listen.follows_recv [OF assms, of None False "Stopped Failed" Failed] by (simp add: listen_recv_def hk_listen_turn_def)
next
  case (Some m)
  note u = listen_recv_def hk_listen_turn_def
  show ?thesis
    using hk_listen.follows_hold [OF assms, of r] hk_listen.follows_recv [OF assms, of r True "Stopped BufferOverrun" BufferOverrun] Some
    by (cases "recv_into MAXDATASIZE m" rule: send_pc_cases) (auto simp: u)
qed

lemma listen_send_follows:
  assumes "hk_listen.follows d reads (map snd (sent_remote t)) (AtSend b)" and "listen_pc t = AtSend b"
  shows "hk_listen.follows d reads (map snd (sent_remote (listen_send d r b t))) (listen_pc (listen_send d r b t))"
proof -
  have f: "hk_listen_turn d (q, False) = (if selected_l4_proto_graft d = IPPROTO_DCCP then Skip else Stop Failed)"
    if "hk_listen_turn d (q, True) = Emit b" for q
    using that by (auto simp: hk_listen_turn_def buffer_effect_False split: option.splits)
  show ?thesis
    using hk_listen.follows_sent [OF assms(1)] hk_listen.follows_ignored [OF assms(1)] hk_listen.follows_failed [OF assms(1), of Failed] f assms
    by (cases r) (auto simp: listen_send_def Let_def)
qed

lemma sendto_recv_follows:
  assumes "hkb_sendto.follows d reads out AtRecv" and "sendto_pc t = AtRecv"
  shows "hkb_sendto.follows d (reads @ [map_option snd r]) out (sendto_pc (sendto_recv d r t))"
proof -
  let ?r = "map_option snd r"
  have t1: "sendto_pc (sendto_recv d r t) = (case hk_receive MAXDATASIZE d ?r of
      Repeat \<Rightarrow> AtRecv | RecvFailed \<Rightarrow> Stopped Failed | Overflow \<Rightarrow> Stopped BufferOverrun | Got buffer \<Rightarrow> send_pc buffer)"
    using assms(2) by (auto simp: sendto_recv_def Let_def split: hk_received.split option.split)
  note stop = hkb_sendto.follows_recv [OF assms(1), of ?r True]
  show ?thesis
  proof (cases "hk_receive MAXDATASIZE d ?r")
    case (Got buffer)
    then show ?thesis
      using stop [of "Stopped BufferOverrun" BufferOverrun] hkb_sendto.follows_hold [OF assms(1), of ?r]
      by (cases buffer rule: send_pc_cases) (auto simp: t1 sendto_turn_def)
  qed (use stop [of AtRecv] stop [of "Stopped Failed" Failed] stop [of "Stopped BufferOverrun" BufferOverrun] in
      \<open>auto simp: t1 sendto_turn_def\<close>)
qed

lemma sendto_send_follows:
  assumes "hkb_sendto.follows d reads (sent_local t) (AtSend b)"
  shows "hkb_sendto.follows d reads (sent_local (sendto_send s b t)) (sendto_pc (sendto_send s b t))"
proof -
  have "sendto_turn MAXDATASIZE d (q, False) = Stop Failed" if "sendto_turn MAXDATASIZE d (q, True) = Emit b" for q
    using that by (auto simp: sendto_turn_def buffer_effect_False split: hk_received.splits)
  then show ?thesis
    using hkb_sendto.follows_sent [OF assms] hkb_sendto.follows_failed [OF assms, of Failed] by (simp add: sendto_send_def)
qed

text \<open>A step of one thread leaves what the other has done alone.\<close>

lemma other_thread:
  "sendto_pc (listen_recv r t) = sendto_pc t" "sent_local (listen_recv r t) = sent_local t"
  "sendto_pc (listen_send d q b t) = sendto_pc t" "sent_local (listen_send d q b t) = sent_local t"
  "sent_remote (listen_recv r t) = sent_remote t" "sent_local (sendto_recv d p t) = sent_local t"
  "listen_pc (sendto_recv d p t) = listen_pc t" "sent_remote (sendto_recv d p t) = sent_remote t"
  "listen_pc (sendto_send s b t) = listen_pc t" "sent_remote (sendto_send s b t) = sent_remote t"
  by (auto simp: listen_recv_def listen_send_def sendto_recv_def sendto_send_def Let_def
      split: send_result.split hk_received.split option.split)

lemma hkb_run_follows:
  assumes "hkb_run d t0 es t" and "t0 = threads_init"
  shows "hk_listen.follows d (listen_reads es) (map snd (sent_remote t)) (listen_pc t) \<and>
    hkb_sendto.follows d (sendto_reads es) (sent_local t) (sendto_pc t)"
  using assms
proof (induction rule: hkb_run.induct)
  case (start t)
  then show ?case using hk_listen.follows_start hkb_sendto.follows_start by (simp add: reads_snoc threads_init_def)
next
  case (snoc t es t' e t'')
  have i: "hk_listen.follows d (listen_reads es) (map snd (sent_remote t')) (listen_pc t')"
    "hkb_sendto.follows d (sendto_reads es) (sent_local t') (sendto_pc t')" using snoc by auto
  from snoc.hyps(2) show ?case
    by (rule hkb_stepE)
      (use i listen_recv_follows listen_send_follows sendto_recv_follows sendto_send_follows in
       \<open>fastforce simp: other_thread reads_snoc\<close>)+
qed

text \<open>
  C19: the threads do not disturb each other's data. Whatever the interleaving of their system calls and
  whatever these return, what was sent to the remote hooker is what the loop \<open>hk_listen_app\<close> alone sends
  for the same receive calls, and what was sent to the application is what the loop \<open>hk_sendto_app\<close> sends for
  its receive calls, in order; a thread that stopped did so for the reason its loop has, and the only
  receive call not yet accounted for is one whose message the thread holds.
\<close>

theorem hkb_threads_refine_loops:
  assumes "hkb_run d threads_init es t"
  shows "(\<exists>turns. hk_listen_app d turns = (map snd (sent_remote t), pc_end (listen_pc t)) \<and>
      (listen_reads es = map fst turns \<or> (\<exists>b r. listen_pc t = AtSend b \<and> listen_reads es = map fst turns @ [r]))) \<and>
    (\<exists>turns. hkb_sendto_app d turns = (sent_local t, pc_end (sendto_pc t)) \<and>
      (sendto_reads es = map fst turns \<or> (\<exists>b r. sendto_pc t = AtSend b \<and> sendto_reads es = map fst turns @ [r])))"
proof -
  have l: "\<exists>turns. relay turns = (out, pc_end pc) \<and> (rs = map fst turns \<or> (\<exists>b r. pc = AtSend b \<and> rs = map fst turns @ [r]))"
    if "relay_loop.follows relay turn rs out pc" "relay_loop relay turn" for relay turn rs out pc
    using that(1) by (cases pc) (auto simp: relay_loop.follows_def [OF that(2)])
  show ?thesis
    using hkb_run_follows [OF assms refl] l [OF _ hk_listen.relay_loop_axioms] l [OF _ hkb_sendto.relay_loop_axioms] by blast
qed

text \<open>
  The process only ends after a failure of the listening thread: a run in which it reads and sends
  without error never reaches the end of \<open>main\<close>, even when the other thread has stopped.
\<close>

lemma hkb_finish_failed:
  assumes "hkb_run d threads_init es t" and "hkb_finish j1 j2 d t = Some x"
  shows "\<exists>turns. hk_listen_app d turns = (map snd (sent_remote t), Failed) \<and> listen_reads es = map fst turns"
proof -
  have "listen_pc t = Stopped Failed" using assms(2) by (auto simp: hkb_finish_def split: if_splits)
  then show ?thesis using hkb_run_follows [OF assms(1) refl] by (auto simp: hk_listen.follows_def pc_end_def)
qed

section \<open>Where the datagrams go\<close>

text \<open>The sender of the last datagram before each sending call, the configured peer before the first.\<close>

fun last_source :: "peer \<Rightarrow> hk_event list \<Rightarrow> peer" where
  "last_source p [] = p"
| "last_source p (SendtoRecv (Some (src, _)) # es) = last_source src es"
| "last_source p (_ # es) = last_source p es"

fun destinations :: "peer \<Rightarrow> hk_event list \<Rightarrow> peer list" where
  "destinations p [] = []"
| "destinations p (SendtoRecv (Some (src, _)) # es) = destinations src es"
| "destinations p (ListenSend Sent # es) = p # destinations p es"
| "destinations p (_ # es) = destinations p es"

lemma last_source_snoc: "last_source p (es @ [e]) = last_source (last_source p es) [e]"
  by (induction p es rule: last_source.induct) simp_all

lemma destinations_snoc: "destinations p (es @ [e]) = destinations p es @ destinations (last_source p es) [e]"
  by (induction p es rule: destinations.induct) simp_all

definition datagrams :: "hk_daemon \<Rightarrow> bool" where
  "datagrams d \<longleftrightarrow> selected_l4_proto_graft d \<notin> {IPPROTO_DCCP, IPPROTO_SCTP, IPPROTO_QUIC}"

lemma hkb_step_destinations:
  assumes "hkb_step d t e t'" and "datagrams d"
  shows "to_addr t' = last_source (to_addr t) [e] \<and>
    map fst (sent_remote t') = map fst (sent_remote t) @ map Some (destinations (to_addr t) [e])"
  using assms(1)
proof (cases rule: hkb_step.cases)
  case (listen_recv r)
  then show ?thesis by (simp add: Hooker_Threads.listen_recv_def)
next
  case (listen_send b r)
  then show ?thesis using assms(2) by (cases r) (auto simp: Hooker_Threads.listen_send_def datagrams_def Let_def)
next
  case (sendto_recv r)
  then show ?thesis
    using assms(2)
    by (cases r) (auto simp: Hooker_Threads.sendto_recv_def datagrams_def Let_def split: hk_received.split)
next
  case (sendto_send b s)
  then show ?thesis by (simp add: Hooker_Threads.sendto_send_def)
qed

lemma hkb_run_destinations:
  assumes "hkb_run d t0 es t" and "t0 = threads_init" and "datagrams d"
  shows "to_addr t = last_source remote_peer es \<and> map fst (sent_remote t) = map Some (destinations remote_peer es)"
  using assms
proof (induction rule: hkb_run.induct)
  case (start t)
  then show ?case by (simp add: threads_init_def)
next
  case (snoc t es t' e t'')
  then show ?case using hkb_step_destinations [OF snoc.hyps(2)] by (simp add: last_source_snoc destinations_snoc)
qed

text \<open>
  Whoever sends a datagram to the hooker gets the application's data. With UDP and UDP-Lite the
  receiving thread stores the source of every datagram in the address that the other thread sends to: in
  every interleaving each message of the application goes to the host that sent the last datagram before
  the sending call, also when that datagram arrived after the message was read, and to the configured
  peer only as long as nothing arrived.
\<close>

lemma hkb_sends_to_last_source:
  assumes "hkb_run d threads_init es t" and "selected_l4_proto_graft d \<in> {0, IPPROTO_UDPLITE}"
  shows "map fst (sent_remote t) = map Some (destinations remote_peer es)"
  using hkb_run_destinations [OF assms(1) refl] assms(2) by (auto simp: datagrams_def proto_consts)

section \<open>Instances\<close>

definition intrusion :: "hk_event list" where
  "intrusion = [ListenRecv (Some [72, 105]), SendtoRecv (Some ((''10.0.0.9'', 53), [88])), ListenSend Sent, SendtoSend True]"

definition intruded :: hk_threads where
  "intruded = \<lparr>to_addr = (''10.0.0.9'', 53), listen_pc = AtRecv, sendto_pc = AtRecv,
     sent_remote = [(Some (''10.0.0.9'', 53), [72, 105])], sent_local = [[88]]\<rparr>"

lemma short_buffers:
  "send_pc (recv_into MAXDATASIZE [72, 105]) = AtSend [72, 105]" "send_pc (recv_into MAXDATASIZE [88]) = AtSend [88]"
  using recv_into_strlen [of "[72, 105]" MAXDATASIZE] recv_into_strlen [of "[88]" MAXDATASIZE]
  by (auto simp: send_pc_def MAXDATASIZE_def)

lemma intrusion_run: "hkb_run hk_daemon_init threads_init intrusion intruded"
proof -
  let ?d = hk_daemon_init and ?p = "(''10.0.0.9'', 53) :: peer"
  let ?t1 = "listen_recv (Some [72, 105]) threads_init"
  let ?t2 = "sendto_recv ?d (Some (?p, [88])) ?t1"
  let ?t3 = "listen_send ?d Sent [72, 105] ?t2"
  let ?t4 = "sendto_send True [88] ?t3"
  have r: "hk_receive MAXDATASIZE ?d (Some [88]) = Got (recv_into MAXDATASIZE [88])"
    by (simp add: hk_receive_def hk_daemon_init_def proto_consts)
  note u = listen_recv_def sendto_recv_def listen_send_def sendto_send_def threads_init_def Let_def
  have z: "selected_l4_proto_graft ?d = 0" by (simp add: hk_daemon_init_def)
  note u = u r z short_buffers proto_consts
  have "hkb_step ?d threads_init (ListenRecv (Some [72, 105])) ?t1" "hkb_step ?d ?t1 (SendtoRecv (Some (?p, [88]))) ?t2"
    "hkb_step ?d ?t2 (ListenSend Sent) ?t3" "hkb_step ?d ?t3 (SendtoSend True) ?t4"
    by (rule hkb_step.intros; simp add: u)+
  note hkb_run.snoc [OF hkb_run.snoc [OF hkb_run.snoc [OF hkb_run.snoc [OF hkb_run.start this(1)] this(2)] this(3)] this(4)]
  moreover have "?t4 = intruded"
    by (simp add: u intruded_def)
  ultimately show ?thesis by (simp add: intrusion_def)
qed

theorem hkb_threads_refine_loops_witness:
  "\<exists>turns. hk_listen_app hk_daemon_init turns = ([[72, 105]], Running) \<and> map fst turns = [Some [72, 105]]"
  using hkb_threads_refine_loops [OF intrusion_run]
  by (auto simp: intruded_def intrusion_def reads_snoc pc_end_def)

lemma hkb_sends_to_last_source_example:
  "map fst (sent_remote intruded) = [Some (''10.0.0.9'', 53)]"
  using hkb_sends_to_last_source [OF intrusion_run] by (simp add: intrusion_def hk_daemon_init_def)

end
