(* ===== verification/Vtl_Ui.thy ===== *)
theory Vtl_Ui
  imports Launcher
begin

text \<open>
  The orchestrator (\<open>ui/vtl_ui.c\<close>): the menu through which a user deploys and removes grafts and the
  hooker. What the user types, the devices that libpcap lists and the object files are parameters.
\<close>

definition BPF_TC_FILENAME :: string where "BPF_TC_FILENAME = ''../XTFsPool/egress_test_graft.o''"
definition BPF_XDP_FILENAME :: string where "BPF_XDP_FILENAME = ''../XTFsPool/ingress_test_graft.o''"
definition BPF_HOOKER_FILENAME :: string where "BPF_HOOKER_FILENAME = ''../XTFsPool/hooker_test_progs.o''"

definition INPUT_MODE :: int where "INPUT_MODE = 1"
definition OUTPUT_MODE :: int where "OUTPUT_MODE = 2"
definition START_HOOKER :: int where "START_HOOKER = 3"
definition STOP_HOOKER :: int where "STOP_HOOKER = 3"

text \<open>
  One turn of the menu: the numbers typed for the menu, the mode and the device, and the character after
  the operation; \<open>None\<close> when \<open>scanf\<close> does not read it.
\<close>

record ui_turn =
  menu_start :: "int option"
  menu_mode :: "int option"
  device_num :: "int option"
  menu_char :: "char option"

text \<open>
  \<open>select_interface\<close>: the names are copied into 100 fields of 100 bytes, of which the first is left
  out, and the chosen one into 20 bytes. The inner \<open>None\<close> is \<open>exit(1)\<close> when there is no device list.
\<close>

definition select_interface :: "string list option \<Rightarrow> int option \<Rightarrow> launch_fault + string option" where
  "select_interface devices num =
     (case devices of
        None \<Rightarrow> Inr None
      | Some devs \<Rightarrow>
          if 100 \<le> length devs \<or> (\<exists>d\<in>set devs. 100 \<le> length d) then Inl BadIndex
          else
            (case num of
               None \<Rightarrow> Inl Uninitialised
             | Some n \<Rightarrow>
                 if n < 0 \<or> 100 \<le> n then Inl BadIndex
                 else if n = 0 \<or> int (length devs) < n then Inl Uninitialised
                 else if 20 \<le> length (devs ! (nat n - 1)) then Inl BadIndex
                 else Inr (Some (devs ! (nat n - 1)))))"

text \<open>An operation on the selected interface; the result \<open>None\<close> is \<open>exit(1)\<close>.\<close>

type_synonym ui_result = "launch_fault + (int option \<times> lstate)"

definition on_interface :: "string list option \<Rightarrow> int option \<Rightarrow> lstate \<Rightarrow> (string \<Rightarrow> ui_result) \<Rightarrow> ui_result" where
  "on_interface devices num s f =
     (case select_interface devices num of
        Inl e \<Rightarrow> Inl e
      | Inr None \<Rightarrow> Inr (None, s)
      | Inr (Some interface) \<Rightarrow> f interface)"

definition deploy_file :: "lenv \<Rightarrow> (string \<Rightarrow> elf option) \<Rightarrow> string \<Rightarrow> string \<Rightarrow> lstate \<Rightarrow> ui_result" where
  "deploy_file E objects path interface s =
     (case launcher_load_graft_file E (objects path) path interface s of
        Inl e \<Rightarrow> Inl e
      | Inr (ret, s1) \<Rightarrow> if ret \<noteq> 0 then Inr (Some (-1), s1) else Inr (Some 0, s1))"

definition mount_bpf :: hcall where
  "mount_bpf = System ''mount -t bpf bpf /sys/fs/bpf/''"

definition deploy_tf :: "lenv \<Rightarrow> (string \<Rightarrow> elf option) \<Rightarrow> string list option \<Rightarrow> int \<Rightarrow> int option \<Rightarrow> lstate \<Rightarrow> ui_result" where
  "deploy_tf E objects devices mode num s =
     (if mode = INPUT_MODE then
        on_interface devices num s (\<lambda>interface. deploy_file E objects BPF_XDP_FILENAME interface (call_all E [mount_bpf] s))
      else if mode = OUTPUT_MODE then
        on_interface devices num s (\<lambda>interface. deploy_file E objects BPF_TC_FILENAME interface s)
      else if mode = START_HOOKER then
        on_interface devices num s (\<lambda>interface. deploy_file E objects BPF_HOOKER_FILENAME interface (call_all E [mount_bpf] s))
      else Inr (Some (-1), s))"

definition removed :: "lresult \<Rightarrow> ui_result" where
  "removed r = (case r of Inl e \<Rightarrow> Inl e | Inr (ret, s) \<Rightarrow> if ret < 0 then Inr (Some (-1), s) else Inr (Some 0, s))"

definition remove_tf :: "lenv \<Rightarrow> string list option \<Rightarrow> int \<Rightarrow> int option \<Rightarrow> lstate \<Rightarrow> ui_result" where
  "remove_tf E devices mode num s =
     (if mode = INPUT_MODE then
        on_interface devices num s (\<lambda>interface.
          removed (launcher_unload_ingress_tf E interface ((0 AND NOT XDP_MODES) OR SKB_MODE) s))
      else if mode = OUTPUT_MODE then
        on_interface devices num s (\<lambda>interface. removed (launcher_unload_egress_tf E interface 1 s))
      else if mode = STOP_HOOKER then
        on_interface devices num s (\<lambda>interface.
          case launcher_unload_hooker_progs E s of
            Inl e \<Rightarrow> Inl e
          | Inr (_, s1) \<Rightarrow> removed (launcher_unload_listerner_tf E interface 0 s1))
      else Inr (Some (-1), s))"

definition clear_screen :: "lenv \<Rightarrow> lstate \<Rightarrow> lstate" where
  "clear_screen E s = call_all E [System ''clear''] s"

text \<open>
  One turn of the loop of \<open>main\<close>: whether it goes on, and the state. After a successful operation the
  user leaves with \<open>E\<close>; a failed operation ends the program.
\<close>

definition goes_on :: "int \<Rightarrow> char option \<Rightarrow> bool" where
  "goes_on ret c \<longleftrightarrow> 0 \<le> ret \<and> c \<noteq> Some CHR ''E''"

definition ui_step :: "lenv \<Rightarrow> (string \<Rightarrow> elf option) \<Rightarrow> string list option \<Rightarrow> ui_turn \<Rightarrow> lstate \<Rightarrow> launch_fault + (bool \<times> lstate)" where
  "ui_step E objects devices t s =
     (let s0 = clear_screen E s in
      case menu_start t of
        None \<Rightarrow> Inl Uninitialised
      | Some choice \<Rightarrow>
          if choice = 1 then
            (case menu_mode t of
               None \<Rightarrow> Inl Uninitialised
             | Some mode \<Rightarrow>
                 (case deploy_tf E objects devices mode (device_num t) s0 of
                    Inl e \<Rightarrow> Inl e
                  | Inr (None, s1) \<Rightarrow> Inr (False, s1)
                  | Inr (Some ret, s1) \<Rightarrow> Inr (goes_on ret (menu_char t), s1)))
          else if choice = 2 then
            (case menu_mode t of
               None \<Rightarrow> Inl Uninitialised
             | Some mode \<Rightarrow>
                 (case remove_tf E devices mode (device_num t) s0 of
                    Inl e \<Rightarrow> Inl e
                  | Inr (None, s1) \<Rightarrow> Inr (False, s1)
                  | Inr (Some ret, s1) \<Rightarrow>
                      Inr (goes_on ret (menu_char t), if 0 \<le> ret \<and> menu_char t \<noteq> None then clear_screen E s1 else s1)))
          else Inr (choice \<noteq> 3, s0))"

fun ui_loop :: "lenv \<Rightarrow> (string \<Rightarrow> elf option) \<Rightarrow> string list option \<Rightarrow> ui_turn list \<Rightarrow> lstate \<Rightarrow> launch_fault + lstate" where
  "ui_loop E objects devices [] s = Inr s"
| "ui_loop E objects devices (t # ts) s =
     (case ui_step E objects devices t s of
        Inl e \<Rightarrow> Inl e
      | Inr (False, s1) \<Rightarrow> Inr s1
      | Inr (True, s1) \<Rightarrow> ui_loop E objects devices ts s1)"

definition ui_main :: "lenv \<Rightarrow> (string \<Rightarrow> elf option) \<Rightarrow> string list option \<Rightarrow> ui_turn list \<Rightarrow> lstate \<Rightarrow> launch_fault + lstate" where
  "ui_main E objects devices ts s = ui_loop E objects devices ts (clear_screen E s)"

section \<open>The tables over a session\<close>

text \<open>
  What every operation keeps: the sizes of the tables, the count of programs within its table, and that
  the count does not decrease.
\<close>

definition keeps :: "lstate \<Rightarrow> lstate \<Rightarrow> bool" where
  "keeps s s' \<longleftrightarrow> length (progs_fd s') = length (progs_fd s) \<and> length (maps_fd s') = length (maps_fd s) \<and>
     length (maps_data s') = length (maps_data s) \<and> progs_count s \<le> progs_count s' \<and>
     (progs_count s \<le> length (progs_fd s) \<longrightarrow> progs_count s' \<le> length (progs_fd s'))"

lemma keeps_refl [simp]: "keeps s s"
  by (simp add: keeps_def)

lemma keeps_trans: "keeps s s1 \<Longrightarrow> keeps s1 s2 \<Longrightarrow> keeps s s2"
  by (auto simp: keeps_def)

lemma keeps_fields [simp]:
  "keeps s (call_all E cs s') = keeps s s'" "keeps s (s'\<lparr>trace := tr\<rparr>) = keeps s s'" "keeps s (s'\<lparr>cg_fd := x\<rparr>) = keeps s s'"
  "keeps s (s'\<lparr>processed_sec := ps\<rparr>) = keeps s s'" "keeps s (s'\<lparr>license := l\<rparr>) = keeps s s'"
  "keeps s (s'\<lparr>maps_data_count := n\<rparr>) = keeps s s'" "keeps s (s'\<lparr>prog_array_fd := z\<rparr>) = keeps s s'"
  "keeps (s\<lparr>trace := tr\<rparr>) s' = keeps s s'" "keeps (call_all E cs s) s' = keeps s s'"
  "keeps (s\<lparr>license := l\<rparr>) s' = keeps s s'" "keeps (s\<lparr>processed_sec := ps\<rparr>) s' = keeps s s'"
  "keeps (s\<lparr>maps_data_count := n\<rparr>) s' = keeps s s'"
  by (simp_all add: keeps_def)

lemma keeps_via: "via f s = (r, s') \<Longrightarrow> keeps s s'"
  by (simp add: keeps_def)

lemma keeps_add_prog: "add_prog fd s = Inr s' \<Longrightarrow> keeps s s'"
  by (auto simp: add_prog_def keeps_def split: if_splits)

lemma keeps_load_egress: "launcher_load_egress_tf E path ifn sec s = Inr (r, s') \<Longrightarrow> keeps s s'"
  by (auto simp: launcher_load_egress_tf_def split: prod.splits if_splits dest: keeps_via)

lemma keeps_load_ingress: "launcher_load_ingress_tf E path ifn sec flags s = Inr (r, s') \<Longrightarrow> keeps s s'"
  by (auto simp: launcher_load_ingress_tf_def Let_def
      split: sum.splits prod.splits option.splits if_splits dest!: keeps_add_prog)

lemma keeps_load_listener:
  assumes "launcher_load_listener_tf E path sec prog ifn flags s = Inr (r, s')"
  shows "keeps s s'"
  using assms
  by (auto simp: launcher_load_listener_tf_def Let_def split: sum.splits prod.splits if_splits
      dest!: keeps_add_prog keeps_via intro: keeps_trans)

lemma keeps_attach:
  "attach_sockops E fd s = (r, s') \<Longrightarrow> keeps s s'" "attach_redirector E c fd s = (r, s') \<Longrightarrow> keeps s s'"
  by (auto simp: attach_sockops_def attach_redirector_def attach_sockmap_def via_def invoke_def Let_def
      split: option.splits if_splits)

lemma keeps_load_hooker:
  assumes "launcher_load_hooker_progs E sec prog s = Inr (r, s')"
  shows "keeps s s'"
proof -
  have "keeps s s1" if h: "load_hooker_prog E b number prog s = Inr (r, s1)" for b number s1
  proof (cases "progs_count s = MAX_TF_PROGS")
    case True
    then show ?thesis using h by (simp add: load_hooker_prog_def)
  next
    case False
    let ?ty = "if b then SOCK_OPS else redirector_type (hd number)"
    obtain fd t where l: "via (invoke E (LoadProgram ?ty prog (length prog div 8) (license s))) s = (fd, t)"
      by (metis prod.exhaust)
    note t = keeps_via [OF l]
    show ?thesis
    proof (cases "fd < 0")
      case True
      then show ?thesis using h False l t by (simp add: load_hooker_prog_def Let_def)
    next
      case nonneg: False
      obtain u where u: "add_prog fd t = Inr u"
        using h False nonneg l by (auto simp: load_hooker_prog_def Let_def split: sum.splits)
      obtain ret v where v: "(if b then attach_sockops E fd u else attach_redirector E (hd number) fd u) = (ret, v)"
        by (metis prod.exhaust)
      have "keeps u v" using v keeps_attach by (cases b) auto
      then have "keeps s v" using t keeps_add_prog [OF u] keeps_trans by blast
      then show ?thesis using h False nonneg l u v
        by (auto simp: load_hooker_prog_def populate_prog_array_def Let_def split: if_splits)
    qed
  qed
  then show ?thesis using assms by (auto simp: launcher_load_hooker_progs_def split: sum.splits)
qed

lemma keeps_load_section: "load_section E path ifn shname data s = Some (Inr (r, s')) \<Longrightarrow> keeps s s'"
  by (auto simp: load_section_def split: if_splits
      dest: keeps_load_egress keeps_load_ingress keeps_load_listener keeps_load_hooker)

lemma keeps_load_secs: "load_secs E F path ifn is ret s = Inr (r, s') \<Longrightarrow> keeps s s'"
proof (induction "is" arbitrary: ret s)
  case Nil
  then show ?case by simp
next
  case (Cons i "is")
  then show ?case
    by (auto split: if_splits sum.splits prod.splits option.splits dest: keeps_load_section intro: keeps_trans)
qed

lemma keeps_load_map: "load_map E fixup i s = Inr (r, s') \<Longrightarrow> keeps s s'"
  by (auto simp: load_map_def Let_def via_def invoke_def split: if_splits sum.splits) (simp_all add: keeps_def)

lemma keeps_load_maps: "load_maps E fixup is s = Inr (r, s') \<Longrightarrow> keeps s s'"
proof (induction "is" arbitrary: s)
  case Nil
  then show ?case by simp
next
  case (Cons i "is")
  then show ?case
    by (auto split: sum.splits prod.splits option.splits dest: keeps_load_map intro: keeps_trans)
qed

lemma keeps_scan_secs: "scan_secs F is s sc = Inr (ok, s', sc') \<Longrightarrow> keeps s s'"
proof (induction "is" arbitrary: s sc)
  case Nil
  then show ?case by simp
next
  case (Cons i "is")
  have m: "mark_sec i s = Inr s1 \<Longrightarrow> keeps s s1" for s1
    by (auto simp: mark_sec_def split: if_splits)
  have d: "keeps s (s\<lparr>maps_data := map f (maps_data s)\<rparr>)" for f by (simp add: keeps_def)
  show ?case
    using Cons.prems
    by (auto split: if_splits sum.splits prod.splits dest!: Cons.IH m intro: keeps_trans d)
qed

lemma keeps_relo_secs: "relo_secs symbols n is F s = Inr (F', s') \<Longrightarrow> keeps s s'"
proof (induction "is" arbitrary: F s)
  case Nil
  then show ?case by simp
next
  case (Cons i "is")
  show ?case
    using Cons.prems
    by (auto simp: Let_def split: if_splits sum.splits prod.splits dest!: Cons.IH)
qed

lemma keeps_relocate_and_load: "relocate_and_load E F path ifn symbols n s = Inr (r, s') \<Longrightarrow> keeps s s'"
  by (auto simp: relocate_and_load_def split: sum.splits prod.splits dest!: keeps_relo_secs keeps_load_secs intro: keeps_trans)

lemma keeps_load_graft_file:
  assumes "launcher_load_graft_file E obj path ifn s = Inr (r, s')"
  shows "keeps s s'"
proof (cases obj)
  case None
  then show ?thesis using assms by (auto simp: launcher_load_graft_file_def)
next
  case (Some F)
  let ?s0 = "s\<lparr>license := replicate LICENSE_SIZE 0, processed_sec := replicate SEC_FLAGS False\<rparr>"
  obtain ok s1 sc where sc: "scan_secs F [1..<length (elf_secs F)] ?s0 \<lparr>sc_maps_shndx = -1, sc_symbols = None, sc_strtabidx = 0\<rparr>
      = Inr (ok, s1, sc)"
    using assms Some by (auto simp: launcher_load_graft_file_def Let_def split: sum.splits)
  have k1: "keeps s s1" using keeps_scan_secs [OF sc] by simp
  have mark: "keeps u v" if "mark_sec i u = Inr v" for i u v using that by (auto simp: mark_sec_def split: if_splits)
  have maps: "keeps s (s1\<lparr>maps_data := ms\<rparr>)"
    if "load_elf_maps_section F b (maps_data s1) i symbols j = Inr (n, ms)" for b i symbols j n ms
    using k1 load_elf_maps_length [OF that] by (auto simp: keeps_def)
  show ?thesis
    using assms Some sc k1
    by (auto simp: launcher_load_graft_file_def Let_def split: if_splits option.splits sum.splits prod.splits
        dest!: keeps_relocate_and_load keeps_load_maps mark maps intro: keeps_trans) (meson keeps_trans)
qed

lemma keeps_unload:
  "launcher_unload_ingress_tf E ifn flags s = Inr (r, s') \<Longrightarrow> keeps s s'"
  "launcher_unload_listerner_tf E ifn flags s = Inr (r, s') \<Longrightarrow> keeps s s'"
  "launcher_unload_egress_tf E ifn n s = Inr (r, s') \<Longrightarrow> keeps s s'"
  "launcher_unload_hooker_progs E s = Inr (r, s') \<Longrightarrow> keeps s s'"
  by (auto simp: launcher_unload_ingress_tf_def launcher_unload_listerner_tf_def launcher_unload_egress_tf_def
      launcher_unload_hooker_progs_def split: prod.splits if_splits dest!: keeps_via intro: keeps_trans)

lemma keeps_removed: "removed x = Inr (r, s') \<Longrightarrow> (\<And>r s'. x = Inr (r, s') \<Longrightarrow> keeps s s') \<Longrightarrow> keeps s s'"
  by (auto simp: removed_def split: sum.splits if_splits)

lemma keeps_on_interface:
  "on_interface devices num s f = Inr (r, s') \<Longrightarrow> (\<And>i r s'. f i = Inr (r, s') \<Longrightarrow> keeps s s') \<Longrightarrow> keeps s s'"
  by (auto simp: on_interface_def split: sum.splits option.splits)

lemma keeps_deploy_file: "deploy_file E objects path ifn s = Inr (r, s') \<Longrightarrow> keeps s s'"
  by (auto simp: deploy_file_def split: sum.splits if_splits dest: keeps_load_graft_file)

lemma keeps_deploy: "deploy_tf E objects devices mode num s = Inr (r, s') \<Longrightarrow> keeps s s'"
  by (auto simp: deploy_tf_def split: if_splits elim!: keeps_on_interface dest!: keeps_deploy_file)

lemma keeps_remove: "remove_tf E devices mode num s = Inr (r, s') \<Longrightarrow> keeps s s'"
  by (auto simp: remove_tf_def split: if_splits sum.splits elim!: keeps_on_interface keeps_removed
      dest!: keeps_unload intro: keeps_trans)

lemma keeps_ui_step: "ui_step E objects devices t s = Inr (b, s') \<Longrightarrow> keeps s s'"
  by (auto simp: ui_step_def clear_screen_def Let_def split: if_splits option.splits sum.splits prod.splits
      dest!: keeps_deploy keeps_remove)

lemma keeps_ui_loop: "ui_loop E objects devices ts s = Inr s' \<Longrightarrow> keeps s s'"
proof (induction ts arbitrary: s)
  case Nil
  then show ?case by simp
next
  case (Cons t ts)
  then show ?case by (auto split: sum.splits prod.splits bool.splits dest: keeps_ui_step intro: keeps_trans)
qed


text \<open>An object file with a symbol table and an ingress function.\<close>

definition ingress_elf :: elf where
  "ingress_elf =
     (let sec = (\<lambda>n ty fl sz d. Some \<lparr>sec_shdr = Some \<lparr>sh_type = ty, sh_flags = fl, sh_size = sz, sh_entsize = 0,
                    sh_link = 1, sh_info = 0\<rparr>, sec_shname = Some n, sec_data = [d]\<rparr>)
      in \<lparr>elf_secs = [None, sec ''.symtab'' 2 0 24 (replicate 24 0), sec ''ingress_tf_sec'' 1 6 8 (replicate 8 0)],
          elf_strptr = (\<lambda>_ _. Some ''M''), gelf_getrel = (\<lambda>_ _. None), gelf_getsym = (\<lambda>_ _. None)\<rparr>)"

definition sample_session :: "ui_turn list" where
  "sample_session =
     [\<lparr>menu_start = Some 1, menu_mode = Some 1, device_num = Some 1, menu_char = Some CHR ''M''\<rparr>,
      \<lparr>menu_start = Some 2, menu_mode = Some 1, device_num = Some 1, menu_char = Some CHR ''M''\<rparr>,
      \<lparr>menu_start = Some 3, menu_mode = None, device_num = None, menu_char = None\<rparr>]"


end
