(* ===== verification/Net_Monitor.thy ===== *)
theory Net_Monitor
  imports VTL_Prelude
begin

text \<open>
  The network monitor (\<open>net_monitor/net_monitor.c\<close>): round-trip times and loss rate, measured by running
  \<open>ping\<close> and text tools through the shell and reading numbers back from the files they write. The shell
  and the file system are a parameter whose answers may depend on all calls made before; \<open>atof\<close>, whose
  result is a \<open>double\<close>, is a parameter too.
\<close>

section \<open>Numbers and texts\<close>

definition digit :: "nat \<Rightarrow> char" where
  "digit n = char_of (48 + n)"

fun dec :: "nat \<Rightarrow> string" where
  "dec n = (if n < 10 then [digit n] else dec (n div 10) @ [digit (n mod 10)])"

declare dec.simps [simp del]

text \<open>\<open>%d\<close>, and \<open>%f\<close> of \<open>period/(double)10\<close> for a 32-bit \<open>period\<close> (six decimals, of which five are zero).\<close>

definition print_d :: "u32 \<Rightarrow> string" where
  "print_d x = (if sint x < 0 then ''-'' @ dec (nat (- sint x)) else dec (nat (sint x)))"

definition print_tenths :: "u32 \<Rightarrow> string" where
  "print_tenths x = dec (unat x div 10) @ ''.'' @ [digit (unat x mod 10)] @ ''00000''"

text \<open>\<open>snprintf\<close> into a buffer of \<open>n\<close> bytes cuts the text to \<open>n - 1\<close> characters.\<close>

definition snprintf :: "nat \<Rightarrow> string \<Rightarrow> string" where
  "snprintf n txt = take (n - 1) txt"

definition ping_cmd :: "string \<Rightarrow> u32 \<Rightarrow> string" where
  "ping_cmd target period =
     snprintf 2048 (''ping -i '' @ print_tenths period @ '' -w '' @ print_d period @ '' '' @ target @ '' > .temp.txt'')"

definition rtt_cmd :: "nat \<Rightarrow> string" where
  \<open>rtt_cmd i = snprintf 2048
     (''cat .temp.txt | grep rtt | cut -d "=" -f 2 | cut -d "/" -f '' @ print_d (word_of_nat i) @ '' > .rtt'')\<close>

definition loss_cmd :: string where
  \<open>loss_cmd = snprintf 2048 ''cat .temp.txt | grep loss | cut -d "," -f3 | cut -d "%" -f1 > .loss''\<close>

text \<open>
  \<open>atoi\<close>: white space, a sign, digits. The value is that of \<open>strtol\<close>, bounded by the range of \<open>long\<close> and
  then converted to 32 bits; \<open>None\<close> when the digits reach the end of the array, which has no terminator.
\<close>

definition is_space :: "char \<Rightarrow> bool" where
  "is_space ch \<longleftrightarrow> ch = CHR '' '' \<or> 9 \<le> (of_char ch :: nat) \<and> (of_char ch :: nat) \<le> 13"

definition is_digit :: "char \<Rightarrow> bool" where
  "is_digit ch \<longleftrightarrow> 48 \<le> (of_char ch :: nat) \<and> (of_char ch :: nat) \<le> 57"

definition digits_value :: "string \<Rightarrow> nat" where
  "digits_value ds = foldl (\<lambda>v ch. 10 * v + (of_char ch - 48)) 0 ds"

definition clamp_long :: "int \<Rightarrow> int" where
  "clamp_long v = max (- (2 ^ 63)) (min v (2 ^ 63 - 1))"

definition atoi :: "string \<Rightarrow> u32 option" where
  "atoi c =
     (let t = dropWhile is_space c;
          (neg, u) = (case t of [] \<Rightarrow> (False, [])
                      | ch # r \<Rightarrow> if ch = CHR ''-'' then (True, r) else if ch = CHR ''+'' then (False, r) else (False, t));
          ds = takeWhile is_digit u;
          v = int (digits_value ds)
      in if length ds = length u then None else Some (word_of_int (clamp_long (if neg then - v else v))))"

section \<open>The environment\<close>

datatype nm_call = NmSystem string | NmOpen string | NmClose string

record nm_env =
  nm_system :: "nm_call list \<Rightarrow> string \<Rightarrow> int"
  nm_file :: "nm_call list \<Rightarrow> string \<Rightarrow> string option"

text \<open>The array \<open>c\<close> after \<open>fread(&c, 1, 256, temp)\<close>: what the file does not fill stays as it was.\<close>

definition C_SIZE :: nat where "C_SIZE = 256"

definition fread_c :: "string \<Rightarrow> string \<Rightarrow> string" where
  "fread_c txt c = take C_SIZE txt @ drop (length (take C_SIZE txt)) c"

record 'd vtl_rtt_t =
  rtt_min :: 'd
  rtt_avg :: 'd
  rtt_max :: 'd

record 'd vtl_stat_t =
  rtt :: "'d vtl_rtt_t"
  loss_rate :: u32

datatype nm_stop = Exit int | OverRead

section \<open>Operations\<close>

text \<open>\<open>Inl\<close> is the end of the program, \<open>exit(0)\<close>.\<close>

definition send_pings :: "nm_env \<Rightarrow> string \<Rightarrow> u32 \<Rightarrow> nm_call list \<Rightarrow> nm_stop + nm_call list" where
  "send_pings E target period tr =
     (let cmd = ping_cmd target period; tr1 = tr @ [NmSystem cmd]
      in if nm_system E tr cmd = -1 then Inl (Exit 0) else Inr tr1)"

function rtt_loop ::
    "nm_env \<Rightarrow> (string \<Rightarrow> 'd) \<Rightarrow> nat \<Rightarrow> 'd vtl_rtt_t \<Rightarrow> string \<Rightarrow> nm_call list \<Rightarrow>
     nm_stop + ('d vtl_rtt_t \<times> string \<times> nm_call list)" where
  "rtt_loop E atof i r c tr =
     (if i \<le> 3 then
        (let cmd = rtt_cmd i; tr1 = tr @ [NmSystem cmd] in
         if nm_system E tr cmd = -1 then Inl (Exit 0)
         else (case nm_file E tr1 ''.rtt'' of
                 None \<Rightarrow> Inl (Exit 0)
               | Some txt \<Rightarrow>
                   (let c1 = fread_c txt c;
                        c_double = atof c1;
                        r1 = (if i = 1 then r\<lparr>rtt_min := c_double\<rparr> else if i = 2 then r\<lparr>rtt_avg := c_double\<rparr>
                              else if i = 3 then r\<lparr>rtt_max := c_double\<rparr> else r)
                    in rtt_loop E atof (Suc i) r1 c1 (tr1 @ [NmOpen ''.rtt'', NmSystem ''rm .rtt'', NmClose ''.rtt'']))))
      else Inr (r, c, tr))"
  by pat_completeness auto
termination
  by (relation "measure (\<lambda>(E, atof, i, r, c, tr). 4 - i)") auto

declare rtt_loop.simps [simp del]

definition read_loss :: "nm_env \<Rightarrow> string \<Rightarrow> nm_call list \<Rightarrow> nm_stop + (u32 \<times> nm_call list)" where
  "read_loss E c tr =
     (let tr1 = tr @ [NmSystem loss_cmd] in
      if nm_system E tr loss_cmd = -1 then Inl (Exit 0)
      else (case nm_file E tr1 ''.loss'' of
              None \<Rightarrow> Inl (Exit 0)
            | Some txt \<Rightarrow>
                (case atoi (fread_c txt c) of
                   None \<Rightarrow> Inl OverRead
                 | Some c_int \<Rightarrow> Inr (c_int, tr1 @ [NmOpen ''.loss'', NmSystem ''rm .loss'', NmSystem ''rm .temp.txt'']))))"

text \<open>The uninitialised \<open>c\<close> and result structure are arguments.\<close>

definition nm_report_rtt ::
    "nm_env \<Rightarrow> (string \<Rightarrow> 'd) \<Rightarrow> 'd vtl_rtt_t \<Rightarrow> string \<Rightarrow> string \<Rightarrow> u32 \<Rightarrow> nm_stop + ('d vtl_rtt_t \<times> nm_call list)" where
  "nm_report_rtt E atof r0 c0 target period =
     (case send_pings E target period [] of
        Inl e \<Rightarrow> Inl e
      | Inr tr \<Rightarrow>
          (case rtt_loop E atof 1 r0 c0 tr of
             Inl e \<Rightarrow> Inl e
           | Inr (r, c, tr1) \<Rightarrow> Inr (r, tr1 @ [NmSystem ''rm .temp.txt''])))"

definition nm_report_loss :: "nm_env \<Rightarrow> string \<Rightarrow> string \<Rightarrow> u32 \<Rightarrow> nm_stop + (u32 \<times> nm_call list)" where
  "nm_report_loss E c0 target period =
     (case send_pings E target period [] of Inl e \<Rightarrow> Inl e | Inr tr \<Rightarrow> read_loss E c0 tr)"

definition nm_report_stats ::
    "nm_env \<Rightarrow> (string \<Rightarrow> 'd) \<Rightarrow> 'd vtl_rtt_t \<Rightarrow> string \<Rightarrow> string \<Rightarrow> u32 \<Rightarrow> nm_stop + ('d vtl_stat_t \<times> nm_call list)" where
  "nm_report_stats E atof r0 c0 target period =
     (case send_pings E target period [] of
        Inl e \<Rightarrow> Inl e
      | Inr tr \<Rightarrow>
          (case rtt_loop E atof 1 r0 c0 tr of
             Inl e \<Rightarrow> Inl e
           | Inr (r, c, tr1) \<Rightarrow>
               (case read_loss E c tr1 of
                  Inl e \<Rightarrow> Inl e
                | Inr (c_int, tr2) \<Rightarrow> Inr (\<lparr>rtt = r, loss_rate = c_int\<rparr>, tr2))))"

section \<open>Reading numbers back\<close>

lemma of_digit: "n < 10 \<Longrightarrow> of_char (digit n) = 48 + n"
  by (simp add: digit_def of_char_of)

lemma is_digit_dec: "\<forall>ch\<in>set (dec n). is_digit ch"
  by (induction n rule: dec.induct) (subst dec.simps, auto simp: is_digit_def of_digit)

lemma dec_not_Nil: "dec n \<noteq> []"
  by (subst dec.simps) simp

lemma digits_value_append: "digits_value (xs @ [ch]) = 10 * digits_value xs + (of_char ch - 48)"
  by (simp add: digits_value_def)

lemma digits_value_dec: "digits_value (dec n) = n"
proof (induction n rule: dec.induct)
  case (1 n)
  show ?case
  proof (cases "n < 10")
    case True
    then show ?thesis by (subst dec.simps) (simp add: digits_value_def of_digit)
  next
    case False
    then have "dec n = dec (n div 10) @ [digit (n mod 10)]" by (subst dec.simps) simp
    then show ?thesis using 1 [OF False] by (simp add: digits_value_append of_digit)
  qed
qed

lemma digit_kinds: "is_digit ch \<Longrightarrow> \<not> is_space ch \<and> ch \<noteq> CHR ''-'' \<and> ch \<noteq> CHR ''+''"
  by (auto simp: is_digit_def is_space_def)

text \<open>A number with white space, and possibly a plus sign, before it and something else behind it.\<close>

lemma atoi_dec:
  assumes "\<forall>ch\<in>set sp. is_space ch" and "sg = [] \<or> sg = ''+''" and "\<not> is_digit x" and "k < 2 ^ 63"
  shows "atoi (sp @ sg @ dec k @ x # rest) = Some (word_of_nat k)"
proof -
  obtain a as where d: "dec k = a # as" using dec_not_Nil by (cases "dec k") auto
  have a: "is_digit a" using is_digit_dec [of k] d by simp
  have t: "takeWhile is_digit (dec k @ x # rest) = dec k"
    using is_digit_dec [of k] assms(3) by (simp add: takeWhile_append2)
  have p: "\<not> is_space CHR ''+''" by (simp add: is_space_def)
  have w: "dropWhile is_space (sp @ sg @ dec k @ x # rest) = sg @ dec k @ x # rest"
    using assms(1,2) d digit_kinds [OF a] p by (auto simp: dropWhile_append2)
  have "clamp_long (int k) = int k" using assms(4) by (simp add: clamp_long_def)
  then show ?thesis
    using assms(2) t d digit_kinds [OF a] digits_value_dec [of k] unfolding atoi_def w by (auto simp: Let_def)
qed

lemma fread_c_small: "length txt \<le> C_SIZE \<Longrightarrow> fread_c txt c = txt @ drop (length txt) c"
  by (simp add: fread_c_def)

section \<open>Properties\<close>

text \<open>
  A shell that runs the commands: after the command for field \<open>i\<close> of the round-trip times the file holds
  \<open>rt i\<close>, and after the command for the loss it holds \<open>lt\<close>.
\<close>

definition serves :: "nm_env \<Rightarrow> (nat \<Rightarrow> string) \<Rightarrow> string \<Rightarrow> bool" where
  "serves E rt lt \<longleftrightarrow> (\<forall>tr cmd. nm_system E tr cmd \<noteq> -1) \<and>
     (\<forall>tr i. nm_file E (tr @ [NmSystem (rtt_cmd i)]) ''.rtt'' = Some (rt i)) \<and>
     (\<forall>tr. nm_file E (tr @ [NmSystem loss_cmd]) ''.loss'' = Some lt)"

definition rtt_turn :: "nat \<Rightarrow> nm_call list" where
  "rtt_turn i = [NmSystem (rtt_cmd i), NmOpen ''.rtt'', NmSystem ''rm .rtt'', NmClose ''.rtt'']"

lemma rtt_loop_serves:
  assumes "serves E rt lt"
  shows "rtt_loop E atof 1 r0 c0 tr =
    Inr (\<lparr>rtt_min = atof (fread_c (rt 1) c0), rtt_avg = atof (fread_c (rt 2) (fread_c (rt 1) c0)),
          rtt_max = atof (fread_c (rt 3) (fread_c (rt 2) (fread_c (rt 1) c0)))\<rparr>,
         fread_c (rt 3) (fread_c (rt 2) (fread_c (rt 1) c0)), tr @ rtt_turn 1 @ rtt_turn 2 @ rtt_turn 3)"
proof -
  have e: "nm_system E t cmd \<noteq> -1" "nm_file E (t @ [NmSystem (rtt_cmd i)]) ''.rtt'' = Some (rt i)" for t cmd i
    using assms by (auto simp: serves_def)
  have s: "rtt_loop E atof i r c t =
      (if i = 4 then Inr (r, c, t)
       else rtt_loop E atof (Suc i)
         (if i = 1 then r\<lparr>rtt_min := atof (fread_c (rt i) c)\<rparr> else if i = 2 then r\<lparr>rtt_avg := atof (fread_c (rt i) c)\<rparr>
          else if i = 3 then r\<lparr>rtt_max := atof (fread_c (rt i) c)\<rparr> else r) (fread_c (rt i) c) (t @ rtt_turn i))"
    if "i \<le> 4" for i r c t
    using that e by (subst rtt_loop.simps) (simp add: Let_def rtt_turn_def)
  have n: "Suc 1 = 2" "Suc 2 = 3" "Suc 3 = (4 :: nat)" by simp_all
  show ?thesis
    using s [of 1 r0 c0 tr] unfolding n by (simp add: s [of 2] s [of 3] s [of 4] n)
qed

text \<open>
  What the monitor reports. When the shell runs its commands, \<open>nm_report_stats\<close> executes exactly the ping,
  the extraction of the three round-trip fields and of the loss field, and the removal of the files, in
  this order; the round-trip times are what \<open>atof\<close> makes of the three texts read one after the other into
  the same array, and the loss rate is the number at the start of the loss text (after spaces and a plus sign).
  The two single reports, run on their own, give the same values.
\<close>

lemma nm_reports_agree:
  assumes "serves E rt lt" and "lt = sp @ sg @ dec k @ x # rest" and "\<forall>ch\<in>set sp. is_space ch" and "sg = [] \<or> sg = ''+''"
    and "\<not> is_digit x" and "k < 2 ^ 63" and "length lt \<le> C_SIZE"
    and "c1 = fread_c (rt 1) c0" and "c2 = fread_c (rt 2) c1" and "c3 = fread_c (rt 3) c2"
    and "r = \<lparr>rtt_min = atof c1, rtt_avg = atof c2, rtt_max = atof c3\<rparr>"
  shows "nm_report_stats E atof r0 c0 target period = Inr (\<lparr>rtt = r, loss_rate = word_of_nat k\<rparr>,
      NmSystem (ping_cmd target period) # rtt_turn 1 @ rtt_turn 2 @ rtt_turn 3 @
      [NmSystem loss_cmd, NmOpen ''.loss'', NmSystem ''rm .loss'', NmSystem ''rm .temp.txt'']) \<and>
    (\<exists>tr. nm_report_rtt E atof r0 c0 target period = Inr (r, tr)) \<and>
    (\<exists>tr. nm_report_loss E c0 target period = Inr (word_of_nat k, tr))"
proof -
  have e: "nm_system E t cmd \<noteq> -1" "nm_file E (t @ [NmSystem loss_cmd]) ''.loss'' = Some lt" for t cmd
    using assms(1) by (auto simp: serves_def)
  have a: "atoi (fread_c lt c) = Some (word_of_nat k)" for c
    using atoi_dec [OF assms(3-6), of "rest @ drop (length lt) c"] fread_c_small [OF assms(7), of c] assms(2)
    by (metis append.assoc append_Cons)
  have l: "read_loss E c tr = Inr (word_of_nat k, tr @ [NmSystem loss_cmd, NmOpen ''.loss'', NmSystem ''rm .loss'', NmSystem ''rm .temp.txt''])" for c tr
    using e a by (simp add: read_loss_def Let_def)
  have p: "send_pings E target period [] = Inr [NmSystem (ping_cmd target period)]" using e by (simp add: send_pings_def Let_def)
  show ?thesis
    using rtt_loop_serves [OF assms(1), of atof r0 c0] p l assms(8-11)
    by (simp add: nm_report_stats_def nm_report_rtt_def nm_report_loss_def)
qed

text \<open>
  When no echo comes back the summary has no line with round-trip times and the three texts are empty: the
  reported times are made from what the uninitialised array happened to hold.
\<close>

lemma nm_rtt_uninitialised:
  assumes "serves E (\<lambda>_. []) lt"
  shows "\<exists>tr. nm_report_rtt E atof r0 c0 target period =
    Inr (\<lparr>rtt_min = atof c0, rtt_avg = atof c0, rtt_max = atof c0\<rparr>, tr)"
proof -
  have "fread_c [] c = c" for c by (simp add: fread_c_def)
  then show ?thesis
    using rtt_loop_serves [OF assms, of atof r0 c0] assms by (simp add: nm_report_rtt_def send_pings_def serves_def Let_def)
qed

text \<open>A target that is too long pushes the redirection out of the command: the file is not written.\<close>

lemma ping_cmd_truncated:
  assumes "p = ''ping -i '' @ print_tenths period @ '' -w '' @ print_d period @ '' '' @ target" and "2047 \<le> length p"
  shows "ping_cmd target period = take 2047 p"
proof -
  have "ping_cmd target period = take 2047 (p @ '' > .temp.txt'')" by (simp add: ping_cmd_def snprintf_def assms(1))
  then show ?thesis using assms(2) by (simp add: take_append)
qed

text \<open>
  The summary of a ping with errors: \<open>5 packets transmitted, 0 received, +3 errors, 100% packet loss\<close>. The third
  field is that of the errors.
\<close>

definition sample_nm_env :: "nm_env" where
  "sample_nm_env = \<lparr>nm_system = (\<lambda>_ _. 0),
     nm_file = (\<lambda>tr name. Some (if name = ''.loss'' then '' +3 errors'' @ [CHR 0x0A] else ''0.5'' @ [CHR 0x0A]))\<rparr>"

lemma sample_nm_serves: "serves sample_nm_env (\<lambda>_. ''0.5'' @ [CHR 0x0A]) ('' +3 errors'' @ [CHR 0x0A])"
  by (simp add: serves_def sample_nm_env_def)

lemma nm_reports_agree_example:
  "\<exists>r tr. nm_report_stats sample_nm_env length \<lparr>rtt_min = 0, rtt_avg = 0, rtt_max = 0\<rparr> (replicate 256 CHR ''x'') ''10.0.0.4'' 5 =
     Inr (\<lparr>rtt = r, loss_rate = 3\<rparr>, tr)"
proof -
  have d: "dec 3 = ''3''" by code_simp
  have h: "'' +3 errors'' @ [CHR 0x0A] = '' '' @ ''+'' @ dec 3 @ CHR '' '' # ''errors'' @ [CHR 0x0A]"
    "\<forall>ch\<in>set '' ''. is_space ch" "''+'' = [] \<or> ''+'' = ''+''" "\<not> is_digit CHR '' ''" "3 < (2 :: nat) ^ 63"
    "length ('' +3 errors'' @ [CHR 0x0A]) \<le> C_SIZE"
    using d by (simp_all add: is_space_def is_digit_def C_SIZE_def)
  from nm_reports_agree [OF sample_nm_serves h refl refl refl refl] show ?thesis by fastforce
qed

end
