(* ===== verification/Libbpf_Sys.thy ===== *)
theory Libbpf_Sys
  imports VTL_Prelude "HOL-Library.Multiset"
begin

text \<open>
  The system calls and C library functions under the bundled libbpf (\<open>lib/libbpf/src\<close>). The kernel is a
  parameter: its answer to a call may depend on all calls made before it and their answers. A function
  of the library threads the trace of calls through and returns its result with the extended trace;
  \<open>None\<close> is an access outside a buffer, or a loop that does not end. Properties of such functions are
  shown with weakest preconditions, and what a function keeps of the process's resources is read off
  the trace.
\<close>

section \<open>Calls\<close>

text \<open>The attributes of \<open>bpf(BPF_MAP_CREATE)\<close> and \<open>bpf(BPF_PROG_LOAD)\<close> that the library sets.\<close>

record bpf_map_attr =
  attr_map_type :: u32
  attr_key_size :: u32
  attr_value_size :: u32
  attr_max_entries :: u32
  attr_map_flags :: u32
  attr_map_name :: string
  attr_numa_node :: u32
  attr_btf_fd :: u32
  attr_btf_key_type_id :: u32
  attr_btf_value_type_id :: u32
  attr_map_ifindex :: u32
  attr_inner_map_fd :: u32

text \<open>
  The function and line records are the bytes the pointers lead to; \<open>log_size\<close> is zero when no buffer is
  given.
\<close>

record bpf_prog_attr =
  attr_prog_type :: u32
  attr_expected_attach_type :: u32
  attr_attach_btf_id :: u32
  attr_attach_prog_fd :: u32
  attr_prog_ifindex :: u32
  attr_kern_version :: u32
  attr_insns :: bytes
  attr_insn_cnt :: u32
  attr_license :: string
  attr_log_level :: u32
  attr_log_size :: nat
  attr_prog_btf_fd :: u32
  attr_func_info :: bytes
  attr_func_info_rec_size :: u32
  attr_func_info_cnt :: u32
  attr_line_info :: bytes
  attr_line_info_rec_size :: u32
  attr_line_info_cnt :: u32
  attr_prog_name :: string
  attr_prog_flags :: u32

text \<open>
  \<open>PROG_MAP_IDS\<close> is the command for the information on a program with room for \<open>n\<close> map identifiers; the
  answer's bytes are the identifiers. The number of maps of a program never changes. \<open>PROG_ATTACH\<close> has the
  target, the program, the type, the flags and the program to replace; \<open>BTF_LOAD\<close> the size of the log, 0 for
  none.
\<close>

datatype bpf_cmd =
    MAP_CREATE bpf_map_attr
  | MAP_LOOKUP_ELEM int bytes u64
  | MAP_UPDATE_ELEM int bytes bytes u64
  | MAP_DELETE_ELEM int bytes
  | MAP_LOOKUP_AND_DELETE_ELEM int bytes
  | MAP_GET_NEXT_KEY int "bytes option"
  | MAP_FREEZE int
  | OBJ_PIN int string
  | OBJ_GET string
  | PROG_LOAD bpf_prog_attr
  | PROG_ATTACH int int u32 u32 u32
  | PROG_DETACH int int u32
  | PROG_GET_NEXT_ID u32
  | MAP_GET_NEXT_ID u32
  | BTF_GET_NEXT_ID u32
  | BTF_GET_FD_BY_ID u32
  | RAW_TRACEPOINT_OPEN string int
  | BTF_LOAD bytes nat
  | PROG_GET_FD_BY_ID u32
  | MAP_GET_FD_BY_ID u32
  | OBJ_GET_INFO_BY_FD int nat
  | PROG_MAP_IDS int nat

text \<open>
  \<open>Sendto\<close> and \<open>Recv\<close> carry the descriptor and the bytes or the size of the buffer; \<open>Mmap\<close> the length, the
  descriptor and the page offset; \<open>Ethtool\<close> is \<open>ioctl(SIOCETHTOOL)\<close> with \<open>ETHTOOL_GCHANNELS\<close>.
\<close>

datatype scall =
    Socket nat nat nat
  | Setsockopt int nat nat bytes
  | Getsockopt int nat nat nat
  | Bind int bytes
  | Getsockname int nat
  | Sendto int bytes
  | Recv int nat
  | Close int
  | Mmap nat int nat
  | Munmap int nat
  | Calloc nat
  | Malloc nat
  | Free int
  | Ethtool int string
  | IfIndex string
  | Clock
  | Bpf bpf_cmd

text \<open>
  An answer is a number, negative for the failure with that value of \<open>errno\<close>, and the bytes written
  to the caller's buffer. \<open>Calloc\<close> and \<open>Malloc\<close> answer with an address, 0 for NULL.
\<close>

type_synonym strace = "(scall \<times> int \<times> bytes) list"

record os =
  os_reply :: "strace \<Rightarrow> scall \<Rightarrow> int \<times> bytes"
  errno0 :: int
  stack_bytes :: bytes
  page_size :: nat

definition sys :: "'k os_scheme \<Rightarrow> scall \<Rightarrow> strace \<Rightarrow> ((int \<times> bytes) \<times> strace) option" where
  "sys K c tr = (case os_reply K tr c of (rv, data) \<Rightarrow> Some ((rv, data), tr @ [(c, rv, data)]))"

text \<open>\<open>errno\<close> keeps the value of the last call that failed; \<open>if_nametoindex\<close> and \<open>calloc\<close> fail with 0.\<close>

fun sets_errno :: "scall \<Rightarrow> bool" where
  "sets_errno (Free _) = False"
| "sets_errno Clock = False"
| "sets_errno _ = True"

fun errno_from :: "int \<Rightarrow> strace \<Rightarrow> int" where
  "errno_from e [] = e"
| "errno_from e ((c, rv, _) # tr) = errno_from (if rv < 0 \<and> sets_errno c then - rv else e) tr"

definition errno_of :: "'k os_scheme \<Rightarrow> strace \<Rightarrow> int" where
  "errno_of K tr = errno_from (errno0 K) tr"

definition ENOMEM :: int where "ENOMEM = 12"
definition ENOENT :: int where "ENOENT = 2"

text \<open>The value a wrapper of a system call returns in C.\<close>

definition c_ret :: "int \<Rightarrow> int" where
  "c_ret rv = (if rv < 0 then -1 else rv)"

lemma c_ret_neg [simp]: "c_ret rv < 0 \<longleftrightarrow> rv < 0"
  by (simp add: c_ret_def)

lemma c_ret_nonneg [simp]: "0 \<le> rv \<Longrightarrow> c_ret rv = rv"
  by (simp add: c_ret_def)

lemma errno_from_append: "errno_from e (tr @ tr') = errno_from (errno_from e tr) tr'"
  by (induction e tr rule: errno_from.induct) auto

lemma errno_of_append [simp]: "errno_of K (tr @ tr') = errno_from (errno_of K tr) tr'"
  by (simp add: errno_of_def errno_from_append)

section \<open>Weakest preconditions\<close>

definition wp :: "('a \<times> strace) option \<Rightarrow> ('a \<Rightarrow> strace \<Rightarrow> bool) \<Rightarrow> bool" where
  "wp m Q \<longleftrightarrow> (\<exists>a tr. m = Some (a, tr) \<and> Q a tr)"

lemma wp_Some [simp]: "wp (Some (a, tr)) Q \<longleftrightarrow> Q a tr"
  by (simp add: wp_def)

lemma wp_None [simp]: "\<not> wp None Q"
  by (simp add: wp_def)

lemma wp_bind: "wp m (\<lambda>a tr. wp (f (a, tr)) Q) \<Longrightarrow> wp (m \<bind> f) Q"
  by (auto simp: wp_def)

lemma wp_sys:
  "(\<And>rv data. os_reply K tr c = (rv, data) \<Longrightarrow> Q (rv, data) (tr @ [(c, rv, data)])) \<Longrightarrow> wp (sys K c tr) Q"
  by (cases "os_reply K tr c") (auto simp: sys_def wp_def)

lemma wp_if: "(c \<Longrightarrow> wp a Q) \<Longrightarrow> (\<not> c \<Longrightarrow> wp b Q) \<Longrightarrow> wp (if c then a else b) Q"
  by simp

lemma wp_mono: "wp m Q \<Longrightarrow> (\<And>a tr. Q a tr \<Longrightarrow> R a tr) \<Longrightarrow> wp m R"
  by (auto simp: wp_def)

lemma wp_case_prod: "(\<And>a b. x = (a, b) \<Longrightarrow> wp (f a b) Q) \<Longrightarrow> wp (case x of (a, b) \<Rightarrow> f a b) Q"
  by (cases x) auto

lemma wp_let: "wp (f x) Q \<Longrightarrow> wp (let v = x in f v) Q"
  by simp

lemma wp_result: "wp m Q \<Longrightarrow> m = Some (a, tr) \<Longrightarrow> Q a tr"
  by (simp add: wp_def)

text \<open>A system call with any answer.\<close>

lemma wp_bind_sys: "(\<And>rv data. wp (f ((rv, data), tr @ [(c, rv, data)])) Q) \<Longrightarrow> wp (sys K c tr \<bind> f) Q"
  by (rule wp_bind, rule wp_sys)

text \<open>The same for a call that may not return.\<close>

definition wlp :: "('a \<times> strace) option \<Rightarrow> ('a \<Rightarrow> strace \<Rightarrow> bool) \<Rightarrow> bool" where
  "wlp m Q \<longleftrightarrow> (\<forall>a tr. m = Some (a, tr) \<longrightarrow> Q a tr)"

lemma wlp_Some [simp]: "wlp (Some (a, tr)) Q \<longleftrightarrow> Q a tr"
  by (simp add: wlp_def)

lemma wlp_None [simp]: "wlp None Q"
  by (simp add: wlp_def)

lemma wlp_bind: "wlp m (\<lambda>a tr. wlp (f (a, tr)) Q) \<Longrightarrow> wlp (m \<bind> f) Q"
  by (auto simp: wlp_def Option.bind_eq_Some_conv)

lemma wlp_bind_pure: "(\<And>v. m = Some v \<Longrightarrow> wlp (f v) Q) \<Longrightarrow> wlp (m \<bind> f) Q"
  by (cases m) auto

lemma wp_wlp: "wp m Q \<Longrightarrow> wlp m Q"
  by (auto simp: wp_def wlp_def)

lemma wlp_mono: "wlp m Q \<Longrightarrow> (\<And>a tr. Q a tr \<Longrightarrow> R a tr) \<Longrightarrow> wlp m R"
  by (auto simp: wlp_def)

lemma wlp_sys:
  "(\<And>rv data. os_reply K tr c = (rv, data) \<Longrightarrow> Q (rv, data) (tr @ [(c, rv, data)])) \<Longrightarrow> wlp (sys K c tr) Q"
  by (rule wp_wlp) (rule wp_sys)

lemma wlp_if: "(c \<Longrightarrow> wlp a Q) \<Longrightarrow> (\<not> c \<Longrightarrow> wlp b Q) \<Longrightarrow> wlp (if c then a else b) Q"
  by simp

lemma wlp_case_prod: "(\<And>a b. x = (a, b) \<Longrightarrow> wlp (f a b) Q) \<Longrightarrow> wlp (case x of (a, b) \<Rightarrow> f a b) Q"
  by (cases x) auto

lemma wlp_let: "wlp (f x) Q \<Longrightarrow> wlp (let v = x in f v) Q"
  by simp

lemma wlp_result: "wlp m Q \<Longrightarrow> m = Some (a, tr) \<Longrightarrow> Q a tr"
  by (simp add: wlp_def)

lemma wlp_bind_sys: "(\<And>rv data. wlp (f ((rv, data), tr @ [(c, rv, data)])) Q) \<Longrightarrow> wlp (sys K c tr \<bind> f) Q"
  by (rule wlp_bind, rule wlp_sys)

lemmas wlp_intros = wlp_sys wlp_if wlp_case_prod wlp_let

lemmas wp_intros = wp_bind wp_sys wp_if wp_case_prod wp_let

section \<open>Resources\<close>

text \<open>
  What a process holds after a trace: each call that creates a descriptor, a mapping or a block adds
  it, each call that gives one back takes one away.
\<close>

datatype resource = Fd int | Mapping int nat | Block int

fun creates_fd :: "bpf_cmd \<Rightarrow> bool" where
  "creates_fd (MAP_CREATE _) = True"
| "creates_fd (PROG_LOAD _) = True"
| "creates_fd (OBJ_GET _) = True"
| "creates_fd (PROG_GET_FD_BY_ID _) = True"
| "creates_fd (MAP_GET_FD_BY_ID _) = True"
| "creates_fd (BTF_GET_FD_BY_ID _) = True"
| "creates_fd (RAW_TRACEPOINT_OPEN _ _) = True"
| "creates_fd (BTF_LOAD _ _) = True"
| "creates_fd _ = False"

fun effect :: "scall \<times> int \<times> bytes \<Rightarrow> resource multiset \<Rightarrow> resource multiset" where
  "effect (Socket _ _ _, rv, _) R = (if 0 \<le> rv then add_mset (Fd rv) R else R)"
| "effect (Mmap n _ _, rv, _) R = (if 0 \<le> rv then add_mset (Mapping rv n) R else R)"
| "effect (Calloc _, rv, _) R = (if rv \<noteq> 0 then add_mset (Block rv) R else R)"
| "effect (Malloc _, rv, _) R = (if rv \<noteq> 0 then add_mset (Block rv) R else R)"
| "effect (Bpf cmd, rv, _) R = (if creates_fd cmd \<and> 0 \<le> rv then add_mset (Fd rv) R else R)"
| "effect (Close fd, _, _) R = R - {#Fd fd#}"
| "effect (Munmap a n, _, _) R = R - {#Mapping a n#}"
| "effect (Free a, _, _) R = R - {#Block a#}"
| "effect _ R = R"

definition held :: "resource multiset \<Rightarrow> strace \<Rightarrow> resource multiset" where
  "held R tr = fold effect tr R"

lemma held_Nil [simp]: "held R [] = R"
  by (simp add: held_def)

lemma held_append [simp]: "held R (tr @ tr') = held (held R tr) tr'"
  by (simp add: held_def)

lemma held_Cons [simp]: "held R (x # tr) = held (effect x R) tr"
  by (simp add: held_def)

end
