(* ===== verification/Libbpf_Nlattr.thy ===== *)
theory Libbpf_Nlattr
  imports VTL_Prelude
begin

text \<open>
  The netlink attribute parser of the bundled libbpf (\<open>lib/libbpf/src/nlattr.c\<close> and \<open>nlattr.h\<close>), through
  which the launcher and the AF_XDP set-up learn the program attached to an interface. A pointer into a
  message is an offset into the buffer that holds it; every access goes through the checked loads, so
  that \<open>None\<close> is a read outside the buffer.
\<close>

section \<open>Attributes\<close>

definition NLA_ALIGN :: "int \<Rightarrow> int" where
  "NLA_ALIGN len = (len + 3) AND NOT 3"

definition NLA_HDRLEN :: nat where "NLA_HDRLEN = 4"
definition NLA_TYPE_MASK :: nat where "NLA_TYPE_MASK = 0x3FFF"

text \<open>\<open>LIBBPF_NLA_UNSPEC\<close> to \<open>LIBBPF_NLA_NESTED\<close> are 0 to 8.\<close>

definition LIBBPF_NLA_U32 :: nat where "LIBBPF_NLA_U32 = 3"
definition LIBBPF_NLA_STRING :: nat where "LIBBPF_NLA_STRING = 5"
definition LIBBPF_NLA_TYPE_MAX :: nat where "LIBBPF_NLA_TYPE_MAX = 8"

record libbpf_nla_policy =
  pol_type :: nat
  pol_minlen :: nat
  pol_maxlen :: nat

definition nla_attr_minlen :: "nat list" where
  "nla_attr_minlen = [0, 1, 2, 4, 8, 1, 0, 0, 0]"

definition nla_next :: "bytes \<Rightarrow> nat \<Rightarrow> int \<Rightarrow> (nat \<times> int) option" where
  "nla_next p nla remaining =
     do { l \<leftarrow> ld nla 2 p;
          let totlen = NLA_ALIGN (int l);
          Some (nla + nat totlen, remaining - totlen) }"

text \<open>
  \<open>remaining >= sizeof(*nla)\<close> compares as \<open>size_t\<close>: a negative \<open>remaining\<close> passes it, and the length of
  the attribute is read; the last conjunct compares as \<open>int\<close>.
\<close>

definition nla_ok :: "bytes \<Rightarrow> nat \<Rightarrow> int \<Rightarrow> bool option" where
  "nla_ok p nla remaining =
     (if (word_of_int remaining :: u64) \<ge> 4
      then do { l \<leftarrow> ld nla 2 p; Some (4 \<le> l \<and> int l \<le> remaining) }
      else Some False)"

definition nla_type :: "bytes \<Rightarrow> nat \<Rightarrow> nat option" where
  "nla_type p nla = do { t \<leftarrow> ld (nla + 2) 2 p; Some (t AND NLA_TYPE_MASK) }"

definition libbpf_nla_data :: "nat \<Rightarrow> nat" where
  "libbpf_nla_data nla = nla + NLA_HDRLEN"

definition libbpf_nla_getattr_u8 :: "bytes \<Rightarrow> nat \<Rightarrow> nat option" where
  "libbpf_nla_getattr_u8 p nla = ld (libbpf_nla_data nla) 1 p"

definition libbpf_nla_getattr_u32 :: "bytes \<Rightarrow> nat \<Rightarrow> nat option" where
  "libbpf_nla_getattr_u32 p nla = ld (libbpf_nla_data nla) 4 p"

definition libbpf_nla_len :: "bytes \<Rightarrow> nat \<Rightarrow> int option" where
  "libbpf_nla_len p nla = do { l \<leftarrow> ld nla 2 p; Some (int l - int NLA_HDRLEN) }"

text \<open>
  \<open>validate_nla\<close>; the first test is never true for a caller that has compared the type itself. The byte
  tested for a string is the one before \<open>data + len\<close>.
\<close>

definition validate_nla :: "bytes \<Rightarrow> nat \<Rightarrow> nat \<Rightarrow> libbpf_nla_policy list \<Rightarrow> int option" where
  "validate_nla p nla maxtype policy =
     do { type \<leftarrow> nla_type p nla;
          if maxtype < type then Some 0
          else do {
            pt \<leftarrow> (if type < length policy then Some (policy ! type) else None);
            if LIBBPF_NLA_TYPE_MAX < pol_type pt then Some 0
            else do {
              let minlen = (if pol_minlen pt \<noteq> 0 then pol_minlen pt
                            else if pol_type pt \<noteq> 0 then nla_attr_minlen ! pol_type pt else 0);
              len \<leftarrow> libbpf_nla_len p nla;
              if len < int minlen then Some (-1)
              else if pol_maxlen pt \<noteq> 0 \<and> int (pol_maxlen pt) < len then Some (-1)
              else if pol_type pt = LIBBPF_NLA_STRING
              then do { c \<leftarrow> ld (nat (int (libbpf_nla_data nla) + len - 1)) 1 p; Some (if c \<noteq> 0 then -1 else 0) }
              else Some 0 } } }"

section \<open>The index of a stream of attributes\<close>

lemma and_not_mask_int: "(a :: int) AND NOT (mask k) = push_bit k (drop_bit k a)"
  by (rule bit_eqI) (auto simp: bit_simps not_less)

lemma NLA_ALIGN_eq: "NLA_ALIGN n = 4 * ((n + 3) div 4)"
proof -
  have "NOT (3 :: int) = NOT (mask 2)" by (simp add: mask_eq_exp_minus_1)
  then have "NLA_ALIGN n = (n + 3) AND NOT (mask 2)" by (simp only: NLA_ALIGN_def)
  then show ?thesis by (simp add: and_not_mask_int push_bit_eq_mult drop_bit_eq_div)
qed

lemma NLA_ALIGN_bounds: "n \<le> NLA_ALIGN n" "NLA_ALIGN n \<le> n + 3" "4 dvd NLA_ALIGN n"
  unfolding NLA_ALIGN_eq by presburger+

lemma NLA_ALIGN_le: "n \<le> m \<Longrightarrow> 4 dvd m \<Longrightarrow> NLA_ALIGN n \<le> m"
  unfolding NLA_ALIGN_eq by presburger

lemma nla_ok_True:
  "nla_ok p nla rem = Some True \<Longrightarrow> \<exists>l. ld nla 2 p = Some l \<and> 4 \<le> l \<and> int l \<le> rem"
  by (auto simp: nla_ok_def split: if_splits Option.bind_splits)

text \<open>
  The loop of \<open>libbpf_nla_parse\<close>: the result and the index \<open>tb\<close>, where an entry is the offset of an
  attribute or \<open>None\<close> for NULL. The warning about a type found twice is not part of the result.
\<close>

function nla_parse_loop ::
    "bytes \<Rightarrow> nat \<Rightarrow> libbpf_nla_policy list option \<Rightarrow> nat \<Rightarrow> int \<Rightarrow> nat option list \<Rightarrow> (int \<times> nat option list) option" where
  "nla_parse_loop p maxtype policy nla rem tb =
     (case nla_ok p nla rem of
        None \<Rightarrow> None
      | Some False \<Rightarrow> Some (0, tb)
      | Some True \<Rightarrow>
          (case nla_next p nla rem of
             None \<Rightarrow> None
           | Some (nla', rem') \<Rightarrow>
               do { type \<leftarrow> nla_type p nla;
                    if maxtype < type then nla_parse_loop p maxtype policy nla' rem' tb
                    else do {
                      err \<leftarrow> (case policy of None \<Rightarrow> Some 0 | Some pol \<Rightarrow> validate_nla p nla maxtype pol);
                      if err < 0 then Some (err, tb)
                      else nla_parse_loop p maxtype policy nla' rem' (tb[type := Some nla]) } }))"
  by pat_completeness auto

lemma nla_next_decreases:
  assumes "nla_ok p nla rem = Some True" and "nla_next p nla rem = Some (nla', rem')"
  shows "rem' < rem" "0 < rem"
proof -
  obtain l where l: "ld nla 2 p = Some l" "4 \<le> l" "int l \<le> rem" using nla_ok_True [OF assms(1)] by blast
  then have "rem' = rem - NLA_ALIGN (int l)" using assms(2) by (simp add: nla_next_def Let_def)
  then show "rem' < rem" "0 < rem" using l NLA_ALIGN_bounds(1) [of "int l"] by auto
qed

termination nla_parse_loop
  by (relation "measure (\<lambda>(p, maxtype, policy, nla, rem, tb). nat rem)") (auto dest: nla_next_decreases)

declare nla_parse_loop.simps [simp del]

definition libbpf_nla_parse ::
    "bytes \<Rightarrow> nat \<Rightarrow> nat \<Rightarrow> int \<Rightarrow> libbpf_nla_policy list option \<Rightarrow> (int \<times> nat option list) option" where
  "libbpf_nla_parse p maxtype head len policy =
     nla_parse_loop p maxtype policy head len (replicate (maxtype + 1) None)"

definition libbpf_nla_parse_nested ::
    "bytes \<Rightarrow> nat \<Rightarrow> nat \<Rightarrow> libbpf_nla_policy list option \<Rightarrow> (int \<times> nat option list) option" where
  "libbpf_nla_parse_nested p maxtype nla policy =
     do { len \<leftarrow> libbpf_nla_len p nla; libbpf_nla_parse p maxtype (libbpf_nla_data nla) len policy }"

section \<open>Extended acknowledgements\<close>

definition NLMSG_HDRLEN :: nat where "NLMSG_HDRLEN = 16"
definition NLM_F_CAPPED :: nat where "NLM_F_CAPPED = 0x100"
definition NLM_F_ACK_TLVS :: nat where "NLM_F_ACK_TLVS = 0x200"
definition NLMSGERR_ATTR_MSG :: nat where "NLMSGERR_ATTR_MSG = 1"
definition NLMSGERR_ATTR_MAX :: nat where "NLMSGERR_ATTR_MAX = 3"

text \<open>The payload length of a message, from the header at offset \<open>nlh\<close>; the subtraction is unsigned.\<close>

definition nlmsg_len :: "bytes \<Rightarrow> nat \<Rightarrow> int option" where
  "nlmsg_len p nlh = do { l \<leftarrow> ld nlh 4 p; Some (sint (word_of_nat l - word_of_nat NLMSG_HDRLEN :: u32)) }"

definition extack_policy :: "libbpf_nla_policy list" where
  "extack_policy =
     [\<lparr>pol_type = 0, pol_minlen = 0, pol_maxlen = 0\<rparr>,
      \<lparr>pol_type = LIBBPF_NLA_STRING, pol_minlen = 0, pol_maxlen = 0\<rparr>,
      \<lparr>pol_type = LIBBPF_NLA_U32, pol_minlen = 0, pol_maxlen = 0\<rparr>,
      \<lparr>pol_type = 0, pol_minlen = 0, pol_maxlen = 0\<rparr>]"

text \<open>What the function prints: nothing, the parse warning, or the string at an offset (or NULL).\<close>

datatype extack = NoTlvs | ParseWarning | KernelMessage "nat option"

text \<open>
  \<open>hlen\<close> is the length of \<open>struct nlmsgerr\<close> (an \<open>int\<close> and the header of the request) and, unless the
  message was capped, of the rest of the request. \<open>alen\<close> is computed from the length of the whole
  message without subtracting its header.
\<close>

definition libbpf_nla_dump_errormsg :: "bytes \<Rightarrow> nat \<Rightarrow> extack option" where
  "libbpf_nla_dump_errormsg p nlh =
     do { flags \<leftarrow> ld (nlh + 6) 2 p;
          if flags AND NLM_F_ACK_TLVS = 0 then Some NoTlvs
          else do {
            let err = nlh + NLMSG_HDRLEN;
            hlen \<leftarrow> (if flags AND NLM_F_CAPPED = 0
                     then do { m \<leftarrow> nlmsg_len p (err + 4); Some (20 + m) } else Some 20);
            if int err + hlen < 0 then None
            else do {
              l \<leftarrow> ld nlh 4 p;
              let alen = sint (word_of_nat l - word_of_int hlen :: u32);
              (e, tb) \<leftarrow> libbpf_nla_parse p NLMSGERR_ATTR_MAX (nat (int err + hlen)) alen (Some extack_policy);
              Some (if e \<noteq> 0 then ParseWarning
                    else KernelMessage (map_option libbpf_nla_data (tb ! NLMSGERR_ATTR_MSG))) } } }"

section \<open>Memory safety\<close>

text \<open>A policy covers the types up to \<open>maxtype\<close>.\<close>

definition policy_ok :: "nat \<Rightarrow> libbpf_nla_policy list option \<Rightarrow> bool" where
  "policy_ok maxtype policy \<longleftrightarrow> (\<forall>pol. policy = Some pol \<longrightarrow> maxtype < length pol)"

lemma length_nla_attr_minlen [simp]: "length nla_attr_minlen = Suc LIBBPF_NLA_TYPE_MAX"
  by (simp add: nla_attr_minlen_def LIBBPF_NLA_TYPE_MAX_def)

lemma safe_validate_nla:
  assumes "ld nla 2 p = Some l" and "4 \<le> l" and "nla + l \<le> length p" and "maxtype < length pol"
  shows "safe (validate_nla p nla maxtype pol)"
  unfolding validate_nla_def nla_type_def libbpf_nla_len_def libbpf_nla_data_def
  by (intro safe_intros) (use assms in \<open>auto simp: NLA_HDRLEN_def nla_attr_minlen_def LIBBPF_NLA_STRING_def split: if_splits\<close>)

text \<open>
  The entries of an index are whole attributes of the stream between \<open>lo\<close> and \<open>hi\<close>.
\<close>

definition index_ok :: "bytes \<Rightarrow> nat \<Rightarrow> nat \<Rightarrow> nat option list \<Rightarrow> bool" where
  "index_ok p lo hi tb \<longleftrightarrow>
     (\<forall>nla. Some nla \<in> set tb \<longrightarrow> lo \<le> nla \<and> (\<exists>l. ld nla 2 p = Some l \<and> 4 \<le> l \<and> nla + l \<le> hi))"

lemma index_ok_update:
  "index_ok p lo hi tb \<Longrightarrow> lo \<le> nla \<Longrightarrow> ld nla 2 p = Some l \<Longrightarrow> 4 \<le> l \<Longrightarrow> nla + l \<le> hi \<Longrightarrow>
   index_ok p lo hi (tb[t := Some nla])"
  using set_update_subset_insert [of tb t "Some nla"] by (fastforce simp: index_ok_def)

lemma four_le_size_t: "0 \<le> r \<Longrightarrow> r < 2 ^ 31 \<Longrightarrow> (4 :: u64) \<le> word_of_int r \<longleftrightarrow> 4 \<le> r"
  by (simp add: word_le_def uint_word_of_int)

lemma nla_ok_nonneg:
  "0 \<le> rem \<Longrightarrow> rem < 2 ^ 31 \<Longrightarrow> ld nla 2 p = Some l \<Longrightarrow>
   nla_ok p nla rem = Some (4 \<le> rem \<and> 4 \<le> l \<and> int l \<le> rem)"
  by (simp add: nla_ok_def four_le_size_t)

lemma nla_ok_short: "0 \<le> rem \<Longrightarrow> rem < 4 \<Longrightarrow> nla_ok p nla rem = Some False"
  using four_le_size_t [of rem] by (simp add: nla_ok_def)

lemma nla_parse_loop_safe:
  assumes "policy_ok maxtype policy" and "hi \<le> length p" and "hi < 2 ^ 31"
  shows "int nla + rem = int hi \<Longrightarrow> 0 \<le> rem \<Longrightarrow> 4 dvd rem \<Longrightarrow> lo \<le> nla \<Longrightarrow> index_ok p lo hi tb \<Longrightarrow>
    length tb = maxtype + 1 \<Longrightarrow>
    \<exists>err tb'. nla_parse_loop p maxtype policy nla rem tb = Some (err, tb') \<and> index_ok p lo hi tb' \<and>
      length tb' = maxtype + 1"
  using assms
proof (induction p maxtype policy nla rem tb rule: nla_parse_loop.induct)
  case (1 p maxtype policy nla rem tb)
  note prems = "1.prems"
  show ?case
  proof (cases "rem < 4")
    case True
    then have "nla_ok p nla rem = Some False" using prems(2) nla_ok_short by blast
    then show ?thesis using prems by (subst nla_parse_loop.simps) simp
  next
    case False
    obtain l where l: "ld nla 2 p = Some l"
      using ld_in_bounds [of nla 2 p] prems(1,8) False by force
    have ok: "nla_ok p nla rem = Some (4 \<le> l \<and> int l \<le> rem)"
      using nla_ok_nonneg [OF prems(2) _ l] prems(1,9) False by simp
    show ?thesis
    proof (cases "4 \<le> l \<and> int l \<le> rem")
      case False
      then have "nla_ok p nla rem = Some False" using ok by simp
      then show ?thesis using prems by (subst nla_parse_loop.simps) simp
    next
      case True
      then have ok1: "nla_ok p nla rem = Some True" using ok by simp
      let ?a = "NLA_ALIGN (int l)"
      have n: "nla_next p nla rem = Some (nla + nat ?a, rem - ?a)" by (simp add: nla_next_def l Let_def)
      have a: "0 \<le> ?a" "?a \<le> rem" "4 dvd ?a"
        using NLA_ALIGN_bounds [of "int l"] NLA_ALIGN_le [of "int l" rem] True prems(3) by auto
      have nx: "int (nla + nat ?a) + (rem - ?a) = int hi" "0 \<le> rem - ?a" "4 dvd rem - ?a" "lo \<le> nla + nat ?a"
        using a prems(1,3,4) by auto
      obtain t where t: "nla_type p nla = Some t"
        using ld_in_bounds [of "nla + 2" 2 p] prems(1,8) True by (force simp: nla_type_def)
      show ?thesis
      proof (cases "maxtype < t")
        case True
        then show ?thesis
          using "1.IH"(1) [OF ok1 _ n _ t True nx prems(5-9)] prems
          by (subst nla_parse_loop.simps) (simp add: ok1 n t)
      next
        case False
        have "safe (case policy of None \<Rightarrow> Some 0 | Some pol \<Rightarrow> validate_nla p nla maxtype pol)"
          using safe_validate_nla [OF l] True prems(1,7,8) by (auto simp: policy_ok_def split: option.splits)
        then obtain err where e: "(case policy of None \<Rightarrow> Some 0 | Some pol \<Rightarrow> validate_nla p nla maxtype pol) = Some err"
          by (rule safeE)
        have ix: "index_ok p lo hi (tb[t := Some nla])"
          using index_ok_update [OF prems(5,4) l] True prems(1) by auto
        show ?thesis
        proof (cases "err < 0")
          case True
          then show ?thesis using prems False by (subst nla_parse_loop.simps) (simp add: ok1 n t e)
        next
          case ok2: False
          then show ?thesis
            using "1.IH"(2) [OF ok1 _ n _ t False e ok2 nx ix _ prems(7-9)] prems False
            by (subst nla_parse_loop.simps) (simp add: ok1 n t e)
        qed
      qed
    qed
  qed
qed

section \<open>Round trip\<close>

text \<open>
  The layout of an attribute, and of a stream of them: length, type, payload, padding to four bytes.
\<close>

definition nla_pad :: "nat \<Rightarrow> nat" where
  "nla_pad n = nat (NLA_ALIGN (int n)) - n"

definition nla_put :: "nat \<times> bytes \<Rightarrow> bytes" where
  "nla_put a = (case a of (t, d) \<Rightarrow>
     le_put 2 (NLA_HDRLEN + length d) @ le_put 2 t @ d @ replicate (nla_pad (NLA_HDRLEN + length d)) 0)"

definition nla_stream :: "(nat \<times> bytes) list \<Rightarrow> bytes" where
  "nla_stream as = concat (map nla_put as)"

definition attr_ok :: "nat \<times> bytes \<Rightarrow> bool" where
  "attr_ok a \<longleftrightarrow> fst a < 2 ^ 16 \<and> NLA_HDRLEN + length (snd a) < 2 ^ 16"

text \<open>The payload a reader finds for a type: that of the last attribute with it.\<close>

definition attr_find :: "(nat \<times> bytes) list \<Rightarrow> nat \<Rightarrow> bytes option" where
  "attr_find as ty = map_of (rev (map (\<lambda>(t, d). (t AND NLA_TYPE_MASK, d)) as)) ty"

lemma length_nla_put: "length (nla_put (t, d)) = nat (NLA_ALIGN (int (NLA_HDRLEN + length d)))"
  using NLA_ALIGN_bounds(1) [of "int (NLA_HDRLEN + length d)"]
  by (auto simp: nla_put_def nla_pad_def NLA_HDRLEN_def)

lemma length_nla_put_ge: "NLA_HDRLEN + length d \<le> length (nla_put (t, d))"
  using NLA_ALIGN_bounds(1) [of "int (NLA_HDRLEN + length d)"] by (simp add: length_nla_put)

lemma nla_put_fields:
  assumes "attr_ok (t, d)"
  shows "ld (length pre) 2 (pre @ nla_put (t, d) @ post) = Some (NLA_HDRLEN + length d)"
    and "ld (length pre + 2) 2 (pre @ nla_put (t, d) @ post) = Some t"
    and "seg (length pre + NLA_HDRLEN) (length d) (pre @ nla_put (t, d) @ post) = d"
proof -
  have b: "NLA_HDRLEN + length d < 65536" "t < 65536" using assms by (auto simp: attr_ok_def)
  show "ld (length pre) 2 (pre @ nla_put (t, d) @ post) = Some (NLA_HDRLEN + length d)"
    using b by (simp add: ld_append_skip nla_put_def ld_append_put)
  have "ld 2 2 (le_put 2 (NLA_HDRLEN + length d) @ le_put 2 t @ q) = Some t" for q
    using b by (simp add: ld_append_skip ld_append_put)
  then show "ld (length pre + 2) 2 (pre @ nla_put (t, d) @ post) = Some t"
    by (simp add: ld_append_skip nla_put_def)
  show "seg (length pre + NLA_HDRLEN) (length d) (pre @ nla_put (t, d) @ post) = d"
    by (simp add: seg_def nla_put_def NLA_HDRLEN_def)
qed

text \<open>What one attribute adds to an index, and the index of a stream at offset \<open>o\<close>.\<close>

fun nla_index :: "nat \<Rightarrow> nat \<Rightarrow> (nat \<times> bytes) list \<Rightarrow> nat option list \<Rightarrow> nat option list" where
  "nla_index maxtype nla [] tb = tb"
| "nla_index maxtype nla (a # as) tb =
     nla_index maxtype (nla + length (nla_put a)) as
       (let type = fst a AND NLA_TYPE_MASK in if maxtype < type then tb else tb[type := Some nla])"

lemma length_nla_index [simp]: "length (nla_index maxtype nla as tb) = length tb"
  by (induction as arbitrary: nla tb) (auto simp: Let_def)

lemma nla_parse_loop_stream:
  assumes "\<forall>a \<in> set as. attr_ok a" and "length (nla_stream as) < 2 ^ 31"
  shows "nla_parse_loop (pre @ nla_stream as @ post) maxtype None (length pre) (int (length (nla_stream as))) tb =
    Some (0, nla_index maxtype (length pre) as tb)"
  using assms
proof (induction as arbitrary: pre tb)
  case Nil
  then show ?case by (subst nla_parse_loop.simps) (simp add: nla_stream_def nla_ok_short)
next
  case (Cons a as)
  obtain t d where a: "a = (t, d)" by (cases a)
  let ?p = "pre @ nla_stream ((t, d) # as) @ post" and ?n = "length (nla_stream ((t, d) # as))"
  have p: "?p = pre @ nla_put (t, d) @ nla_stream as @ post" by (simp add: nla_stream_def a)
  have ok: "attr_ok (t, d)" using Cons.prems(1) a by simp
  note f = nla_put_fields(1,2) [OF ok, of pre "nla_stream as @ post", folded p]
  have n: "?n = length (nla_put (t, d)) + length (nla_stream as)" by (simp add: nla_stream_def a)
  have "4 \<le> ?n" "NLA_HDRLEN + length d \<le> ?n"
    using length_nla_put_ge [of d t] n by (auto simp: NLA_HDRLEN_def)
  then have ok1: "nla_ok ?p (length pre) (int ?n) = Some True"
    using nla_ok_nonneg [OF _ _ f(1), of "int ?n"] Cons.prems(2) a by (simp add: NLA_HDRLEN_def)
  have next1: "nla_next ?p (length pre) (int ?n) =
      Some (length (pre @ nla_put (t, d)), int (length (nla_stream as)))"
    using NLA_ALIGN_bounds(1) [of "int (NLA_HDRLEN + length d)"]
    by (simp add: nla_next_def f(1) Let_def length_nla_put n)
  have ty: "nla_type ?p (length pre) = Some (t AND NLA_TYPE_MASK)" unfolding nla_type_def f(2) by simp
  have IH: "nla_parse_loop ?p maxtype None (length (pre @ nla_put (t, d))) (int (length (nla_stream as))) tb' =
      Some (0, nla_index maxtype (length (pre @ nla_put (t, d))) as tb')" for tb'
    using Cons.IH [of "pre @ nla_put (t, d)" tb'] Cons.prems n p a by simp
  show ?case
    unfolding a by (subst nla_parse_loop.simps, unfold ok1 option.case bool.case next1 prod.case ty) (simp add: IH [simplified] Let_def)
qed

text \<open>An index is right for a stream when every entry leads to the payload a reader should find.\<close>

definition index_finds :: "bytes \<Rightarrow> nat \<Rightarrow> nat option list \<Rightarrow> (nat \<Rightarrow> bytes option) \<Rightarrow> bool" where
  "index_finds p maxtype tb finds \<longleftrightarrow>
     (\<forall>ty \<le> maxtype. case finds ty of
        None \<Rightarrow> tb ! ty = None
      | Some d \<Rightarrow> (\<exists>nla. tb ! ty = Some nla \<and> libbpf_nla_len p nla = Some (int (length d)) \<and>
                        seg (libbpf_nla_data nla) (length d) p = d))"

lemma attr_find_snoc:
  "attr_find (as @ [(t, d)]) ty = (if ty = t AND NLA_TYPE_MASK then Some d else attr_find as ty)"
  by (auto simp: attr_find_def)

lemma nla_index_append:
  "nla_index maxtype nla (as @ bs) tb =
   nla_index maxtype (nla + length (nla_stream as)) bs (nla_index maxtype nla as tb)"
  by (induction as arbitrary: nla tb) (auto simp: nla_stream_def add.assoc)

lemma nla_index_finds:
  assumes "\<forall>a \<in> set as. attr_ok a"
  shows "index_finds (pre @ nla_stream as @ post) maxtype
    (nla_index maxtype (length pre) as (replicate (maxtype + 1) None)) (attr_find as)"
  using assms
proof (induction as arbitrary: post rule: rev_induct)
  case Nil
  then show ?case by (simp add: index_finds_def attr_find_def del: replicate_Suc)
next
  case (snoc a as)
  obtain t d where a: "a = (t, d)" by (cases a)
  let ?ty = "t AND NLA_TYPE_MASK" and ?tb = "nla_index maxtype (length pre) as (replicate (maxtype + 1) None)"
  let ?p = "pre @ nla_stream (as @ [(t, d)]) @ post" and ?o = "length (pre @ nla_stream as)"
  have p: "?p = pre @ nla_stream as @ nla_put (t, d) @ post" "?p = (pre @ nla_stream as) @ nla_put (t, d) @ post"
    by (simp_all add: nla_stream_def a)
  have IH: "index_finds ?p maxtype ?tb (attr_find as)" using snoc p(1) by simp
  have ok: "attr_ok (t, d)" using snoc.prems a by simp
  note f = nla_put_fields(1,3) [OF ok, of "pre @ nla_stream as" post, folded p(2)]
  have new: "libbpf_nla_len ?p ?o = Some (int (length d))" "seg (libbpf_nla_data ?o) (length d) ?p = d"
    using f by (simp_all add: libbpf_nla_len_def libbpf_nla_data_def del: length_append)
  have tb: "nla_index maxtype (length pre) (as @ [(t, d)]) (replicate (maxtype + 1) None) =
      (if maxtype < ?ty then ?tb else ?tb[?ty := Some ?o])"
    by (simp add: nla_index_append a Let_def del: replicate_Suc)
  show ?case
    unfolding index_finds_def a
  proof (intro allI impI)
    fix ty assume "ty \<le> maxtype"
    then show "case attr_find (as @ [(t, d)]) ty of
        None \<Rightarrow> nla_index maxtype (length pre) (as @ [(t, d)]) (replicate (maxtype + 1) None) ! ty = None
      | Some e \<Rightarrow> (\<exists>nla. nla_index maxtype (length pre) (as @ [(t, d)]) (replicate (maxtype + 1) None) ! ty = Some nla \<and>
          libbpf_nla_len ?p nla = Some (int (length e)) \<and> seg (libbpf_nla_data nla) (length e) ?p = e)"
      using IH new unfolding tb attr_find_snoc index_finds_def
      by (cases "ty = ?ty") (auto simp: nth_list_update simp del: replicate_Suc split: option.splits)
  qed
qed

text \<open>A nested stream found through an index is parsed in turn.\<close>

lemma nla_put_nonempty: "nla_put a \<noteq> []"
  by (cases a) (auto simp: nla_put_def simp flip: length_0_conv)

lemma nla_stream_eq_Nil: "nla_stream as = [] \<longleftrightarrow> as = []"
  by (cases as) (auto simp: nla_stream_def nla_put_nonempty)

lemma libbpf_nla_parse_finds:
  assumes "\<forall>a \<in> set as. attr_ok a" and "length (nla_stream as) < 2 ^ 31"
    and "seg off (length (nla_stream as)) p = nla_stream as"
  shows "\<exists>tb. libbpf_nla_parse p maxtype off (int (length (nla_stream as))) None = Some (0, tb) \<and>
    length tb = maxtype + 1 \<and> index_finds p maxtype tb (attr_find as)"
proof (cases "off \<le> length p")
  case True
  let ?n = "length (nla_stream as)"
  have "p = take off p @ seg off ?n p @ drop (off + ?n) p"
    by (metis append_take_drop_id drop_drop add.commute seg_def)
  then have p: "p = take off p @ nla_stream as @ drop (off + ?n) p" using assms(3) by simp
  have l: "length (take off p) = off" using True by simp
  show ?thesis
    using nla_parse_loop_stream [OF assms(1,2), of "take off p" "drop (off + ?n) p" maxtype]
      nla_index_finds [OF assms(1), of "take off p" "drop (off + ?n) p" maxtype]
    unfolding p [symmetric] l libbpf_nla_parse_def by auto
next
  case False
  then have "as = []" using assms(3) by (simp add: seg_def nla_stream_eq_Nil [symmetric])
  then show ?thesis
    unfolding libbpf_nla_parse_def
    by (subst nla_parse_loop.simps)
      (simp add: nla_stream_def nla_ok_short index_finds_def attr_find_def del: replicate_Suc)
qed

lemma libbpf_nla_parse_nested_finds:
  assumes "\<forall>a \<in> set as. attr_ok a" and "length (nla_stream as) < 2 ^ 31"
    and "libbpf_nla_len p nla = Some (int (length (nla_stream as)))"
    and "seg (libbpf_nla_data nla) (length (nla_stream as)) p = nla_stream as"
  shows "\<exists>tb. libbpf_nla_parse_nested p maxtype nla None = Some (0, tb) \<and>
    length tb = maxtype + 1 \<and> index_finds p maxtype tb (attr_find as)"
  using libbpf_nla_parse_finds [OF assms(1,2,4)] assms(3) by (simp add: libbpf_nla_parse_nested_def)

lemma seg_full_bound: "seg off w p = d \<Longrightarrow> length d = w \<Longrightarrow> 0 < w \<Longrightarrow> off + w \<le> length p"
  by (auto simp: seg_def)

lemma getattr_of_seg:
  assumes "seg (libbpf_nla_data nla) (length d) p = d"
  shows "length d = 4 \<Longrightarrow> libbpf_nla_getattr_u32 p nla = Some (le_get d)"
    and "length d = 1 \<Longrightarrow> libbpf_nla_getattr_u8 p nla = Some (le_get d)"
  using assms seg_full_bound [OF assms]
  by (auto simp: libbpf_nla_getattr_u32_def libbpf_nla_getattr_u8_def ld_seg)

section \<open>Properties\<close>

text \<open>
  C24: The attribute parser reads only bytes of the stream it is given, whatever they are, provided
  the length of the stream is a multiple of four, as that of every message the kernel builds is; it
  always returns, and every entry of the index it fills is a whole attribute inside the stream.
\<close>

theorem libbpf_nla_parse_safe:
  assumes "policy_ok maxtype policy" and "head + n \<le> length p" and "head + n < 2 ^ 31" and "4 dvd n"
  shows "\<exists>err tb. libbpf_nla_parse p maxtype head (int n) policy = Some (err, tb) \<and>
    length tb = maxtype + 1 \<and> index_ok p head (head + n) tb"
proof -
  have "index_ok p head (head + n) (replicate (maxtype + 1) None)" by (auto simp: index_ok_def)
  then show ?thesis
    using nla_parse_loop_safe [OF assms(1-3), of head "int n" head "replicate (maxtype + 1) None"] assms(4)
    by (auto simp: libbpf_nla_parse_def int_dvd_int_iff [of 4 n, simplified] simp del: replicate_Suc)
qed

theorem libbpf_nla_parse_safe_witness:
  "\<exists>err tb. libbpf_nla_parse (replicate 6 9) 3 1 4 (Some extack_policy) = Some (err, tb) \<and>
    length tb = 4 \<and> index_ok (replicate 6 9) 1 5 tb"
  using libbpf_nla_parse_safe [of 3 "Some extack_policy" 1 4 "replicate 6 9"]
  by (simp add: policy_ok_def extack_policy_def)

text \<open>
  Round trip of attributes: parsing the encoding of any list of attributes, anywhere in a
  buffer, gives an index in which every type leads to the length and the payload of the last attribute
  of that type, with the two flag bits of the type ignored, and NULL when there is none.
\<close>

lemma libbpf_nla_parse_stream:
  assumes "\<forall>a \<in> set as. attr_ok a" and "length (nla_stream as) < 2 ^ 31"
  shows "\<exists>tb. libbpf_nla_parse (pre @ nla_stream as @ post) maxtype (length pre) (int (length (nla_stream as))) None =
      Some (0, tb) \<and> length tb = maxtype + 1 \<and>
    index_finds (pre @ nla_stream as @ post) maxtype tb (attr_find as)"
  using nla_parse_loop_stream [OF assms] nla_index_finds [OF assms(1)]
  by (simp add: libbpf_nla_parse_def)

lemma libbpf_nla_parse_stream_example:
  "\<exists>tb. libbpf_nla_parse ([7] @ nla_stream [(1, [5]), (0x8002, []), (1, [6, 8])] @ [9]) 2 1 20 None = Some (0, tb) \<and>
    index_finds ([7] @ nla_stream [(1, [5]), (0x8002, []), (1, [6, 8])] @ [9]) 2 tb
      (attr_find [(1, [5]), (0x8002, []), (1, [6, 8])]) \<and>
    attr_find [(1, [5]), (0x8002, []), (1, [6, 8])] 1 = Some [6, 8] \<and>
    attr_find [(1, [5]), (0x8002, []), (1, [6, 8])] 2 = Some [] \<and>
    attr_find [(1, [5]), (0x8002, []), (1, [6, 8])] 0 = None"
proof -
  let ?as = "[(1, [5]), (0x8002, []), (1, [6, 8])] :: (nat \<times> bytes) list"
  have l: "length (nla_stream ?as) = 20"
    by (simp add: nla_stream_def length_nla_put NLA_HDRLEN_def NLA_ALIGN_eq)
  have "\<forall>a \<in> set ?as. attr_ok a" by (simp add: attr_ok_def NLA_HDRLEN_def)
  moreover have "length (nla_stream ?as) < 2 ^ 31" unfolding l by simp
  moreover have "attr_find ?as 1 = Some [6, 8]" "attr_find ?as 2 = Some []" "attr_find ?as 0 = None"
    by (simp_all add: attr_find_def NLA_TYPE_MASK_def)
  ultimately show ?thesis using libbpf_nla_parse_stream [of ?as "[7]" "[9]" 2] unfolding l by auto
qed

text \<open>
  The guard of the loop does not stop at the end of a stream whose last attribute is not padded: the
  remaining length is then negative, is compared as an unsigned number, and the length field of an
  attribute past the end is read.
\<close>

lemma nla_parse_unpadded_overread:
  assumes "length d mod 4 \<noteq> 0" and "NLA_HDRLEN + length d < 2 ^ 16" and "t < 2 ^ 16"
  shows "libbpf_nla_parse (le_put 2 (NLA_HDRLEN + length d) @ le_put 2 t @ d) maxtype 0 (int (NLA_HDRLEN + length d)) None = None"
proof -
  let ?n = "NLA_HDRLEN + length d"
  let ?p = "le_put 2 ?n @ le_put 2 t @ d" and ?a = "NLA_ALIGN (int ?n)"
  have f: "ld 0 2 ?p = Some ?n" "ld 2 2 ?p = Some t"
    using assms(2,3) by (simp_all add: ld_append_put ld_append_skip)
  have a: "int ?n < ?a" "?a \<le> int ?n + 3"
    using assms(1) NLA_ALIGN_bounds [of "int ?n"] unfolding NLA_HDRLEN_def by presburger+
  have "nla_ok ?p 0 (int ?n) = Some True"
    using nla_ok_nonneg [OF _ _ f(1), of "int ?n"] assms(2) by (simp add: NLA_HDRLEN_def)
  moreover have "nla_next ?p 0 (int ?n) = Some (nat ?a, int ?n - ?a)" by (simp add: nla_next_def f(1) Let_def)
  moreover have "nla_type ?p 0 = Some (t AND NLA_TYPE_MASK)" unfolding nla_type_def by (simp add: ld_append_skip ld_append_put) (use assms(3) in simp)
  moreover have "nla_ok ?p (nat ?a) (int ?n - ?a) = None"
  proof -
    have "int ?n - ?a \<in> {-3, -2, -1}" using a by auto
    then have "(4 :: u64) \<le> word_of_int (int ?n - ?a)" by (elim insertE emptyE, simp_all only:) simp_all
    moreover have "ld (nat ?a) 2 ?p = None" using a by (simp add: NLA_HDRLEN_def)
    ultimately show ?thesis unfolding nla_ok_def by (simp only: if_True bind.simps)
  qed
  then have "nla_parse_loop ?p maxtype None (nat ?a) (int ?n - ?a) tb = None" for tb
    by (subst nla_parse_loop.simps) simp
  ultimately show ?thesis unfolding libbpf_nla_parse_def
    by (subst nla_parse_loop.simps) (simp del: append_assoc)
qed

text \<open>
  The attributes of an extended acknowledgement are taken to reach sixteen bytes past the end of the
  message: for a capped message of 44 bytes with no message attribute, followed in the buffer by stale
  bytes, the text printed is at offset 48.
\<close>

definition stale_ack :: bytes where
  "stale_ack =
     [44, 0, 0, 0, 2, 0, 0, 3, 1, 0, 0, 0, 7, 0, 0, 0,  234, 255, 255, 255,
      0, 0, 0, 0, 0, 0, 0, 0, 0, 0, 0, 0, 0, 0, 0, 0,  8, 0, 2, 0, 0, 0, 0, 0,
      16, 0, 1, 0, 115, 116, 97, 108, 101, 0, 0, 0, 0, 0, 0, 0]"

lemma dump_errormsg_reads_stale: "libbpf_nla_dump_errormsg stale_ack 0 = Some (KernelMessage (Some 48))"
proof -
  let ?p = stale_ack and ?pol = "Some extack_policy"
  note st = nla_ok_def nla_next_def nla_type_def NLA_ALIGN_eq Let_def NLA_TYPE_MASK_def
  note ev = st validate_nla_def libbpf_nla_len_def
    libbpf_nla_data_def extack_policy_def nla_attr_minlen_def NLA_HDRLEN_def
    LIBBPF_NLA_TYPE_MAX_def LIBBPF_NLA_STRING_def LIBBPF_NLA_U32_def
  have f: "ld 6 2 ?p = Some 0x300" "ld 0 4 ?p = Some 44" "ld 36 2 ?p = Some 8" "ld 38 2 ?p = Some 2"
    "ld 44 2 ?p = Some 16" "ld 46 2 ?p = Some 1" "ld 59 1 ?p = Some 0"
    by (simp_all add: ld_def stale_ack_def)
  have 3: "nla_parse_loop ?p 3 ?pol 60 0 tb = Some (0, tb)" for tb
    by (subst nla_parse_loop.simps) (simp add: nla_ok_def)
  have v: "validate_nla ?p 36 3 extack_policy = Some 0" "validate_nla ?p 44 3 extack_policy = Some 0"
    by (simp_all add: ev f f(7) [simplified])
  have 2: "nla_parse_loop ?p 3 ?pol 44 16 tb = Some (0, tb[1 := Some 44])" for tb
    by (subst nla_parse_loop.simps) (simp add: st f v 3)
  have 1: "nla_parse_loop ?p 3 ?pol 36 24 tb = Some (0, tb[2 := Some 36, 1 := Some 44])" for tb
    by (subst nla_parse_loop.simps) (simp add: st f v 2)
  show ?thesis
    by (simp add: libbpf_nla_dump_errormsg_def f NLM_F_ACK_TLVS_def NLM_F_CAPPED_def NLMSG_HDRLEN_def Let_def
        libbpf_nla_parse_def NLMSGERR_ATTR_MAX_def NLMSGERR_ATTR_MSG_def 1 libbpf_nla_data_def NLA_HDRLEN_def)
qed

end
