(* ===== verification/Libbpf_Netlink.thy ===== *)
theory Libbpf_Netlink
  imports Libbpf_Sys Libbpf_Nlattr
begin

text \<open>
  The netlink client of the bundled libbpf (\<open>lib/libbpf/src/netlink.c\<close>): attaching an XDP program to an
  interface and asking which one is attached. Requests are built by stores into the request structure,
  replies are read from the 4096-byte receive buffer, which keeps the bytes of earlier datagrams.
\<close>

section \<open>The socket\<close>

definition AF_NETLINK :: nat where "AF_NETLINK = 16"
definition SOCK_RAW :: nat where "SOCK_RAW = 3"
definition SOL_NETLINK :: nat where "SOL_NETLINK = 270"
definition NETLINK_EXT_ACK :: nat where "NETLINK_EXT_ACK = 11"

definition LIBBPF_ERRNO__INTERNAL :: int where "LIBBPF_ERRNO__INTERNAL = 4004"
definition LIBBPF_ERRNO__WRNGPID :: int where "LIBBPF_ERRNO__WRNGPID = 4011"
definition LIBBPF_ERRNO__INVSEQ :: int where "LIBBPF_ERRNO__INVSEQ = 4012"
definition LIBBPF_ERRNO__NLPARSE :: int where "LIBBPF_ERRNO__NLPARSE = 4013"

text \<open>\<open>struct sockaddr_nl\<close>: family, padding, port and groups, twelve bytes.\<close>

definition sockaddr_nl :: bytes where
  "sockaddr_nl = le_put 2 AF_NETLINK @ replicate 10 0"

text \<open>The descriptor or the error, and the port; the port is not set on errors.\<close>

definition libbpf_netlink_open :: "'k os_scheme \<Rightarrow> strace \<Rightarrow> ((int \<times> nat) \<times> strace) option" where
  "libbpf_netlink_open K tr =
     do { ((sock, _), tr) \<leftarrow> sys K (Socket AF_NETLINK SOCK_RAW 0) tr;
          if sock < 0 then Some ((- errno_of K tr, 0), tr)
          else do {
            (_, tr) \<leftarrow> sys K (Setsockopt sock SOL_NETLINK NETLINK_EXT_ACK (le_put 4 1)) tr;
            ((rv, _), tr) \<leftarrow> sys K (Bind sock sockaddr_nl) tr;
            if rv < 0 then do { let ret = - errno_of K tr; (_, tr) \<leftarrow> sys K (Close sock) tr; Some ((ret, 0), tr) }
            else do {
              ((rv, sa), tr) \<leftarrow> sys K (Getsockname sock 12) tr;
              if rv < 0 then do { let ret = - errno_of K tr; (_, tr) \<leftarrow> sys K (Close sock) tr; Some ((ret, 0), tr) }
              else if length sa \<noteq> 12
              then do { (_, tr) \<leftarrow> sys K (Close sock) tr; Some ((- LIBBPF_ERRNO__INTERNAL, 0), tr) }
              else Some ((sock, le_get (seg 4 4 sa)), tr) } } }"

section \<open>Replies\<close>

definition NLM_F_MULTI :: nat where "NLM_F_MULTI = 2"
definition NLMSG_ERROR :: nat where "NLMSG_ERROR = 2"
definition NLMSG_DONE :: nat where "NLMSG_DONE = 3"

definition NLMSG_OK :: "bytes \<Rightarrow> nat \<Rightarrow> int \<Rightarrow> bool option" where
  "NLMSG_OK p nh len =
     (if 16 \<le> len then do { l \<leftarrow> ld nh 4 p; Some (16 \<le> l \<and> int l \<le> len) } else Some False)"

definition NLMSG_NEXT :: "bytes \<Rightarrow> nat \<Rightarrow> int \<Rightarrow> (nat \<times> int) option" where
  "NLMSG_NEXT p nh len =
     do { l \<leftarrow> ld nh 4 p; let a = NLA_ALIGN (int l); Some (nh + nat a, len - a) }"

text \<open>
  What the body of the loop over the messages of a datagram does with one of them: return a value, or
  go on (with the flag \<open>multipart\<close>). \<open>fn\<close> is the callback with its own callback and cookie applied to it;
  it gets the offset of the message and the cookie.
\<close>

datatype nl_next = NlReturn int | NlGoOn bool

definition nl_message ::
    "bytes \<Rightarrow> nat \<Rightarrow> nat \<Rightarrow> (bytes \<Rightarrow> nat \<Rightarrow> 'c \<Rightarrow> (int \<times> 'c) option) option \<Rightarrow> nat \<Rightarrow> bool \<Rightarrow> 'c \<Rightarrow> (nl_next \<times> 'c) option" where
  "nl_message p nl_pid seq fn nh multipart c =
     do { pid \<leftarrow> ld (nh + 12) 4 p;
          if pid \<noteq> nl_pid then Some (NlReturn (- LIBBPF_ERRNO__WRNGPID), c)
          else do {
            sq \<leftarrow> ld (nh + 8) 4 p;
            if sq \<noteq> seq then Some (NlReturn (- LIBBPF_ERRNO__INVSEQ), c)
            else do {
              flags \<leftarrow> ld (nh + 6) 2 p;
              let multipart = (if flags AND NLM_F_MULTI \<noteq> 0 then True else multipart);
              type \<leftarrow> ld (nh + 4) 2 p;
              if type = NLMSG_ERROR then do {
                e \<leftarrow> ld (nh + NLMSG_HDRLEN) 4 p;
                if e = 0 then Some (NlGoOn multipart, c)
                else do { _ \<leftarrow> libbpf_nla_dump_errormsg p nh; Some (NlReturn (sint (word_of_nat e :: u32)), c) } }
              else if type = NLMSG_DONE then Some (NlReturn 0, c)
              else (case fn of
                      None \<Rightarrow> Some (NlGoOn multipart, c)
                    | Some f \<Rightarrow> do { (ret, c) \<leftarrow> f p nh c;
                                     Some (if ret \<noteq> 0 then NlReturn ret else NlGoOn multipart, c) }) } } }"

lemma NLMSG_NEXT_decreases:
  assumes "NLMSG_OK p nh len = Some True" and "NLMSG_NEXT p nh len = Some (nh', len')"
  shows "len' < len" "0 < len"
proof -
  obtain l where l: "ld nh 4 p = Some l" "16 \<le> l" "int l \<le> len"
    using assms(1) by (auto simp: NLMSG_OK_def split: if_splits Option.bind_splits)
  then have "len' = len - NLA_ALIGN (int l)" using assms(2) by (simp add: NLMSG_NEXT_def Let_def)
  then show "len' < len" "0 < len" using l NLA_ALIGN_bounds(1) [of "int l"] by auto
qed

function nl_messages ::
    "bytes \<Rightarrow> nat \<Rightarrow> nat \<Rightarrow> (bytes \<Rightarrow> nat \<Rightarrow> 'c \<Rightarrow> (int \<times> 'c) option) option \<Rightarrow> nat \<Rightarrow> int \<Rightarrow> bool \<Rightarrow> 'c \<Rightarrow> (nl_next \<times> 'c) option" where
  "nl_messages p nl_pid seq fn nh len multipart c =
     (case NLMSG_OK p nh len of
        None \<Rightarrow> None
      | Some False \<Rightarrow> Some (NlGoOn multipart, c)
      | Some True \<Rightarrow>
          (case NLMSG_NEXT p nh len of
             None \<Rightarrow> None
           | Some (nh', len') \<Rightarrow>
               (case nl_message p nl_pid seq fn nh multipart c of
                  None \<Rightarrow> None
                | Some (NlReturn ret, c') \<Rightarrow> Some (NlReturn ret, c')
                | Some (NlGoOn multipart', c') \<Rightarrow> nl_messages p nl_pid seq fn nh' len' multipart' c')))"
  by pat_completeness auto

termination nl_messages
  by (relation "measure (\<lambda>(p, nl_pid, seq, fn, nh, len, multipart, c). nat len)")
    (auto dest: NLMSG_NEXT_decreases)

declare nl_messages.simps [simp del]

text \<open>
  \<open>bpf_netlink_recv\<close>: the loop over the datagrams, which ends with an error, an empty datagram, a message
  that returns, or a datagram without the multipart flag; it may also never end.
\<close>

definition BUF_SIZE :: nat where "BUF_SIZE = 4096"

partial_function (option) netlink_recv ::
    "'k os_scheme \<Rightarrow> int \<Rightarrow> nat \<Rightarrow> nat \<Rightarrow> (bytes \<Rightarrow> nat \<Rightarrow> 'c \<Rightarrow> (int \<times> 'c) option) option \<Rightarrow> bytes \<Rightarrow> 'c \<Rightarrow> strace \<Rightarrow>
     ((int \<times> 'c) \<times> strace) option" where
  "netlink_recv K sock nl_pid seq fn buf c tr =
     do { ((len, data), tr) \<leftarrow> sys K (Recv sock BUF_SIZE) tr;
          if len < 0 then Some ((- errno_of K tr, c), tr)
          else if len = 0 then Some ((0, c), tr)
          else (let buf = data @ drop (length data) buf in
            case nl_messages buf nl_pid seq fn 0 len False c of
              None \<Rightarrow> None
            | Some (NlReturn ret, c) \<Rightarrow> Some ((ret, c), tr)
            | Some (NlGoOn multipart, c) \<Rightarrow>
                if multipart then netlink_recv K sock nl_pid seq fn buf c tr else Some ((0, c), tr)) }"

definition bpf_netlink_recv ::
    "'k os_scheme \<Rightarrow> int \<Rightarrow> nat \<Rightarrow> nat \<Rightarrow> (bytes \<Rightarrow> nat \<Rightarrow> 'c \<Rightarrow> (int \<times> 'c) option) option \<Rightarrow> 'c \<Rightarrow> strace \<Rightarrow>
     ((int \<times> 'c) \<times> strace) option" where
  "bpf_netlink_recv K sock nl_pid seq fn c tr = netlink_recv K sock nl_pid seq fn (take BUF_SIZE (stack_bytes K)) c tr"

section \<open>Attaching a program\<close>

definition RTM_SETLINK :: nat where "RTM_SETLINK = 19"
definition IFLA_XDP :: nat where "IFLA_XDP = 43"
definition IFLA_XDP_FD :: nat where "IFLA_XDP_FD = 1"
definition IFLA_XDP_FLAGS :: nat where "IFLA_XDP_FLAGS = 3"
definition NLA_F_NESTED :: nat where "NLA_F_NESTED = 0x8000"

text \<open>
  One attribute of four bytes appended at \<open>nla + nla->nla_len\<close> inside the nested attribute \<open>nla\<close>, whose
  length grows by it.
\<close>

definition put_nested :: "nat \<Rightarrow> nat \<Rightarrow> nat \<Rightarrow> bytes \<Rightarrow> bytes option" where
  "put_nested nla type v req =
     do { nl \<leftarrow> ld nla 2 req;
          let nla_xdp = nla + nl;
          req \<leftarrow> st (nla_xdp + 2) 2 type req;
          req \<leftarrow> st nla_xdp 2 (NLA_HDRLEN + 4) req;
          req \<leftarrow> st (nla_xdp + NLA_HDRLEN) 4 v req;
          xl \<leftarrow> ld nla_xdp 2 req;
          st nla 2 (nl + xl) req }"

text \<open>
  The request: \<open>struct nlmsghdr\<close> at 0, \<open>struct ifinfomsg\<close> at 16 and 64 bytes for attributes at 32; the
  bytes passed to \<open>send\<close> are the first \<open>nlmsg_len\<close> of it.
\<close>

definition setlink_request :: "u32 \<Rightarrow> u32 \<Rightarrow> u32 \<Rightarrow> bytes option" where
  "setlink_request ifindex fd flags =
     do { req \<leftarrow> st 0 4 (NLMSG_HDRLEN + 16) (replicate 96 0);
          req \<leftarrow> st 6 2 (1 OR 4) req;
          req \<leftarrow> st 4 2 RTM_SETLINK req;
          req \<leftarrow> st 12 4 0 req;
          req \<leftarrow> st 8 4 1 req;
          req \<leftarrow> st 16 1 0 req;
          req \<leftarrow> st 20 4 (unat ifindex) req;
          l \<leftarrow> ld 0 4 req;
          let nla = nat (NLA_ALIGN (int l));
          req \<leftarrow> st (nla + 2) 2 (NLA_F_NESTED OR IFLA_XDP) req;
          req \<leftarrow> st nla 2 NLA_HDRLEN req;
          req \<leftarrow> put_nested nla IFLA_XDP_FD (unat fd) req;
          req \<leftarrow> (if flags \<noteq> 0 then put_nested nla IFLA_XDP_FLAGS (unat flags) req else Some req);
          nl \<leftarrow> ld nla 2 req;
          req \<leftarrow> st 0 4 (l + nat (NLA_ALIGN (int nl))) req;
          n \<leftarrow> ld 0 4 req;
          Some (take n req) }"

definition bpf_set_link_xdp_fd :: "'k os_scheme \<Rightarrow> u32 \<Rightarrow> u32 \<Rightarrow> u32 \<Rightarrow> strace \<Rightarrow> (int \<times> strace) option" where
  "bpf_set_link_xdp_fd K ifindex fd flags tr =
     do { ((sock, nl_pid), tr) \<leftarrow> libbpf_netlink_open K tr;
          if sock < 0 then Some (sock, tr)
          else do {
            req \<leftarrow> setlink_request ifindex fd flags;
            ((rv, _), tr) \<leftarrow> sys K (Sendto sock req) tr;
            if rv < 0 then do { let ret = - errno_of K tr; (_, tr) \<leftarrow> sys K (Close sock) tr; Some (ret, tr) }
            else do {
              ((ret, _), tr) \<leftarrow> bpf_netlink_recv K sock nl_pid 1 None () tr;
              (_, tr) \<leftarrow> sys K (Close sock) tr;
              Some (ret, tr) } } }"

section \<open>Asking for the attached program\<close>

definition RTM_GETLINK :: nat where "RTM_GETLINK = 18"
definition NLM_F_DUMP_REQUEST :: nat where "NLM_F_DUMP_REQUEST = 0x301"
definition AF_PACKET :: nat where "AF_PACKET = 17"
definition IFLA_MAX :: nat where "IFLA_MAX = 53"
definition IFLA_XDP_MAX :: nat where "IFLA_XDP_MAX = 7"
definition IFLA_XDP_ATTACHED :: nat where "IFLA_XDP_ATTACHED = 2"
definition IFLA_XDP_PROG_ID :: nat where "IFLA_XDP_PROG_ID = 4"
definition IFLA_XDP_DRV_PROG_ID :: nat where "IFLA_XDP_DRV_PROG_ID = 5"
definition IFLA_XDP_SKB_PROG_ID :: nat where "IFLA_XDP_SKB_PROG_ID = 6"
definition IFLA_XDP_HW_PROG_ID :: nat where "IFLA_XDP_HW_PROG_ID = 7"
definition XDP_ATTACHED_NONE :: nat where "XDP_ATTACHED_NONE = 0"
definition XDP_ATTACHED_MULTI :: nat where "XDP_ATTACHED_MULTI = 4"

record xdp_link_info =
  prog_id :: nat
  drv_prog_id :: nat
  hw_prog_id :: nat
  skb_prog_id :: nat
  attach_mode :: nat

record xdp_id_md =
  md_ifindex :: int
  md_flags :: u32
  md_info :: xdp_link_info

text \<open>The layout of \<open>struct xdp_link_info\<close>, with its three bytes of padding.\<close>

definition xdp_link_info_bytes :: "xdp_link_info \<Rightarrow> bytes" where
  "xdp_link_info_bytes i =
     le_put 4 (prog_id i) @ le_put 4 (drv_prog_id i) @ le_put 4 (hw_prog_id i) @ le_put 4 (skb_prog_id i) @
     le_put 1 (attach_mode i) @ replicate 3 0"

definition no_xdp_info :: xdp_link_info where
  "no_xdp_info = \<lparr>prog_id = 0, drv_prog_id = 0, hw_prog_id = 0, skb_prog_id = 0, attach_mode = 0\<rparr>"

text \<open>\<open>if (tb[type]) field = getattr_u32(tb[type])\<close>.\<close>

definition attr_u32 :: "bytes \<Rightarrow> nat option list \<Rightarrow> nat \<Rightarrow> nat \<Rightarrow> nat option" where
  "attr_u32 p tb type old = (case tb ! type of None \<Rightarrow> Some old | Some nla \<Rightarrow> libbpf_nla_getattr_u32 p nla)"

text \<open>\<open>get_xdp_info\<close>: \<open>ifinfo\<close> is the offset of \<open>struct ifinfomsg\<close>, whose index is at 4.\<close>

definition get_xdp_info :: "bytes \<Rightarrow> xdp_id_md \<Rightarrow> nat \<Rightarrow> nat option list \<Rightarrow> (int \<times> xdp_id_md) option" where
  "get_xdp_info p md ifinfo tb =
     do { ix \<leftarrow> ld (ifinfo + 4) 4 p;
          if md_ifindex md \<noteq> 0 \<and> md_ifindex md \<noteq> sint (word_of_nat ix :: u32) then Some (0, md)
          else (case tb ! IFLA_XDP of
            None \<Rightarrow> Some (0, md)
          | Some xdp \<Rightarrow>
              do { (ret, xdp_tb) \<leftarrow> libbpf_nla_parse_nested p IFLA_XDP_MAX xdp None;
                   if ret \<noteq> 0 then Some (ret, md)
                   else (case xdp_tb ! IFLA_XDP_ATTACHED of
                     None \<Rightarrow> Some (0, md)
                   | Some att \<Rightarrow>
                       do { mode \<leftarrow> libbpf_nla_getattr_u8 p att;
                            let i = (md_info md)\<lparr>attach_mode := mode\<rparr>;
                            if mode = XDP_ATTACHED_NONE then Some (0, md\<lparr>md_info := i\<rparr>)
                            else do {
                              a \<leftarrow> attr_u32 p xdp_tb IFLA_XDP_PROG_ID (prog_id i);
                              b \<leftarrow> attr_u32 p xdp_tb IFLA_XDP_SKB_PROG_ID (skb_prog_id i);
                              c \<leftarrow> attr_u32 p xdp_tb IFLA_XDP_DRV_PROG_ID (drv_prog_id i);
                              d \<leftarrow> attr_u32 p xdp_tb IFLA_XDP_HW_PROG_ID (hw_prog_id i);
                              Some (0, md\<lparr>md_info := i\<lparr>prog_id := a, skb_prog_id := b, drv_prog_id := c, hw_prog_id := d\<rparr>\<rparr>) } }) }) }"

definition dump_link_nlmsg ::
    "(bytes \<Rightarrow> 'c \<Rightarrow> nat \<Rightarrow> nat option list \<Rightarrow> (int \<times> 'c) option) \<Rightarrow> bytes \<Rightarrow> nat \<Rightarrow> 'c \<Rightarrow> (int \<times> 'c) option" where
  "dump_link_nlmsg fn p nlh c =
     do { l \<leftarrow> ld nlh 4 p;
          let ifi = nlh + NLMSG_HDRLEN;
          let len = sint (word_of_nat l - word_of_nat (NLMSG_HDRLEN + 16) :: u32);
          (err, tb) \<leftarrow> libbpf_nla_parse p IFLA_MAX (ifi + 16) len None;
          if err \<noteq> 0 then Some (- LIBBPF_ERRNO__NLPARSE, c) else fn p c ifi tb }"

definition getlink_request :: "nat \<Rightarrow> bytes" where
  "getlink_request seq =
     le_put 4 (NLMSG_HDRLEN + 16) @ le_put 2 RTM_GETLINK @ le_put 2 NLM_F_DUMP_REQUEST @ le_put 4 seq @ le_put 4 0 @
     le_put 1 AF_PACKET @ replicate 15 0"

text \<open>The sequence number is the time as an \<open>int\<close>, compared as unsigned.\<close>

definition libbpf_nl_get_link ::
    "'k os_scheme \<Rightarrow> int \<Rightarrow> nat \<Rightarrow> (bytes \<Rightarrow> 'c \<Rightarrow> nat \<Rightarrow> nat option list \<Rightarrow> (int \<times> 'c) option) \<Rightarrow> 'c \<Rightarrow> strace \<Rightarrow>
     ((int \<times> 'c) \<times> strace) option" where
  "libbpf_nl_get_link K sock nl_pid fn c tr =
     do { ((t, _), tr) \<leftarrow> sys K Clock tr;
          let seq = unat (word_of_int t :: u32);
          ((rv, _), tr) \<leftarrow> sys K (Sendto sock (getlink_request seq)) tr;
          if rv < 0 then Some ((- errno_of K tr, c), tr)
          else bpf_netlink_recv K sock nl_pid seq (Some (dump_link_nlmsg fn)) c tr }"

definition XDP_FLAGS_MASK :: u32 where "XDP_FLAGS_MASK = 0xF"
definition XDP_FLAGS_SKB_MODE :: u32 where "XDP_FLAGS_SKB_MODE = 2"
definition XDP_FLAGS_DRV_MODE :: u32 where "XDP_FLAGS_DRV_MODE = 4"
definition XDP_FLAGS_HW_MODE :: u32 where "XDP_FLAGS_HW_MODE = 8"
definition EINVAL :: int where "EINVAL = 22"

text \<open>The result and, when it is zero, the bytes written to \<open>info\<close>.\<close>

definition bpf_get_link_xdp_info ::
    "'k os_scheme \<Rightarrow> int \<Rightarrow> nat \<Rightarrow> u32 \<Rightarrow> strace \<Rightarrow> ((int \<times> bytes) \<times> strace) option" where
  "bpf_get_link_xdp_info K ifindex info_size flags tr =
     (if flags AND NOT XDP_FLAGS_MASK \<noteq> 0 \<or> info_size = 0 then Some ((- EINVAL, []), tr)
      else
        (let flags = flags AND (XDP_FLAGS_SKB_MODE OR XDP_FLAGS_DRV_MODE OR XDP_FLAGS_HW_MODE);
             mask = flags - 1
         in if flags \<noteq> 0 \<and> flags AND mask \<noteq> 0 then Some ((- EINVAL, []), tr)
            else do {
              ((sock, nl_pid), tr) \<leftarrow> libbpf_netlink_open K tr;
              if sock < 0 then Some ((sock, []), tr)
              else do {
                ((ret, md), tr) \<leftarrow> libbpf_nl_get_link K sock nl_pid get_xdp_info
                   \<lparr>md_ifindex = ifindex, md_flags = flags, md_info = no_xdp_info\<rparr> tr;
                let sz = min info_size 20;
                let info = (if ret = 0 then take sz (xdp_link_info_bytes (md_info md)) @ replicate (info_size - sz) 0 else []);
                (_, tr) \<leftarrow> sys K (Close sock) tr;
                Some ((ret, info), tr) } }))"

definition get_xdp_id :: "bytes \<Rightarrow> u32 \<Rightarrow> nat option" where
  "get_xdp_id info flags =
     do { mode \<leftarrow> ld 16 1 info;
          if mode \<noteq> XDP_ATTACHED_MULTI then ld 0 4 info
          else if flags AND XDP_FLAGS_DRV_MODE \<noteq> 0 then ld 4 4 info
          else if flags AND XDP_FLAGS_HW_MODE \<noteq> 0 then ld 8 4 info
          else if flags AND XDP_FLAGS_SKB_MODE \<noteq> 0 then ld 12 4 info
          else Some 0 }"

text \<open>The result, and \<open>*prog_id\<close>, which keeps its old value on errors.\<close>

definition bpf_get_link_xdp_id :: "'k os_scheme \<Rightarrow> int \<Rightarrow> nat \<Rightarrow> u32 \<Rightarrow> strace \<Rightarrow> ((int \<times> nat) \<times> strace) option" where
  "bpf_get_link_xdp_id K ifindex old flags tr =
     do { ((ret, info), tr) \<leftarrow> bpf_get_link_xdp_info K ifindex 20 flags tr;
          if ret = 0 then do { i \<leftarrow> get_xdp_id info flags; Some ((ret, i), tr) }
          else Some ((ret, old), tr) }"

section \<open>Requests\<close>

text \<open>The attributes of the request as a list.\<close>

definition setlink_attrs :: "u32 \<Rightarrow> u32 \<Rightarrow> (nat \<times> bytes) list" where
  "setlink_attrs fd flags =
     (IFLA_XDP_FD, le_put 4 (unat fd)) # (if flags \<noteq> 0 then [(IFLA_XDP_FLAGS, le_put 4 (unat flags))] else [])"

lemma le_put_2: "le_put 2 n = [word_of_nat n, word_of_nat (n div 256)]"
  by (simp add: numeral_2_eq_2)

lemma le_put_4: "le_put 4 n = [word_of_nat n, word_of_nat (n div 256), word_of_nat (n div 65536), word_of_nat (n div 16777216)]"
proof -
  have "le_put (Suc (Suc (Suc (Suc 0)))) n =
      [word_of_nat n, word_of_nat (n div 256), word_of_nat (n div 256 div 256), word_of_nat (n div 256 div 256 div 256)]"
    by (simp only: le_put.simps)
  moreover have "Suc (Suc (Suc (Suc 0))) = 4" by simp
  moreover have "n div 256 div 256 = n div 65536" "n div 256 div 256 div 256 = n div 16777216"
    by (simp_all only: div_mult2_eq [symmetric]) simp_all
  ultimately show ?thesis by metis
qed

lemma replicate_unfold: "replicate (numeral k) x = x # replicate (pred_numeral k) x"
  by (simp add: numeral_eq_Suc)

lemma setlink_request_eq:
  "setlink_request ifindex fd flags =
     (let body = nla_put (NLA_F_NESTED OR IFLA_XDP, nla_stream (setlink_attrs fd flags)) in
      Some (le_put 4 (32 + length body) @ le_put 2 RTM_SETLINK @ le_put 2 5 @ le_put 4 1 @ le_put 4 0 @
        replicate 4 0 @ le_put 4 (unat ifindex) @ replicate 8 0 @ body))"
proof (cases "flags = 0")
  case True
  then show ?thesis
    apply (simp add: setlink_request_def put_nested_def st_def ld_def le_put_2 le_put_4 replicate_unfold Let_def
      RTM_SETLINK_def NLMSG_HDRLEN_def NLA_F_NESTED_def IFLA_XDP_def NLA_HDRLEN_def NLA_ALIGN_eq
      setlink_attrs_def nla_stream_def nla_put_def nla_pad_def IFLA_XDP_FD_def IFLA_XDP_FLAGS_def)
    done
next
  case False
  then show ?thesis
    apply (simp add: setlink_request_def put_nested_def st_def ld_def le_put_2 le_put_4 replicate_unfold Let_def
      RTM_SETLINK_def NLMSG_HDRLEN_def NLA_F_NESTED_def IFLA_XDP_def NLA_HDRLEN_def NLA_ALIGN_eq
      setlink_attrs_def nla_stream_def nla_put_def nla_pad_def IFLA_XDP_FD_def IFLA_XDP_FLAGS_def)
    done
qed

section \<open>Resources\<close>

text \<open>Opening leaves a socket exactly when it succeeds.\<close>

lemma netlink_open_wp:
  "wp (libbpf_netlink_open K tr)
     (\<lambda>(sock, pid) tr'. held R tr' = (if sock < 0 then held R tr else add_mset (Fd sock) (held R tr)))"
  unfolding libbpf_netlink_open_def by (auto simp: LIBBPF_ERRNO__INTERNAL_def intro!: wp_bind_sys wp_if wp_let)

lemma netlink_recv_held_Some:
  "netlink_recv K sock nl_pid seq fn buf c tr = Some r \<Longrightarrow> held R (snd r) = held R tr"
proof (erule netlink_recv.raw_induct [where P = "\<lambda>K sock nl_pid seq fn buf c tr r. held R (snd r) = held R tr", rotated], goal_cases)
  case (1 recv K sock nl_pid seq fn buf c tr r)
  have IH: "wlp (recv K sock nl_pid seq fn buf' c' (tr @ [(Recv n m, rv, data)])) (\<lambda>_ tr'. held R tr' = held R tr)"
    for buf' c' n m rv data
    using 1(1) by (fastforce simp: wlp_def)
  have "wlp (Some r) (\<lambda>_ tr'. held R tr' = held R tr)"
    unfolding 1(2) [symmetric]
    by (auto intro!: wlp_bind_sys wlp_if IH split: option.splits nl_next.splits simp: Let_def)
  then show ?case by (cases r) simp
qed

lemma bpf_netlink_recv_held:
  "bpf_netlink_recv K sock nl_pid seq fn c tr = Some (r, tr') \<Longrightarrow> held R tr' = held R tr"
  unfolding bpf_netlink_recv_def by (drule netlink_recv_held_Some [where R = R]) simp

lemma set_link_xdp_fd_held: "wlp (bpf_set_link_xdp_fd K ifindex fd flags tr) (\<lambda>_ tr'. held R tr' = held R tr)"
  unfolding bpf_set_link_xdp_fd_def
  by (rule wlp_bind, rule wlp_mono [OF wp_wlp [OF netlink_open_wp [of K tr R]]])
    (auto intro!: wlp_bind_pure wlp_bind_sys wlp_let wlp_if dest!: bpf_netlink_recv_held [where R = R])

lemma get_link_held: "wlp (libbpf_nl_get_link K sock nl_pid fn c tr) (\<lambda>_ tr'. held R tr' = held R tr)"
  unfolding libbpf_nl_get_link_def
  by (auto intro!: wlp_bind_sys wlp_let wlp_if simp: wlp_def [of "bpf_netlink_recv _ _ _ _ _ _ _"]
      dest!: bpf_netlink_recv_held [where R = R])

lemma get_link_xdp_info_held: "wlp (bpf_get_link_xdp_info K ifindex n flags tr) (\<lambda>_ tr'. held R tr' = held R tr)"
proof -
  have "wlp (libbpf_nl_get_link K sock pid get_xdp_info md tr1 \<bind> f) (\<lambda>_ tr'. held R tr' = held R tr)"
    if "\<And>a tr2. held R tr2 = held R tr1 \<Longrightarrow> wlp (f (a, tr2)) (\<lambda>_ tr'. held R tr' = held R tr)" for sock pid md tr1 f
    by (rule wlp_bind, rule wlp_mono [OF get_link_held]) (rule that)
  note get = this
  show ?thesis
    unfolding bpf_get_link_xdp_info_def Let_def
    by (intro wlp_if, simp, simp, rule wlp_bind, rule wlp_mono [OF wp_wlp [OF netlink_open_wp [of K tr R]]])
      (auto intro!: get wlp_bind_sys wlp_if)
qed

lemma get_link_xdp_id_held: "wlp (bpf_get_link_xdp_id K ifindex old flags tr) (\<lambda>_ tr'. held R tr' = held R tr)"
  unfolding bpf_get_link_xdp_id_def
  by (rule wlp_bind, rule wlp_mono [OF get_link_xdp_info_held]) (auto intro!: wlp_if wlp_bind_pure)

end
