(* ===== verification/Libbpf_Bpf.thy ===== *)
theory Libbpf_Bpf
  imports Libbpf_Sys
begin

text \<open>
  The wrappers of the \<open>bpf\<close> system call in the bundled libbpf (\<open>lib/libbpf/src/bpf.c\<close>): map creation and
  access, pinning, and program loading with its retries. A wrapper returns what \<open>syscall\<close> returns: a
  non-negative number, or -1 with \<open>errno\<close> set.
\<close>

section \<open>Maps\<close>

definition BPF_OBJ_NAME_LEN :: nat where "BPF_OBJ_NAME_LEN = 16"
definition BPF_F_NUMA_NODE :: u32 where "BPF_F_NUMA_NODE = 4"

definition sys_bpf :: "'k os_scheme \<Rightarrow> bpf_cmd \<Rightarrow> strace \<Rightarrow> ((int \<times> bytes) \<times> strace) option" where
  "sys_bpf K cmd tr = do { ((rv, data), tr) \<leftarrow> sys K (Bpf cmd) tr; Some ((c_ret rv, data), tr) }"

text \<open>What \<open>memcpy(attr.name, name, min(strlen(name), BPF_OBJ_NAME_LEN - 1))\<close> leaves in a zeroed field.\<close>

definition obj_name :: "string option \<Rightarrow> string" where
  "obj_name name = (case name of None \<Rightarrow> [] | Some s \<Rightarrow> take (BPF_OBJ_NAME_LEN - 1) s)"

record bpf_create_map_attr =
  cm_name :: "string option"
  cm_map_type :: u32
  cm_map_flags :: u32
  cm_key_size :: u32
  cm_value_size :: u32
  cm_max_entries :: u32
  cm_numa_node :: u32
  cm_btf_fd :: u32
  cm_btf_key_type_id :: u32
  cm_btf_value_type_id :: u32
  cm_map_ifindex :: u32
  cm_inner_map_fd :: u32

definition bpf_create_map_xattr :: "'k os_scheme \<Rightarrow> bpf_create_map_attr \<Rightarrow> strace \<Rightarrow> (int \<times> strace) option" where
  "bpf_create_map_xattr K a tr =
     do { ((rv, _), tr) \<leftarrow> sys_bpf K (MAP_CREATE
            \<lparr>attr_map_type = cm_map_type a, attr_key_size = cm_key_size a, attr_value_size = cm_value_size a,
             attr_max_entries = cm_max_entries a, attr_map_flags = cm_map_flags a, attr_map_name = obj_name (cm_name a),
             attr_numa_node = cm_numa_node a, attr_btf_fd = cm_btf_fd a, attr_btf_key_type_id = cm_btf_key_type_id a,
             attr_btf_value_type_id = cm_btf_value_type_id a, attr_map_ifindex = cm_map_ifindex a,
             attr_inner_map_fd = cm_inner_map_fd a\<rparr>) tr;
          Some (rv, tr) }"

definition empty_map_attr :: bpf_create_map_attr where
  "empty_map_attr = \<lparr>cm_name = None, cm_map_type = 0, cm_map_flags = 0, cm_key_size = 0, cm_value_size = 0,
     cm_max_entries = 0, cm_numa_node = 0, cm_btf_fd = 0, cm_btf_key_type_id = 0, cm_btf_value_type_id = 0,
     cm_map_ifindex = 0, cm_inner_map_fd = 0\<rparr>"

definition bpf_create_map_node ::
    "'k os_scheme \<Rightarrow> u32 \<Rightarrow> string option \<Rightarrow> u32 \<Rightarrow> u32 \<Rightarrow> u32 \<Rightarrow> u32 \<Rightarrow> int \<Rightarrow> strace \<Rightarrow> (int \<times> strace) option" where
  "bpf_create_map_node K map_type name key_size value_size max_entries map_flags node tr =
     (let a = empty_map_attr\<lparr>cm_name := name, cm_map_type := map_type, cm_map_flags := map_flags, cm_key_size := key_size,
                cm_value_size := value_size, cm_max_entries := max_entries\<rparr>
      in bpf_create_map_xattr K
           (if 0 \<le> node then a\<lparr>cm_numa_node := word_of_int node, cm_map_flags := cm_map_flags a OR BPF_F_NUMA_NODE\<rparr> else a) tr)"

definition bpf_create_map :: "'k os_scheme \<Rightarrow> u32 \<Rightarrow> u32 \<Rightarrow> u32 \<Rightarrow> u32 \<Rightarrow> u32 \<Rightarrow> strace \<Rightarrow> (int \<times> strace) option" where
  "bpf_create_map K map_type key_size value_size max_entries map_flags tr =
     bpf_create_map_xattr K (empty_map_attr\<lparr>cm_map_type := map_type, cm_map_flags := map_flags, cm_key_size := key_size,
       cm_value_size := value_size, cm_max_entries := max_entries\<rparr>) tr"

definition bpf_create_map_name ::
    "'k os_scheme \<Rightarrow> u32 \<Rightarrow> string option \<Rightarrow> u32 \<Rightarrow> u32 \<Rightarrow> u32 \<Rightarrow> u32 \<Rightarrow> strace \<Rightarrow> (int \<times> strace) option" where
  "bpf_create_map_name K map_type name key_size value_size max_entries map_flags tr =
     bpf_create_map_xattr K (empty_map_attr\<lparr>cm_name := name, cm_map_type := map_type, cm_map_flags := map_flags,
       cm_key_size := key_size, cm_value_size := value_size, cm_max_entries := max_entries\<rparr>) tr"

definition bpf_create_map_in_map_node ::
    "'k os_scheme \<Rightarrow> u32 \<Rightarrow> string option \<Rightarrow> u32 \<Rightarrow> u32 \<Rightarrow> u32 \<Rightarrow> u32 \<Rightarrow> int \<Rightarrow> strace \<Rightarrow> (int \<times> strace) option" where
  "bpf_create_map_in_map_node K map_type name key_size inner_map_fd max_entries map_flags node tr =
     do { ((rv, _), tr) \<leftarrow> sys_bpf K (MAP_CREATE
            \<lparr>attr_map_type = map_type, attr_key_size = key_size, attr_value_size = 4, attr_max_entries = max_entries,
             attr_map_flags = (if 0 \<le> node then map_flags OR BPF_F_NUMA_NODE else map_flags), attr_map_name = obj_name name,
             attr_numa_node = (if 0 \<le> node then word_of_int node else 0), attr_btf_fd = 0, attr_btf_key_type_id = 0,
             attr_btf_value_type_id = 0, attr_map_ifindex = 0, attr_inner_map_fd = inner_map_fd\<rparr>) tr;
          Some (rv, tr) }"

definition bpf_create_map_in_map ::
    "'k os_scheme \<Rightarrow> u32 \<Rightarrow> string option \<Rightarrow> u32 \<Rightarrow> u32 \<Rightarrow> u32 \<Rightarrow> u32 \<Rightarrow> strace \<Rightarrow> (int \<times> strace) option" where
  "bpf_create_map_in_map K map_type name key_size inner_map_fd max_entries map_flags tr =
     bpf_create_map_in_map_node K map_type name key_size inner_map_fd max_entries map_flags (-1) tr"

text \<open>Access by key; a lookup also gives the value, as the bytes written to the caller's buffer.\<close>

definition bpf_map_update_elem :: "'k os_scheme \<Rightarrow> int \<Rightarrow> bytes \<Rightarrow> bytes \<Rightarrow> u64 \<Rightarrow> strace \<Rightarrow> (int \<times> strace) option" where
  "bpf_map_update_elem K fd key v flags tr =
     do { ((rv, _), tr) \<leftarrow> sys_bpf K (MAP_UPDATE_ELEM fd key v flags) tr; Some (rv, tr) }"

definition bpf_map_lookup_elem :: "'k os_scheme \<Rightarrow> int \<Rightarrow> bytes \<Rightarrow> strace \<Rightarrow> ((int \<times> bytes) \<times> strace) option" where
  "bpf_map_lookup_elem K fd key tr = sys_bpf K (MAP_LOOKUP_ELEM fd key 0) tr"

definition bpf_map_lookup_elem_flags :: "'k os_scheme \<Rightarrow> int \<Rightarrow> bytes \<Rightarrow> u64 \<Rightarrow> strace \<Rightarrow> ((int \<times> bytes) \<times> strace) option" where
  "bpf_map_lookup_elem_flags K fd key flags tr = sys_bpf K (MAP_LOOKUP_ELEM fd key flags) tr"

definition bpf_map_lookup_and_delete_elem :: "'k os_scheme \<Rightarrow> int \<Rightarrow> bytes \<Rightarrow> strace \<Rightarrow> ((int \<times> bytes) \<times> strace) option" where
  "bpf_map_lookup_and_delete_elem K fd key tr = sys_bpf K (MAP_LOOKUP_AND_DELETE_ELEM fd key) tr"

definition bpf_map_delete_elem :: "'k os_scheme \<Rightarrow> int \<Rightarrow> bytes \<Rightarrow> strace \<Rightarrow> (int \<times> strace) option" where
  "bpf_map_delete_elem K fd key tr = do { ((rv, _), tr) \<leftarrow> sys_bpf K (MAP_DELETE_ELEM fd key) tr; Some (rv, tr) }"

definition bpf_map_get_next_key :: "'k os_scheme \<Rightarrow> int \<Rightarrow> bytes option \<Rightarrow> strace \<Rightarrow> ((int \<times> bytes) \<times> strace) option" where
  "bpf_map_get_next_key K fd key tr = sys_bpf K (MAP_GET_NEXT_KEY fd key) tr"

definition bpf_map_freeze :: "'k os_scheme \<Rightarrow> int \<Rightarrow> strace \<Rightarrow> (int \<times> strace) option" where
  "bpf_map_freeze K fd tr = do { ((rv, _), tr) \<leftarrow> sys_bpf K (MAP_FREEZE fd) tr; Some (rv, tr) }"

definition bpf_obj_pin :: "'k os_scheme \<Rightarrow> int \<Rightarrow> string \<Rightarrow> strace \<Rightarrow> (int \<times> strace) option" where
  "bpf_obj_pin K fd pathname tr = do { ((rv, _), tr) \<leftarrow> sys_bpf K (OBJ_PIN fd pathname) tr; Some (rv, tr) }"

definition bpf_obj_get :: "'k os_scheme \<Rightarrow> string \<Rightarrow> strace \<Rightarrow> (int \<times> strace) option" where
  "bpf_obj_get K pathname tr = do { ((rv, _), tr) \<leftarrow> sys_bpf K (OBJ_GET pathname) tr; Some (rv, tr) }"

definition bpf_prog_get_fd_by_id :: "'k os_scheme \<Rightarrow> u32 \<Rightarrow> strace \<Rightarrow> (int \<times> strace) option" where
  "bpf_prog_get_fd_by_id K i tr = do { ((rv, _), tr) \<leftarrow> sys_bpf K (PROG_GET_FD_BY_ID i) tr; Some (rv, tr) }"

definition bpf_map_get_fd_by_id :: "'k os_scheme \<Rightarrow> u32 \<Rightarrow> strace \<Rightarrow> (int \<times> strace) option" where
  "bpf_map_get_fd_by_id K i tr = do { ((rv, _), tr) \<leftarrow> sys_bpf K (MAP_GET_FD_BY_ID i) tr; Some (rv, tr) }"

text \<open>The information written for a descriptor, at most \<open>info_len\<close> bytes.\<close>

definition bpf_obj_get_info_by_fd :: "'k os_scheme \<Rightarrow> int \<Rightarrow> nat \<Rightarrow> strace \<Rightarrow> ((int \<times> bytes) \<times> strace) option" where
  "bpf_obj_get_info_by_fd K fd info_len tr = sys_bpf K (OBJ_GET_INFO_BY_FD fd info_len) tr"

section \<open>Programs\<close>

definition EAGAIN :: int where "EAGAIN = 11"
definition E2BIG :: int where "E2BIG = 7"
definition BPF_PROG_TYPE_TRACING :: u32 where "BPF_PROG_TYPE_TRACING = 26"

text \<open>
  The record and attributes of the caller. \<open>la_kern_version\<close> is also the field \<open>attach_prog_fd\<close>, and
  \<open>la_prog_ifindex\<close> the field \<open>attach_btf_id\<close>, of the two unions.
\<close>

record bpf_load_program_attr =
  la_prog_type :: u32
  la_expected_attach_type :: u32
  la_name :: "string option"
  la_insns :: bytes
  la_insns_cnt :: nat
  la_license :: string
  la_kern_version :: u32
  la_prog_ifindex :: u32
  la_prog_btf_fd :: u32
  la_func_info_rec_size :: u32
  la_func_info :: bytes
  la_func_info_cnt :: u32
  la_line_info_rec_size :: u32
  la_line_info :: bytes
  la_line_info_cnt :: u32
  la_log_level :: u32
  la_prog_flags :: u32

text \<open>The loop may not end, for a kernel that always answers \<open>EAGAIN\<close>.\<close>

partial_function (option) sys_bpf_prog_load ::
    "'k os_scheme \<Rightarrow> bpf_prog_attr \<Rightarrow> strace \<Rightarrow> ((int \<times> bytes) \<times> strace) option" where
  "sys_bpf_prog_load K attr tr =
     do { ((fd, data), tr) \<leftarrow> sys_bpf K (PROG_LOAD attr) tr;
          if fd < 0 \<and> errno_of K tr = EAGAIN then sys_bpf_prog_load K attr tr else Some ((fd, data), tr) }"

text \<open>
  A failed load may have written the record sizes the kernel knows back into the attributes; \<open>data\<close>
  holds them then (function records, line records).
\<close>

definition load_hint :: "bytes \<Rightarrow> bpf_prog_attr \<Rightarrow> bpf_prog_attr" where
  "load_hint data attr =
     (if length data = 8
      then attr\<lparr>attr_func_info_rec_size := word_of_nat (le_get (take 4 data)),
                attr_line_info_rec_size := word_of_nat (le_get (drop 4 data))\<rparr>
      else attr)"

text \<open>
  \<open>n\<close> records of \<open>actual\<close> bytes from offset \<open>o'\<close> on: the first \<open>expected\<close> bytes of each are copied, the rest is
  zero; \<open>None\<close> is a record outside the array.
\<close>

fun zero_tails :: "bytes \<Rightarrow> nat \<Rightarrow> nat \<Rightarrow> nat \<Rightarrow> nat \<Rightarrow> bytes option" where
  "zero_tails orecord o' 0 actual expected = Some []"
| "zero_tails orecord o' (Suc n) actual expected =
     (if expected \<le> actual \<and> o' + expected \<le> length orecord
      then map_option (\<lambda>rest. seg o' expected orecord @ replicate (actual - expected) 0 @ rest)
             (zero_tails orecord (o' + actual) n actual expected)
      else None)"

text \<open>The address of the block and its contents, or \<open>None\<close> for NULL.\<close>

definition alloc_zero_tailing_info ::
    "'k os_scheme \<Rightarrow> bytes \<Rightarrow> nat \<Rightarrow> nat \<Rightarrow> nat \<Rightarrow> strace \<Rightarrow> ((int \<times> bytes) option \<times> strace) option" where
  "alloc_zero_tailing_info K orecord cnt actual expected tr =
     do { ((a, _), tr) \<leftarrow> sys K (Malloc (actual * cnt)) tr;
          if a = 0 then Some (None, tr)
          else do { info \<leftarrow> zero_tails orecord 0 cnt actual expected; Some (Some (a, info), tr) } }"

text \<open>
  The loop that corrects the records after \<open>E2BIG\<close>. \<open>finfo\<close> and \<open>linfo\<close> are the blocks allocated so far; the
  flag of the result tells a jump to \<open>done\<close> from the end of the loop.
\<close>

function load_corrections ::
    "'k os_scheme \<Rightarrow> bpf_load_program_attr \<Rightarrow> int option \<Rightarrow> int option \<Rightarrow> bpf_prog_attr \<Rightarrow> int \<Rightarrow> strace \<Rightarrow>
     ((bool \<times> int \<times> int option \<times> int option \<times> bpf_prog_attr) \<times> strace) option" where
  "load_corrections K la finfo linfo attr fd tr =
     (if errno_of K tr = E2BIG \<and> (finfo = None \<or> linfo = None) then
        if finfo = None \<and> attr_func_info_cnt attr \<noteq> 0 \<and> attr_func_info_rec_size attr < la_func_info_rec_size la then
          do { (info, tr) \<leftarrow> alloc_zero_tailing_info K (la_func_info la) (unat (la_func_info_cnt la))
                              (unat (la_func_info_rec_size la)) (unat (attr_func_info_rec_size attr)) tr;
               case info of
                 None \<Rightarrow> Some ((True, fd, finfo, linfo, attr), tr)
               | Some (a, bs) \<Rightarrow>
                   (let attr = attr\<lparr>attr_func_info := bs, attr_func_info_rec_size := la_func_info_rec_size la\<rparr> in
                    do { ((fd, data), tr) \<leftarrow> sys_bpf_prog_load K attr tr;
                         if 0 \<le> fd then Some ((True, fd, Some a, linfo, attr), tr)
                         else load_corrections K la (Some a) linfo (load_hint data attr) fd tr }) }
        else if linfo = None \<and> attr_line_info_cnt attr \<noteq> 0 \<and> attr_line_info_rec_size attr < la_line_info_rec_size la then
          do { (info, tr) \<leftarrow> alloc_zero_tailing_info K (la_line_info la) (unat (la_line_info_cnt la))
                              (unat (la_line_info_rec_size la)) (unat (attr_line_info_rec_size attr)) tr;
               case info of
                 None \<Rightarrow> Some ((True, fd, finfo, linfo, attr), tr)
               | Some (a, bs) \<Rightarrow>
                   (let attr = attr\<lparr>attr_line_info := bs, attr_line_info_rec_size := la_line_info_rec_size la\<rparr> in
                    do { ((fd, data), tr) \<leftarrow> sys_bpf_prog_load K attr tr;
                         if 0 \<le> fd then Some ((True, fd, finfo, Some a, attr), tr)
                         else load_corrections K la finfo (Some a) (load_hint data attr) fd tr }) }
        else Some ((False, fd, finfo, linfo, attr), tr)
      else Some ((False, fd, finfo, linfo, attr), tr))"
  by pat_completeness auto

termination load_corrections
  by (relation "measure (\<lambda>(K, la, finfo, linfo, attr, fd, tr). of_bool (finfo = None) + of_bool (linfo = None))") auto

declare load_corrections.simps [simp del]

text \<open>\<open>free\<close> of a pointer that may be NULL.\<close>

definition free_opt :: "'k os_scheme \<Rightarrow> int option \<Rightarrow> strace \<Rightarrow> strace option" where
  "free_opt K p tr = (case p of None \<Rightarrow> Some tr | Some a \<Rightarrow> map_option snd (sys K (Free a) tr))"

definition load_attr_init :: "bpf_load_program_attr \<Rightarrow> nat \<Rightarrow> bpf_prog_attr" where
  "load_attr_init la log_buf_sz =
     (let tracing = (la_prog_type la = BPF_PROG_TYPE_TRACING) in
      \<lparr>attr_prog_type = la_prog_type la, attr_expected_attach_type = la_expected_attach_type la,
       attr_attach_btf_id = (if tracing then la_prog_ifindex la else 0),
       attr_attach_prog_fd = (if tracing then la_kern_version la else 0),
       attr_prog_ifindex = (if tracing then 0 else la_prog_ifindex la),
       attr_kern_version = (if tracing then 0 else la_kern_version la),
       attr_insns = la_insns la, attr_insn_cnt = word_of_nat (la_insns_cnt la), attr_license = la_license la,
       attr_log_level = la_log_level la, attr_log_size = (if la_log_level la \<noteq> 0 then log_buf_sz else 0),
       attr_prog_btf_fd = la_prog_btf_fd la,
       attr_func_info = la_func_info la, attr_func_info_rec_size = la_func_info_rec_size la,
       attr_func_info_cnt = la_func_info_cnt la,
       attr_line_info = la_line_info la, attr_line_info_rec_size = la_line_info_rec_size la,
       attr_line_info_cnt = la_line_info_cnt la,
       attr_prog_name = obj_name (la_name la), attr_prog_flags = la_prog_flags la\<rparr>)"

text \<open>
  \<open>bpf_load_program_xattr\<close>: \<open>None\<close> for the attributes is NULL, \<open>log_buf\<close> tells whether a buffer is given.
  The fields \<open>attach_btf_id\<close> and \<open>prog_ifindex\<close> of \<open>union bpf_attr\<close> are distinct.
\<close>

definition bpf_load_program_xattr ::
    "'k os_scheme \<Rightarrow> bpf_load_program_attr option \<Rightarrow> bool \<Rightarrow> nat \<Rightarrow> strace \<Rightarrow> (int \<times> strace) option" where
  "bpf_load_program_xattr K la log_buf log_buf_sz tr =
     (case la of
        None \<Rightarrow> Some (-22, tr)
      | Some la \<Rightarrow>
          if log_buf \<noteq> (log_buf_sz \<noteq> 0) then Some (-22, tr)
          else if la_log_level la > 7 \<or> (la_log_level la \<noteq> 0 \<and> \<not> log_buf) then Some (-22, tr)
          else do {
            let attr = load_attr_init la log_buf_sz;
            ((fd, data), tr) \<leftarrow> sys_bpf_prog_load K attr tr;
            if 0 \<le> fd then Some (fd, tr)
            else do {
              ((finished, fd, finfo, linfo, attr), tr) \<leftarrow> load_corrections K la None None (load_hint data attr) fd tr;
              (fd, tr) \<leftarrow>
                (if finished \<or> la_log_level la \<noteq> 0 \<or> \<not> log_buf then Some (fd, tr)
                 else do { ((fd, _), tr) \<leftarrow> sys_bpf_prog_load K (attr\<lparr>attr_log_size := log_buf_sz, attr_log_level := 1\<rparr>) tr;
                           Some (fd, tr) });
              tr \<leftarrow> free_opt K finfo tr;
              tr \<leftarrow> free_opt K linfo tr;
              Some (fd, tr) } })"

definition bpf_load_program ::
    "'k os_scheme \<Rightarrow> u32 \<Rightarrow> bytes \<Rightarrow> nat \<Rightarrow> string \<Rightarrow> u32 \<Rightarrow> bool \<Rightarrow> nat \<Rightarrow> strace \<Rightarrow> (int \<times> strace) option" where
  "bpf_load_program K type insns insns_cnt license kern_version log_buf log_buf_sz tr =
     bpf_load_program_xattr K (Some
       \<lparr>la_prog_type = type, la_expected_attach_type = 0, la_name = None, la_insns = insns, la_insns_cnt = insns_cnt,
        la_license = license, la_kern_version = kern_version, la_prog_ifindex = 0, la_prog_btf_fd = 0,
        la_func_info_rec_size = 0, la_func_info = [], la_func_info_cnt = 0,
        la_line_info_rec_size = 0, la_line_info = [], la_line_info_cnt = 0, la_log_level = 0, la_prog_flags = 0\<rparr>)
       log_buf log_buf_sz tr"

definition bpf_verify_program ::
    "'k os_scheme \<Rightarrow> u32 \<Rightarrow> bytes \<Rightarrow> nat \<Rightarrow> u32 \<Rightarrow> string \<Rightarrow> u32 \<Rightarrow> nat \<Rightarrow> u32 \<Rightarrow> strace \<Rightarrow> (int \<times> strace) option" where
  "bpf_verify_program K type insns insns_cnt prog_flags license kern_version log_buf_sz log_level tr =
     do { ((fd, _), tr) \<leftarrow> sys_bpf_prog_load K
            \<lparr>attr_prog_type = type, attr_expected_attach_type = 0, attr_attach_btf_id = 0, attr_attach_prog_fd = 0,
             attr_prog_ifindex = 0, attr_kern_version = kern_version, attr_insns = insns, attr_insn_cnt = word_of_nat insns_cnt,
             attr_license = license, attr_log_level = log_level, attr_log_size = log_buf_sz, attr_prog_btf_fd = 0,
             attr_func_info = [], attr_func_info_rec_size = 0, attr_func_info_cnt = 0, attr_line_info = [],
             attr_line_info_rec_size = 0, attr_line_info_cnt = 0, attr_prog_name = [], attr_prog_flags = prog_flags\<rparr> tr;
          Some (fd, tr) }"

section \<open>Attaching and identifiers\<close>

text \<open>The bytes of an options structure behind the fields the library knows have to be zero.\<close>

definition libbpf_validate_opts :: "bytes \<Rightarrow> nat \<Rightarrow> nat \<Rightarrow> bool option" where
  "libbpf_validate_opts opts opts_sz user_sz =
     (if user_sz < 8 then Some False
      else if opts_sz < user_sz
      then if user_sz \<le> length opts then Some (list_all (\<lambda>b. b = 0) (seg opts_sz (user_sz - opts_sz) opts)) else None
      else Some True)"

text \<open>\<open>OPTS_GET\<close> for a field of four bytes.\<close>

definition opts_get :: "bytes \<Rightarrow> nat \<Rightarrow> nat \<Rightarrow> u32 option" where
  "opts_get opts sz off = (if off + 4 \<le> sz then map_option word_of_nat (ld off 4 opts) else Some 0)"

text \<open>\<open>struct bpf_prog_attach_opts\<close>: \<open>sz\<close>, \<open>flags\<close> and \<open>replace_prog_fd\<close> at 0, 8 and 12.\<close>

definition bpf_prog_attach_xattr :: "'k os_scheme \<Rightarrow> int \<Rightarrow> int \<Rightarrow> u32 \<Rightarrow> bytes option \<Rightarrow> strace \<Rightarrow> (int \<times> strace) option" where
  "bpf_prog_attach_xattr K prog_fd target_fd type opts tr =
     (case opts of
        None \<Rightarrow> do { ((rv, _), tr) \<leftarrow> sys_bpf K (PROG_ATTACH target_fd prog_fd type 0 0) tr; Some (rv, tr) }
      | Some o' \<Rightarrow> do {
          user_sz \<leftarrow> ld 0 8 o';
          valid \<leftarrow> libbpf_validate_opts o' 16 user_sz;
          if \<not> valid then Some (-22, tr)
          else do {
            flags \<leftarrow> opts_get o' user_sz 8;
            replace_fd \<leftarrow> opts_get o' user_sz 12;
            ((rv, _), tr) \<leftarrow> sys_bpf K (PROG_ATTACH target_fd prog_fd type flags replace_fd) tr;
            Some (rv, tr) } })"

definition bpf_prog_attach :: "'k os_scheme \<Rightarrow> int \<Rightarrow> int \<Rightarrow> u32 \<Rightarrow> u32 \<Rightarrow> strace \<Rightarrow> (int \<times> strace) option" where
  "bpf_prog_attach K prog_fd target_fd type flags tr =
     bpf_prog_attach_xattr K prog_fd target_fd type (Some (le_put 8 16 @ le_put 4 (unat flags) @ le_put 4 0)) tr"

definition bpf_prog_detach :: "'k os_scheme \<Rightarrow> int \<Rightarrow> u32 \<Rightarrow> strace \<Rightarrow> (int \<times> strace) option" where
  "bpf_prog_detach K target_fd type tr = do { ((rv, _), tr) \<leftarrow> sys_bpf K (PROG_DETACH target_fd 0 type) tr; Some (rv, tr) }"

definition bpf_prog_detach2 :: "'k os_scheme \<Rightarrow> int \<Rightarrow> int \<Rightarrow> u32 \<Rightarrow> strace \<Rightarrow> (int \<times> strace) option" where
  "bpf_prog_detach2 K prog_fd target_fd type tr =
     do { ((rv, _), tr) \<leftarrow> sys_bpf K (PROG_DETACH target_fd prog_fd type) tr; Some (rv, tr) }"

text \<open>The result and \<open>*next_id\<close>, which keeps its old value on errors.\<close>

definition bpf_obj_get_next_id :: "'k os_scheme \<Rightarrow> nat \<Rightarrow> bpf_cmd \<Rightarrow> strace \<Rightarrow> ((int \<times> nat) \<times> strace) option" where
  "bpf_obj_get_next_id K old cmd tr =
     do { ((err, data), tr) \<leftarrow> sys_bpf K cmd tr; Some ((err, if err = 0 then le_get (take 4 data) else old), tr) }"

definition bpf_prog_get_next_id :: "'k os_scheme \<Rightarrow> u32 \<Rightarrow> nat \<Rightarrow> strace \<Rightarrow> ((int \<times> nat) \<times> strace) option" where
  "bpf_prog_get_next_id K start_id old tr = bpf_obj_get_next_id K old (PROG_GET_NEXT_ID start_id) tr"

definition bpf_map_get_next_id :: "'k os_scheme \<Rightarrow> u32 \<Rightarrow> nat \<Rightarrow> strace \<Rightarrow> ((int \<times> nat) \<times> strace) option" where
  "bpf_map_get_next_id K start_id old tr = bpf_obj_get_next_id K old (MAP_GET_NEXT_ID start_id) tr"

definition bpf_btf_get_next_id :: "'k os_scheme \<Rightarrow> u32 \<Rightarrow> nat \<Rightarrow> strace \<Rightarrow> ((int \<times> nat) \<times> strace) option" where
  "bpf_btf_get_next_id K start_id old tr = bpf_obj_get_next_id K old (BTF_GET_NEXT_ID start_id) tr"

definition bpf_btf_get_fd_by_id :: "'k os_scheme \<Rightarrow> u32 \<Rightarrow> strace \<Rightarrow> (int \<times> strace) option" where
  "bpf_btf_get_fd_by_id K i tr = do { ((rv, _), tr) \<leftarrow> sys_bpf K (BTF_GET_FD_BY_ID i) tr; Some (rv, tr) }"

definition bpf_raw_tracepoint_open :: "'k os_scheme \<Rightarrow> string \<Rightarrow> int \<Rightarrow> strace \<Rightarrow> (int \<times> strace) option" where
  "bpf_raw_tracepoint_open K name prog_fd tr = do { ((rv, _), tr) \<leftarrow> sys_bpf K (RAW_TRACEPOINT_OPEN name prog_fd) tr; Some (rv, tr) }"

text \<open>\<open>log_buf\<close> tells whether a buffer is given.\<close>

definition bpf_load_btf :: "'k os_scheme \<Rightarrow> bytes \<Rightarrow> bool \<Rightarrow> nat \<Rightarrow> bool \<Rightarrow> strace \<Rightarrow> (int \<times> strace) option" where
  "bpf_load_btf K btf log_buf log_buf_size do_log tr =
     (let log = (log_buf \<and> log_buf_size \<noteq> 0) in
      do { ((fd, _), tr) \<leftarrow> sys_bpf K (BTF_LOAD btf (if do_log \<and> log then log_buf_size else 0)) tr;
           if fd = -1 \<and> \<not> do_log \<and> log
           then do { ((fd, _), tr) \<leftarrow> sys_bpf K (BTF_LOAD btf log_buf_size) tr; Some (fd, tr) }
           else Some (fd, tr) })"

text \<open>
  Options of any version: \<open>bpf_prog_attach\<close> asks for no replacement, and a structure that ends before a
  field gives it the value 0.
\<close>

lemma bpf_prog_attach_call:
  "bpf_prog_attach K prog_fd target_fd type flags tr =
     do { ((rv, _), tr) \<leftarrow> sys_bpf K (PROG_ATTACH target_fd prog_fd type flags 0) tr; Some (rv, tr) }"
proof -
  let ?o = "le_put 8 16 @ le_put 4 (unat flags) @ le_put 4 0 :: bytes"
  have "unat flags < 2 ^ 32" using unsigned_less [of flags, where 'a = nat] by simp
  then have "ld 0 8 ?o = Some 16" "ld 8 4 ?o = Some (unat flags)" "ld 12 4 ?o = Some 0"
    using ld_append_put [of 4 0 "[]"] by (simp_all add: ld_append_skip ld_append_put del: le_put.simps)
  then show ?thesis by (simp add: bpf_prog_attach_def bpf_prog_attach_xattr_def libbpf_validate_opts_def opts_get_def)
qed

lemma attach_opts_short:
  assumes "ld 0 8 o' = Some user_sz" and "8 \<le> user_sz" and "user_sz < 12"
  shows "bpf_prog_attach_xattr K prog_fd target_fd type (Some o') tr = bpf_prog_attach_xattr K prog_fd target_fd type None tr"
  using assms by (simp add: bpf_prog_attach_xattr_def libbpf_validate_opts_def opts_get_def)

section \<open>Resources\<close>

lemma wp_sys_bpf: "(\<And>rv data. Q (c_ret rv, data) (tr @ [(Bpf cmd, rv, data)])) \<Longrightarrow> wp (sys_bpf K cmd tr) Q"
  unfolding sys_bpf_def by (auto intro!: wp_bind_sys)

lemma wlp_bind_sys_bpf:
  "(\<And>rv data. wlp (f ((c_ret rv, data), tr @ [(Bpf cmd, rv, data)])) Q) \<Longrightarrow> wlp (sys_bpf K cmd tr \<bind> f) Q"
  by (rule wlp_bind, rule wp_wlp, rule wp_sys_bpf)

lemma wp_bind_sys_bpf:
  "(\<And>rv data. wp (f ((c_ret rv, data), tr @ [(Bpf cmd, rv, data)])) Q) \<Longrightarrow> wp (sys_bpf K cmd tr \<bind> f) Q"
  by (rule wp_bind, rule wp_sys_bpf)

text \<open>What a load leaves: the descriptor, when it succeeds.\<close>

definition fd_held :: "int \<Rightarrow> resource multiset" where
  "fd_held fd = (if 0 \<le> fd then {#Fd fd#} else {#})"

lemma fd_held_simps [simp]:
  "fd < 0 \<Longrightarrow> fd_held fd = {#}" "0 \<le> fd \<Longrightarrow> fd_held fd = {#Fd fd#}" "fd_held (c_ret fd) = fd_held fd"
  by (auto simp: fd_held_def c_ret_def)

lemma effect_prog_load [simp]: "effect (Bpf (PROG_LOAD attr), rv, data) R = fd_held rv + R"
  by (simp add: fd_held_def)

lemma prog_load_held: "sys_bpf_prog_load K attr tr = Some r \<Longrightarrow> held R (snd r) = fd_held (fst (fst r)) + held R tr"
proof (erule sys_bpf_prog_load.raw_induct [where P = "\<lambda>K attr tr r. held R (snd r) = fd_held (fst (fst r)) + held R tr", rotated], goal_cases)
  case (1 load K attr tr r)
  have IH: "wlp (load K attr (tr @ [(Bpf (PROG_LOAD attr), rv, data)])) (\<lambda>a tr'. held R tr' = fd_held (fst a) + held R tr)"
    if "rv < 0" for rv data
    using 1(1) that by (fastforce simp: wlp_def)
  have "wlp (Some r) (\<lambda>a tr'. held R tr' = fd_held (fst a) + held R tr)"
    unfolding 1(2) [symmetric]
    by (rule wlp_bind_sys_bpf) (auto intro!: IH simp del: effect.simps)
  then show ?case by (cases r) simp
qed

lemma wlp_bind_prog_load:
  assumes "\<And>fd data tr'. held R tr' = fd_held fd + held R tr \<Longrightarrow> wlp (f ((fd, data), tr')) Q"
  shows "wlp (sys_bpf_prog_load K attr tr \<bind> f) Q"
  by (rule wlp_bind_pure) (use assms prog_load_held [where R = R] in \<open>force\<close>)

definition block_held :: "int option \<Rightarrow> resource multiset" where
  "block_held p = (case p of None \<Rightarrow> {#} | Some a \<Rightarrow> {#Block a#})"

lemma block_held_simps [simp]: "block_held None = {#}" "block_held (Some a) = {#Block a#}"
  by (simp_all add: block_held_def)

lemma wlp_bind_tailing_info:
  assumes "\<And>info tr'. held R tr' = block_held (map_option fst info) + held R tr \<Longrightarrow> wlp (f (info, tr')) Q"
  shows "wlp (alloc_zero_tailing_info K rec cnt actual expected tr \<bind> f) Q"
proof (rule wlp_bind)
  show "wlp (alloc_zero_tailing_info K rec cnt actual expected tr) (\<lambda>a tr'. wlp (f (a, tr')) Q)"
    unfolding alloc_zero_tailing_info_def
    by (rule wlp_bind_sys) (auto intro!: wlp_bind_pure assms simp: block_held_def)
qed

text \<open>Corrections may add blocks, which the result names, and a descriptor.\<close>

lemma load_corrections_held:
  "fd < 0 \<Longrightarrow> wlp (load_corrections K la finfo linfo attr fd tr)
     (\<lambda>(finished, fd', finfo', linfo', _) tr'. (finished \<or> fd' < 0) \<and>
        held R tr' + (block_held finfo + block_held linfo) = fd_held fd' + (block_held finfo' + block_held linfo') + held R tr)"
proof (induction "of_bool (finfo = None) + of_bool (linfo = None) :: nat" arbitrary: finfo linfo attr fd tr rule: less_induct)
  case less
  define Q where "Q = (\<lambda>(finished, fd', finfo', linfo', _ :: bpf_prog_attr) tr'. (finished \<or> fd' < 0) \<and>
    held R tr' + (block_held finfo + block_held linfo) = fd_held fd' + (block_held finfo' + block_held linfo') + held R tr)"
  have stop: "Q (b, fd', f', l', attr') tr''"
    if "b \<or> fd' < 0" "held R tr'' + (block_held finfo + block_held linfo) = fd_held fd' + (block_held f' + block_held l') + held R tr"
    for b fd' f' l' attr' tr''
    using that by (simp add: Q_def)
  have F: "wlp (load_corrections K la (Some a) l attr' fd' tr'') Q"
    if "finfo = None" "linfo = l" "\<not> 0 \<le> fd'" "held R tr'' = add_mset (Block a) (held R tr)" for a l attr' fd' tr''
    using less.hyps [of "Some a" linfo fd' attr' tr''] that by (auto simp: Q_def elim!: wlp_mono)
  have L: "wlp (load_corrections K la f (Some a) attr' fd' tr'') Q"
    if "linfo = None" "finfo = f" "\<not> 0 \<le> fd'" "held R tr'' = add_mset (Block a) (held R tr)" for a f attr' fd' tr''
    using less.hyps [of finfo "Some a" fd' attr' tr''] that by (auto simp: Q_def elim!: wlp_mono)
  have "wlp (load_corrections K la finfo linfo attr fd tr) Q"
    using less.prems
    by (subst load_corrections.simps, intro wlp_if wlp_bind_tailing_info [where R = R],
        simp_all only: prod.case wlp_Some split: option.split prod.split)
      (auto intro!: stop F L wlp_bind_prog_load [where R = R] simp: Let_def)
  then show ?case by (simp add: Q_def)
qed

lemma free_opt_held: "free_opt K p tr = Some tr' \<Longrightarrow> held R tr' = held R tr - block_held p"
proof (cases p)
  case (Some a)
  then show "free_opt K p tr = Some tr' \<Longrightarrow> held R tr' = held R tr - block_held p"
    by (cases "os_reply K tr (Free a)") (auto simp: free_opt_def sys_def)
qed (simp add: free_opt_def)

text \<open>Loading leaves the descriptor it returns, and nothing when it fails: the corrected records are freed.\<close>

lemma load_program_xattr_held: "wlp (bpf_load_program_xattr K la log_buf n tr) (\<lambda>fd tr'. held R tr' = fd_held fd + held R tr)"
proof (cases la)
  case None
  then show ?thesis by (simp add: bpf_load_program_xattr_def)
next
  case (Some a)
  let ?Q = "\<lambda>fd tr'. held R tr' = fd_held fd + held R tr"
  have frees: "wlp (free_opt K finfo tr1 \<bind> (\<lambda>tr2. free_opt K linfo tr2 \<bind> (\<lambda>tr3. Some (fd, tr3)))) ?Q"
    if "held R tr1 = fd_held fd + (block_held finfo + block_held linfo) + held R tr" for fd finfo linfo tr1
    using that by (auto intro!: wlp_bind_pure dest!: free_opt_held [where R = R])
  have retry: "wlp ((if finished \<or> la_log_level a \<noteq> 0 \<or> \<not> log_buf then Some (fd, tr1)
           else sys_bpf_prog_load K attr tr1 \<bind> (\<lambda>((fd, _), tr). Some (fd, tr))) \<bind>
        (\<lambda>(fd, tr1). free_opt K finfo tr1 \<bind> (\<lambda>tr2. free_opt K linfo tr2 \<bind> (\<lambda>tr3. Some (fd, tr3))))) ?Q"
    if "finished \<or> fd < 0" "held R tr1 = fd_held fd + (block_held finfo + block_held linfo) + held R tr"
    for finished fd finfo linfo attr tr1
    using that by (auto intro!: frees wlp_bind [of "sys_bpf_prog_load _ _ _ \<bind> _"] wlp_bind_prog_load [where R = R])
  have corr: "wlp (load_corrections K a None None attr fd tr1 \<bind> f) ?Q"
    if "fd < 0" "held R tr1 = held R tr"
      "\<And>finished fd' finfo linfo attr' tr2. finished \<or> fd' < 0 \<Longrightarrow>
        held R tr2 = fd_held fd' + (block_held finfo + block_held linfo) + held R tr \<Longrightarrow> wlp (f ((finished, fd', finfo, linfo, attr'), tr2)) ?Q"
    for attr fd tr1 f
    by (rule wlp_bind, rule wlp_mono [OF load_corrections_held [OF that(1), where R = R]]) (use that(2,3) in auto)
  show ?thesis
    unfolding bpf_load_program_xattr_def Some option.case Let_def
    by (intro wlp_if, simp, simp, rule wlp_bind_prog_load [where R = R], unfold prod.case, rule wlp_if, simp,
        rule corr, simp, simp, unfold prod.case, rule retry) assumption+
qed

text \<open>Without \<open>EAGAIN\<close> a load is one call.\<close>

definition no_eagain :: "'k os_scheme \<Rightarrow> bool" where
  "no_eagain K \<longleftrightarrow> (\<forall>tr attr. fst (os_reply K tr (Bpf (PROG_LOAD attr))) \<noteq> - EAGAIN)"

lemma prog_load_once:
  assumes "no_eagain K"
  shows "sys_bpf_prog_load K attr tr = sys_bpf K (PROG_LOAD attr) tr"
proof -
  obtain rv data where r: "os_reply K tr (Bpf (PROG_LOAD attr)) = (rv, data)" by (cases "os_reply K tr (Bpf (PROG_LOAD attr))")
  then have "rv \<noteq> - EAGAIN" using assms unfolding no_eagain_def by (metis fst_conv)
  then show ?thesis by (subst sys_bpf_prog_load.simps) (auto simp: sys_bpf_def sys_def r)
qed

fun is_load :: "scall \<Rightarrow> bool" where
  "is_load (Bpf (PROG_LOAD _)) = True"
| "is_load _ = False"

definition loads :: "strace \<Rightarrow> nat" where
  "loads tr = length (filter (\<lambda>(c, _). is_load c) tr)"

lemma loads_snoc [simp]: "loads (tr @ [(c, r)]) = (if is_load c then Suc (loads tr) else loads tr)"
  by (simp add: loads_def)

lemma zero_tails_total:
  "expected \<le> actual \<Longrightarrow> o' + n * actual \<le> length bs \<Longrightarrow> \<exists>r. zero_tails bs o' n actual expected = Some r \<and> length r = n * actual"
proof (induction n arbitrary: o')
  case (Suc n)
  then obtain r where "zero_tails bs (o' + actual) n actual expected = Some r" "length r = n * actual"
    by (metis add.assoc mult_Suc)
  then show ?case using Suc.prems by simp
qed simp

text \<open>Record \<open>i\<close> of the copy: what the kernel knows of it is kept, the rest is zero.\<close>

lemma zero_tails_record:
  assumes "zero_tails bs o' n actual expected = Some r" and "i < n"
  shows "seg (i * actual) actual r = seg (o' + i * actual) expected bs @ replicate (actual - expected) 0"
  using assms
proof (induction n arbitrary: o' r i)
  case (Suc n)
  then obtain r' where r': "zero_tails bs (o' + actual) n actual expected = Some r'"
    and b: "expected \<le> actual" "o' + expected \<le> length bs"
    and r: "r = (seg o' expected bs @ replicate (actual - expected) 0) @ r'"
    by (auto split: if_splits)
  have l: "length (seg o' expected bs @ replicate (actual - expected) 0) = actual" using b by simp
  show ?case
  proof (cases i)
    case 0
    then show ?thesis using l by (simp add: r seg_def [of 0 actual])
  next
    case (Suc j)
    then have "seg (i * actual) actual r = seg (j * actual) actual r'"
      using l by (simp add: r seg_def)
    then show ?thesis using Suc.IH [OF r', of j] Suc Suc.prems(2) by (simp add: add.assoc)
  qed
qed simp

text \<open>The arrays of records hold as many as the counts say.\<close>

definition infos_ok :: "bpf_load_program_attr \<Rightarrow> bool" where
  "infos_ok la \<longleftrightarrow> unat (la_func_info_cnt la) * unat (la_func_info_rec_size la) \<le> length (la_func_info la) \<and>
     unat (la_line_info_cnt la) * unat (la_line_info_rec_size la) \<le> length (la_line_info la)"

lemma wp_bind_tailing_info:
  assumes "expected \<le> actual" and "cnt * actual \<le> length bs"
    and "\<And>info tr'. loads tr' = loads tr \<Longrightarrow> wp (f (info, tr')) Q"
  shows "wp (alloc_zero_tailing_info K bs cnt actual expected tr \<bind> f) Q"
proof -
  obtain r where "zero_tails bs 0 cnt actual expected = Some r"
    using zero_tails_total [OF assms(1), of 0 cnt bs] assms(2) by auto
  then show ?thesis
    unfolding alloc_zero_tailing_info_def
    by (intro wp_bind wp_sys) (auto intro!: assms(3))
qed

lemma wp_bind_prog_load:
  assumes "no_eagain K" and "\<And>fd data tr'. loads tr' = Suc (loads tr) \<Longrightarrow> wp (f ((fd, data), tr')) Q"
  shows "wp (sys_bpf_prog_load K attr tr \<bind> f) Q"
  unfolding prog_load_once [OF assms(1)] by (rule wp_bind_sys_bpf) (simp add: assms(2))

lemma load_corrections_returns:
  assumes "no_eagain K" and "infos_ok la"
  shows "wp (load_corrections K la finfo linfo attr fd tr)
    (\<lambda>_ tr'. loads tr' \<le> loads tr + (of_bool (finfo = None) + of_bool (linfo = None)))"
proof (induction "of_bool (finfo = None) + of_bool (linfo = None) :: nat" arbitrary: finfo linfo attr fd tr rule: less_induct)
  case less
  define N where "N = loads tr + (of_bool (finfo = None) + of_bool (linfo = None))"
  have F: "wp (load_corrections K la (Some a) l attr' fd' tr'') (\<lambda>_ tr'. loads tr' \<le> N)"
    if "finfo = None" "linfo = l" "loads tr'' = Suc (loads tr)" for a l attr' fd' tr''
    using less.hyps [of "Some a" l attr' fd' tr''] that by (auto simp: N_def elim!: wp_mono)
  have L: "wp (load_corrections K la f (Some a) attr' fd' tr'') (\<lambda>_ tr'. loads tr' \<le> N)"
    if "linfo = None" "finfo = f" "loads tr'' = Suc (loads tr)" for a f attr' fd' tr''
    using less.hyps [of f "Some a" attr' fd' tr''] that by (auto simp: N_def elim!: wp_mono)
  have n: "loads tr \<le> N" "finfo = None \<or> linfo = None \<Longrightarrow> Suc (loads tr) \<le> N" by (auto simp: N_def)
  have "wp (load_corrections K la finfo linfo attr fd tr) (\<lambda>_ tr'. loads tr' \<le> N)"
    using assms(2)
    by (subst load_corrections.simps, intro wp_if wp_bind_tailing_info,
        simp_all only: prod.case wp_Some split: option.split prod.split)
      (auto intro!: F L n wp_bind_prog_load [OF assms(1)] simp: Let_def infos_ok_def word_less_nat_alt)
  then show ?case by (simp add: N_def)
qed

lemma free_opt_loads: "\<exists>tr'. free_opt K p tr = Some tr' \<and> loads tr' = loads tr"
proof (cases p)
  case (Some a)
  then show ?thesis by (cases "os_reply K tr (Free a)") (simp add: free_opt_def sys_def)
qed (simp add: free_opt_def)

lemma load_program_xattr_returns:
  assumes "no_eagain K" and "infos_ok la"
  shows "wp (bpf_load_program_xattr K (Some la) log_buf n tr) (\<lambda>_ tr'. loads tr' \<le> loads tr + 4)"
proof -
  let ?Q = "\<lambda>_ tr'. loads tr' \<le> loads tr + 4"
  have frees: "wp (free_opt K finfo tr1 \<bind> (\<lambda>tr2. free_opt K linfo tr2 \<bind> (\<lambda>tr3. Some (fd, tr3)))) ?Q"
    if "loads tr1 \<le> loads tr + 4" for fd finfo linfo tr1
  proof -
    obtain tr2 where "free_opt K finfo tr1 = Some tr2" "loads tr2 = loads tr1" using free_opt_loads by blast
    moreover obtain tr3 where "free_opt K linfo tr2 = Some tr3" "loads tr3 = loads tr2" using free_opt_loads by blast
    ultimately show ?thesis using that by simp
  qed
  have retry: "wp ((if finished \<or> la_log_level la \<noteq> 0 \<or> \<not> log_buf then Some (fd, tr1)
           else sys_bpf_prog_load K attr tr1 \<bind> (\<lambda>((fd, _), tr). Some (fd, tr))) \<bind>
        (\<lambda>(fd, tr1). free_opt K finfo tr1 \<bind> (\<lambda>tr2. free_opt K linfo tr2 \<bind> (\<lambda>tr3. Some (fd, tr3))))) ?Q"
    if "loads tr1 \<le> loads tr + 3" for finished fd finfo linfo attr tr1
    using that by (intro wp_bind [of "if _ then _ else _"] wp_if) (auto intro!: frees wp_bind_prog_load [OF assms(1)])
  have corr: "wp (load_corrections K la None None attr fd tr1 \<bind> f) ?Q"
    if "loads tr1 = Suc (loads tr)" "\<And>a tr2. loads tr2 \<le> loads tr + 3 \<Longrightarrow> wp (f (a, tr2)) ?Q" for attr fd tr1 f
    by (rule wp_bind, rule wp_mono [OF load_corrections_returns [OF assms]]) (use that in auto)
  show ?thesis
    unfolding bpf_load_program_xattr_def option.case Let_def
    by (intro wp_if, simp, simp, rule wp_bind_prog_load [OF assms(1)], unfold prod.case, rule wp_if, simp,
        rule corr, simp, unfold split_paired_all prod.case, rule retry)
qed

section \<open>Properties\<close>

text \<open>
  C26: Loading a program terminates and does not leak: for a kernel that does not answer \<open>EAGAIN\<close>,
  \<open>bpf_load_program_xattr\<close> returns after at most four loads (the first, one with corrected function records,
  one with corrected line records, one with a log), and on every path it has freed the corrected
  records and keeps no descriptor but the one it returns.
\<close>

theorem bpf_load_program_xattr_terminates:
  assumes "no_eagain K" and "infos_ok la"
  shows "\<exists>fd tr'. bpf_load_program_xattr K (Some la) log_buf n tr = Some (fd, tr') \<and> loads tr' \<le> loads tr + 4 \<and>
    held R tr' = (if 0 \<le> fd then add_mset (Fd fd) (held R tr) else held R tr)"
  using load_program_xattr_returns [OF assms, of log_buf n tr] load_program_xattr_held [of K "Some la" log_buf n tr R]
  by (auto simp: wp_def wlp_def fd_held_def)

text \<open>A kernel that knows function records of four bytes only, and refuses longer ones that are not zero.\<close>

definition picky_os :: os where
  "picky_os = \<lparr>os_reply = (\<lambda>tr c. case c of
       Bpf (PROG_LOAD attr) \<Rightarrow>
         if attr_func_info attr = [1, 2, 3, 4, 0, 0] then (5, []) else (-7, [4, 0, 0, 0, 0, 0, 0, 0])
     | Malloc _ \<Rightarrow> (64, [])
     | _ \<Rightarrow> (0, [])), errno0 = 0, stack_bytes = [], page_size = 4096\<rparr>"

definition picky_attr :: bpf_load_program_attr where
  "picky_attr = \<lparr>la_prog_type = 6, la_expected_attach_type = 0, la_name = None, la_insns = [], la_insns_cnt = 0,
     la_license = ''GPL'', la_kern_version = 0, la_prog_ifindex = 0, la_prog_btf_fd = 0,
     la_func_info_rec_size = 6, la_func_info = [1, 2, 3, 4, 8, 9], la_func_info_cnt = 1,
     la_line_info_rec_size = 0, la_line_info = [], la_line_info_cnt = 0, la_log_level = 0, la_prog_flags = 0\<rparr>"

theorem bpf_load_program_xattr_terminates_witness:
  "\<exists>fd tr'. bpf_load_program_xattr picky_os (Some picky_attr) True 100 [] = Some (fd, tr') \<and> loads tr' \<le> 4 \<and>
    held {#} tr' = (if 0 \<le> fd then {#Fd fd#} else {#})"
proof -
  have "no_eagain picky_os" by (simp add: no_eagain_def picky_os_def EAGAIN_def)
  moreover have "infos_ok picky_attr" by (simp add: infos_ok_def picky_attr_def)
  ultimately show ?thesis
    using bpf_load_program_xattr_terminates [of picky_os picky_attr True 100 "[]" "{#}"]
    unfolding held_Nil loads_def [of "[]"] by simp
qed

end
