(* ===== verification/Xsk_Prog.thy ===== *)
theory Xsk_Prog
  imports VTL_Prelude
begin

text \<open>
  The default XDP program that libbpf loads for an AF_XDP socket when no program is attached to the
  interface (\<open>xsk_load_xdp_prog\<close> in \<open>lib/libbpf/src/xsk.c\<close>, assembled with the macros of
  \<open>include/linux/filter.h\<close>), an interpreter for the instructions it uses, and its equivalence with the
  C program in the comment above it.
\<close>

section \<open>Instructions\<close>

record bpf_insn =
  insn_code :: u8
  dst_reg :: nat
  src_reg :: nat
  insn_off :: int
  insn_imm :: int

definition BPF_LDX_MEM_W :: "nat \<Rightarrow> nat \<Rightarrow> int \<Rightarrow> bpf_insn" where
  "BPF_LDX_MEM_W dst src off = \<lparr>insn_code = 0x61, dst_reg = dst, src_reg = src, insn_off = off, insn_imm = 0\<rparr>"

definition BPF_STX_MEM_W :: "nat \<Rightarrow> nat \<Rightarrow> int \<Rightarrow> bpf_insn" where
  "BPF_STX_MEM_W dst src off = \<lparr>insn_code = 0x63, dst_reg = dst, src_reg = src, insn_off = off, insn_imm = 0\<rparr>"

definition BPF_LD_MAP_FD :: "nat \<Rightarrow> int \<Rightarrow> bpf_insn list" where
  "BPF_LD_MAP_FD dst fd =
     [\<lparr>insn_code = 0x18, dst_reg = dst, src_reg = 1, insn_off = 0, insn_imm = fd\<rparr>,
      \<lparr>insn_code = 0, dst_reg = 0, src_reg = 0, insn_off = 0, insn_imm = 0\<rparr>]"

definition BPF_MOV64_IMM :: "nat \<Rightarrow> int \<Rightarrow> bpf_insn" where
  "BPF_MOV64_IMM dst imm = \<lparr>insn_code = 0xB7, dst_reg = dst, src_reg = 0, insn_off = 0, insn_imm = imm\<rparr>"

definition BPF_MOV64_REG :: "nat \<Rightarrow> nat \<Rightarrow> bpf_insn" where
  "BPF_MOV64_REG dst src = \<lparr>insn_code = 0xBF, dst_reg = dst, src_reg = src, insn_off = 0, insn_imm = 0\<rparr>"

definition BPF_ALU64_IMM_ADD :: "nat \<Rightarrow> int \<Rightarrow> bpf_insn" where
  "BPF_ALU64_IMM_ADD dst imm = \<lparr>insn_code = 0x07, dst_reg = dst, src_reg = 0, insn_off = 0, insn_imm = imm\<rparr>"

definition BPF_EMIT_CALL :: "int \<Rightarrow> bpf_insn" where
  "BPF_EMIT_CALL f = \<lparr>insn_code = 0x85, dst_reg = 0, src_reg = 0, insn_off = 0, insn_imm = f\<rparr>"

definition BPF_JMP32_IMM_JSGT :: "nat \<Rightarrow> int \<Rightarrow> int \<Rightarrow> bpf_insn" where
  "BPF_JMP32_IMM_JSGT dst imm off = \<lparr>insn_code = 0x66, dst_reg = dst, src_reg = 0, insn_off = off, insn_imm = imm\<rparr>"

definition BPF_JMP_IMM_JEQ :: "nat \<Rightarrow> int \<Rightarrow> int \<Rightarrow> bpf_insn" where
  "BPF_JMP_IMM_JEQ dst imm off = \<lparr>insn_code = 0x15, dst_reg = dst, src_reg = 0, insn_off = off, insn_imm = imm\<rparr>"

definition BPF_EXIT_INSN :: bpf_insn where
  "BPF_EXIT_INSN = \<lparr>insn_code = 0x95, dst_reg = 0, src_reg = 0, insn_off = 0, insn_imm = 0\<rparr>"

lemmas bpf_macros = BPF_LDX_MEM_W_def BPF_STX_MEM_W_def BPF_LD_MAP_FD_def BPF_MOV64_IMM_def BPF_MOV64_REG_def
  BPF_ALU64_IMM_ADD_def BPF_EMIT_CALL_def BPF_JMP32_IMM_JSGT_def BPF_JMP_IMM_JEQ_def BPF_EXIT_INSN_def

text \<open>\<open>struct bpf_insn\<close> in memory: opcode, the two register nibbles, offset and immediate.\<close>

definition bpf_insn_bytes :: "bpf_insn \<Rightarrow> bytes" where
  "bpf_insn_bytes i =
     [insn_code i, word_of_nat (dst_reg i + 16 * src_reg i)] @ le_put 2 (nat (insn_off i mod 2 ^ 16)) @
     le_put 4 (nat (insn_imm i mod 2 ^ 32))"

definition BPF_FUNC_map_lookup_elem :: int where "BPF_FUNC_map_lookup_elem = 1"
definition BPF_FUNC_redirect_map :: int where "BPF_FUNC_redirect_map = 51"

text \<open>The array \<open>prog\<close> for the map \<open>xsks_map_fd\<close>.\<close>

definition xsk_prog :: "int \<Rightarrow> bpf_insn list" where
  "xsk_prog xsks_map_fd =
     [BPF_LDX_MEM_W 2 1 16,
      BPF_STX_MEM_W 10 2 (-4)] @
     BPF_LD_MAP_FD 1 xsks_map_fd @
     [BPF_MOV64_IMM 3 2,
      BPF_EMIT_CALL BPF_FUNC_redirect_map,
      BPF_JMP32_IMM_JSGT 0 0 13,
      BPF_MOV64_REG 2 10,
      BPF_ALU64_IMM_ADD 2 (-4)] @
     BPF_LD_MAP_FD 1 xsks_map_fd @
     [BPF_EMIT_CALL BPF_FUNC_map_lookup_elem,
      BPF_MOV64_REG 1 0,
      BPF_MOV64_IMM 0 2,
      BPF_JMP_IMM_JEQ 1 0 5,
      BPF_LDX_MEM_W 2 10 (-4)] @
     BPF_LD_MAP_FD 1 xsks_map_fd @
     [BPF_MOV64_IMM 3 0,
      BPF_EMIT_CALL BPF_FUNC_redirect_map,
      BPF_EXIT_INSN]"

section \<open>Execution\<close>

text \<open>
  A register holds a number, a pointer to the context, into the stack (relative to the frame pointer)
  or to a map value, or a map; \<open>None\<close> is a register that was never set or was clobbered by a call.
\<close>

datatype bpf_val = Num u64 | CtxPtr | FramePtr int | MapOfFd int | MapValue

record bpf_state =
  pc :: nat
  regs :: "nat \<Rightarrow> bpf_val option"
  frame :: "int \<Rightarrow> u32 option"

text \<open>The helpers, on the entry of a map: redirection with its flags, and whether an entry is set.\<close>

record bpf_helpers =
  redirect_map_fn :: "int \<Rightarrow> u32 \<Rightarrow> u64 \<Rightarrow> u64"
  has_entry_fn :: "int \<Rightarrow> u32 \<Rightarrow> bool"

datatype bpf_outcome = Running bpf_state | Exited u64

definition set_reg :: "nat \<Rightarrow> bpf_val \<Rightarrow> bpf_state \<Rightarrow> bpf_state" where
  "set_reg r v s = s\<lparr>regs := (regs s)(r \<mapsto> v), pc := Suc (pc s)\<rparr>"

text \<open>A call returns in register 0 and clobbers 1 to 5.\<close>

definition call_result :: "bpf_val \<Rightarrow> bpf_state \<Rightarrow> bpf_state" where
  "call_result v s = s\<lparr>regs := (\<lambda>r. if r = 0 then Some v else if r \<le> 5 then None else regs s r), pc := Suc (pc s)\<rparr>"

definition jump :: "bool \<Rightarrow> int \<Rightarrow> bpf_state \<Rightarrow> bpf_state" where
  "jump c off s = s\<lparr>pc := (if c then nat (int (pc s) + 1 + off) else Suc (pc s))\<rparr>"

text \<open>Loads of the context: the words of \<open>struct xdp_md\<close>.\<close>

definition ctx_word :: "u32 list \<Rightarrow> int \<Rightarrow> u32 option" where
  "ctx_word ctx off = (if 0 \<le> off \<and> off mod 4 = 0 \<and> nat (off div 4) < length ctx then Some (ctx ! nat (off div 4)) else None)"

definition bpf_call :: "bpf_helpers \<Rightarrow> int \<Rightarrow> bpf_state \<Rightarrow> bpf_state option" where
  "bpf_call h f s =
     (if f = BPF_FUNC_redirect_map then
        (case (regs s 1, regs s 2, regs s 3) of
           (Some (MapOfFd m), Some (Num k), Some (Num fl)) \<Rightarrow> Some (call_result (Num (redirect_map_fn h m (ucast k) fl)) s)
         | _ \<Rightarrow> None)
      else if f = BPF_FUNC_map_lookup_elem then
        (case (regs s 1, regs s 2) of
           (Some (MapOfFd m), Some (FramePtr o')) \<Rightarrow>
             map_option (\<lambda>k. call_result (if has_entry_fn h m k then MapValue else Num 0) s) (frame s o')
         | _ \<Rightarrow> None)
      else None)"

definition bpf_step :: "bpf_helpers \<Rightarrow> u32 list \<Rightarrow> bpf_insn list \<Rightarrow> bpf_state \<Rightarrow> bpf_outcome option" where
  "bpf_step h ctx prog s =
     (if length prog \<le> pc s then None
      else
        (let i = prog ! pc s; dst = regs s (dst_reg i); src = regs s (src_reg i) in
         if insn_code i = 0x61 then
           (case src of
              Some CtxPtr \<Rightarrow> map_option (\<lambda>w. Running (set_reg (dst_reg i) (Num (ucast w)) s)) (ctx_word ctx (insn_off i))
            | Some (FramePtr o') \<Rightarrow> map_option (\<lambda>w. Running (set_reg (dst_reg i) (Num (ucast w)) s)) (frame s (o' + insn_off i))
            | _ \<Rightarrow> None)
         else if insn_code i = 0x63 then
           (case (dst, src) of
              (Some (FramePtr o'), Some (Num v)) \<Rightarrow>
                Some (Running (s\<lparr>frame := (frame s)(o' + insn_off i \<mapsto> ucast v), pc := Suc (pc s)\<rparr>))
            | _ \<Rightarrow> None)
         else if insn_code i = 0x18 \<and> src_reg i = 1 then
           Some (Running (s\<lparr>regs := (regs s)(dst_reg i \<mapsto> MapOfFd (insn_imm i)), pc := pc s + 2\<rparr>))
         else if insn_code i = 0xB7 then Some (Running (set_reg (dst_reg i) (Num (word_of_int (insn_imm i))) s))
         else if insn_code i = 0xBF then map_option (\<lambda>v. Running (set_reg (dst_reg i) v s)) src
         else if insn_code i = 0x07 then
           (case dst of
              Some (Num v) \<Rightarrow> Some (Running (set_reg (dst_reg i) (Num (v + word_of_int (insn_imm i))) s))
            | Some (FramePtr o') \<Rightarrow> Some (Running (set_reg (dst_reg i) (FramePtr (o' + insn_imm i)) s))
            | _ \<Rightarrow> None)
         else if insn_code i = 0x85 then map_option Running (bpf_call h (insn_imm i) s)
         else if insn_code i = 0x66 then
           (case dst of
              Some (Num v) \<Rightarrow> Some (Running (jump (insn_imm i < sint (ucast v :: u32)) (insn_off i) s))
            | _ \<Rightarrow> None)
         else if insn_code i = 0x15 then
           (case dst of
              Some (Num v) \<Rightarrow> Some (Running (jump (v = word_of_int (insn_imm i)) (insn_off i) s))
            | Some MapValue \<Rightarrow> if insn_imm i = 0 then Some (Running (jump False (insn_off i) s)) else None
            | _ \<Rightarrow> None)
         else if insn_code i = 0x95 then (case regs s 0 of Some (Num v) \<Rightarrow> Some (Exited v) | _ \<Rightarrow> None)
         else None))"

text \<open>At most \<open>n\<close> instructions; \<open>None\<close> is an access the kernel would refuse, or no end within \<open>n\<close>.\<close>

fun bpf_run :: "nat \<Rightarrow> bpf_helpers \<Rightarrow> u32 list \<Rightarrow> bpf_insn list \<Rightarrow> bpf_state \<Rightarrow> u64 option" where
  "bpf_run 0 h ctx prog s = None"
| "bpf_run (Suc n) h ctx prog s =
     (case bpf_step h ctx prog s of
        None \<Rightarrow> None
      | Some (Running s') \<Rightarrow> bpf_run n h ctx prog s'
      | Some (Exited v) \<Rightarrow> Some v)"

definition bpf_entry :: bpf_state where
  "bpf_entry = \<lparr>pc = 0, regs = [1 \<mapsto> CtxPtr, 10 \<mapsto> FramePtr 0], frame = Map.empty\<rparr>"

section \<open>The C program of the comment\<close>

definition XDP_PASS_ACT :: u32 where "XDP_PASS_ACT = 2"

text \<open>Results are compared as the \<open>int\<close> they are in C, that is on 32 bits.\<close>

definition xdp_sock_prog :: "bpf_helpers \<Rightarrow> int \<Rightarrow> u32 \<Rightarrow> u32" where
  "xdp_sock_prog h xsks_map index =
     (let ret = ucast (redirect_map_fn h xsks_map index (ucast XDP_PASS_ACT)) :: u32 in
      if 0 < sint ret then ret
      else if has_entry_fn h xsks_map index then ucast (redirect_map_fn h xsks_map index 0)
      else XDP_PASS_ACT)"

section \<open>Equivalence\<close>

lemma bpf_run_numeral:
  "bpf_run (numeral n) h ctx prog s =
     (case bpf_step h ctx prog s of
        None \<Rightarrow> None
      | Some (Running s') \<Rightarrow> bpf_run (pred_numeral n) h ctx prog s'
      | Some (Exited v) \<Rightarrow> Some v)"
  by (simp add: numeral_eq_Suc)

text \<open>The instruction in each slot.\<close>

lemma xsk_fetch:
  "length (xsk_prog fd) = 21"
  "xsk_prog fd ! 0 = BPF_LDX_MEM_W 2 1 16"
  "xsk_prog fd ! Suc 0 = BPF_STX_MEM_W 10 2 (-4)"
  "xsk_prog fd ! 2 = hd (BPF_LD_MAP_FD 1 fd)"
  "xsk_prog fd ! 4 = BPF_MOV64_IMM 3 2"
  "xsk_prog fd ! 5 = BPF_EMIT_CALL BPF_FUNC_redirect_map"
  "xsk_prog fd ! 6 = BPF_JMP32_IMM_JSGT 0 0 13"
  "xsk_prog fd ! 7 = BPF_MOV64_REG 2 10"
  "xsk_prog fd ! 8 = BPF_ALU64_IMM_ADD 2 (-4)"
  "xsk_prog fd ! 9 = hd (BPF_LD_MAP_FD 1 fd)"
  "xsk_prog fd ! 11 = BPF_EMIT_CALL BPF_FUNC_map_lookup_elem"
  "xsk_prog fd ! 12 = BPF_MOV64_REG 1 0"
  "xsk_prog fd ! 13 = BPF_MOV64_IMM 0 2"
  "xsk_prog fd ! 14 = BPF_JMP_IMM_JEQ 1 0 5"
  "xsk_prog fd ! 15 = BPF_LDX_MEM_W 2 10 (-4)"
  "xsk_prog fd ! 16 = hd (BPF_LD_MAP_FD 1 fd)"
  "xsk_prog fd ! 18 = BPF_MOV64_IMM 3 0"
  "xsk_prog fd ! 19 = BPF_EMIT_CALL BPF_FUNC_redirect_map"
  "xsk_prog fd ! 20 = BPF_EXIT_INSN"
  by (simp_all add: xsk_prog_def BPF_LD_MAP_FD_def)

text \<open>What each of them does.\<close>

lemma xsk_steps:
  "pc s = 0 \<Longrightarrow> regs s 1 = Some CtxPtr \<Longrightarrow> ctx_word ctx 16 = Some q \<Longrightarrow>
     bpf_step h ctx (xsk_prog fd) s = Some (Running (set_reg 2 (Num (ucast q)) s))"
  "pc s = Suc 0 \<Longrightarrow> regs s 10 = Some (FramePtr 0) \<Longrightarrow> regs s 2 = Some (Num v) \<Longrightarrow>
     bpf_step h ctx (xsk_prog fd) s = Some (Running (s\<lparr>frame := (frame s)(-4 \<mapsto> ucast v), pc := 2\<rparr>))"
  "pc s = 2 \<Longrightarrow> bpf_step h ctx (xsk_prog fd) s = Some (Running (s\<lparr>regs := (regs s)(1 \<mapsto> MapOfFd fd), pc := 4\<rparr>))"
  "pc s = 4 \<Longrightarrow> bpf_step h ctx (xsk_prog fd) s = Some (Running (set_reg 3 (Num 2) s))"
  "pc s = 5 \<Longrightarrow> bpf_step h ctx (xsk_prog fd) s = map_option Running (bpf_call h BPF_FUNC_redirect_map s)"
  "pc s = 6 \<Longrightarrow> regs s 0 = Some (Num v) \<Longrightarrow>
     bpf_step h ctx (xsk_prog fd) s = Some (Running (jump (0 < sint (ucast v :: u32)) 13 s))"
  "pc s = 7 \<Longrightarrow> regs s 10 = Some w \<Longrightarrow> bpf_step h ctx (xsk_prog fd) s = Some (Running (set_reg 2 w s))"
  "pc s = 8 \<Longrightarrow> regs s 2 = Some (FramePtr 0) \<Longrightarrow> bpf_step h ctx (xsk_prog fd) s = Some (Running (set_reg 2 (FramePtr (-4)) s))"
  "pc s = 9 \<Longrightarrow> bpf_step h ctx (xsk_prog fd) s = Some (Running (s\<lparr>regs := (regs s)(1 \<mapsto> MapOfFd fd), pc := 11\<rparr>))"
  "pc s = 11 \<Longrightarrow> bpf_step h ctx (xsk_prog fd) s = map_option Running (bpf_call h BPF_FUNC_map_lookup_elem s)"
  "pc s = 12 \<Longrightarrow> regs s 0 = Some w \<Longrightarrow> bpf_step h ctx (xsk_prog fd) s = Some (Running (set_reg 1 w s))"
  "pc s = 13 \<Longrightarrow> bpf_step h ctx (xsk_prog fd) s = Some (Running (set_reg 0 (Num 2) s))"
  "pc s = 14 \<Longrightarrow> regs s 1 = Some (Num 0) \<Longrightarrow> bpf_step h ctx (xsk_prog fd) s = Some (Running (s\<lparr>pc := 20\<rparr>))"
  "pc s = 14 \<Longrightarrow> regs s 1 = Some MapValue \<Longrightarrow> bpf_step h ctx (xsk_prog fd) s = Some (Running (s\<lparr>pc := 15\<rparr>))"
  "pc s = 15 \<Longrightarrow> regs s 10 = Some (FramePtr 0) \<Longrightarrow> frame s (-4) = Some q \<Longrightarrow>
     bpf_step h ctx (xsk_prog fd) s = Some (Running (set_reg 2 (Num (ucast q)) s))"
  "pc s = 16 \<Longrightarrow> bpf_step h ctx (xsk_prog fd) s = Some (Running (s\<lparr>regs := (regs s)(1 \<mapsto> MapOfFd fd), pc := 18\<rparr>))"
  "pc s = 18 \<Longrightarrow> bpf_step h ctx (xsk_prog fd) s = Some (Running (set_reg 3 (Num 0) s))"
  "pc s = 19 \<Longrightarrow> bpf_step h ctx (xsk_prog fd) s = map_option Running (bpf_call h BPF_FUNC_redirect_map s)"
  "pc s = 20 \<Longrightarrow> regs s 0 = Some (Num v) \<Longrightarrow> bpf_step h ctx (xsk_prog fd) s = Some (Exited v)"
  by (simp_all add: bpf_step_def xsk_fetch bpf_macros jump_def)

lemmas xsk_exec = xsk_steps bpf_run_numeral bpf_call_def set_reg_def call_result_def jump_def bpf_entry_def
  BPF_FUNC_map_lookup_elem_def BPF_FUNC_redirect_map_def xdp_sock_prog_def XDP_PASS_ACT_def

text \<open>
  C23: The default program ends within eighteen instructions on every packet, without an access
  the kernel would refuse (no clobbered or unset register and no unset stack word is read), and returns
  the action of the C program in the comment, for every queue and whatever the helpers answer.
\<close>

theorem xsk_prog_equivalent:
  assumes "length ctx = 5"
  shows "\<exists>r. bpf_run 18 h ctx (xsk_prog fd) bpf_entry = Some r \<and> ucast r = xdp_sock_prog h fd (ctx ! 4)"
proof -
  have c: "ctx_word ctx 16 = Some (ctx ! 4)" using assms by (simp add: ctx_word_def)
  have u: "(ucast (ucast q :: u64) :: u32) = q" for q :: u32 by (rule bit_word_eqI) (simp add: bit_simps)
  let ?ret = "ucast (redirect_map_fn h fd (ctx ! 4) 2) :: u32"
  consider (first) "0 < sint ?ret" | (second) "\<not> 0 < sint ?ret" "has_entry_fn h fd (ctx ! 4)"
    | (pass) "\<not> 0 < sint ?ret" "\<not> has_entry_fn h fd (ctx ! 4)" by blast
  then show ?thesis
  proof cases
    case first
    then show ?thesis by (simp add: xsk_exec c u Let_def)
  next
    case second
    then show ?thesis by (simp add: xsk_exec c u Let_def)
  next
    case pass
    then show ?thesis by (simp add: xsk_exec c u Let_def)
  qed
qed

text \<open>A helper that redirects queue 1 only.\<close>

theorem xsk_prog_equivalent_witness:
  "\<exists>r. bpf_run 18 \<lparr>redirect_map_fn = (\<lambda>m k fl. if k = 1 then 4 else fl), has_entry_fn = (\<lambda>m k. k = 1)\<rparr>
     [0, 0, 0, 2, 1] (xsk_prog 7) bpf_entry = Some r \<and> ucast r = (4 :: u32)"
  using xsk_prog_equivalent [of "[0, 0, 0, 2, 1]"
      "\<lparr>redirect_map_fn = (\<lambda>m k fl. if k = 1 then 4 else fl), has_entry_fn = (\<lambda>m k. k = 1)\<rparr>" 7]
  by (simp add: xdp_sock_prog_def Let_def)

end
