(* ===== verification/Libbpf_Xsk.thy ===== *)
theory Libbpf_Xsk
  imports Libbpf_Netlink Libbpf_Bpf Xsk_Prog Xsk_Rings
begin

text \<open>
  The AF_XDP library of the bundled libbpf (\<open>lib/libbpf/src/xsk.c\<close>): creating and deleting a UMEM and a
  socket, with the mapping of their rings, and entering the socket in the map of the program attached
  to the interface. Pointers are addresses; a ring structure of the caller is a record of them.
\<close>

section \<open>Configuration\<close>

record xsk_umem_config =
  fill_size :: u32
  comp_size :: u32
  frame_size :: u32
  frame_headroom :: u32
  umem_flags :: u32

record xsk_socket_config =
  rx_size :: u32
  tx_size :: u32
  libbpf_flags :: u32
  cfg_xdp_flags :: u32
  bind_flags :: u16

definition XSK_LIBBPF_FLAGS__INHIBIT_PROG_LOAD :: u32 where "XSK_LIBBPF_FLAGS__INHIBIT_PROG_LOAD = 1"

definition xsk_set_umem_config :: "xsk_umem_config option \<Rightarrow> xsk_umem_config" where
  "xsk_set_umem_config usr_cfg =
     (case usr_cfg of
        None \<Rightarrow> \<lparr>fill_size = 2048, comp_size = 2048, frame_size = 4096, frame_headroom = 0, umem_flags = 0\<rparr>
      | Some u \<Rightarrow> \<lparr>fill_size = fill_size u, comp_size = comp_size u, frame_size = frame_size u,
                   frame_headroom = frame_headroom u, umem_flags = umem_flags u\<rparr>)"

text \<open>\<open>Inl\<close> is the error.\<close>

definition xsk_set_xdp_socket_config :: "xsk_socket_config option \<Rightarrow> int + xsk_socket_config" where
  "xsk_set_xdp_socket_config usr_cfg =
     (case usr_cfg of
        None \<Rightarrow> Inr \<lparr>rx_size = 2048, tx_size = 2048, libbpf_flags = 0, cfg_xdp_flags = 0, bind_flags = 0\<rparr>
      | Some u \<Rightarrow>
          if libbpf_flags u AND NOT XSK_LIBBPF_FLAGS__INHIBIT_PROG_LOAD \<noteq> 0 then Inl (- EINVAL)
          else Inr \<lparr>rx_size = rx_size u, tx_size = tx_size u, libbpf_flags = libbpf_flags u,
                    cfg_xdp_flags = cfg_xdp_flags u, bind_flags = bind_flags u\<rparr>)"

section \<open>Ring offsets\<close>

record xdp_ring_offset =
  ro_producer :: u64
  ro_consumer :: u64
  ro_desc :: u64
  ro_flags :: u64

record xdp_mmap_offsets =
  off_rx :: xdp_ring_offset
  off_tx :: xdp_ring_offset
  off_fr :: xdp_ring_offset
  off_cr :: xdp_ring_offset

definition word64_at :: "bytes \<Rightarrow> nat \<Rightarrow> u64" where
  "word64_at p i = word_of_nat (le_get (seg (8 * i) 8 p))"

text \<open>The structure of current kernels, four words per ring, and that of kernels up to 5.3, three.\<close>

definition ring_offset_at :: "bytes \<Rightarrow> nat \<Rightarrow> xdp_ring_offset" where
  "ring_offset_at p k =
     \<lparr>ro_producer = word64_at p (4 * k), ro_consumer = word64_at p (4 * k + 1), ro_desc = word64_at p (4 * k + 2),
      ro_flags = word64_at p (4 * k + 3)\<rparr>"

definition ring_offset_v1_at :: "bytes \<Rightarrow> nat \<Rightarrow> xdp_ring_offset" where
  "ring_offset_v1_at p k =
     \<lparr>ro_producer = word64_at p (3 * k), ro_consumer = word64_at p (3 * k + 1), ro_desc = word64_at p (3 * k + 2),
      ro_flags = word64_at p (3 * k + 1) + 4\<rparr>"

definition xsk_mmap_offsets_v1 :: "bytes \<Rightarrow> xdp_mmap_offsets" where
  "xsk_mmap_offsets_v1 p =
     \<lparr>off_rx = ring_offset_v1_at p 0, off_tx = ring_offset_v1_at p 1, off_fr = ring_offset_v1_at p 2, off_cr = ring_offset_v1_at p 3\<rparr>"

definition SOL_XDP :: nat where "SOL_XDP = 283"
definition AF_XDP :: nat where "AF_XDP = 44"
definition XDP_MMAP_OFFSETS :: nat where "XDP_MMAP_OFFSETS = 1"
definition XDP_RX_RING :: nat where "XDP_RX_RING = 2"
definition XDP_TX_RING :: nat where "XDP_TX_RING = 3"
definition XDP_UMEM_REG :: nat where "XDP_UMEM_REG = 4"
definition XDP_UMEM_FILL_RING :: nat where "XDP_UMEM_FILL_RING = 5"
definition XDP_UMEM_COMPLETION_RING :: nat where "XDP_UMEM_COMPLETION_RING = 6"

definition XDP_PGOFF_RX_RING :: nat where "XDP_PGOFF_RX_RING = 0"
definition XDP_PGOFF_TX_RING :: nat where "XDP_PGOFF_TX_RING = 0x80000000"
definition XDP_UMEM_PGOFF_FILL_RING :: nat where "XDP_UMEM_PGOFF_FILL_RING = 0x100000000"
definition XDP_UMEM_PGOFF_COMPLETION_RING :: nat where "XDP_UMEM_PGOFF_COMPLETION_RING = 0x180000000"

text \<open>
  The result, and the offsets when it is zero (\<open>None\<close> otherwise); the length the kernel reports is that
  of the bytes it wrote.
\<close>

definition xsk_get_mmap_offsets :: "'k os_scheme \<Rightarrow> int \<Rightarrow> strace \<Rightarrow> ((int \<times> xdp_mmap_offsets option) \<times> strace) option" where
  "xsk_get_mmap_offsets K fd tr =
     do { ((rv, data), tr) \<leftarrow> sys K (Getsockopt fd SOL_XDP XDP_MMAP_OFFSETS 128) tr;
          Some (if rv \<noteq> 0 then (c_ret rv, None)
                else if length data = 128
                then (0, Some \<lparr>off_rx = ring_offset_at data 0, off_tx = ring_offset_at data 1,
                               off_fr = ring_offset_at data 2, off_cr = ring_offset_at data 3\<rparr>)
                else if length data = 96 then (0, Some (xsk_mmap_offsets_v1 data))
                else (- EINVAL, None), tr) }"

section \<open>UMEM\<close>

text \<open>\<open>struct xsk_ring_prod\<close> and \<open>struct xsk_ring_cons\<close>; the last four fields are pointers.\<close>

record ring_ptrs =
  rp_cached_prod :: u32
  rp_cached_cons :: u32
  rp_mask :: u32
  rp_size :: u32
  rp_producer :: u64
  rp_consumer :: u64
  rp_ring :: u64
  rp_flags :: u64

text \<open>\<open>struct xsk_umem\<close> at address \<open>um_addr\<close>, with the rings its pointers \<open>fill\<close> and \<open>comp\<close> lead to.\<close>

record xsk_umem =
  um_addr :: int
  um_fill :: ring_ptrs
  um_comp :: ring_ptrs
  um_area :: int
  um_config :: xsk_umem_config
  um_fd :: int
  um_refcount :: int

definition xsk_umem__fd :: "xsk_umem option \<Rightarrow> int" where
  "xsk_umem__fd umem = (case umem of None \<Rightarrow> - EINVAL | Some u \<Rightarrow> um_fd u)"

definition EFAULT :: int where "EFAULT = 14"
definition EBUSY :: int where "EBUSY = 16"
definition EOPNOTSUPP :: int where "EOPNOTSUPP = 95"

definition xsk_page_aligned :: "'k os_scheme \<Rightarrow> int \<Rightarrow> bool" where
  "xsk_page_aligned K addr \<longleftrightarrow> addr AND (int (page_size K) - 1) = 0"

text \<open>What a ring structure becomes over a mapping at \<open>m\<close>, and the length of the mapping.\<close>

definition set_ring :: "int \<Rightarrow> xdp_ring_offset \<Rightarrow> u32 \<Rightarrow> ring_ptrs \<Rightarrow> ring_ptrs" where
  "set_ring m off n r =
     r\<lparr>rp_mask := n - 1, rp_size := n, rp_producer := word_of_int m + ro_producer off,
       rp_consumer := word_of_int m + ro_consumer off, rp_flags := word_of_int m + ro_flags off,
       rp_ring := word_of_int m + ro_desc off\<rparr>"

definition ring_len :: "xdp_ring_offset \<Rightarrow> u32 \<Rightarrow> u64 \<Rightarrow> nat" where
  "ring_len off n sz = unat (ro_desc off + ucast n * sz)"

definition MAP_FAILED :: int where "MAP_FAILED = -1"

definition sys_mmap :: "'k os_scheme \<Rightarrow> nat \<Rightarrow> int \<Rightarrow> nat \<Rightarrow> strace \<Rightarrow> (int \<times> strace) option" where
  "sys_mmap K n fd pgoff tr =
     do { ((rv, _), tr) \<leftarrow> sys K (Mmap n fd pgoff) tr; Some (if rv < 0 then MAP_FAILED else rv, tr) }"

text \<open>\<open>struct xdp_umem_reg\<close>.\<close>

definition umem_reg :: "int \<Rightarrow> u64 \<Rightarrow> xsk_umem_config \<Rightarrow> bytes" where
  "umem_reg area sz cfg =
     le_put 8 (nat area) @ le_put 8 (unat sz) @ le_put 4 (unat (frame_size cfg)) @ le_put 4 (unat (frame_headroom cfg)) @
     le_put 4 (unat (umem_flags cfg)) @ replicate 4 0"

text \<open>The labels \<open>out_socket\<close> and \<open>out_umem_alloc\<close>.\<close>

definition umem_out_alloc :: "'k os_scheme \<Rightarrow> int \<Rightarrow> int \<Rightarrow> 'r \<Rightarrow> strace \<Rightarrow> ((int \<times> 'r) \<times> strace) option" where
  "umem_out_alloc K addr err r tr = do { (_, tr) \<leftarrow> sys K (Free addr) tr; Some ((err, r), tr) }"

definition umem_out_socket :: "'k os_scheme \<Rightarrow> int \<Rightarrow> int \<Rightarrow> int \<Rightarrow> 'r \<Rightarrow> strace \<Rightarrow> ((int \<times> 'r) \<times> strace) option" where
  "umem_out_socket K addr fd err r tr = do { (_, tr) \<leftarrow> sys K (Close fd) tr; umem_out_alloc K addr err r tr }"

text \<open>
  From the offsets on: the two mappings and the ring structures \<open>f\<close> and \<open>c\<close> over them. When the second one
  fails, \<open>munmap\<close> gets the variable \<open>map\<close>, which then holds \<open>MAP_FAILED\<close>.
\<close>

definition umem_map_rings ::
    "'k os_scheme \<Rightarrow> int \<Rightarrow> int \<Rightarrow> int \<Rightarrow> xsk_umem_config \<Rightarrow> ring_ptrs \<Rightarrow> ring_ptrs \<Rightarrow> strace \<Rightarrow>
     ((int \<times> xsk_umem option \<times> ring_ptrs option \<times> ring_ptrs option) \<times> strace) option" where
  "umem_map_rings K addr fd umem_area cfg f c tr =
     do { ((_, offs), tr) \<leftarrow> xsk_get_mmap_offsets K fd tr;
          case offs of
            None \<Rightarrow> umem_out_socket K addr fd (- errno_of K tr) (None, Some f, Some c) tr
          | Some off \<Rightarrow> do {
              (m, tr) \<leftarrow> sys_mmap K (ring_len (off_fr off) (fill_size cfg) 8) fd XDP_UMEM_PGOFF_FILL_RING tr;
              if m = MAP_FAILED then umem_out_socket K addr fd (- errno_of K tr) (None, Some f, Some c) tr
              else do {
                let f = (set_ring m (off_fr off) (fill_size cfg) f)\<lparr>rp_cached_cons := fill_size cfg\<rparr>;
                (m, tr) \<leftarrow> sys_mmap K (ring_len (off_cr off) (comp_size cfg) 8) fd XDP_UMEM_PGOFF_COMPLETION_RING tr;
                if m = MAP_FAILED then do {
                  let err = - errno_of K tr;
                  (_, tr) \<leftarrow> sys K (Munmap m (ring_len (off_fr off) (fill_size cfg) 8)) tr;
                  umem_out_socket K addr fd err (None, Some f, Some c) tr }
                else do {
                  let c = set_ring m (off_cr off) (comp_size cfg) c;
                  Some ((0, Some \<lparr>um_addr = addr, um_fill = f, um_comp = c, um_area = umem_area, um_config = cfg,
                                  um_fd = fd, um_refcount = 0\<rparr>, Some f, Some c), tr) } } } }"

text \<open>
  \<open>xsk_umem__create_v0_0_4\<close>: NULL for a pointer argument is 0, \<open>False\<close> or \<open>None\<close>. The result, the UMEM
  when \<open>*umem_ptr\<close> is set, and the two ring structures of the caller.
\<close>

definition xsk_umem__create ::
    "'k os_scheme \<Rightarrow> bool \<Rightarrow> int \<Rightarrow> u64 \<Rightarrow> ring_ptrs option \<Rightarrow> ring_ptrs option \<Rightarrow> xsk_umem_config option \<Rightarrow> strace \<Rightarrow>
     ((int \<times> xsk_umem option \<times> ring_ptrs option \<times> ring_ptrs option) \<times> strace) option" where
  "xsk_umem__create K umem_ptr umem_area sz fill cmp usr_config tr =
     (case (fill, cmp) of
        (Some f, Some c) \<Rightarrow>
          if umem_area = 0 \<or> \<not> umem_ptr then Some ((- EFAULT, None, fill, cmp), tr)
          else if sz = 0 \<and> \<not> xsk_page_aligned K umem_area then Some ((- EINVAL, None, fill, cmp), tr)
          else do {
            ((addr, _), tr) \<leftarrow> sys K (Calloc 56) tr;
            if addr = 0 then Some ((- ENOMEM, None, fill, cmp), tr)
            else do {
              ((fd, _), tr) \<leftarrow> sys K (Socket AF_XDP SOCK_RAW 0) tr;
              if fd < 0 then umem_out_alloc K addr (- errno_of K tr) (None, fill, cmp) tr
              else do {
                let cfg = xsk_set_umem_config usr_config;
                ((rv, _), tr) \<leftarrow> sys K (Setsockopt fd SOL_XDP XDP_UMEM_REG (umem_reg umem_area sz cfg)) tr;
                if rv \<noteq> 0 then umem_out_socket K addr fd (- errno_of K tr) (None, fill, cmp) tr
                else do {
                  ((rv, _), tr) \<leftarrow> sys K (Setsockopt fd SOL_XDP XDP_UMEM_FILL_RING (le_put 4 (unat (fill_size cfg)))) tr;
                  if rv \<noteq> 0 then umem_out_socket K addr fd (- errno_of K tr) (None, fill, cmp) tr
                  else do {
                    ((rv, _), tr) \<leftarrow> sys K (Setsockopt fd SOL_XDP XDP_UMEM_COMPLETION_RING (le_put 4 (unat (comp_size cfg)))) tr;
                    if rv \<noteq> 0 then umem_out_socket K addr fd (- errno_of K tr) (None, fill, cmp) tr
                    else umem_map_rings K addr fd umem_area cfg f c tr } } } } }
      | _ \<Rightarrow> Some ((- EFAULT, None, fill, cmp), tr))"

definition xsk_umem__create_v0_0_2 ::
    "'k os_scheme \<Rightarrow> bool \<Rightarrow> int \<Rightarrow> u64 \<Rightarrow> ring_ptrs option \<Rightarrow> ring_ptrs option \<Rightarrow> xsk_umem_config \<Rightarrow> strace \<Rightarrow>
     ((int \<times> xsk_umem option \<times> ring_ptrs option \<times> ring_ptrs option) \<times> strace) option" where
  "xsk_umem__create_v0_0_2 K umem_ptr umem_area sz fill cmp usr_config tr =
     xsk_umem__create K umem_ptr umem_area sz fill cmp (Some (usr_config\<lparr>umem_flags := 0\<rparr>)) tr"

text \<open>The result, and whether the UMEM is still there.\<close>

definition xsk_umem__delete :: "'k os_scheme \<Rightarrow> xsk_umem option \<Rightarrow> strace \<Rightarrow> ((int \<times> bool) \<times> strace) option" where
  "xsk_umem__delete K umem tr =
     (case umem of
        None \<Rightarrow> Some ((0, False), tr)
      | Some u \<Rightarrow>
          if um_refcount u \<noteq> 0 then Some ((- EBUSY, True), tr)
          else do {
            ((_, offs), tr) \<leftarrow> xsk_get_mmap_offsets K (um_fd u) tr;
            tr \<leftarrow> (case offs of
                None \<Rightarrow> Some tr
              | Some off \<Rightarrow> do {
                  (_, tr) \<leftarrow> sys K (Munmap (uint (rp_ring (um_fill u) - ro_desc (off_fr off)))
                                         (ring_len (off_fr off) (fill_size (um_config u)) 8)) tr;
                  (_, tr) \<leftarrow> sys K (Munmap (uint (rp_ring (um_comp u) - ro_desc (off_cr off)))
                                         (ring_len (off_cr off) (comp_size (um_config u)) 8)) tr;
                  Some tr });
            (_, tr) \<leftarrow> sys K (Close (um_fd u)) tr;
            (_, tr) \<leftarrow> sys K (Free (um_addr u)) tr;
            Some ((0, False), tr) })"

section \<open>Resources of a UMEM\<close>

text \<open>The mapping of the completion ring failed.\<close>

fun is_cr_map :: "scall \<Rightarrow> bool" where
  "is_cr_map (Mmap _ _ pg) \<longleftrightarrow> pg = XDP_UMEM_PGOFF_COMPLETION_RING"
| "is_cr_map _ = False"

definition cr_failed :: "strace \<Rightarrow> bool" where
  "cr_failed tr \<longleftrightarrow> (\<exists>(c, rv, _) \<in> set tr. is_cr_map c \<and> rv < 0)"

lemma cr_failed_simps [simp]:
  "\<not> cr_failed []" "cr_failed ((c, rv, data) # tr) \<longleftrightarrow> is_cr_map c \<and> rv < 0 \<or> cr_failed tr"
  "cr_failed (tr @ tr') \<longleftrightarrow> cr_failed tr \<or> cr_failed tr'"
  by (auto simp: cr_failed_def)

lemma fill_is_no_cr [simp]: "XDP_UMEM_PGOFF_FILL_RING \<noteq> XDP_UMEM_PGOFF_COMPLETION_RING"
  by (simp add: XDP_UMEM_PGOFF_FILL_RING_def XDP_UMEM_PGOFF_COMPLETION_RING_def)

text \<open>What a UMEM holds: its block, its socket and the mappings of its two rings.\<close>

definition umem_held :: "int \<Rightarrow> int \<Rightarrow> xsk_umem_config \<Rightarrow> xdp_mmap_offsets \<Rightarrow> xsk_umem \<Rightarrow> resource multiset" where
  "umem_held m1 m2 cfg off u =
     {#Block (um_addr u), Fd (um_fd u), Mapping m1 (ring_len (off_fr off) (fill_size cfg) 8),
       Mapping m2 (ring_len (off_cr off) (comp_size cfg) 8)#}"

lemma wp_bind_mmap_offsets:
  assumes "\<And>e offs rv data. wp (f ((e, offs), tr @ [(Getsockopt fd SOL_XDP XDP_MMAP_OFFSETS 128, rv, data)])) Q"
  shows "wp (xsk_get_mmap_offsets K fd tr \<bind> f) Q"
  by (rule wp_bind) (auto simp: xsk_get_mmap_offsets_def intro!: wp_bind_sys assms)

lemma wp_bind_mmap:
  assumes "\<And>rv data. rv < 0 \<Longrightarrow> wp (f (MAP_FAILED, tr @ [(Mmap n fd pg, rv, data)])) Q"
    and "\<And>rv data. 0 \<le> rv \<Longrightarrow> wp (f (rv, tr @ [(Mmap n fd pg, rv, data)])) Q"
  shows "wp (sys_mmap K n fd pg tr \<bind> f) Q"
  by (rule wp_bind) (auto simp: sys_mmap_def intro!: wp_bind_sys assms)

lemma MAP_FAILED_neq: "0 \<le> m \<Longrightarrow> m \<noteq> MAP_FAILED"
  by (simp add: MAP_FAILED_def)

definition umem_post :: "resource multiset \<Rightarrow> strace \<Rightarrow> xsk_umem_config option \<Rightarrow> int \<Rightarrow> xsk_umem option \<Rightarrow> strace \<Rightarrow> bool" where
  "umem_post R tr usr err um tr' \<longleftrightarrow> (\<exists>new. tr' = tr @ new \<and>
     (case um of
        None \<Rightarrow> if cr_failed new
                then \<exists>m n. 0 \<le> m \<and> held R tr' = add_mset (Mapping m n) (held R tr) - {#Mapping MAP_FAILED n#}
                else held R tr' = held R tr
      | Some u \<Rightarrow> err = 0 \<and> (\<exists>m1 m2 off. held R tr' = umem_held m1 m2 (xsk_set_umem_config usr) off u + held R tr)))"

lemma umem_post_refl [simp]: "umem_post R tr usr err None tr"
  by (simp add: umem_post_def exI [of _ "[]"])

lemma umem_post_None [simp]:
  "umem_post R tr usr err None (tr @ new) \<longleftrightarrow>
     (if cr_failed new
      then \<exists>m n. 0 \<le> m \<and> held R (tr @ new) = add_mset (Mapping m n) (held R tr) - {#Mapping MAP_FAILED n#}
      else held R (tr @ new) = held R tr)"
  by (auto simp: umem_post_def)

lemma umem_post_Some [simp]:
  "umem_post R tr usr err (Some u) (tr @ new) \<longleftrightarrow>
     err = 0 \<and> (\<exists>m1 m2 off. held R (tr @ new) = umem_held m1 m2 (xsk_set_umem_config usr) off u + held R tr)"
  by (auto simp: umem_post_def)

lemma umem_map_rings_resources:
  assumes "held R (tr @ new) = add_mset (Fd fd) (add_mset (Block addr) (held R tr))" and "\<not> cr_failed new"
  shows "wp (umem_map_rings K addr fd area (xsk_set_umem_config usr) f c (tr @ new)) (\<lambda>(err, um, _, _). umem_post R tr usr err um)"
  unfolding umem_map_rings_def umem_out_socket_def umem_out_alloc_def
proof (rule wp_bind_mmap_offsets, unfold prod.case, goal_cases)
  case (1 e offs rv data)
  show ?case
  proof (cases offs)
    case None
    then show ?thesis using assms by (auto intro!: wp_bind_sys)
  next
    case (Some off)
    let ?n = "ring_len (off_fr off) (fill_size (xsk_set_umem_config usr)) 8"
    have leak: "\<exists>m\<ge>0. \<exists>n. add_mset (Mapping m1 ?n) (held R tr - {#Mapping MAP_FAILED ?n#}) =
        add_mset (Mapping m n) (held R tr) - {#Mapping MAP_FAILED n#}" if "0 \<le> m1" for m1
    proof -
      have "add_mset (Mapping m1 ?n) (held R tr - {#Mapping MAP_FAILED ?n#}) =
          add_mset (Mapping m1 ?n) (held R tr) - {#Mapping MAP_FAILED ?n#}"
        using MAP_FAILED_neq [OF that] by simp
      then show ?thesis using that by blast
    qed
    have ok: "\<exists>m1 m2 (off' :: xdp_mmap_offsets). {#Mapping a ?n, Mapping b (ring_len (off_cr off) (comp_size (xsk_set_umem_config usr)) 8)#} =
        {#Mapping m2 (ring_len (off_cr off') (comp_size (xsk_set_umem_config usr)) 8),
          Mapping m1 (ring_len (off_fr off') (fill_size (xsk_set_umem_config usr)) 8)#}" for a b
      using add_mset_commute [of "Mapping a ?n" "Mapping b (ring_len (off_cr off) (comp_size (xsk_set_umem_config usr)) 8)" "{#}"]
      by blast
    have neg: "\<not> 0 \<le> MAP_FAILED" by (simp add: MAP_FAILED_def)
    show ?thesis using Some assms neg
      by (auto intro!: wp_bind_sys wp_if wp_let wp_bind_mmap leak ok simp: MAP_FAILED_neq umem_held_def)
  qed
qed

lemma umem_create_resources:
  "wp (xsk_umem__create K umem_ptr area sz fill cmp usr tr) (\<lambda>(err, um, _, _). umem_post R tr usr err um)"
proof (cases "fill = None \<or> cmp = None")
  case True
  then show ?thesis by (auto simp: xsk_umem__create_def split: option.splits)
next
  case False
  then obtain f c where "fill = Some f" "cmp = Some c" by auto
  then show ?thesis
    unfolding xsk_umem__create_def umem_out_socket_def umem_out_alloc_def
    by (auto intro!: wp_bind_sys wp_if wp_let umem_map_rings_resources)
qed

section \<open>A complete UMEM\<close>

text \<open>The rings of a UMEM lie over two mappings of its socket.\<close>

definition umem_built :: "xsk_umem_config \<Rightarrow> xdp_mmap_offsets \<Rightarrow> ring_ptrs \<Rightarrow> ring_ptrs \<Rightarrow> int \<Rightarrow> int \<Rightarrow> xsk_umem \<Rightarrow> bool" where
  "umem_built cfg off f c m1 m2 u \<longleftrightarrow> 0 \<le> m1 \<and> 0 \<le> m2 \<and> um_config u = cfg \<and> um_refcount u = 0 \<and>
     um_fill u = (set_ring m1 (off_fr off) (fill_size cfg) f)\<lparr>rp_cached_cons := fill_size cfg\<rparr> \<and>
     um_comp u = set_ring m2 (off_cr off) (comp_size cfg) c"

text \<open>What the kernel documents: the offsets do not change, and addresses have 64 bits.\<close>

definition offsets_fixed :: "'k os_scheme \<Rightarrow> xdp_mmap_offsets \<Rightarrow> bool" where
  "offsets_fixed K off \<longleftrightarrow> (\<forall>fd tr. \<exists>data. xsk_get_mmap_offsets K fd tr =
     Some ((0, Some off), tr @ [(Getsockopt fd SOL_XDP XDP_MMAP_OFFSETS 128, 0, data)]))"

definition maps_64bit :: "'k os_scheme \<Rightarrow> bool" where
  "maps_64bit K \<longleftrightarrow> (\<forall>tr n fd pg. fst (os_reply K tr (Mmap n fd pg)) < 2 ^ 64)"

lemma wp_bind_offsets_fixed:
  assumes "offsets_fixed K off" and "\<And>data. wp (f ((0, Some off), tr @ [(Getsockopt fd SOL_XDP XDP_MMAP_OFFSETS 128, 0, data)])) Q"
  shows "wp (xsk_get_mmap_offsets K fd tr \<bind> f) Q"
  using assms unfolding offsets_fixed_def by (metis bind.bind_lunit)

lemma wp_bind_mmap_64bit:
  assumes "maps_64bit K"
    and "\<And>rv data. rv < 0 \<Longrightarrow> wp (f (MAP_FAILED, tr @ [(Mmap n fd pg, rv, data)])) Q"
    and "\<And>rv data. 0 \<le> rv \<Longrightarrow> rv < 2 ^ 64 \<Longrightarrow> wp (f (rv, tr @ [(Mmap n fd pg, rv, data)])) Q"
  shows "wp (sys_mmap K n fd pg tr \<bind> f) Q"
proof -
  obtain rv data where r: "os_reply K tr (Mmap n fd pg) = (rv, data)" by (cases "os_reply K tr (Mmap n fd pg)")
  then have "rv < 2 ^ 64" using assms(1) unfolding maps_64bit_def by (metis fst_conv)
  then show ?thesis using assms(2,3) by (cases "rv < 0") (auto simp: sys_mmap_def sys_def r)
qed

text \<open>A UMEM that was created is built and holds exactly its four resources.\<close>

definition umem_made ::
    "resource multiset \<Rightarrow> strace \<Rightarrow> xsk_umem_config \<Rightarrow> xdp_mmap_offsets \<Rightarrow> ring_ptrs \<Rightarrow> ring_ptrs \<Rightarrow> int \<times> xsk_umem option \<times> ring_ptrs option \<times> ring_ptrs option \<Rightarrow> strace \<Rightarrow> bool" where
  "umem_made R tr cfg off f c r tr' \<longleftrightarrow> (case r of (err, um, f', c') \<Rightarrow>
     \<forall>u. um = Some u \<longrightarrow> err = 0 \<and> f' = Some (um_fill u) \<and> c' = Some (um_comp u) \<and>
       (\<exists>m1 m2. m1 < 2 ^ 64 \<and> m2 < 2 ^ 64 \<and> umem_built cfg off f c m1 m2 u \<and> held R tr' = umem_held m1 m2 cfg off u + held R tr))"

lemma umem_made_None [simp]: "umem_made R tr cfg off f c (err, None, f', c') tr'"
  by (simp add: umem_made_def)

lemma umem_made_Some:
  assumes "0 \<le> m1" "m1 < 2 ^ 64" "0 \<le> m2" "m2 < 2 ^ 64"
    and "held R tr' = {#Block addr, Fd fd, Mapping m1 (ring_len (off_fr off) (fill_size cfg) 8),
       Mapping m2 (ring_len (off_cr off) (comp_size cfg) 8)#} + held R tr"
  shows "umem_made R tr cfg off f c (0, Some \<lparr>um_addr = addr,
       um_fill = (set_ring m1 (off_fr off) (fill_size cfg) f)\<lparr>rp_cached_cons := fill_size cfg\<rparr>,
       um_comp = set_ring m2 (off_cr off) (comp_size cfg) c, um_area = area, um_config = cfg, um_fd = fd, um_refcount = 0\<rparr>,
     Some ((set_ring m1 (off_fr off) (fill_size cfg) f)\<lparr>rp_cached_cons := fill_size cfg\<rparr>),
     Some (set_ring m2 (off_cr off) (comp_size cfg) c)) tr'"
  using assms by (auto simp: umem_made_def umem_built_def umem_held_def)

lemma umem_map_rings_made:
  assumes "offsets_fixed K off" and "maps_64bit K" and "held R tr1 = add_mset (Fd fd) (add_mset (Block addr) (held R tr))"
  shows "wp (umem_map_rings K addr fd area cfg f c tr1) (umem_made R tr cfg off f c)"
  unfolding umem_map_rings_def umem_out_socket_def umem_out_alloc_def
  by (rule wp_bind_offsets_fixed [OF assms(1)], unfold prod.case option.case,
      rule wp_bind_mmap_64bit [OF assms(2)])
    (auto intro!: wp_bind_sys wp_let wp_bind_mmap_64bit [OF assms(2)] umem_made_Some simp: MAP_FAILED_neq assms(3))

lemma umem_create_made:
  assumes "offsets_fixed K off" and "maps_64bit K"
  shows "wp (xsk_umem__create K umem_ptr area sz (Some f) (Some c) usr tr) (umem_made R tr (xsk_set_umem_config usr) off f c)"
  unfolding xsk_umem__create_def umem_out_socket_def umem_out_alloc_def
  by (auto intro!: wp_bind_sys wp_if wp_let umem_map_rings_made [OF assms])

lemma ring_base: "0 \<le> m \<Longrightarrow> m < 2 ^ 64 \<Longrightarrow> uint ((word_of_int m :: u64) + d - d) = m"
  by (simp add: uint_word_of_int)

lemma umem_delete_held:
  assumes "offsets_fixed K off" and "umem_built cfg off f c m1 m2 u" and "m1 < 2 ^ 64" and "m2 < 2 ^ 64"
  shows "wp (xsk_umem__delete K (Some u) tr) (\<lambda>r tr'. r = (0, False) \<and> held R tr' = held R tr - umem_held m1 m2 cfg off u)"
proof -
  have u: "um_refcount u = 0" "um_config u = cfg" "rp_ring (um_fill u) = word_of_int m1 + ro_desc (off_fr off)"
    "rp_ring (um_comp u) = word_of_int m2 + ro_desc (off_cr off)" "0 \<le> m1" "0 \<le> m2"
    using assms(2) by (auto simp: umem_built_def set_ring_def)
  have b: "uint (rp_ring (um_fill u) - ro_desc (off_fr off)) = m1" "uint (rp_ring (um_comp u) - ro_desc (off_cr off)) = m2"
    using u ring_base assms(3,4) by auto
  show ?thesis
    unfolding xsk_umem__delete_def option.case
    by (rule wp_if, simp add: u, rule wp_bind_offsets_fixed [OF assms(1)], unfold prod.case option.case b u(2))
      (auto simp: umem_held_def add_mset_commute intro!: wp_bind_sys)
qed

section \<open>Properties\<close>

text \<open>
  \<open>xsk_umem__create\<close> cleans up: whatever the kernel answers, it returns; a UMEM that is made adds its
  block, its socket and its two mappings to what the process holds; when none is made, the process holds the same descriptors, mappings and blocks as before, unless it was the mapping of the
  completion ring that failed; in that case the mapping of the fill ring stays, because \<open>munmap\<close> is called
  on \<open>MAP_FAILED\<close>.
\<close>

lemma xsk_umem__create_cleans_up:
  "\<exists>err um f c new. xsk_umem__create K umem_ptr area sz fill cmp usr tr = Some ((err, um, f, c), tr @ new) \<and>
     (case um of
        None \<Rightarrow> if cr_failed new
                then \<exists>m n. 0 \<le> m \<and> held R (tr @ new) = add_mset (Mapping m n) (held R tr) - {#Mapping MAP_FAILED n#}
                else held R (tr @ new) = held R tr
      | Some u \<Rightarrow> err = 0 \<and> (\<exists>m1 m2 off. held R (tr @ new) = umem_held m1 m2 (xsk_set_umem_config usr) off u + held R tr))"
proof -
  obtain err um f c tr' where "xsk_umem__create K umem_ptr area sz fill cmp usr tr = Some ((err, um, f, c), tr')"
    and "umem_post R tr usr err um tr'"
    using umem_create_resources [of K umem_ptr area sz fill cmp usr tr R] by (auto simp: wp_def)
  then show ?thesis unfolding umem_post_def by blast
qed

text \<open>
  C27: Creating a UMEM and deleting it gives everything back: the two mappings are found again from
  the ring pointers, and no descriptor, mapping or block is left.
\<close>

theorem xsk_umem__create_delete:
  assumes "offsets_fixed K off" and "maps_64bit K"
    and "xsk_umem__create K umem_ptr area sz (Some f) (Some c) usr tr = Some ((err, Some u, f', c'), tr1)"
  shows "\<exists>tr2. err = 0 \<and> xsk_umem__delete K (Some u) tr1 = Some ((0, False), tr2) \<and> held R tr2 = held R tr"
proof -
  obtain m1 m2 where m: "err = 0" "m1 < 2 ^ 64" "m2 < 2 ^ 64" "umem_built (xsk_set_umem_config usr) off f c m1 m2 u"
    "held R tr1 = umem_held m1 m2 (xsk_set_umem_config usr) off u + held R tr"
    using wp_result [OF umem_create_made [OF assms(1,2)] assms(3), of R] by (auto simp: umem_made_def)
  then show ?thesis
    using umem_delete_held [OF assms(1) m(4,2,3), of tr1 R] by (auto simp: wp_def)
qed

text \<open>A kernel on which every call succeeds.\<close>

definition ring_words :: bytes where
  "ring_words = le_put 8 0 @ le_put 8 64 @ le_put 8 320 @ le_put 8 128"

definition xsk_os :: os where
  "xsk_os = \<lparr>os_reply = (\<lambda>tr c. case c of
       Socket _ _ _ \<Rightarrow> (3, [])
     | Calloc _ \<Rightarrow> (4096, [])
     | Getsockopt _ _ _ _ \<Rightarrow> (0, ring_words @ ring_words @ ring_words @ ring_words)
     | Mmap _ _ pg \<Rightarrow> (if pg = XDP_UMEM_PGOFF_FILL_RING then 65536 else 131072, [])
     | _ \<Rightarrow> (0, [])), errno0 = 0, stack_bytes = [], page_size = 4096\<rparr>"

definition no_ring :: ring_ptrs where
  "no_ring = \<lparr>rp_cached_prod = 0, rp_cached_cons = 0, rp_mask = 0, rp_size = 0, rp_producer = 0, rp_consumer = 0,
     rp_ring = 0, rp_flags = 0\<rparr>"

lemma xsk_os_ok: "\<exists>off. offsets_fixed xsk_os off" "maps_64bit xsk_os"
  by (auto simp: offsets_fixed_def maps_64bit_def xsk_os_def xsk_get_mmap_offsets_def sys_def ring_words_def)

lemma xsk_os_create:
  "\<exists>u f c tr. xsk_umem__create xsk_os True 8192 4096 (Some no_ring) (Some no_ring) None [] = Some ((0, Some u, f, c), tr)"
  by (simp add: xsk_umem__create_def umem_map_rings_def xsk_get_mmap_offsets_def sys_mmap_def sys_def xsk_os_def ring_words_def
      Let_def MAP_FAILED_def XDP_UMEM_PGOFF_FILL_RING_def XDP_UMEM_PGOFF_COMPLETION_RING_def)

theorem xsk_umem__create_delete_witness:
  "\<exists>u f c tr1 tr2. xsk_umem__create xsk_os True 8192 4096 (Some no_ring) (Some no_ring) None [] = Some ((0, Some u, f, c), tr1) \<and>
     xsk_umem__delete xsk_os (Some u) tr1 = Some ((0, False), tr2) \<and> held {#} tr2 = {#}"
proof -
  obtain off where off: "offsets_fixed xsk_os off" using xsk_os_ok(1) by blast
  obtain u f c tr where cr: "xsk_umem__create xsk_os True 8192 4096 (Some no_ring) (Some no_ring) None [] = Some ((0, Some u, f, c), tr)"
    using xsk_os_create by blast
  from xsk_umem__create_delete [OF off xsk_os_ok(2) cr, of "{#}"] cr show ?thesis by auto
qed

text \<open>The ring a structure leads to, in a memory of words.\<close>

definition ring_view :: "(u64 \<Rightarrow> u32) \<Rightarrow> (u64 \<Rightarrow> u64) \<Rightarrow> ring_ptrs \<Rightarrow> u64 xsk_ring" where
  "ring_view m32 m64 r =
     \<lparr>cached_prod = rp_cached_prod r, cached_cons = rp_cached_cons r, ring_mask = rp_mask r, ring_size = rp_size r,
      producer = m32 (rp_producer r), consumer = m32 (rp_consumer r),
      ring = map (\<lambda>i. m64 (rp_ring r + 8 * word_of_nat i)) [0..<unat (rp_size r)]\<rparr>"

lemma ring_view_ready:
  fixes m32 :: "u64 \<Rightarrow> u32" and m64 :: "u64 \<Rightarrow> u64"
  assumes "umem_built (xsk_set_umem_config None) off f c m1 m2 u" and "rp_cached_prod f = 0"
  defines "q \<equiv> ring_view m32 m64 (um_fill u)"
  shows "ring_ok q" "length (ring q) = DEFAULT_NUM_DESCS" "cached_cons q - cached_prod q = word_of_nat DEFAULT_NUM_DESCS"
proof -
  have f: "rp_size (um_fill u) = 2048" "rp_mask (um_fill u) = 2047" "rp_cached_cons (um_fill u) = 2048" "rp_cached_prod (um_fill u) = 0"
    using assms(1,2) by (simp_all add: umem_built_def set_ring_def xsk_set_umem_config_def)
  have "(2047 :: u32) = mask 11" by (simp add: mask_eq_exp_minus_1)
  then show "ring_ok q" by (auto simp: q_def ring_ok_def ring_view_def f intro!: exI [of _ 11])
  show "length (ring q) = DEFAULT_NUM_DESCS" by (simp add: q_def ring_view_def f DEFAULT_NUM_DESCS_def)
  show "cached_cons q - cached_prod q = word_of_nat DEFAULT_NUM_DESCS"
    by (simp add: q_def ring_view_def f DEFAULT_NUM_DESCS_def)
qed

text \<open>
  C11: The UMEM feeds the socket: the fill ring that \<open>xsk_umem__create\<close> leaves for the default
  configuration, over a zeroed ring structure and whatever the mapped memory holds, is one that
  \<open>xsk_configure_socket\<close> can fill. It then owns 2048 distinct frames, the allocator all others, and no
  frame of the area is lost or in both.
\<close>

theorem umem_feeds_socket:
  assumes "offsets_fixed K off" and "maps_64bit K" and "rp_cached_prod f = 0"
    and "xsk_umem__create K True area sz (Some f) (Some c) None tr = Some ((err, Some u, f', c'), tr1)"
  shows "err = 0 \<and> f' = Some (um_fill u) \<and>
    (\<exists>x fq'. xsk_configure_socket True 0 0 (ring_view m32 m64 (um_fill u)) = Inr (x, fq') \<and> xsk_pool x \<and>
       producer fq' = m32 (rp_producer (um_fill u)) + word_of_nat DEFAULT_NUM_DESCS \<and>
       length (xsk_free_list x) = NUM_FRAMES - DEFAULT_NUM_DESCS \<and> distinct (ring fq') \<and> set (ring fq') \<inter> set (xsk_free_list x) = {} \<and>
       set (ring fq') \<union> set (xsk_free_list x) = (\<lambda>i. word_of_nat (i * FRAME_SIZE)) ` {..<NUM_FRAMES})"
proof -
  obtain m1 m2 where m: "err = 0" "f' = Some (um_fill u)" "umem_built (xsk_set_umem_config None) off f c m1 m2 u"
    using wp_result [OF umem_create_made [OF assms(1,2)] assms(4), of "{#}"] by (auto simp: umem_made_def)
  have "producer (ring_view m32 m64 (um_fill u)) = m32 (rp_producer (um_fill u))" by (simp add: ring_view_def)
  with xsk_configure_socket_frames [OF ring_view_ready [OF m(3) assms(3)], of m32 m64] m(1,2) show ?thesis by (simp only:)
qed

theorem umem_feeds_socket_witness:
  "\<exists>(u :: xsk_umem) x fq'. xsk_configure_socket True 0 0 (ring_view (\<lambda>_. 0) (\<lambda>_. 0) (um_fill u)) = Inr (x, fq') \<and>
     xsk_pool x \<and> distinct (ring fq')"
proof -
  obtain off where off: "offsets_fixed xsk_os off" using xsk_os_ok(1) by blast
  obtain u f c tr where cr: "xsk_umem__create xsk_os True 8192 4096 (Some no_ring) (Some no_ring) None [] = Some ((0, Some u, f, c), tr)"
    using xsk_os_create by blast
  have "rp_cached_prod no_ring = 0" by (simp add: no_ring_def)
  from umem_feeds_socket [OF off xsk_os_ok(2) this cr, of "\<lambda>_. 0" "\<lambda>_. 0"] show ?thesis by blast
qed

text \<open>
  The result is 0 without a UMEM when the kernel reports offsets of a length the library does not know:
  the error of \<open>xsk_get_mmap_offsets\<close> is replaced by \<open>errno\<close>, which that call did not set.
\<close>

lemma umem_create_false_success:
  assumes "os_reply K tr (Getsockopt fd SOL_XDP XDP_MMAP_OFFSETS 128) = (0, data)" and "length data \<notin> {96, 128}" and "errno_of K tr = 0"
  shows "\<exists>tr'. umem_map_rings K addr fd area cfg f c tr = Some ((0, None, Some f, Some c), tr')"
  using assms by (auto simp: umem_map_rings_def xsk_get_mmap_offsets_def sys_def umem_out_socket_def umem_out_alloc_def split: prod.splits)

end
