(* ===== verification/Libbpf_Link.thy ===== *)
theory Libbpf_Link
  imports Libbpf_Netlink
begin

text \<open>
  What the netlink client of libbpf computes when the kernel answers as documented: requests decode to
  what was asked for, and a dump of the links, in any number of datagrams, gives the identifier of the
  program attached to the interface. The contract between the receive loop and the callbacks it is given
  is a locale, interpreted on the link callback.
\<close>

section \<open>Messages\<close>

definition nlmsg :: "nat \<Rightarrow> nat \<Rightarrow> nat \<Rightarrow> nat \<Rightarrow> bytes \<Rightarrow> bytes" where
  "nlmsg ty flags seq pid body =
     le_put 4 (NLMSG_HDRLEN + length body) @ le_put 2 ty @ le_put 2 flags @ le_put 4 seq @ le_put 4 pid @ body @
     replicate (nla_pad (NLMSG_HDRLEN + length body)) 0"

lemma length_nlmsg: "length (nlmsg ty flags seq pid body) = nat (NLA_ALIGN (int (NLMSG_HDRLEN + length body)))"
  using NLA_ALIGN_bounds(1) [of "int (NLMSG_HDRLEN + length body)"]
  by (auto simp: nlmsg_def nla_pad_def NLMSG_HDRLEN_def)

lemma length_nlmsg_ge: "NLMSG_HDRLEN + length body \<le> length (nlmsg ty flags seq pid body)"
  using NLA_ALIGN_bounds(1) [of "int (NLMSG_HDRLEN + length body)"] by (simp add: length_nlmsg)

lemma length_nlmsg_pos: "0 < length (nlmsg ty flags seq pid body)"
  using length_nlmsg_ge [of body ty flags seq pid] unfolding NLMSG_HDRLEN_def by linarith

lemma nlmsg_fields:
  fixes pre post :: bytes
  assumes "ty < 2 ^ 16" and "flags < 2 ^ 16" and "seq < 2 ^ 32" and "pid < 2 ^ 32" and "NLMSG_HDRLEN + length body < 2 ^ 32"
  defines "p \<equiv> pre @ nlmsg ty flags seq pid body @ post"
  shows "ld (length pre) 4 p = Some (NLMSG_HDRLEN + length body)"
    and "ld (length pre + 4) 2 p = Some ty"
    and "ld (length pre + 6) 2 p = Some flags"
    and "ld (length pre + 8) 4 p = Some seq"
    and "ld (length pre + 12) 4 p = Some pid"
    and "seg (length pre + NLMSG_HDRLEN) (length body) p = body"
proof -
  have b: "ty < 65536" "flags < 65536" "seq < 4294967296" "pid < 4294967296" "NLMSG_HDRLEN + length body < 4294967296"
    using assms(1-5) by simp_all
  show "ld (length pre) 4 p = Some (NLMSG_HDRLEN + length body)"
    "ld (length pre + 4) 2 p = Some ty" "ld (length pre + 6) 2 p = Some flags"
    "ld (length pre + 8) 4 p = Some seq" "ld (length pre + 12) 4 p = Some pid"
    using b by (simp_all add: p_def nlmsg_def ld_append_skip ld_append_put)
  show "seg (length pre + NLMSG_HDRLEN) (length body) p = body"
    by (simp add: p_def nlmsg_def seg_def NLMSG_HDRLEN_def)
qed

text \<open>One turn of the loop over the messages of a datagram.\<close>

lemma nl_messages_step:
  fixes pre post :: bytes
  assumes "ty < 2 ^ 16" and "flags < 2 ^ 16" and "seq < 2 ^ 32" and "pid < 2 ^ 32" and "NLMSG_HDRLEN + length body < 2 ^ 31"
    and "0 \<le> r"
  defines "p \<equiv> pre @ nlmsg ty flags seq pid body @ post" and "n \<equiv> length (nlmsg ty flags seq pid body)"
  shows "nl_messages p nl_pid sq fn (length pre) (int n + r) mp c =
    (case nl_message p nl_pid sq fn (length pre) mp c of
       None \<Rightarrow> None
     | Some (NlReturn ret, c') \<Rightarrow> Some (NlReturn ret, c')
     | Some (NlGoOn mp', c') \<Rightarrow> nl_messages p nl_pid sq fn (length pre + n) r mp' c')"
proof -
  have l: "ld (length pre) 4 p = Some (NLMSG_HDRLEN + length body)"
    unfolding p_def using nlmsg_fields(1) assms(1-5) by simp
  have n: "NLMSG_HDRLEN + length body \<le> n" "NLA_ALIGN (int (NLMSG_HDRLEN + length body)) = int n"
    using length_nlmsg_ge length_nlmsg NLA_ALIGN_bounds(1) [of "int (NLMSG_HDRLEN + length body)"] by (simp_all add: n_def)
  have "NLMSG_OK p (length pre) (int n + r) = Some True"
    unfolding NLMSG_OK_def l using n(1) assms(6) by (simp add: NLMSG_HDRLEN_def)
  moreover have "NLMSG_NEXT p (length pre) (int n + r) = Some (length pre + n, r)"
    unfolding NLMSG_NEXT_def l using n(2) by (simp add: Let_def)
  ultimately show ?thesis by (subst nl_messages.simps) simp
qed

lemma nl_messages_end: "r < 16 \<Longrightarrow> nl_messages p nl_pid sq fn nh r mp c = Some (NlGoOn mp, c)"
  by (subst nl_messages.simps) (simp add: NLMSG_OK_def)

section \<open>The contract of a dump callback\<close>

text \<open>
  A callback handles messages of one type whose bodies describe \<open>'m\<close>: wherever such a message stands in the
  buffer, it returns 0 and updates the cookie by \<open>step\<close>.
\<close>

locale dump_handler =
  fixes fn :: "bytes \<Rightarrow> nat \<Rightarrow> 'c \<Rightarrow> (int \<times> 'c) option"
    and body :: "'m \<Rightarrow> bytes"
    and ok :: "'m \<Rightarrow> bool"
    and step :: "'m \<Rightarrow> 'c \<Rightarrow> 'c"
    and mtype :: nat
  assumes handles: "ok m \<Longrightarrow> seq < 2 ^ 32 \<Longrightarrow> pid < 2 ^ 32 \<Longrightarrow>
      fn (pre @ nlmsg mtype NLM_F_MULTI seq pid (body m) @ post) (length pre) c = Some (0, step m c)"
    and mtype: "mtype < 2 ^ 16" "mtype \<noteq> NLMSG_ERROR" "mtype \<noteq> NLMSG_DONE"
    and body_small: "ok m \<Longrightarrow> NLMSG_HDRLEN + length (body m) < 2 ^ 31"
begin

definition part :: "nat \<Rightarrow> nat \<Rightarrow> 'm list \<Rightarrow> bytes" where
  "part seq pid ms = concat (map (\<lambda>m. nlmsg mtype NLM_F_MULTI seq pid (body m)) ms)"

lemma message_handled:
  assumes "ok m" and "seq < 2 ^ 32" and "pid < 2 ^ 32"
  shows "nl_message (pre @ nlmsg mtype NLM_F_MULTI seq pid (body m) @ post) pid seq (Some fn) (length pre) mp c =
    Some (NlGoOn True, step m c)"
proof -
  have "NLMSG_HDRLEN + length (body m) < 2 ^ 32" using body_small [OF assms(1)] by simp
  from nlmsg_fields(2-5) [OF mtype(1) _ assms(2,3) this, of NLM_F_MULTI pre post]
  show ?thesis using handles [OF assms] mtype(2,3) by (simp add: nl_message_def NLM_F_MULTI_def Let_def)
qed

lemma messages_handled:
  assumes "\<forall>m \<in> set ms. ok m" and "seq < 2 ^ 32" and "pid < 2 ^ 32" and "0 \<le> r"
  shows "nl_messages (pre @ part seq pid ms @ post) pid seq (Some fn) (length pre) (int (length (part seq pid ms)) + r) mp c =
    nl_messages (pre @ part seq pid ms @ post) pid seq (Some fn) (length pre + length (part seq pid ms)) r
      (mp \<or> ms \<noteq> []) (fold step ms c)"
  using assms(1)
proof (induction ms arbitrary: pre mp c)
  case Nil
  then show ?case by (simp add: part_def)
next
  case (Cons m ms)
  let ?h = "nlmsg mtype NLM_F_MULTI seq pid (body m)"
  have p: "pre @ part seq pid (m # ms) @ post = pre @ ?h @ part seq pid ms @ post"
    "pre @ part seq pid (m # ms) @ post = (pre @ ?h) @ part seq pid ms @ post"
    and n: "length (part seq pid (m # ms)) = length ?h + length (part seq pid ms)"
    by (simp_all add: part_def)
  have m: "ok m" "NLMSG_HDRLEN + length (body m) < 2 ^ 31" "NLM_F_MULTI < 2 ^ 16"
    using Cons.prems body_small by (simp_all add: NLM_F_MULTI_def)
  have "nl_messages (pre @ part seq pid (m # ms) @ post) pid seq (Some fn) (length pre)
      (int (length ?h) + (int (length (part seq pid ms)) + r)) mp c =
    nl_messages (pre @ part seq pid (m # ms) @ post) pid seq (Some fn) (length pre + length ?h)
      (int (length (part seq pid ms)) + r) True (step m c)"
    unfolding p(1) using assms(4)
    by (subst nl_messages_step [OF mtype(1) m(3) assms(2,3) m(2)]) (simp_all add: message_handled [OF m(1) assms(2,3)])
  also have "\<dots> = nl_messages (pre @ part seq pid (m # ms) @ post) pid seq (Some fn)
      (length pre + length (part seq pid (m # ms))) r True (fold step (m # ms) c)"
    unfolding p(2) using Cons.IH [of "pre @ ?h" True "step m c"] Cons.prems n by (simp add: add.assoc)
  finally show ?case using n by (simp add: add.assoc)
qed

text \<open>The last message of a dump ends the loop, whatever follows it.\<close>

lemma last_part:
  assumes "\<forall>m \<in> set ms. ok m" and "seq < 2 ^ 32" and "pid < 2 ^ 32" and "length info < 2 ^ 31 - 16"
  defines "d \<equiv> part seq pid ms @ nlmsg NLMSG_DONE NLM_F_MULTI seq pid info"
  shows "nl_messages (d @ post) pid seq (Some fn) 0 (int (length d)) mp c = Some (NlReturn 0, fold step ms c)"
proof -
  let ?e = "nlmsg NLMSG_DONE NLM_F_MULTI seq pid info"
  have b: "NLMSG_DONE < 2 ^ 16" "NLM_F_MULTI < 2 ^ 16" "NLMSG_HDRLEN + length info < 2 ^ 31" "NLMSG_HDRLEN + length info < 2 ^ 32"
    using assms(4) by (simp_all add: NLMSG_DONE_def NLM_F_MULTI_def NLMSG_HDRLEN_def)
  have "nl_message (part seq pid ms @ ?e @ post) pid seq (Some fn) (length (part seq pid ms)) mp' c' = Some (NlReturn 0, c')"
    for mp' c'
    using nlmsg_fields(2-5) [OF b(1,2) assms(2,3) b(4), of "part seq pid ms" post]
    by (simp add: nl_message_def NLMSG_DONE_def NLMSG_ERROR_def NLM_F_MULTI_def Let_def)
  then have "nl_messages (part seq pid ms @ ?e @ post) pid seq (Some fn) (length (part seq pid ms)) (int (length ?e) + 0) mp' c' =
      Some (NlReturn 0, c')" for mp' c'
    by (subst nl_messages_step [OF b(1,2) assms(2,3) b(3)]) simp_all
  then show ?thesis
    using messages_handled [OF assms(1-3), of "int (length ?e)" "[]" "?e @ post" mp c] by (simp add: d_def)
qed

lemma middle_part:
  assumes "\<forall>m \<in> set ms. ok m" and "seq < 2 ^ 32" and "pid < 2 ^ 32" and "ms \<noteq> []"
  shows "nl_messages (part seq pid ms @ post) pid seq (Some fn) 0 (int (length (part seq pid ms))) mp c =
    Some (NlGoOn True, fold step ms c)"
  using messages_handled [OF assms(1-3), of 0 "[]" post mp c] assms(4) by (simp add: nl_messages_end)

lemma part_nonempty: "ms \<noteq> [] \<Longrightarrow> 0 < length (part seq pid ms)"
  using length_nlmsg_pos [of mtype NLM_F_MULTI seq pid] by (cases ms) (simp_all add: part_def)

end

text \<open>The kernel answers the next calls of \<open>recv\<close> with the given datagrams.\<close>

fun serves :: "'k os_scheme \<Rightarrow> int \<Rightarrow> bytes list \<Rightarrow> strace \<Rightarrow> bool" where
  "serves K sock [] tr = True"
| "serves K sock (d # ds) tr \<longleftrightarrow>
     os_reply K tr (Recv sock BUF_SIZE) = (int (length d), d) \<and>
     serves K sock ds (tr @ [(Recv sock BUF_SIZE, int (length d), d)])"

definition received :: "int \<Rightarrow> bytes list \<Rightarrow> strace" where
  "received sock ds = map (\<lambda>d. (Recv sock BUF_SIZE, int (length d), d)) ds"

context dump_handler
begin

definition dump :: "nat \<Rightarrow> nat \<Rightarrow> 'm list list \<Rightarrow> 'm list \<Rightarrow> bytes \<Rightarrow> bytes list" where
  "dump seq pid parts ms info =
     map (part seq pid) parts @ [part seq pid ms @ nlmsg NLMSG_DONE NLM_F_MULTI seq pid info]"

text \<open>A dump in any number of datagrams is received to its end and every message is handled in order.\<close>

lemma dump_received:
  assumes "\<forall>ms' \<in> set parts. ms' \<noteq> []" and "\<forall>m \<in> set (concat parts @ ms). ok m"
    and "seq < 2 ^ 32" and "pid < 2 ^ 32" and "length info < 2 ^ 31 - 16"
    and "serves K sock (dump seq pid parts ms info) tr"
  shows "netlink_recv K sock pid seq (Some fn) buf c tr =
    Some ((0, fold step (concat parts @ ms) c), tr @ received sock (dump seq pid parts ms info))"
  using assms(1,2,6)
proof (induction parts arbitrary: buf c tr)
  case Nil
  define d where "d = part seq pid ms @ nlmsg NLMSG_DONE NLM_F_MULTI seq pid info"
  have "length d \<noteq> 0" using length_nlmsg_pos [of NLMSG_DONE NLM_F_MULTI seq pid info] by (simp add: d_def)
  moreover have "nl_messages (d @ drop (length d) buf) pid seq (Some fn) 0 (int (length d)) False c =
      Some (NlReturn 0, fold step ms c)"
    unfolding d_def using Nil.prems(2) assms(3-5) by (intro last_part) simp_all
  moreover have "dump seq pid [] ms info = [d]" by (simp add: dump_def d_def)
  ultimately show ?case using Nil.prems(3)
    by (subst netlink_recv.simps) (simp add: sys_def received_def Let_def)
next
  case (Cons ms' parts)
  let ?d = "part seq pid ms'"
  let ?buf = "?d @ drop (length ?d) buf" and ?tr = "tr @ [(Recv sock BUF_SIZE, int (length ?d), ?d)]"
  have "length ?d \<noteq> 0" using Cons.prems(1) part_nonempty [of ms' seq pid] by simp
  moreover have "nl_messages ?buf pid seq (Some fn) 0 (int (length ?d)) False c = Some (NlGoOn True, fold step ms' c)"
    using Cons.prems(1,2) assms(3,4) by (intro middle_part) simp_all
  moreover have "netlink_recv K sock pid seq (Some fn) ?buf (fold step ms' c) ?tr =
      Some ((0, fold step (concat parts @ ms) (fold step ms' c)), ?tr @ received sock (dump seq pid parts ms info))"
    using Cons.prems by (intro Cons.IH) (auto simp: dump_def)
  ultimately show ?case using Cons.prems(3)
    by (subst netlink_recv.simps) (simp add: sys_def dump_def received_def Let_def)
qed

end

section \<open>The dump of the links\<close>

text \<open>
  A link as the kernel describes it: \<open>struct ifinfomsg\<close> with the index between four and eight other
  bytes, attributes, and among them possibly a nested \<open>IFLA_XDP\<close>.
\<close>

record link_entry =
  link_head :: bytes
  link_index :: u32
  link_tail :: bytes
  link_attrs :: "(nat \<times> bytes) list"
  link_xdp :: "(nat \<times> bytes) list option"

definition link_body :: "link_entry \<Rightarrow> bytes" where
  "link_body l = link_head l @ le_put 4 (unat (link_index l)) @ link_tail l @ nla_stream (link_attrs l)"

definition xdp_ok :: "(nat \<times> bytes) list \<Rightarrow> bool" where
  "xdp_ok xs \<longleftrightarrow> (\<forall>a \<in> set xs. attr_ok a) \<and> length (nla_stream xs) < 2 ^ 16 \<and>
     (\<forall>d. attr_find xs IFLA_XDP_ATTACHED = Some d \<longrightarrow> length d = 1) \<and>
     (\<forall>ty \<in> {IFLA_XDP_PROG_ID, IFLA_XDP_SKB_PROG_ID, IFLA_XDP_DRV_PROG_ID, IFLA_XDP_HW_PROG_ID}.
        \<forall>d. attr_find xs ty = Some d \<longrightarrow> length d = 4)"

definition link_ok :: "link_entry \<Rightarrow> bool" where
  "link_ok l \<longleftrightarrow> length (link_head l) = 4 \<and> length (link_tail l) = 8 \<and>
     (\<forall>a \<in> set (link_attrs l). attr_ok a) \<and> length (nla_stream (link_attrs l)) < 2 ^ 20 \<and>
     attr_find (link_attrs l) IFLA_XDP = map_option nla_stream (link_xdp l) \<and>
     (\<forall>xs. link_xdp l = Some xs \<longrightarrow> xdp_ok xs)"

definition find_u32 :: "(nat \<times> bytes) list \<Rightarrow> nat \<Rightarrow> nat \<Rightarrow> nat" where
  "find_u32 xs ty old = (case attr_find xs ty of None \<Rightarrow> old | Some d \<Rightarrow> le_get d)"

text \<open>What the nested attribute says.\<close>

definition xdp_step :: "(nat \<times> bytes) list \<Rightarrow> xdp_link_info \<Rightarrow> xdp_link_info" where
  "xdp_step xs i =
     (case attr_find xs IFLA_XDP_ATTACHED of
        None \<Rightarrow> i
      | Some d \<Rightarrow>
          if le_get d = XDP_ATTACHED_NONE then i\<lparr>attach_mode := le_get d\<rparr>
          else i\<lparr>attach_mode := le_get d,
                 prog_id := find_u32 xs IFLA_XDP_PROG_ID (prog_id i),
                 skb_prog_id := find_u32 xs IFLA_XDP_SKB_PROG_ID (skb_prog_id i),
                 drv_prog_id := find_u32 xs IFLA_XDP_DRV_PROG_ID (drv_prog_id i),
                 hw_prog_id := find_u32 xs IFLA_XDP_HW_PROG_ID (hw_prog_id i)\<rparr>)"

definition link_step :: "link_entry \<Rightarrow> xdp_id_md \<Rightarrow> xdp_id_md" where
  "link_step l md =
     (if md_ifindex md \<noteq> 0 \<and> md_ifindex md \<noteq> sint (link_index l) then md
      else (case link_xdp l of None \<Rightarrow> md | Some xs \<Rightarrow> md\<lparr>md_info := xdp_step xs (md_info md)\<rparr>))"

lemma attr_u32_finds:
  assumes "index_finds p maxtype tb (attr_find xs)" and "ty \<le> maxtype"
    and "\<forall>d. attr_find xs ty = Some d \<longrightarrow> length d = 4"
  shows "attr_u32 p tb ty old = Some (find_u32 xs ty old)"
  using assms getattr_of_seg(1) by (fastforce simp: index_finds_def attr_u32_def find_u32_def split: option.splits)

lemma attr_u8_finds:
  assumes "index_finds p maxtype tb (attr_find xs)" and "ty \<le> maxtype"
    and "\<forall>d. attr_find xs ty = Some d \<longrightarrow> length d = 1"
  shows "case attr_find xs ty of
      None \<Rightarrow> tb ! ty = None
    | Some d \<Rightarrow> (\<exists>nla. tb ! ty = Some nla \<and> libbpf_nla_getattr_u8 p nla = Some (le_get d))"
  using assms getattr_of_seg(2) by (fastforce simp: index_finds_def split: option.splits)

lemma get_xdp_info_finds:
  assumes "ld (ifi + 4) 4 p = Some (unat (link_index l))" and "link_ok l" and "index_finds p IFLA_MAX tb (attr_find (link_attrs l))"
  shows "get_xdp_info p md ifi tb = Some (0, link_step l md)"
proof (cases "md_ifindex md \<noteq> 0 \<and> md_ifindex md \<noteq> sint (link_index l)")
  case True
  then show ?thesis by (simp add: get_xdp_info_def link_step_def assms(1))
next
  case skip: False
  have xdp: "case map_option nla_stream (link_xdp l) of
      None \<Rightarrow> tb ! IFLA_XDP = None
    | Some d \<Rightarrow> (\<exists>nla. tb ! IFLA_XDP = Some nla \<and> libbpf_nla_len p nla = Some (int (length d)) \<and>
                     seg (libbpf_nla_data nla) (length d) p = d)"
  proof -
    have "IFLA_XDP \<le> IFLA_MAX" by (simp add: IFLA_MAX_def IFLA_XDP_def)
    moreover have f: "attr_find (link_attrs l) IFLA_XDP = map_option nla_stream (link_xdp l)"
      using assms(2) by (simp add: link_ok_def)
    ultimately show ?thesis
      using assms(3) [unfolded index_finds_def, rule_format, of IFLA_XDP] unfolding f by (simp only:)
  qed
  show ?thesis
  proof (cases "link_xdp l")
    case None
    then show ?thesis using skip xdp by (auto simp: get_xdp_info_def link_step_def assms(1))
  next
    case (Some xs)
    then have ok: "xdp_ok xs" using assms(2) by (simp add: link_ok_def)
    obtain nla where nla: "tb ! IFLA_XDP = Some nla" "libbpf_nla_len p nla = Some (int (length (nla_stream xs)))"
      "seg (libbpf_nla_data nla) (length (nla_stream xs)) p = nla_stream xs"
      using xdp Some by auto
    obtain xtb where x: "libbpf_nla_parse_nested p IFLA_XDP_MAX nla None = Some (0, xtb)"
      "index_finds p IFLA_XDP_MAX xtb (attr_find xs)"
      using libbpf_nla_parse_nested_finds [OF _ _ nla(2,3)] ok by (force simp: xdp_ok_def)
    have u: "attr_u32 p xtb ty old = Some (find_u32 xs ty old)"
      if "ty \<in> {IFLA_XDP_PROG_ID, IFLA_XDP_SKB_PROG_ID, IFLA_XDP_DRV_PROG_ID, IFLA_XDP_HW_PROG_ID}" for ty old
      using that ok
      by (intro attr_u32_finds [OF x(2)])
        (auto simp: xdp_ok_def IFLA_XDP_MAX_def IFLA_XDP_PROG_ID_def IFLA_XDP_SKB_PROG_ID_def IFLA_XDP_DRV_PROG_ID_def IFLA_XDP_HW_PROG_ID_def)
    have att: "case attr_find xs IFLA_XDP_ATTACHED of
        None \<Rightarrow> xtb ! IFLA_XDP_ATTACHED = None
      | Some d \<Rightarrow> (\<exists>nla. xtb ! IFLA_XDP_ATTACHED = Some nla \<and> libbpf_nla_getattr_u8 p nla = Some (le_get d))"
      by (rule attr_u8_finds [OF x(2)]) (use ok in \<open>simp_all add: xdp_ok_def IFLA_XDP_MAX_def IFLA_XDP_ATTACHED_def\<close>)
    show ?thesis
    proof (cases "attr_find xs IFLA_XDP_ATTACHED")
      case None
      then show ?thesis using att skip Some nla(1) x(1)
        by (simp add: get_xdp_info_def link_step_def assms(1) xdp_step_def)
    next
      case (Some d)
      then obtain att where "xtb ! IFLA_XDP_ATTACHED = Some att" "libbpf_nla_getattr_u8 p att = Some (le_get d)"
        using att by auto
      then show ?thesis using Some skip \<open>link_xdp l = Some xs\<close> nla(1) x(1) u
        by (auto simp: get_xdp_info_def link_step_def assms(1) xdp_step_def Let_def)
    qed
  qed
qed

lemma link_message_handled:
  assumes "link_ok l" and "seq < 2 ^ 32" and "pid < 2 ^ 32" and "ty < 2 ^ 16"
  shows "dump_link_nlmsg get_xdp_info (pre @ nlmsg ty NLM_F_MULTI seq pid (link_body l) @ post) (length pre) md =
    Some (0, link_step l md)"
proof -
  let ?p = "pre @ nlmsg ty NLM_F_MULTI seq pid (link_body l) @ post" and ?s = "nla_stream (link_attrs l)"
  have s: "length ?s < 2 ^ 20" "\<forall>a \<in> set (link_attrs l). attr_ok a" and hd: "length (link_head l) = 4" "length (link_tail l) = 8"
    using assms(1) by (simp_all add: link_ok_def)
  have len: "length (link_body l) = 16 + length ?s" using hd by (simp add: link_body_def)
  have b: "NLMSG_HDRLEN + length (link_body l) < 2 ^ 32" "NLM_F_MULTI < 2 ^ 16"
    using s(1) by (simp_all add: len NLMSG_HDRLEN_def NLM_F_MULTI_def)
  note f = nlmsg_fields(1,6) [OF assms(4) b(2) assms(2,3) b(1), of pre post]
  have at: "seg (length pre + NLMSG_HDRLEN + o') w ?p = seg o' w (link_body l)" if "o' + w \<le> length (link_body l)" for o' w
    using seg_seg [OF that, of "length pre + NLMSG_HDRLEN" ?p] f(2) by simp
  have "seg (length pre + NLMSG_HDRLEN + 4) 4 ?p = le_put 4 (unat (link_index l))"
    using at [of 4 4] hd by (simp add: len link_body_def seg_def)
  moreover have "unat (link_index l) < 4294967296" using unsigned_less [of "link_index l", where 'a = nat] by simp
  ultimately have ix: "ld (length pre + NLMSG_HDRLEN + 4) 4 ?p = Some (unat (link_index l))"
    using seg_full_bound [of "length pre + NLMSG_HDRLEN + 4" 4 ?p] by (simp add: ld_seg le_get_le_put)
  have st: "seg (length pre + NLMSG_HDRLEN + 16) (length ?s) ?p = ?s"
    using at [of 16 "length ?s"] hd by (simp add: len link_body_def seg_def)
  obtain tb where tb: "libbpf_nla_parse ?p IFLA_MAX (length pre + NLMSG_HDRLEN + 16) (int (length ?s)) None = Some (0, tb)"
    "index_finds ?p IFLA_MAX tb (attr_find (link_attrs l))"
    using libbpf_nla_parse_finds [OF s(2) _ st] s(1) by force
  have "(word_of_nat (NLMSG_HDRLEN + length (link_body l)) - word_of_nat (NLMSG_HDRLEN + 16) :: u32) = word_of_int (int (length ?s))"
    by (simp add: len)
  then have "sint (word_of_nat (NLMSG_HDRLEN + length (link_body l)) - word_of_nat (NLMSG_HDRLEN + 16) :: u32) = int (length ?s)"
    using s(1) by (simp only: int_word_sint) simp
  then show ?thesis
    using get_xdp_info_finds [OF ix assms(1) tb(2)] tb(1) by (simp only: dump_link_nlmsg_def f(1) Let_def bind.simps) simp
qed

definition RTM_NEWLINK :: nat where "RTM_NEWLINK = 16"

interpretation links: dump_handler "dump_link_nlmsg get_xdp_info" link_body link_ok link_step RTM_NEWLINK
proof
  fix l assume "link_ok l"
  then show "NLMSG_HDRLEN + length (link_body l) < 2 ^ 31"
    by (auto simp: link_ok_def link_body_def NLMSG_HDRLEN_def)
qed (auto simp: RTM_NEWLINK_def NLMSG_ERROR_def NLMSG_DONE_def intro!: link_message_handled)

section \<open>Properties\<close>

text \<open>The identifier a link reports for a mode, written out.\<close>

definition link_prog_id :: "u32 \<Rightarrow> link_entry \<Rightarrow> nat" where
  "link_prog_id flags l =
     (case link_xdp l of
        None \<Rightarrow> 0
      | Some xs \<Rightarrow>
          (case attr_find xs IFLA_XDP_ATTACHED of
             None \<Rightarrow> 0
           | Some d \<Rightarrow>
               if le_get d = XDP_ATTACHED_NONE then 0
               else if le_get d \<noteq> XDP_ATTACHED_MULTI then find_u32 xs IFLA_XDP_PROG_ID 0
               else if flags AND XDP_FLAGS_DRV_MODE \<noteq> 0 then find_u32 xs IFLA_XDP_DRV_PROG_ID 0
               else if flags AND XDP_FLAGS_HW_MODE \<noteq> 0 then find_u32 xs IFLA_XDP_HW_PROG_ID 0
               else if flags AND XDP_FLAGS_SKB_MODE \<noteq> 0 then find_u32 xs IFLA_XDP_SKB_PROG_ID 0
               else 0))"

text \<open>The flags with at most one mode.\<close>

definition one_mode :: "u32 \<Rightarrow> bool" where
  "one_mode flags \<longleftrightarrow> flags \<in> {0, 1, 2, 3, 4, 5, 8, 9}"

lemma find_u32_less:
  assumes "xdp_ok xs" and "ty \<in> {IFLA_XDP_PROG_ID, IFLA_XDP_SKB_PROG_ID, IFLA_XDP_DRV_PROG_ID, IFLA_XDP_HW_PROG_ID}"
  shows "find_u32 xs ty 0 < 2 ^ 32"
proof (cases "attr_find xs ty")
  case (Some d)
  then have "length d = 4" using assms unfolding xdp_ok_def by blast
  then show ?thesis using le_get_less [of d] Some by (simp add: find_u32_def)
qed (simp add: find_u32_def)

lemma info_fields:
  assumes "prog_id i < 2 ^ 32" and "drv_prog_id i < 2 ^ 32" and "hw_prog_id i < 2 ^ 32" and "skb_prog_id i < 2 ^ 32"
    and "attach_mode i < 2 ^ 8"
  shows "get_xdp_id (take 20 (xdp_link_info_bytes i)) flags =
    Some (if attach_mode i \<noteq> XDP_ATTACHED_MULTI then prog_id i
          else if flags AND XDP_FLAGS_DRV_MODE \<noteq> 0 then drv_prog_id i
          else if flags AND XDP_FLAGS_HW_MODE \<noteq> 0 then hw_prog_id i
          else if flags AND XDP_FLAGS_SKB_MODE \<noteq> 0 then skb_prog_id i
          else 0)"
proof -
  let ?b = "xdp_link_info_bytes i"
  have t: "take 20 ?b = ?b" by (simp add: xdp_link_info_bytes_def)
  have "ld 16 1 ?b = Some (attach_mode i)" "ld 0 4 ?b = Some (prog_id i)" "ld 4 4 ?b = Some (drv_prog_id i)"
    "ld 8 4 ?b = Some (hw_prog_id i)" "ld 12 4 ?b = Some (skb_prog_id i)"
    using assms ld_append_put [of 1 "attach_mode i" "replicate 3 0"]
    by (simp_all add: xdp_link_info_bytes_def ld_append_skip ld_append_put)
  then show ?thesis unfolding t get_xdp_id_def by simp
qed

lemma get_xdp_id_step:
  assumes "link_ok l" and "md_info md = no_xdp_info" and "md_ifindex md = sint (link_index l)"
  shows "get_xdp_id (take 20 (xdp_link_info_bytes (md_info (link_step l md)))) flags = Some (link_prog_id flags l)"
proof (cases "link_xdp l")
  case None
  then show ?thesis using assms(2)
    by (subst info_fields) (simp_all add: link_step_def no_xdp_info_def link_prog_id_def XDP_ATTACHED_MULTI_def)
next
  case (Some xs)
  then have ok: "xdp_ok xs" using assms(1) by (simp add: link_ok_def)
  note u = find_u32_less [OF ok]
  have i: "md_info (link_step l md) = xdp_step xs no_xdp_info" using assms(2,3) Some by (simp add: link_step_def)
  show ?thesis
  proof (cases "attr_find xs IFLA_XDP_ATTACHED")
    case None
    then show ?thesis unfolding i using Some
      by (subst info_fields) (simp_all add: xdp_step_def no_xdp_info_def link_prog_id_def XDP_ATTACHED_MULTI_def)
  next
    case (Some d)
    then have "le_get d < 2 ^ 8" using ok le_get_less [of d] by (simp add: xdp_ok_def)
    then show ?thesis unfolding i using Some \<open>link_xdp l = Some xs\<close> u
      by (subst info_fields) (auto simp: xdp_step_def no_xdp_info_def link_prog_id_def XDP_ATTACHED_MULTI_def XDP_ATTACHED_NONE_def)
  qed
qed

lemma link_step_other: "md_ifindex md \<noteq> 0 \<Longrightarrow> md_ifindex md \<noteq> sint (link_index l) \<Longrightarrow> link_step l md = md"
  by (simp add: link_step_def)

lemma fold_link_step_other:
  "md_ifindex md \<noteq> 0 \<Longrightarrow> \<forall>l \<in> set ls. sint (link_index l) \<noteq> md_ifindex md \<Longrightarrow> fold link_step ls md = md"
  by (induction ls) (auto simp: link_step_other)

lemma md_ifindex_link_step [simp]: "md_ifindex (link_step l md) = md_ifindex md"
  by (simp add: link_step_def split: option.splits)

lemma netlink_open_pid: "libbpf_netlink_open K tr = Some ((sock, pid), tr') \<Longrightarrow> pid < 2 ^ 32"
proof -
  have "le_get (seg 4 4 sa) < 2 ^ 32" if "length sa = 12" for sa
    using le_get_less [of "seg 4 4 sa"] that by simp
  then have "wp (libbpf_netlink_open K tr) (\<lambda>(sock, pid) tr'. pid < 2 ^ 32)"
    unfolding libbpf_netlink_open_def by (auto intro!: wp_bind_sys wp_if wp_let)
  then show "libbpf_netlink_open K tr = Some ((sock, pid), tr') \<Longrightarrow> pid < 2 ^ 32" by (auto dest: wp_result)
qed

lemma one_mode_accepted:
  assumes "one_mode flags"
  shows "flags AND NOT XDP_FLAGS_MASK = 0"
    and "let f = flags AND (XDP_FLAGS_SKB_MODE OR XDP_FLAGS_DRV_MODE OR XDP_FLAGS_HW_MODE) in f = 0 \<or> f AND (f - 1) = 0"
  using assms
  by (auto simp: one_mode_def XDP_FLAGS_MASK_def XDP_FLAGS_SKB_MODE_def XDP_FLAGS_DRV_MODE_def XDP_FLAGS_HW_MODE_def Let_def)

lemma get_link_dump:
  fixes t :: int
  defines "seq \<equiv> unat (word_of_int t :: u32)"
  assumes "pid < 2 ^ 32"
    and "os_reply K tr Clock = (t, x)"
    and "os_reply K (tr @ [(Clock, t, x)]) (Sendto sock (getlink_request seq)) = (n, y)" and "0 \<le> n"
    and "serves K sock (links.dump seq pid parts ms info) (tr @ [(Clock, t, x), (Sendto sock (getlink_request seq), n, y)])"
    and "\<forall>ms' \<in> set parts. ms' \<noteq> []" and "\<forall>l \<in> set (concat parts @ ms). link_ok l" and "length info < 2 ^ 31 - 16"
  shows "\<exists>tr'. libbpf_nl_get_link K sock pid get_xdp_info md tr = Some ((0, fold link_step (concat parts @ ms) md), tr')"
proof -
  have "seq < 2 ^ 32" unfolding seq_def using unsigned_less [of "word_of_int t :: u32", where 'a = nat] by simp
  from links.dump_received [OF assms(7,8) this assms(2,9,6)]
  show ?thesis using assms(3-5)
    by (simp add: libbpf_nl_get_link_def sys_def bpf_netlink_recv_def Let_def seq_def)
qed

text \<open>The answer to one complete dump in which exactly one link has the index.\<close>

lemma get_link_xdp_id_dump:
  fixes t :: int
  defines "seq \<equiv> unat (word_of_int t :: u32)"
  assumes "one_mode flags" and "ifindex \<noteq> 0"
    and "libbpf_netlink_open K tr = Some ((sock, pid), tr1)" and "0 \<le> sock"
    and "os_reply K tr1 Clock = (t, x)"
    and "os_reply K (tr1 @ [(Clock, t, x)]) (Sendto sock (getlink_request seq)) = (n, y)" and "0 \<le> n"
    and "serves K sock (links.dump seq pid parts ms info) (tr1 @ [(Clock, t, x), (Sendto sock (getlink_request seq), n, y)])"
    and "\<forall>ms' \<in> set parts. ms' \<noteq> []" and "length info < 2 ^ 31 - 16"
    and "concat parts @ ms = ls1 @ l # ls2" and "\<forall>k \<in> set (ls1 @ l # ls2). link_ok k"
    and "sint (link_index l) = ifindex" and "\<forall>k \<in> set (ls1 @ ls2). sint (link_index k) \<noteq> ifindex"
  shows "\<exists>tr'. bpf_get_link_xdp_id K ifindex old flags tr = Some ((0, link_prog_id flags l), tr')"
proof -
  let ?md = "\<lambda>f. \<lparr>md_ifindex = ifindex, md_flags = f, md_info = no_xdp_info\<rparr>"
  let ?f = "flags AND (XDP_FLAGS_SKB_MODE OR XDP_FLAGS_DRV_MODE OR XDP_FLAGS_HW_MODE)"
  have "fold link_step (concat parts @ ms) (?md ?f) = link_step l (?md ?f)"
    using assms(3,14,15) by (simp add: assms(12) fold_link_step_other)
  then obtain tr2 where get: "libbpf_nl_get_link K sock pid get_xdp_info (?md ?f) tr1 = Some ((0, link_step l (?md ?f)), tr2)"
    using get_link_dump [OF netlink_open_pid [OF assms(4)] assms(6) assms(7,8,9) [unfolded seq_def] assms(10) _ assms(11), of "?md ?f"]
      assms(12,13) by auto
  have id: "get_xdp_id (take 20 (xdp_link_info_bytes (md_info (link_step l (?md ?f))))) flags = Some (link_prog_id flags l)"
    by (rule get_xdp_id_step) (use assms(13,14) in simp_all)
  obtain rv data where close: "os_reply K tr2 (Close sock) = (rv, data)" by (cases "os_reply K tr2 (Close sock)")
  have "bpf_get_link_xdp_info K ifindex 20 flags tr =
      Some ((0, take 20 (xdp_link_info_bytes (md_info (link_step l (?md ?f))))), tr2 @ [(Close sock, rv, data)])"
    using one_mode_accepted [OF assms(2)] assms(4,5)
    by (auto simp: bpf_get_link_xdp_info_def Let_def get sys_def close)
  then show ?thesis by (simp add: bpf_get_link_xdp_id_def id)
qed

text \<open>
  C12: When the kernel answers the request for the links with a dump in any number of datagrams,
  \<open>bpf_get_link_xdp_id\<close> returns 0 with the identifier that the link of that index reports for the mode
  asked for (0 when no program is attached), whatever the other links and their order, and leaves no
  socket open.
\<close>

theorem bpf_get_link_xdp_id_attached:
  fixes t :: int
  defines "seq \<equiv> unat (word_of_int t :: u32)"
  assumes "one_mode flags" and "ifindex \<noteq> 0"
    and "libbpf_netlink_open K tr = Some ((sock, pid), tr1)" and "0 \<le> sock"
    and "os_reply K tr1 Clock = (t, x)"
    and "os_reply K (tr1 @ [(Clock, t, x)]) (Sendto sock (getlink_request seq)) = (n, y)" and "0 \<le> n"
    and "serves K sock (links.dump seq pid parts ms info) (tr1 @ [(Clock, t, x), (Sendto sock (getlink_request seq), n, y)])"
    and "\<forall>ms' \<in> set parts. ms' \<noteq> []" and "length info < 2 ^ 31 - 16"
    and "concat parts @ ms = ls1 @ l # ls2" and "\<forall>k \<in> set (ls1 @ l # ls2). link_ok k"
    and "sint (link_index l) = ifindex" and "\<forall>k \<in> set (ls1 @ ls2). sint (link_index k) \<noteq> ifindex"
  shows "\<exists>tr'. bpf_get_link_xdp_id K ifindex old flags tr = Some ((0, link_prog_id flags l), tr') \<and> held R tr' = held R tr"
  using get_link_xdp_id_dump [OF assms(2-9) [unfolded seq_def] assms(10-)] wlp_result [OF get_link_xdp_id_held] by blast

text \<open>A kernel with one link of index 2, on which program 7, with one map named \<open>xsks_map\<close>, is attached in generic mode.\<close>

definition demo_link :: link_entry where
  "demo_link = \<lparr>link_head = [0, 0, 1, 0], link_index = 2, link_tail = replicate 8 0,
     link_attrs = [(3, [101, 0]), (0x802B, nla_stream [(2, [2]), (4, [7, 0, 0, 0])])],
     link_xdp = Some [(2, [2]), (4, [7, 0, 0, 0])]\<rparr>"

definition demo_os :: os where
  "demo_os = \<lparr>os_reply = (\<lambda>tr c. case c of
       Socket _ _ _ \<Rightarrow> (3, [])
     | Getsockname _ _ \<Rightarrow> (0, [16, 0, 0, 0, 9, 0, 0, 0, 0, 0, 0, 0])
     | Sendto _ b \<Rightarrow> (int (length b), [])
     | Clock \<Rightarrow> (5, [])
     | Recv _ _ \<Rightarrow> (let d = hd (links.dump 5 9 [] [demo_link] []) in (int (length d), d))
     | Calloc _ \<Rightarrow> (4096, [])
     | Bpf (PROG_GET_FD_BY_ID _) \<Rightarrow> (5, [])
     | Bpf (MAP_GET_FD_BY_ID _) \<Rightarrow> (6, [])
     | Bpf (PROG_MAP_IDS _ _) \<Rightarrow> (0, [8, 0, 0, 0])
     | Bpf (OBJ_GET_INFO_BY_FD fd _) \<Rightarrow>
         (0, if fd = 5 then replicate 52 0 @ [1, 0, 0, 0] else replicate 24 0 @ [120, 115, 107, 115, 95, 109, 97, 112, 0])
     | _ \<Rightarrow> (0, [])),
     errno0 = 0, stack_bytes = [], page_size = 4096\<rparr>"

lemma demo_link_ok: "link_ok demo_link"
proof -
  have "attr_ok a" if "a \<in> set (link_attrs demo_link)" for a
    using that by (auto simp: demo_link_def attr_ok_def nla_stream_def length_nla_put NLA_HDRLEN_def NLA_ALIGN_eq)
  moreover have "xdp_ok [(2, [2]), (4, [7, 0, 0, 0])]"
    by (auto simp: xdp_ok_def attr_ok_def attr_find_def nla_stream_def length_nla_put NLA_HDRLEN_def NLA_ALIGN_eq NLA_TYPE_MASK_def
      IFLA_XDP_ATTACHED_def IFLA_XDP_PROG_ID_def IFLA_XDP_SKB_PROG_ID_def IFLA_XDP_DRV_PROG_ID_def IFLA_XDP_HW_PROG_ID_def)
  ultimately show ?thesis
    by (auto simp: link_ok_def demo_link_def attr_find_def nla_stream_def length_nla_put NLA_HDRLEN_def NLA_ALIGN_eq
        NLA_TYPE_MASK_def IFLA_XDP_def)
qed

lemma demo_facts:
  "libbpf_netlink_open demo_os [] = Some ((3, 9), snd (the (libbpf_netlink_open demo_os [])))"
  "link_prog_id 2 demo_link = 7" "one_mode 2"
  by (simp_all add: libbpf_netlink_open_def sys_def demo_os_def seg_def link_prog_id_def demo_link_def attr_find_def find_u32_def
      NLA_TYPE_MASK_def IFLA_XDP_ATTACHED_def IFLA_XDP_PROG_ID_def XDP_ATTACHED_NONE_def XDP_ATTACHED_MULTI_def one_mode_def)

lemma demo_link_id: "\<exists>tr'. bpf_get_link_xdp_id demo_os 2 0 2 [] = Some ((0, 7), tr')"
  using get_link_xdp_id_dump [OF demo_facts(3) _ demo_facts(1), of 2 5 "[]" "32" "[]" "[]" "[demo_link]" "[]" "[]" demo_link "[]" 0]
    demo_link_ok demo_facts(2)
  by (simp add: demo_os_def [THEN arg_cong, of os_reply] links.dump_def getlink_request_def) (simp add: demo_link_def)

theorem bpf_get_link_xdp_id_attached_witness:
  "\<exists>tr'. bpf_get_link_xdp_id demo_os 2 0 2 [] = Some ((0, 7), tr') \<and> held {#} tr' = {#}"
  using bpf_get_link_xdp_id_attached [OF demo_facts(3) _ demo_facts(1), of 2 5 "[]" "32" "[]" "[]" "[demo_link]" "[]" "[]" demo_link "[]" 0 "{#}"]
    demo_link_ok demo_facts(2)
  by (simp add: demo_os_def [THEN arg_cong, of os_reply] links.dump_def getlink_request_def) (simp add: demo_link_def)

text \<open>
  An interface index of 0, what \<open>if_nametoindex\<close> returns for a name it does not know, matches every
  link: the answer is then about whichever links have programs.
\<close>

lemma link_step_index_0:
  "md_ifindex md = 0 \<Longrightarrow> link_xdp l = Some xs \<Longrightarrow> md_info (link_step l md) = xdp_step xs (md_info md)"
  by (simp add: link_step_def)

text \<open>One nested attribute, parsed on both levels.\<close>

lemma parse_nested_stream:
  assumes "\<forall>a \<in> set as. attr_ok a" and "attr_ok (t, nla_stream as)" and "t AND NLA_TYPE_MASK \<le> maxtype"
  defines "body \<equiv> nla_stream [(t, nla_stream as)]"
  shows "\<exists>tb xdp xtb. libbpf_nla_parse (pre @ body) maxtype (length pre) (int (length body)) None = Some (0, tb) \<and>
    tb ! (t AND NLA_TYPE_MASK) = Some xdp \<and> libbpf_nla_parse_nested (pre @ body) xmax xdp None = Some (0, xtb) \<and>
    index_finds (pre @ body) xmax xtb (attr_find as)"
proof -
  let ?s = "nla_stream as"
  have s: "length ?s < 2 ^ 16" using assms(2) by (simp add: attr_ok_def)
  then have "length body < 2 ^ 31"
    using NLA_ALIGN_bounds(2) [of "int (NLA_HDRLEN + length ?s)"] by (simp add: body_def nla_stream_def [of "[_]"] length_nla_put NLA_HDRLEN_def)
  then obtain tb where tb: "libbpf_nla_parse (pre @ body) maxtype (length pre) (int (length body)) None = Some (0, tb)"
    "index_finds (pre @ body) maxtype tb (attr_find [(t, ?s)])"
    using libbpf_nla_parse_finds [of "[(t, ?s)]" "length pre" "pre @ body" maxtype] assms(2)
    by (auto simp: body_def seg_def)
  moreover have "attr_find [(t, ?s)] (t AND NLA_TYPE_MASK) = Some ?s" by (simp add: attr_find_def)
  ultimately obtain xdp where xdp: "tb ! (t AND NLA_TYPE_MASK) = Some xdp"
    "libbpf_nla_len (pre @ body) xdp = Some (int (length ?s))" "seg (libbpf_nla_data xdp) (length ?s) (pre @ body) = ?s"
    using assms(3) unfolding index_finds_def by fastforce
  moreover obtain xtb where "libbpf_nla_parse_nested (pre @ body) xmax xdp None = Some (0, xtb)"
    "index_finds (pre @ body) xmax xtb (attr_find as)"
    using libbpf_nla_parse_nested_finds [OF assms(1) _ xdp(2,3)] s by fastforce
  ultimately show ?thesis using tb(1) by blast
qed

text \<open>
  C29: The request of \<open>bpf_set_link_xdp_fd\<close> is built without a store outside the structure and
  decodes, with the parser of the same library, to the interface index, the descriptor and the flags it
  was given; the attribute for the flags is present exactly when they are not zero.
\<close>

theorem setlink_request_roundtrip:
  "\<exists>req tb xdp xtb. setlink_request ifindex fd flags = Some req \<and>
     ld 0 4 req = Some (length req) \<and> length req \<le> 96 \<and> ld 4 2 req = Some RTM_SETLINK \<and>
     ld 20 4 req = Some (unat ifindex) \<and>
     libbpf_nla_parse req IFLA_MAX 32 (int (length req) - 32) None = Some (0, tb) \<and> tb ! IFLA_XDP = Some xdp \<and>
     libbpf_nla_parse_nested req IFLA_XDP_MAX xdp None = Some (0, xtb) \<and>
     attr_u32 req xtb IFLA_XDP_FD 0 = Some (unat fd) \<and>
     (case xtb ! IFLA_XDP_FLAGS of
        None \<Rightarrow> flags = 0
      | Some nla \<Rightarrow> flags \<noteq> 0 \<and> libbpf_nla_getattr_u32 req nla = Some (unat flags))"
proof -
  let ?as = "setlink_attrs fd flags" and ?t = "NLA_F_NESTED OR IFLA_XDP"
  define body where "body = nla_stream [(?t, nla_stream ?as)]"
  define pre :: bytes where "pre = le_put 4 (32 + length body) @ le_put 2 RTM_SETLINK @ le_put 2 5 @ le_put 4 1 @ le_put 4 0 @
        replicate 4 0 @ le_put 4 (unat ifindex) @ replicate 8 0"
  have r: "setlink_request ifindex fd flags = Some (pre @ body)"
    by (simp add: setlink_request_eq Let_def nla_stream_def pre_def body_def)
  have w: "unat v < 4294967296" for v :: u32 using unsigned_less [of v, where 'a = nat] by simp
  have l: "length (nla_stream ?as) = (if flags = 0 then 8 else 16)"
    by (simp add: setlink_attrs_def nla_stream_def length_nla_put NLA_HDRLEN_def NLA_ALIGN_eq)
  then have lb: "length body \<le> 20" "length pre = 32"
    by (simp_all add: body_def nla_stream_def [of "[_]"] length_nla_put NLA_HDRLEN_def NLA_ALIGN_eq pre_def)
  have t: "?t AND NLA_TYPE_MASK = IFLA_XDP" "IFLA_XDP \<le> IFLA_MAX"
    by (simp_all add: NLA_F_NESTED_def IFLA_XDP_def NLA_TYPE_MASK_def IFLA_MAX_def)
  have oks: "\<forall>a \<in> set ?as. attr_ok a" "attr_ok (?t, nla_stream ?as)"
    using l by (auto simp: setlink_attrs_def attr_ok_def NLA_HDRLEN_def IFLA_XDP_FD_def IFLA_XDP_FLAGS_def NLA_F_NESTED_def IFLA_XDP_def)
  obtain tb xdp xtb where p: "libbpf_nla_parse (pre @ body) IFLA_MAX 32 (int (length body)) None = Some (0, tb)"
    "tb ! IFLA_XDP = Some xdp" "libbpf_nla_parse_nested (pre @ body) IFLA_XDP_MAX xdp None = Some (0, xtb)"
    "index_finds (pre @ body) IFLA_XDP_MAX xtb (attr_find ?as)"
    using parse_nested_stream [OF oks, of IFLA_MAX pre IFLA_XDP_MAX] t unfolding body_def [symmetric] lb(2) by auto
  have h: "ld 0 4 (pre @ body) = Some (32 + length body)" "ld 4 2 (pre @ body) = Some RTM_SETLINK"
    "ld 20 4 (pre @ body) = Some (unat ifindex)"
    using lb(1) w [of ifindex] by (simp_all add: pre_def ld_append_put ld_append_skip RTM_SETLINK_def)
  have f: "attr_find ?as IFLA_XDP_FD = Some (le_put 4 (unat fd))"
    "attr_find ?as IFLA_XDP_FLAGS = (if flags = 0 then None else Some (le_put 4 (unat flags)))"
    by (simp_all add: setlink_attrs_def attr_find_def IFLA_XDP_FD_def IFLA_XDP_FLAGS_def NLA_TYPE_MASK_def)
  have b: "IFLA_XDP_FD \<le> IFLA_XDP_MAX" "IFLA_XDP_FLAGS \<le> IFLA_XDP_MAX"
    by (simp_all add: IFLA_XDP_FD_def IFLA_XDP_FLAGS_def IFLA_XDP_MAX_def)
  have fd: "attr_u32 (pre @ body) xtb IFLA_XDP_FD 0 = Some (unat fd)"
    using attr_u32_finds [OF p(4) b(1)] w [of fd] by (simp add: f(1) find_u32_def le_get_le_put)
  have "case xtb ! IFLA_XDP_FLAGS of None \<Rightarrow> flags = 0
      | Some nla \<Rightarrow> flags \<noteq> 0 \<and> libbpf_nla_getattr_u32 (pre @ body) nla = Some (unat flags)"
    using p(4) [unfolded index_finds_def, rule_format, OF b(2)] getattr_of_seg(1) [where d = "le_put 4 (unat flags)"] w [of flags]
    by (auto simp: f(2) le_get_le_put split: if_splits)
  then show ?thesis using r p(1-3) h lb fd by auto
qed

end
