(* ===== verification/Libbpf_Xsk_Socket.thy ===== *)
theory Libbpf_Xsk_Socket
  imports Libbpf_Xsk Libbpf_Link
begin

text \<open>
  AF_XDP sockets in the bundled libbpf (\<open>lib/libbpf/src/xsk.c\<close>): finding or loading the XDP program of the
  interface, entering the socket in its map, and creating and deleting the socket.
\<close>

section \<open>State\<close>

text \<open>\<open>struct xsk_socket\<close> at address \<open>xs_addr\<close>; the pointer to the UMEM is left to the callers.\<close>

record xsk_socket =
  xs_addr :: int
  xs_rx :: "ring_ptrs option"
  xs_tx :: "ring_ptrs option"
  xs_config :: xsk_socket_config
  xs_fd :: int
  xs_ifindex :: int
  xs_prog_fd :: int
  xs_map_fd :: int
  xs_queue_id :: u32
  xs_ifname :: string

definition xsk_socket__fd :: "xsk_socket option \<Rightarrow> int" where
  "xsk_socket__fd xsk = (case xsk of None \<Rightarrow> - EINVAL | Some x \<Rightarrow> xs_fd x)"

section \<open>The program and its map\<close>

definition BPF_PROG_TYPE_XDP :: u32 where "BPF_PROG_TYPE_XDP = 6"
definition BPF_MAP_TYPE_XSKMAP :: u32 where "BPF_MAP_TYPE_XSKMAP = 17"
definition LOG_BUF_SIZE :: nat where "LOG_BUF_SIZE = 16384"

definition xsk_load_xdp_prog :: "'k os_scheme \<Rightarrow> xsk_socket \<Rightarrow> strace \<Rightarrow> ((int \<times> xsk_socket) \<times> strace) option" where
  "xsk_load_xdp_prog K xsk tr =
     (let prog = xsk_prog (xs_map_fd xsk) in
      do { (prog_fd, tr) \<leftarrow> bpf_load_program K BPF_PROG_TYPE_XDP (concat (map bpf_insn_bytes prog)) (length prog)
                              ''LGPL-2.1 or BSD-2-Clause'' 0 True LOG_BUF_SIZE tr;
           if prog_fd < 0 then Some ((prog_fd, xsk), tr)
           else do {
             (err, tr) \<leftarrow> bpf_set_link_xdp_fd K (word_of_int (xs_ifindex xsk)) (word_of_int prog_fd) (cfg_xdp_flags (xs_config xsk)) tr;
             if err \<noteq> 0 then do { (_, tr) \<leftarrow> sys K (Close prog_fd) tr; Some ((err, xsk), tr) }
             else Some ((0, xsk\<lparr>xs_prog_fd := prog_fd\<rparr>), tr) } })"

text \<open>The answer of the driver is \<open>struct ethtool_channels\<close>: \<open>max_rx\<close>, \<open>max_tx\<close> and \<open>max_combined\<close> at 4, 8 and 16.\<close>

definition xsk_get_max_queues :: "'k os_scheme \<Rightarrow> xsk_socket \<Rightarrow> strace \<Rightarrow> (int \<times> strace) option" where
  "xsk_get_max_queues K xsk tr =
     do { ((fd, _), tr) \<leftarrow> sys K (Socket 2 2 0) tr;
          if fd < 0 then Some (- errno_of K tr, tr)
          else do {
            ((rv, data), tr) \<leftarrow> sys K (Ethtool fd (take 15 (xs_ifname xsk))) tr;
            let ret = (if rv \<noteq> 0 \<and> errno_of K tr \<noteq> EOPNOTSUPP then - errno_of K tr
                       else if rv \<noteq> 0 then 1
                       else max (sint (max (word_of_nat (le_get (seg 4 4 data))) (word_of_nat (le_get (seg 8 4 data))) :: u32))
                                (sint (word_of_nat (le_get (seg 16 4 data)) :: u32)));
            (_, tr) \<leftarrow> sys K (Close fd) tr;
            Some (ret, tr) } }"

definition xsk_create_bpf_maps :: "'k os_scheme \<Rightarrow> xsk_socket \<Rightarrow> strace \<Rightarrow> ((int \<times> xsk_socket) \<times> strace) option" where
  "xsk_create_bpf_maps K xsk tr =
     do { (max_queues, tr) \<leftarrow> xsk_get_max_queues K xsk tr;
          if max_queues < 0 then Some ((max_queues, xsk), tr)
          else do {
            (fd, tr) \<leftarrow> bpf_create_map_name K BPF_MAP_TYPE_XSKMAP (Some ''xsks_map'') 4 4 (word_of_int max_queues) 0 tr;
            if fd < 0 then Some ((fd, xsk), tr) else Some ((0, xsk\<lparr>xs_map_fd := fd\<rparr>), tr) } }"

definition queue_key :: "xsk_socket \<Rightarrow> bytes" where
  "queue_key xsk = le_put 4 (unat (xs_queue_id xsk))"

definition fd_bytes :: "int \<Rightarrow> bytes" where
  "fd_bytes fd = le_put 4 (unat (word_of_int fd :: u32))"

definition xsk_delete_bpf_maps :: "'k os_scheme \<Rightarrow> xsk_socket \<Rightarrow> strace \<Rightarrow> strace option" where
  "xsk_delete_bpf_maps K xsk tr =
     do { (_, tr) \<leftarrow> bpf_map_delete_elem K (xs_map_fd xsk) (queue_key xsk) tr;
          (_, tr) \<leftarrow> sys K (Close (xs_map_fd xsk)) tr;
          Some tr }"

text \<open>The name in \<open>struct bpf_map_info\<close>, at 24.\<close>

definition map_info_name :: "bytes \<Rightarrow> bytes" where
  "map_info_name info = takeWhile (\<lambda>b. b \<noteq> 0) (seg 24 16 info)"

definition xsks_map_name :: bytes where
  "xsks_map_name = [120, 115, 107, 115, 95, 109, 97, 112]"

text \<open>The loop over the maps of the program, which goes on after a match.\<close>

fun lookup_maps :: "'k os_scheme \<Rightarrow> u32 list \<Rightarrow> int \<Rightarrow> strace \<Rightarrow> (int \<times> strace) option" where
  "lookup_maps K [] map_fd tr = Some (map_fd, tr)"
| "lookup_maps K (i # ids) map_fd tr =
     do { (fd, tr) \<leftarrow> bpf_map_get_fd_by_id K i tr;
          if fd < 0 then lookup_maps K ids map_fd tr
          else do {
            ((err, info), tr) \<leftarrow> bpf_obj_get_info_by_fd K fd 80 tr;
            if err \<noteq> 0 then do { (_, tr) \<leftarrow> sys K (Close fd) tr; lookup_maps K ids map_fd tr }
            else if map_info_name info = xsks_map_name then lookup_maps K ids fd tr
            else do { (_, tr) \<leftarrow> sys K (Close fd) tr; lookup_maps K ids map_fd tr } } }"

fun words32 :: "nat \<Rightarrow> bytes \<Rightarrow> u32 list" where
  "words32 0 p = []"
| "words32 (Suc n) p = word_of_nat (le_get (take 4 p)) # words32 n (drop 4 p)"

text \<open>\<open>nr_map_ids\<close> is at 52 in \<open>struct bpf_prog_info\<close>.\<close>

definition xsk_lookup_bpf_maps :: "'k os_scheme \<Rightarrow> xsk_socket \<Rightarrow> strace \<Rightarrow> ((int \<times> xsk_socket) \<times> strace) option" where
  "xsk_lookup_bpf_maps K xsk tr =
     do { ((err, info), tr) \<leftarrow> bpf_obj_get_info_by_fd K (xs_prog_fd xsk) 208 tr;
          if err \<noteq> 0 then Some ((err, xsk), tr)
          else do {
            let num_maps = le_get (seg 52 4 info);
            ((addr, _), tr) \<leftarrow> sys K (Calloc (4 * num_maps)) tr;
            if addr = 0 then Some ((- ENOMEM, xsk), tr)
            else do {
              ((err, ids), tr) \<leftarrow> sys_bpf K (PROG_MAP_IDS (xs_prog_fd xsk) num_maps) tr;
              if err \<noteq> 0 then do { (_, tr) \<leftarrow> sys K (Free addr) tr; Some ((err, xsk), tr) }
              else do {
                (map_fd, tr) \<leftarrow> lookup_maps K (words32 num_maps ids) (-1) tr;
                (_, tr) \<leftarrow> sys K (Free addr) tr;
                Some ((if map_fd = -1 then - ENOENT else 0, xsk\<lparr>xs_map_fd := map_fd\<rparr>), tr) } } } }"

definition xsk_set_bpf_maps :: "'k os_scheme \<Rightarrow> xsk_socket \<Rightarrow> strace \<Rightarrow> (int \<times> strace) option" where
  "xsk_set_bpf_maps K xsk tr = bpf_map_update_elem K (xs_map_fd xsk) (queue_key xsk) (fd_bytes (xs_fd xsk)) 0 tr"

text \<open>The end of \<open>xsk_setup_xdp_prog\<close>: enter the socket in the map.\<close>

definition xsk_enter_map :: "'k os_scheme \<Rightarrow> xsk_socket \<Rightarrow> strace \<Rightarrow> ((int \<times> xsk_socket) \<times> strace) option" where
  "xsk_enter_map K xsk tr =
     do { (err, tr) \<leftarrow> (if xs_rx xsk \<noteq> None then xsk_set_bpf_maps K xsk tr else Some (0, tr));
          if err \<noteq> 0 then do {
            tr \<leftarrow> xsk_delete_bpf_maps K xsk tr;
            (_, tr) \<leftarrow> sys K (Close (xs_prog_fd xsk)) tr;
            Some ((err, xsk), tr) }
          else Some ((0, xsk), tr) }"

definition xsk_setup_xdp_prog :: "'k os_scheme \<Rightarrow> xsk_socket \<Rightarrow> strace \<Rightarrow> ((int \<times> xsk_socket) \<times> strace) option" where
  "xsk_setup_xdp_prog K xsk tr =
     do { ((err, prog_id), tr) \<leftarrow> bpf_get_link_xdp_id K (xs_ifindex xsk) 0 (cfg_xdp_flags (xs_config xsk)) tr;
          if err \<noteq> 0 then Some ((err, xsk), tr)
          else if prog_id = 0 then do {
            ((err, xsk), tr) \<leftarrow> xsk_create_bpf_maps K xsk tr;
            if err \<noteq> 0 then Some ((err, xsk), tr)
            else do {
              ((err, xsk), tr) \<leftarrow> xsk_load_xdp_prog K xsk tr;
              if err \<noteq> 0 then do { tr \<leftarrow> xsk_delete_bpf_maps K xsk tr; Some ((err, xsk), tr) }
              else xsk_enter_map K xsk tr } }
          else do {
            (prog_fd, tr) \<leftarrow> bpf_prog_get_fd_by_id K (word_of_nat prog_id) tr;
            let xsk = xsk\<lparr>xs_prog_fd := prog_fd\<rparr>;
            if prog_fd < 0 then Some ((- errno_of K tr, xsk), tr)
            else do {
              ((err, xsk), tr) \<leftarrow> xsk_lookup_bpf_maps K xsk tr;
              if err \<noteq> 0 then do { (_, tr) \<leftarrow> sys K (Close prog_fd) tr; Some ((err, xsk), tr) }
              else xsk_enter_map K xsk tr } } }"

section \<open>Creating and deleting a socket\<close>

type_synonym sock_result = "int \<times> xsk_socket option \<times> xsk_umem \<times> ring_ptrs option \<times> ring_ptrs option"

definition XDP_SHARED_UMEM :: nat where "XDP_SHARED_UMEM = 1"

text \<open>\<open>struct sockaddr_xdp\<close>.\<close>

definition sockaddr_xdp :: "nat \<Rightarrow> int \<Rightarrow> u32 \<Rightarrow> int \<Rightarrow> bytes" where
  "sockaddr_xdp flags ifindex queue_id shared_fd =
     le_put 2 AF_XDP @ le_put 2 flags @ fd_bytes ifindex @ le_put 4 (unat queue_id) @ fd_bytes shared_fd"

text \<open>\<open>if (r) munmap(m, n)\<close>, and the labels from \<open>out_mmap_tx\<close> on; \<open>rx_map\<close> and \<open>tx_map\<close> carry the lengths.\<close>

definition munmap_if :: "'k os_scheme \<Rightarrow> bool \<Rightarrow> int \<times> nat \<Rightarrow> strace \<Rightarrow> strace option" where
  "munmap_if K c mn tr = (if c then map_option snd (sys K (Munmap (fst mn) (snd mn)) tr) else Some tr)"

definition sock_out_alloc ::
    "'k os_scheme \<Rightarrow> int \<Rightarrow> int \<Rightarrow> xsk_umem \<Rightarrow> ring_ptrs option \<Rightarrow> ring_ptrs option \<Rightarrow> strace \<Rightarrow> (sock_result \<times> strace) option" where
  "sock_out_alloc K addr err umem rx tx tr = do { (_, tr) \<leftarrow> sys K (Free addr) tr; Some ((err, None, umem, rx, tx), tr) }"

definition sock_out_socket ::
    "'k os_scheme \<Rightarrow> int \<Rightarrow> int \<Rightarrow> int \<Rightarrow> xsk_umem \<Rightarrow> ring_ptrs option \<Rightarrow> ring_ptrs option \<Rightarrow> strace \<Rightarrow> (sock_result \<times> strace) option" where
  "sock_out_socket K addr fd err umem rx tx tr =
     (let umem = umem\<lparr>um_refcount := um_refcount umem - 1\<rparr> in
      do { tr \<leftarrow> (if um_refcount umem \<noteq> 0 then map_option snd (sys K (Close fd) tr) else Some tr);
           sock_out_alloc K addr err umem rx tx tr })"

definition sock_out_mmap_rx ::
    "'k os_scheme \<Rightarrow> int \<times> nat \<Rightarrow> int \<Rightarrow> int \<Rightarrow> int \<Rightarrow> xsk_umem \<Rightarrow> ring_ptrs option \<Rightarrow> ring_ptrs option \<Rightarrow> strace \<Rightarrow> (sock_result \<times> strace) option" where
  "sock_out_mmap_rx K rx_map addr fd err umem rx tx tr =
     do { tr \<leftarrow> munmap_if K (rx \<noteq> None) rx_map tr; sock_out_socket K addr fd err umem rx tx tr }"

definition sock_out_mmap_tx ::
    "'k os_scheme \<Rightarrow> int \<times> nat \<Rightarrow> int \<times> nat \<Rightarrow> int \<Rightarrow> int \<Rightarrow> int \<Rightarrow> xsk_umem \<Rightarrow> ring_ptrs option \<Rightarrow> ring_ptrs option \<Rightarrow> strace \<Rightarrow> (sock_result \<times> strace) option" where
  "sock_out_mmap_tx K tx_map rx_map addr fd err umem rx tx tr =
     do { tr \<leftarrow> munmap_if K (tx \<noteq> None) tx_map tr; sock_out_mmap_rx K rx_map addr fd err umem rx tx tr }"

text \<open>The option that creates a ring, when the caller wants one.\<close>

definition set_ring_size :: "'k os_scheme \<Rightarrow> int \<Rightarrow> nat \<Rightarrow> ring_ptrs option \<Rightarrow> u32 \<Rightarrow> strace \<Rightarrow> (int \<times> strace) option" where
  "set_ring_size K fd opt r n tr =
     (if r = None then Some (0, tr)
      else do { ((rv, _), tr) \<leftarrow> sys K (Setsockopt fd SOL_XDP opt (le_put 4 (unat n))) tr; Some (rv, tr) })"

text \<open>The mapping of a ring: the address (\<open>MAP_FAILED\<close> on errors, 0 when no ring is wanted) and the ring structure.\<close>

definition map_ring ::
    "'k os_scheme \<Rightarrow> int \<Rightarrow> nat \<Rightarrow> xdp_ring_offset \<Rightarrow> u32 \<Rightarrow> ring_ptrs option \<Rightarrow> strace \<Rightarrow> ((int \<times> ring_ptrs option) \<times> strace) option" where
  "map_ring K fd pg off n r tr =
     (case r of
        None \<Rightarrow> Some ((0, None), tr)
      | Some q \<Rightarrow> do {
          (m, tr) \<leftarrow> sys_mmap K (ring_len off n 16) fd pg tr;
          Some (if m = MAP_FAILED then (m, r) else (m, Some (set_ring m off n q)), tr) })"

definition sock_bind :: "'k os_scheme \<Rightarrow> xsk_socket \<Rightarrow> xsk_umem \<Rightarrow> strace \<Rightarrow> (int \<times> strace) option" where
  "sock_bind K xsk umem tr =
     do { ((rv, _), tr) \<leftarrow> sys K (Bind (xs_fd xsk)
            (if um_refcount umem > 1 then sockaddr_xdp XDP_SHARED_UMEM (xs_ifindex xsk) (xs_queue_id xsk) (um_fd umem)
             else sockaddr_xdp (unat (bind_flags (xs_config xsk))) (xs_ifindex xsk) (xs_queue_id xsk) 0)) tr;
          Some (rv, tr) }"

text \<open>From the mappings on.\<close>

definition sock_map_rings ::
    "'k os_scheme \<Rightarrow> xsk_socket \<Rightarrow> xsk_umem \<Rightarrow> xdp_mmap_offsets \<Rightarrow> ring_ptrs option \<Rightarrow> ring_ptrs option \<Rightarrow> strace \<Rightarrow> (sock_result \<times> strace) option" where
  "sock_map_rings K xsk umem off rx tx tr =
     (let addr = xs_addr xsk; fd = xs_fd xsk; cfg = xs_config xsk;
          rx_len = ring_len (off_rx off) (rx_size cfg) 16; tx_len = ring_len (off_tx off) (tx_size cfg) 16 in
      do { ((rx_map, rx), tr) \<leftarrow> map_ring K fd XDP_PGOFF_RX_RING (off_rx off) (rx_size cfg) rx tr;
           if rx_map = MAP_FAILED then sock_out_socket K addr fd (- errno_of K tr) umem rx tx tr
           else do {
             ((tx_map, tx), tr) \<leftarrow> map_ring K fd XDP_PGOFF_TX_RING (off_tx off) (tx_size cfg) tx tr;
             if tx_map = MAP_FAILED then sock_out_mmap_rx K (rx_map, rx_len) addr fd (- errno_of K tr) umem rx tx tr
             else do {
               let tx = map_option (\<lambda>q. q\<lparr>rp_cached_cons := tx_size cfg\<rparr>) tx;
               (rv, tr) \<leftarrow> sock_bind K xsk umem tr;
               if rv \<noteq> 0 then sock_out_mmap_tx K (tx_map, tx_len) (rx_map, rx_len) addr fd (- errno_of K tr) umem rx tx tr
               else do {
                 let xsk = xsk\<lparr>xs_rx := rx, xs_tx := tx, xs_prog_fd := -1\<rparr>;
                 ((err, xsk), tr) \<leftarrow> (if libbpf_flags cfg AND XSK_LIBBPF_FLAGS__INHIBIT_PROG_LOAD = 0
                                      then xsk_setup_xdp_prog K xsk tr else Some ((0, xsk), tr));
                 if err \<noteq> 0 then sock_out_mmap_tx K (tx_map, tx_len) (rx_map, rx_len) addr fd err umem rx tx tr
                 else Some ((0, Some xsk, umem, rx, tx), tr) } } } })"

text \<open>The socket of its own, or that of the UMEM, with the reference count.\<close>

definition sock_open :: "'k os_scheme \<Rightarrow> xsk_umem \<Rightarrow> strace \<Rightarrow> ((int \<times> xsk_umem) \<times> strace) option" where
  "sock_open K umem tr =
     (let umem' = umem\<lparr>um_refcount := um_refcount umem + 1\<rparr> in
      if um_refcount umem > 0 then do { ((fd, _), tr) \<leftarrow> sys K (Socket AF_XDP SOCK_RAW 0) tr; Some ((fd, umem'), tr) }
      else Some ((um_fd umem, umem'), tr))"

text \<open>From \<open>if_nametoindex\<close> on, with the descriptor and the counted UMEM.\<close>

definition sock_configure ::
    "'k os_scheme \<Rightarrow> int \<Rightarrow> int \<Rightarrow> xsk_socket_config \<Rightarrow> string \<Rightarrow> u32 \<Rightarrow> xsk_umem \<Rightarrow> ring_ptrs option \<Rightarrow> ring_ptrs option \<Rightarrow>
     strace \<Rightarrow> (sock_result \<times> strace) option" where
  "sock_configure K addr fd cfg ifname queue_id umem rx tx tr =
     do { ((ix, _), tr) \<leftarrow> sys K (IfIndex ifname) tr;
          if ix \<le> 0 then sock_out_socket K addr fd (- errno_of K tr) umem rx tx tr
          else do {
            (rv, tr) \<leftarrow> set_ring_size K fd XDP_RX_RING rx (rx_size cfg) tr;
            if rv \<noteq> 0 then sock_out_socket K addr fd (- errno_of K tr) umem rx tx tr
            else do {
              (rv, tr) \<leftarrow> set_ring_size K fd XDP_TX_RING tx (tx_size cfg) tr;
              if rv \<noteq> 0 then sock_out_socket K addr fd (- errno_of K tr) umem rx tx tr
              else do {
                ((_, offs), tr) \<leftarrow> xsk_get_mmap_offsets K fd tr;
                (case offs of
                   None \<Rightarrow> sock_out_socket K addr fd (- errno_of K tr) umem rx tx tr
                 | Some off \<Rightarrow>
                     sock_map_rings K
                       \<lparr>xs_addr = addr, xs_rx = None, xs_tx = None, xs_config = cfg, xs_fd = fd, xs_ifindex = ix,
                        xs_prog_fd = 0, xs_map_fd = 0, xs_queue_id = queue_id, xs_ifname = take 15 ifname\<rparr>
                       umem off rx tx tr) } } } }"

text \<open>A UMEM at address 0 is NULL.\<close>

definition xsk_socket__create ::
    "'k os_scheme \<Rightarrow> bool \<Rightarrow> string \<Rightarrow> u32 \<Rightarrow> xsk_umem \<Rightarrow> ring_ptrs option \<Rightarrow> ring_ptrs option \<Rightarrow> xsk_socket_config option \<Rightarrow>
     strace \<Rightarrow> (sock_result \<times> strace) option" where
  "xsk_socket__create K xsk_ptr ifname queue_id umem rx tx usr_config tr =
     (if um_addr umem = 0 \<or> \<not> xsk_ptr \<or> (rx = None \<and> tx = None) then Some ((- EFAULT, None, umem, rx, tx), tr)
      else do {
        ((addr, _), tr) \<leftarrow> sys K (Calloc 88) tr;
        if addr = 0 then Some ((- ENOMEM, None, umem, rx, tx), tr)
        else
          (case xsk_set_xdp_socket_config usr_config of
             Inl err \<Rightarrow> sock_out_alloc K addr err umem rx tx tr
           | Inr cfg \<Rightarrow>
               if um_refcount umem \<noteq> 0 \<and> libbpf_flags cfg AND XSK_LIBBPF_FLAGS__INHIBIT_PROG_LOAD = 0
               then sock_out_alloc K addr (- EBUSY) umem rx tx tr
               else do {
                 ((fd, umem), tr) \<leftarrow> sock_open K umem tr;
                 if fd < 0 then sock_out_alloc K addr (- errno_of K tr) umem rx tx tr
                 else sock_configure K addr fd cfg ifname queue_id umem rx tx tr }) })"

text \<open>\<open>xsk_socket__delete\<close>: the UMEM with one reference less.\<close>

definition xsk_socket__delete :: "'k os_scheme \<Rightarrow> xsk_socket option \<Rightarrow> xsk_umem \<Rightarrow> strace \<Rightarrow> (xsk_umem \<times> strace) option" where
  "xsk_socket__delete K xsk umem tr =
     (case xsk of
        None \<Rightarrow> Some (umem, tr)
      | Some x \<Rightarrow> do {
          tr \<leftarrow> (if xs_prog_fd x \<noteq> -1
                then do { tr \<leftarrow> xsk_delete_bpf_maps K x tr; map_option snd (sys K (Close (xs_prog_fd x)) tr) }
                else Some tr);
          ((_, offs), tr) \<leftarrow> xsk_get_mmap_offsets K (xs_fd x) tr;
          tr \<leftarrow> (case offs of
              None \<Rightarrow> Some tr
            | Some off \<Rightarrow> do {
                tr \<leftarrow> (case xs_rx x of
                    None \<Rightarrow> Some tr
                  | Some q \<Rightarrow> munmap_if K True (uint (rp_ring q - ro_desc (off_rx off)), ring_len (off_rx off) (rx_size (xs_config x)) 16) tr);
                (case xs_tx x of
                   None \<Rightarrow> Some tr
                 | Some q \<Rightarrow> munmap_if K True (uint (rp_ring q - ro_desc (off_tx off)), ring_len (off_tx off) (tx_size (xs_config x)) 16) tr) });
          let umem = umem\<lparr>um_refcount := um_refcount umem - 1\<rparr>;
          tr \<leftarrow> (if xs_fd x \<noteq> um_fd umem then map_option snd (sys K (Close (xs_fd x)) tr) else Some tr);
          (_, tr) \<leftarrow> sys K (Free (xs_addr x)) tr;
          Some (umem, tr) })"

section \<open>Mappings and blocks\<close>

text \<open>What is held besides descriptors.\<close>

fun no_fd :: "resource \<Rightarrow> bool" where
  "no_fd (Fd _) = False"
| "no_fd _ = True"

definition mem_held :: "resource multiset \<Rightarrow> strace \<Rightarrow> resource multiset" where
  "mem_held R tr = filter_mset no_fd (held R tr)"

fun mem_effect :: "scall \<times> int \<times> bytes \<Rightarrow> resource multiset \<Rightarrow> resource multiset" where
  "mem_effect (Mmap n _ _, rv, _) R = (if 0 \<le> rv then add_mset (Mapping rv n) R else R)"
| "mem_effect (Calloc _, rv, _) R = (if rv \<noteq> 0 then add_mset (Block rv) R else R)"
| "mem_effect (Malloc _, rv, _) R = (if rv \<noteq> 0 then add_mset (Block rv) R else R)"
| "mem_effect (Munmap a n, _, _) R = R - {#Mapping a n#}"
| "mem_effect (Free a, _, _) R = R - {#Block a#}"
| "mem_effect _ R = R"

lemma filter_effect: "filter_mset no_fd (effect x R) = mem_effect x (filter_mset no_fd R)"
  by (cases "(x, R)" rule: effect.cases) (auto simp: filter_diff_mset)

lemma mem_held_snoc [simp]: "mem_held R (tr @ [x]) = mem_effect x (mem_held R tr)"
  by (simp add: mem_held_def filter_effect)

lemma mem_held_cong: "held R tr' = held R tr \<Longrightarrow> mem_held R tr' = mem_held R tr"
  by (simp add: mem_held_def)

lemma mem_held_fd: "held R tr' = fd_held fd + held R tr \<Longrightarrow> mem_held R tr' = mem_held R tr"
  by (auto simp: mem_held_def fd_held_def split: if_splits)

text \<open>Functions that keep mappings and blocks.\<close>

definition keeps :: "('a \<times> strace) option \<Rightarrow> strace \<Rightarrow> bool" where
  "keeps m tr \<longleftrightarrow> (\<forall>a tr' R. m = Some (a, tr') \<longrightarrow> mem_held R tr' = mem_held R tr)"

lemma keeps_Some [simp]: "keeps (Some (a, tr)) tr"
  by (simp add: keeps_def)

lemma keeps_None [simp]: "keeps None tr"
  by (simp add: keeps_def)

lemma keeps_bind: "keeps m tr \<Longrightarrow> (\<And>a tr'. m = Some (a, tr') \<Longrightarrow> keeps (f (a, tr')) tr') \<Longrightarrow> keeps (m \<bind> f) tr"
  by (fastforce simp: keeps_def Option.bind_eq_Some_conv)

lemma keeps_if: "(c \<Longrightarrow> keeps a tr) \<Longrightarrow> (\<not> c \<Longrightarrow> keeps b tr) \<Longrightarrow> keeps (if c then a else b) tr"
  by simp

fun no_mem :: "scall \<Rightarrow> bool" where
  "no_mem (Mmap _ _ _) = False"
| "no_mem (Munmap _ _) = False"
| "no_mem (Calloc _) = False"
| "no_mem (Malloc _) = False"
| "no_mem (Free _) = False"
| "no_mem _ = True"

lemma mem_effect_no_mem: "no_mem c \<Longrightarrow> mem_effect (c, r) R = R"
  by (cases r; cases c) auto

lemma keeps_sys: "no_mem c \<Longrightarrow> keeps (sys K c tr) tr"
  by (auto simp: keeps_def sys_def mem_effect_no_mem split: prod.splits)

lemma keeps_sys_bpf: "keeps (sys_bpf K cmd tr) tr"
  unfolding sys_bpf_def by (auto intro!: keeps_bind keeps_sys)

lemma keeps_wlp: "(\<And>R. wlp m (\<lambda>_ tr'. held R tr' = held R tr)) \<Longrightarrow> keeps m tr"
  by (auto simp: keeps_def wlp_def intro!: mem_held_cong)

lemma keeps_load: "keeps (bpf_load_program K type insns n license kv log_buf sz tr) tr"
  unfolding bpf_load_program_def keeps_def using load_program_xattr_held unfolding wlp_def by (blast intro: mem_held_fd)

lemmas keeps_intros = keeps_bind keeps_if keeps_sys keeps_sys_bpf

lemma keeps_max_queues: "keeps (xsk_get_max_queues K xsk tr) tr"
  unfolding xsk_get_max_queues_def by (auto intro!: keeps_intros simp: Let_def)

lemma keeps_create_maps: "keeps (xsk_create_bpf_maps K xsk tr) tr"
  unfolding xsk_create_bpf_maps_def bpf_create_map_name_def bpf_create_map_xattr_def
  by (auto intro!: keeps_intros keeps_max_queues)

lemma keeps_load_prog: "keeps (xsk_load_xdp_prog K xsk tr) tr"
  unfolding xsk_load_xdp_prog_def Let_def
  by (auto intro!: keeps_intros keeps_load keeps_wlp [OF set_link_xdp_fd_held])

lemma keeps_lookup_maps: "keeps (lookup_maps K ids map_fd tr) tr"
proof (induction ids arbitrary: map_fd tr)
  case (Cons i ids)
  then show ?case
    unfolding lookup_maps.simps bpf_map_get_fd_by_id_def bpf_obj_get_info_by_fd_def
    by (auto intro!: keeps_intros)
qed simp

text \<open>Looking the map up frees its array of identifiers.\<close>

lemma keeps_result: "keeps m tr \<Longrightarrow> m = Some (a, tr') \<Longrightarrow> mem_held R tr' = mem_held R tr"
  by (simp add: keeps_def)

lemma keeps_lookup: "keeps (xsk_lookup_bpf_maps K xsk tr) tr"
proof -
  have "wlp (xsk_lookup_bpf_maps K xsk tr) (\<lambda>_ tr'. mem_held R tr' = mem_held R tr)" for R
    unfolding xsk_lookup_bpf_maps_def bpf_obj_get_info_by_fd_def
    by (auto intro!: wlp_bind_sys_bpf wlp_bind_sys wlp_let wlp_if
        wlp_bind_pure [of "lookup_maps _ _ _ _"] dest!: keeps_result [OF keeps_lookup_maps, where R = R]
        simp del: append_assoc)
  then show ?thesis by (simp add: keeps_def wlp_def)
qed

lemma delete_maps_mem: "xsk_delete_bpf_maps K xsk tr = Some tr' \<Longrightarrow> mem_held R tr' = mem_held R tr"
  unfolding xsk_delete_bpf_maps_def bpf_map_delete_elem_def
  by (auto simp: sys_bpf_def sys_def split: prod.splits simp del: append_assoc)

lemma keeps_bind_trace:
  "(\<And>tr' R. m = Some tr' \<Longrightarrow> mem_held R tr' = mem_held R tr) \<Longrightarrow> (\<And>tr'. m = Some tr' \<Longrightarrow> keeps (f tr') tr') \<Longrightarrow> keeps (m \<bind> f) tr"
  by (cases m) (auto simp: keeps_def)

lemma keeps_enter_map: "keeps (xsk_enter_map K xsk tr) tr"
  unfolding xsk_enter_map_def xsk_set_bpf_maps_def bpf_map_update_elem_def
  by (intro keeps_bind keeps_if keeps_sys_bpf keeps_Some)
    (auto intro!: keeps_bind keeps_sys keeps_bind_trace dest: delete_maps_mem)

lemma keeps_setup: "keeps (xsk_setup_xdp_prog K xsk tr) tr"
  unfolding xsk_setup_xdp_prog_def bpf_prog_get_fd_by_id_def
  by (auto intro!: keeps_bind keeps_if keeps_sys keeps_sys_bpf keeps_wlp [OF get_link_xdp_id_held] keeps_create_maps
      keeps_load_prog keeps_enter_map keeps_lookup keeps_bind_trace [of "xsk_delete_bpf_maps _ _ _"] simp: Let_def dest: delete_maps_mem)

section \<open>Errors of socket creation\<close>

text \<open>A creation that failed: no socket, the UMEM as given, and the mappings and blocks given.\<close>

definition sock_failed :: "resource multiset \<Rightarrow> xsk_umem \<Rightarrow> resource multiset \<Rightarrow> sock_result \<Rightarrow> strace \<Rightarrow> bool" where
  "sock_failed R umem M r tr' \<longleftrightarrow> (case r of (_, xsk, umem', _, _) \<Rightarrow> xsk = None \<and> umem' = umem \<and> mem_held R tr' = M)"

lemma sock_out_alloc_wlp:
  "mem_held R tr = add_mset (Block addr) M \<Longrightarrow> wlp (sock_out_alloc K addr err umem rx tx tr) (sock_failed R umem M)"
  unfolding sock_out_alloc_def by (auto intro!: wlp_bind_sys simp: sock_failed_def)

lemma sock_out_socket_wlp:
  assumes "mem_held R tr = add_mset (Block addr) M"
  shows "wlp (sock_out_socket K addr fd err (umem\<lparr>um_refcount := um_refcount umem + 1\<rparr>) rx tx tr) (sock_failed R umem M)"
proof -
  have "keeps (map_option (\<lambda>(_, tr). ((), tr)) (sys K (Close fd) tr)) tr"
    using keeps_sys [of "Close fd" K tr] by (auto simp: keeps_def)
  then have "map_option snd (sys K (Close fd) tr) = Some tr' \<Longrightarrow> mem_held R tr' = mem_held R tr" for tr'
    by (auto simp: keeps_def)
  then show ?thesis
    using assms unfolding sock_out_socket_def
    by (auto intro!: wlp_bind_pure sock_out_alloc_wlp simp: Let_def)
qed

lemma munmap_if_mem:
  "munmap_if K c (m, n) tr = Some tr' \<Longrightarrow> mem_held R tr' = mem_held R tr - (if c then {#Mapping m n#} else {#})"
  by (cases "os_reply K tr (Munmap m n)") (auto simp: munmap_if_def sys_def split: if_splits)

definition ring_held :: "ring_ptrs option \<Rightarrow> int \<times> nat \<Rightarrow> resource multiset" where
  "ring_held r mn = (if r \<noteq> None then {#Mapping (fst mn) (snd mn)#} else {#})"

lemma ring_held_simps [simp]: "ring_held None mn = {#}" "ring_held (Some q) (m, n) = {#Mapping m n#}"
  by (simp_all add: ring_held_def)

lemma sock_out_mmap_rx_wlp:
  assumes "mem_held R tr = add_mset (Block addr) (ring_held rx rx_map + M)"
  shows "wlp (sock_out_mmap_rx K rx_map addr fd err (umem\<lparr>um_refcount := um_refcount umem + 1\<rparr>) rx tx tr) (sock_failed R umem M)"
  using assms unfolding sock_out_mmap_rx_def
  by (cases rx_map) (auto intro!: wlp_bind_pure sock_out_socket_wlp simp: ring_held_def dest!: munmap_if_mem [where R = R] split: if_splits)

lemma sock_out_mmap_tx_wlp:
  assumes "mem_held R tr = add_mset (Block addr) (ring_held tx tx_map + (ring_held rx rx_map + M))"
  shows "wlp (sock_out_mmap_tx K tx_map rx_map addr fd err (umem\<lparr>um_refcount := um_refcount umem + 1\<rparr>) rx tx tr) (sock_failed R umem M)"
  using assms unfolding sock_out_mmap_tx_def
  by (cases tx_map) (auto intro!: wlp_bind_pure sock_out_mmap_rx_wlp simp: ring_held_def [of tx] dest!: munmap_if_mem [where R = R] split: if_splits)

lemma map_ring_mem:
  assumes "map_ring K fd pg off n r tr = Some ((m, r'), tr')"
  shows "m = MAP_FAILED \<and> mem_held R tr' = mem_held R tr \<or>
    m \<noteq> MAP_FAILED \<and> mem_held R tr' = ring_held r' (m, ring_len off n 16) + mem_held R tr"
proof (cases r)
  case None
  then show ?thesis using assms by (auto simp: map_ring_def MAP_FAILED_def)
next
  case (Some q)
  then show ?thesis using assms
    by (cases "os_reply K tr (Mmap (ring_len off n 16) fd pg)")
      (auto simp: map_ring_def sys_mmap_def sys_def MAP_FAILED_def split: if_splits)
qed

definition sock_post :: "resource multiset \<Rightarrow> xsk_umem \<Rightarrow> resource multiset \<Rightarrow> sock_result \<Rightarrow> strace \<Rightarrow> bool" where
  "sock_post R umem M r tr' \<longleftrightarrow> (fst (snd r) = None \<longrightarrow> sock_failed R umem M r tr')"

lemma sock_postI: "wlp m (sock_failed R umem M) \<Longrightarrow> wlp m (sock_post R umem M)"
  by (auto simp: wlp_def sock_post_def)

lemma sock_post_Some [simp]: "sock_post R umem M (err, Some xsk, r) tr'"
  by (simp add: sock_post_def)

lemma ring_held_map_option [simp]: "ring_held (map_option f r) mn = ring_held r mn"
  by (simp add: ring_held_def)

lemma sock_bind_keeps: "keeps (sock_bind K xsk umem tr) tr"
  unfolding sock_bind_def by (auto intro!: keeps_bind keeps_sys)

lemma wlp_bind_keeps:
  assumes "keeps m tr" and "\<And>a tr'. mem_held R tr' = mem_held R tr \<Longrightarrow> wlp (f (a, tr')) Q"
  shows "wlp (m \<bind> f) Q"
proof (rule wlp_bind_pure)
  fix v assume v: "m = Some v"
  then show "wlp (f v) Q" using assms(2) keeps_result [OF assms(1), of "fst v" "snd v" R] by (cases v) simp
qed

lemma wlp_bind_map_ring:
  assumes "\<And>r' tr'. mem_held R tr' = mem_held R tr \<Longrightarrow> wlp (f ((MAP_FAILED, r'), tr')) Q"
    and "\<And>m r' tr'. m \<noteq> MAP_FAILED \<Longrightarrow> mem_held R tr' = ring_held r' (m, ring_len off n 16) + mem_held R tr \<Longrightarrow> wlp (f ((m, r'), tr')) Q"
  shows "wlp (map_ring K fd pg off n r tr \<bind> f) Q"
  using assms map_ring_mem [where R = R] by (intro wlp_bind_pure) fastforce

lemma sock_map_rings_wlp:
  assumes "mem_held R tr = add_mset (Block (xs_addr xsk)) M"
  shows "wlp (sock_map_rings K xsk (umem\<lparr>um_refcount := um_refcount umem + 1\<rparr>) off rx tx tr) (sock_post R umem M)"
proof -
  have prg: "keeps (if c then xsk_setup_xdp_prog K x tr1 else Some ((0, x), tr1)) tr1" for c x tr1
    by (simp add: keeps_setup)
  show ?thesis
    unfolding sock_map_rings_def Let_def
    by ((rule wlp_bind_map_ring [where R = R]; simp only: prod.case refl if_True if_False),
        rule sock_postI, rule sock_out_socket_wlp, simp add: assms,
        (rule wlp_bind_map_ring [where R = R]; simp only: prod.case refl if_True if_False),
        rule sock_postI, rule sock_out_mmap_rx_wlp, simp add: assms,
        rule wlp_bind_keeps [OF sock_bind_keeps, where R = R], simp only: prod.case, rule wlp_if,
        rule sock_postI, rule sock_out_mmap_tx_wlp, simp add: assms,
        rule wlp_bind_keeps [OF prg, where R = R], simp only: split_paired_all prod.case, rule wlp_if,
        rule sock_postI, rule sock_out_mmap_tx_wlp, simp add: assms) simp
qed

lemma set_ring_size_keeps: "keeps (set_ring_size K fd opt r n tr) tr"
  unfolding set_ring_size_def by (auto intro!: keeps_bind keeps_sys)

lemma mmap_offsets_keeps: "keeps (xsk_get_mmap_offsets K fd tr) tr"
  unfolding xsk_get_mmap_offsets_def by (auto intro!: keeps_bind keeps_sys)

lemma sock_configure_wlp:
  assumes "mem_held R tr = add_mset (Block addr) M"
  shows "wlp (sock_configure K addr fd cfg ifname queue_id (umem\<lparr>um_refcount := um_refcount umem + 1\<rparr>) rx tx tr) (sock_post R umem M)"
proof -
  note out = sock_postI [OF sock_out_socket_wlp]
  have ix: "keeps (sys K (IfIndex ifname) tr) tr" by (simp add: keeps_sys)
  show ?thesis
    unfolding sock_configure_def
    by (rule wlp_bind_keeps [OF ix, where R = R], unfold split_paired_all prod.case, rule wlp_if, rule out, simp add: assms,
        rule wlp_bind_keeps [OF set_ring_size_keeps, where R = R], unfold prod.case, rule wlp_if, rule out, simp add: assms,
        rule wlp_bind_keeps [OF set_ring_size_keeps, where R = R], unfold prod.case, rule wlp_if, rule out, simp add: assms,
        rule wlp_bind_keeps [OF mmap_offsets_keeps, where R = R])
      (auto intro!: out sock_map_rings_wlp simp: assms split: option.split)
qed

lemma socket_create_wlp:
  assumes "um_refcount umem = 0" and "0 \<le> um_fd umem"
  shows "wlp (xsk_socket__create K xsk_ptr ifname queue_id umem rx tx usr tr) (sock_post R umem (mem_held R tr))"
proof -
  have open0: "sock_open K umem tr1 = Some ((um_fd umem, umem\<lparr>um_refcount := um_refcount umem + 1\<rparr>), tr1)" for tr1
    using assms by (simp add: sock_open_def Let_def)
  have fail: "sock_post R umem (mem_held R tr) (err, None, umem, rx, tx) tr'" if "mem_held R tr' = mem_held R tr" for err tr'
    using that by (simp add: sock_post_def sock_failed_def)
  show ?thesis
    unfolding xsk_socket__create_def open0 bind.bind_lunit prod.case
  proof (rule wlp_if)
    show "wlp (Some ((- EFAULT, None, umem, rx, tx), tr)) (sock_post R umem (mem_held R tr))" by (simp add: fail)
  next
    show "wlp (sys K (Calloc 88) tr \<bind> (\<lambda>((addr, _), tr).
        if addr = 0 then Some ((- ENOMEM, None, umem, rx, tx), tr)
        else case xsk_set_xdp_socket_config usr of
            Inl err \<Rightarrow> sock_out_alloc K addr err umem rx tx tr
          | Inr cfg \<Rightarrow>
              if um_refcount umem \<noteq> 0 \<and> libbpf_flags cfg AND XSK_LIBBPF_FLAGS__INHIBIT_PROG_LOAD = 0
              then sock_out_alloc K addr (- EBUSY) umem rx tx tr
              else if um_fd umem < 0
                then sock_out_alloc K addr (- errno_of K tr) (umem\<lparr>um_refcount := um_refcount umem + 1\<rparr>) rx tx tr
              else sock_configure K addr (um_fd umem) cfg ifname queue_id (umem\<lparr>um_refcount := um_refcount umem + 1\<rparr>) rx tx tr))
      (sock_post R umem (mem_held R tr))"
      using assms(2)
      by (intro wlp_bind_sys)
        (auto intro!: fail sock_postI [OF sock_out_alloc_wlp] sock_configure_wlp [of R _ _ _ K _ _ _ _ umem, unfolded assms(1), simplified]
          simp: assms(1) split: sum.split)
  qed
qed

section \<open>Registration\<close>

text \<open>A descriptor of a map among \<open>ids\<close> that the kernel calls \<open>xsks_map\<close>.\<close>

definition found_map :: "u32 list \<Rightarrow> int \<Rightarrow> strace \<Rightarrow> bool" where
  "found_map ids fd tr \<longleftrightarrow> 0 \<le> fd \<and> (\<exists>i d info. i \<in> set ids \<and> (Bpf (MAP_GET_FD_BY_ID i), fd, d) \<in> set tr \<and>
     (Bpf (OBJ_GET_INFO_BY_FD fd 80), 0, info) \<in> set tr \<and> map_info_name info = xsks_map_name)"

lemma found_map_mono: "found_map ids fd tr \<Longrightarrow> set ids \<subseteq> set ids' \<Longrightarrow> set tr \<subseteq> set tr' \<Longrightarrow> found_map ids' fd tr'"
  unfolding found_map_def by blast

lemma c_ret_0 [simp]: "c_ret rv = 0 \<longleftrightarrow> rv = 0"
  by (simp add: c_ret_def)

definition map_post :: "u32 list \<Rightarrow> int \<Rightarrow> strace \<Rightarrow> int \<Rightarrow> strace \<Rightarrow> bool" where
  "map_post ids fd0 tr fd tr' \<longleftrightarrow> set tr \<subseteq> set tr' \<and> (fd = fd0 \<or> found_map ids fd tr')"

lemma map_post_step: "wlp m (map_post ids fd0 (tr @ new)) \<Longrightarrow> wlp m (map_post (i # ids) fd0 tr)"
  by (auto simp: wlp_def map_post_def intro: found_map_mono)

lemma map_post_found: "wlp m (map_post ids fd (tr @ new)) \<Longrightarrow> found_map [i] fd new \<Longrightarrow> wlp m (map_post (i # ids) fd0 tr)"
  using found_map_mono [of "[i]" fd new "i # ids"] found_map_mono [of ids _ _ "i # ids"]
  unfolding wlp_def map_post_def by auto blast+

lemma lookup_maps_found: "wlp (lookup_maps K ids fd0 tr) (map_post ids fd0 tr)"
proof (induction ids arbitrary: fd0 tr)
  case (Cons i ids)
  show ?case
    unfolding lookup_maps.simps bpf_map_get_fd_by_id_def bpf_obj_get_info_by_fd_def
    by (simp, intro wlp_bind_sys_bpf)
      (auto intro!: wlp_bind_sys_bpf wlp_bind_sys map_post_step [OF Cons.IH] map_post_found [OF Cons.IH] simp: found_map_def)
qed (simp add: map_post_def)

text \<open>A map that the kernel lists for the program of a descriptor.\<close>

definition map_of_prog :: "int \<Rightarrow> int \<Rightarrow> strace \<Rightarrow> bool" where
  "map_of_prog prog_fd fd tr \<longleftrightarrow>
     (\<exists>n ids. (Bpf (PROG_MAP_IDS prog_fd n), 0, ids) \<in> set tr \<and> found_map (words32 n ids) fd tr)"

lemma map_of_prog_append: "map_of_prog prog_fd fd tr \<Longrightarrow> map_of_prog prog_fd fd (tr @ new)"
  unfolding map_of_prog_def by (force intro: found_map_mono)

definition lookup_post :: "xsk_socket \<Rightarrow> strace \<Rightarrow> int \<times> xsk_socket \<Rightarrow> strace \<Rightarrow> bool" where
  "lookup_post xsk tr r tr' \<longleftrightarrow> (fst r = 0 \<longrightarrow> set tr \<subseteq> set tr' \<and>
     map_of_prog (xs_prog_fd xsk) (xs_map_fd (snd r)) tr' \<and> snd r = xsk\<lparr>xs_map_fd := xs_map_fd (snd r)\<rparr>)"

lemma lookup_post_fail: "err \<noteq> 0 \<Longrightarrow> lookup_post xsk tr (err, x) tr'"
  by (simp add: lookup_post_def)

lemma lookup_post_ok:
  "set tr \<subseteq> set tr1 \<Longrightarrow> map_of_prog (xs_prog_fd xsk) fd tr1 \<Longrightarrow> lookup_post xsk tr (0, xsk\<lparr>xs_map_fd := fd\<rparr>) (tr1 @ new)"
  by (auto simp: lookup_post_def intro: map_of_prog_append)

lemma lookup_bpf_maps_found: "wlp (xsk_lookup_bpf_maps K xsk tr) (lookup_post xsk tr)"
proof -
  have maps: "wlp (lookup_maps K (words32 n ids) (-1) tr1 \<bind> (\<lambda>(map_fd, tr).
      sys K (Free addr) tr \<bind> (\<lambda>(_, tr). Some ((if map_fd = -1 then - ENOENT else 0, xsk\<lparr>xs_map_fd := map_fd\<rparr>), tr)))) (lookup_post xsk tr)"
    if "set tr \<subseteq> set tr1" "(Bpf (PROG_MAP_IDS (xs_prog_fd xsk) n), 0, ids) \<in> set tr1" for n ids tr1 addr
  proof (rule wlp_bind, rule wlp_mono [OF lookup_maps_found])
    fix fd tr2
    assume "map_post (words32 n ids) (-1) tr1 fd tr2"
    then have "set tr \<subseteq> set tr2" "fd = -1 \<or> map_of_prog (xs_prog_fd xsk) fd tr2"
      using that unfolding map_post_def map_of_prog_def by blast+
    then show "wlp (case (fd, tr2) of (map_fd, tr) \<Rightarrow>
        sys K (Free addr) tr \<bind> (\<lambda>(_, tr). Some ((if map_fd = -1 then - ENOENT else 0, xsk\<lparr>xs_map_fd := map_fd\<rparr>), tr))) (lookup_post xsk tr)"
      by (auto intro!: wlp_bind_sys lookup_post_ok simp: lookup_post_fail ENOENT_def)
  qed
  show ?thesis
    unfolding xsk_lookup_bpf_maps_def bpf_obj_get_info_by_fd_def
    by (auto intro!: wlp_bind_sys_bpf wlp_bind_sys wlp_let wlp_if maps lookup_post_fail simp: ENOMEM_def)
qed

lemma enter_map_registers:
  assumes "xs_rx xsk \<noteq> None" and "xsk_enter_map K xsk tr = Some ((0, xsk'), tr')"
  shows "xsk' = xsk \<and> (\<exists>d. tr' = tr @ [(Bpf (MAP_UPDATE_ELEM (xs_map_fd xsk) (queue_key xsk) (fd_bytes (xs_fd xsk)) 0), 0, d)])"
proof -
  have "wlp (xsk_enter_map K xsk tr) (\<lambda>(err, x) tr'. err = 0 \<longrightarrow>
      x = xsk \<and> (\<exists>d. tr' = tr @ [(Bpf (MAP_UPDATE_ELEM (xs_map_fd xsk) (queue_key xsk) (fd_bytes (xs_fd xsk)) 0), 0, d)]))"
    using assms(1) unfolding xsk_enter_map_def xsk_set_bpf_maps_def bpf_map_update_elem_def
    by (auto intro!: wlp_bind_sys_bpf wlp_bind_pure [of "xsk_delete_bpf_maps _ _ _"] wlp_bind_sys)
  from wlp_result [OF this assms(2)] show ?thesis by simp
qed

section \<open>Properties\<close>

text \<open>
  C28: A socket that cannot be created on a fresh UMEM leaves no trace of it in memory: whatever the
  kernel answers, the mappings of the rings and the block of the socket are given back and the UMEM has
  the reference count it had, so that creation can be tried again.
\<close>

theorem xsk_socket__create_error:
  assumes "um_refcount umem = 0" and "0 \<le> um_fd umem"
    and "xsk_socket__create K xsk_ptr ifname queue_id umem rx tx usr tr = Some ((err, None, umem', rx', tx'), tr')"
  shows "umem' = umem \<and> mem_held R tr' = mem_held R tr"
  using wlp_result [OF socket_create_wlp [OF assms(1,2)] assms(3), of R] by (simp add: sock_post_def sock_failed_def)


definition demo_socket :: xsk_socket where
  "demo_socket = \<lparr>xs_addr = 4096, xs_rx = Some no_ring, xs_tx = None,
     xs_config = \<lparr>rx_size = 2048, tx_size = 2048, libbpf_flags = 0, cfg_xdp_flags = 2, bind_flags = 0\<rparr>,
     xs_fd = 3, xs_ifindex = 2, xs_prog_fd = -1, xs_map_fd = 0, xs_queue_id = 0, xs_ifname = ''eth0''\<rparr>"

lemma demo_setup:
  "\<exists>x tr'. xsk_setup_xdp_prog demo_os demo_socket [] = Some ((0, x), tr') \<and> xs_prog_fd x = 5 \<and> xs_map_fd x = 6"
proof -
  obtain tr1 where "bpf_get_link_xdp_id demo_os (xs_ifindex demo_socket) 0 (cfg_xdp_flags (xs_config demo_socket)) [] = Some ((0, 7), tr1)"
    using demo_link_id by (auto simp: demo_socket_def)
  then show ?thesis
    by (simp add: xsk_setup_xdp_prog_def bpf_prog_get_fd_by_id_def xsk_lookup_bpf_maps_def bpf_obj_get_info_by_fd_def
        bpf_map_get_fd_by_id_def sys_bpf_def sys_def demo_os_def seg_def Let_def xsk_enter_map_def xsk_set_bpf_maps_def
        bpf_map_update_elem_def map_info_name_def xsks_map_name_def)
qed


text \<open>A kernel on which every call succeeds but the one that binds the socket.\<close>

definition busy_os :: os where
  "busy_os = xsk_os\<lparr>os_reply := (\<lambda>tr c. case c of
       IfIndex _ \<Rightarrow> (2, [])
     | Bind _ _ \<Rightarrow> (- EBUSY, [])
     | _ \<Rightarrow> os_reply xsk_os tr c)\<rparr>"

definition demo_umem :: xsk_umem where
  "demo_umem = \<lparr>um_addr = 8192, um_fill = no_ring, um_comp = no_ring, um_area = 65536,
     um_config = xsk_set_umem_config None, um_fd = 3, um_refcount = 0\<rparr>"

lemma busy_create:
  "\<exists>err umem rx tx tr. xsk_socket__create busy_os True ''eth0'' 0 demo_umem (Some no_ring) (Some no_ring) None [] =
     Some ((err, None, umem, rx, tx), tr) \<and> err = - EBUSY"
  by (simp add: xsk_socket__create_def xsk_set_xdp_socket_config_def sock_open_def sock_configure_def sock_map_rings_def
      set_ring_size_def map_ring_def sock_bind_def sock_out_mmap_tx_def sock_out_mmap_rx_def sock_out_socket_def sock_out_alloc_def
      munmap_if_def xsk_get_mmap_offsets_def sys_mmap_def sys_def busy_os_def xsk_os_def ring_words_def demo_umem_def Let_def
      MAP_FAILED_def XDP_UMEM_PGOFF_FILL_RING_def EBUSY_def errno_of_def)

theorem xsk_socket__create_error_witness:
  "\<exists>rx tx tr. xsk_socket__create busy_os True ''eth0'' 0 demo_umem (Some no_ring) (Some no_ring) None [] =
     Some ((- EBUSY, None, demo_umem, rx, tx), tr) \<and> mem_held {#} tr = {#}"
proof -
  obtain umem rx tx tr where cr: "xsk_socket__create busy_os True ''eth0'' 0 demo_umem (Some no_ring) (Some no_ring) None [] =
     Some ((- EBUSY, None, umem, rx, tx), tr)"
    using busy_create by blast
  have "um_refcount demo_umem = 0" "0 \<le> um_fd demo_umem" by (simp_all add: demo_umem_def)
  from xsk_socket__create_error [OF this cr, of "{#}"] cr show ?thesis by (auto simp: mem_held_def)
qed

text \<open>
  A second socket on the same UMEM is not so lucky: when it gets no descriptor, the count stays up, and
  the UMEM can no longer be deleted.
\<close>

lemma shared_socket_failure_leaks_reference:
  assumes "0 < um_refcount umem" and "um_addr umem \<noteq> 0" and "xsk_ptr" and "rx \<noteq> None"
    and "libbpf_flags cfg = XSK_LIBBPF_FLAGS__INHIBIT_PROG_LOAD"
    and "os_reply K tr (Calloc 88) = (addr, d)" and "addr \<noteq> 0"
    and "os_reply K (tr @ [(Calloc 88, addr, d)]) (Socket AF_XDP SOCK_RAW 0) = (e, d')" and "e < 0"
  shows "\<exists>tr'. xsk_socket__create K xsk_ptr ifname queue_id umem rx tx (Some cfg) tr =
    Some ((e, None, umem\<lparr>um_refcount := um_refcount umem + 1\<rparr>, rx, tx), tr')"
  using assms by (cases "os_reply K (tr @ [(Calloc 88, addr, d), (Socket AF_XDP SOCK_RAW 0, e, d')]) (Free addr)")
    (auto simp: xsk_socket__create_def sys_def xsk_set_xdp_socket_config_def XSK_LIBBPF_FLAGS__INHIBIT_PROG_LOAD_def
      sock_open_def sock_out_alloc_def Let_def)

end
