(* ===== verification/Libbpf_Hashmap.thy ===== *)
theory Libbpf_Hashmap
  imports Libbpf_Sys
begin

text \<open>
  The hash map of the bundled libbpf (\<open>lib/libbpf/src/hashmap.c\<close>, \<open>hashmap.h\<close>): chained buckets whose
  number is doubled, used by the BTF functions with the hash functions at the end of the definitions.
  A chain is the list of its entries; \<open>None\<close> is an access outside the bucket array or to freed memory.
  Whether an allocation succeeds is an argument.
\<close>

section \<open>State\<close>

text \<open>The pointer \<open>buckets\<close>: NULL, dangling after \<open>free\<close>, or an array of chains of entries.\<close>

datatype 'e bucket_array = NullB | FreedB | Buckets "'e list list"

record ('k, 'v) hashmap =
  hash_fn :: "'k \<Rightarrow> u64"
  equal_fn :: "'k \<Rightarrow> 'k \<Rightarrow> bool"
  buckets :: "('k \<times> 'v) bucket_array"
  cap :: u64
  cap_bits :: u64
  sz :: u64

datatype hashmap_insert_strategy = HASHMAP_ADD | HASHMAP_SET | HASHMAP_UPDATE | HASHMAP_APPEND

definition EEXIST :: int where "EEXIST = 17"
definition HASHMAP_MIN_CAP_BITS :: u64 where "HASHMAP_MIN_CAP_BITS = 2"

text \<open>The machine takes the shift count modulo 64; it is 64 for a map without buckets, where the result is not used.\<close>

definition hash_bits :: "u64 \<Rightarrow> u64 \<Rightarrow> u64" where
  "hash_bits h bits = drop_bit ((64 - unat bits) mod 64) (h * 11400714819323198485)"

section \<open>Operations\<close>

definition hashmap_add_entry :: "'e list \<Rightarrow> 'e \<Rightarrow> 'e list" where
  "hashmap_add_entry chain e = e # chain"

text \<open>The entry at position \<open>i\<close> of its chain.\<close>

definition hashmap_del_entry :: "'e list \<Rightarrow> nat \<Rightarrow> 'e list" where
  "hashmap_del_entry chain i = take i chain @ drop (Suc i) chain"

definition hashmap__init :: "('k \<Rightarrow> u64) \<Rightarrow> ('k \<Rightarrow> 'k \<Rightarrow> bool) \<Rightarrow> ('k, 'v) hashmap" where
  "hashmap__init h eq = \<lparr>hash_fn = h, equal_fn = eq, buckets = NullB, cap = 0, cap_bits = 0, sz = 0\<rparr>"

definition hashmap__new :: "bool \<Rightarrow> ('k \<Rightarrow> u64) \<Rightarrow> ('k \<Rightarrow> 'k \<Rightarrow> bool) \<Rightarrow> int + ('k, 'v) hashmap" where
  "hashmap__new ok h eq = (if ok then Inr (hashmap__init h eq) else Inl (- ENOMEM))"

definition free_buckets :: "'e bucket_array \<Rightarrow> 'e bucket_array option" where
  "free_buckets b = (case b of NullB \<Rightarrow> Some NullB | FreedB \<Rightarrow> None | Buckets _ \<Rightarrow> Some FreedB)"

definition hashmap__clear :: "('k, 'v) hashmap \<Rightarrow> ('k, 'v) hashmap option" where
  "hashmap__clear m = do { b \<leftarrow> free_buckets (buckets m); Some (m\<lparr>buckets := b, cap := 0, cap_bits := 0, sz := 0\<rparr>) }"

definition hashmap__free :: "('k, 'v) hashmap option \<Rightarrow> unit option" where
  "hashmap__free m = (case m of None \<Rightarrow> Some () | Some m \<Rightarrow> do { _ \<leftarrow> hashmap__clear m; Some () })"

definition hashmap__size :: "('k, 'v) hashmap \<Rightarrow> u64" where
  "hashmap__size m = sz m"

definition hashmap__capacity :: "('k, 'v) hashmap \<Rightarrow> u64" where
  "hashmap__capacity m = cap m"

definition hashmap_needs_to_grow :: "('k, 'v) hashmap \<Rightarrow> bool" where
  "hashmap_needs_to_grow m \<longleftrightarrow> cap m = 0 \<or> (sz m + 1) * 4 div 3 > cap m"

text \<open>The entries in the order of \<open>hashmap__for_each_entry\<close>.\<close>

definition hashmap__for_each_entry :: "('k, 'v) hashmap \<Rightarrow> ('k \<times> 'v) list option" where
  "hashmap__for_each_entry m =
     (if cap m = 0 then Some []
      else case buckets m of
             Buckets bs \<Rightarrow> if unat (cap m) \<le> length bs then Some (concat (take (unat (cap m)) bs)) else None
           | _ \<Rightarrow> None)"

text \<open>The loop of \<open>hashmap_grow\<close>.\<close>

fun rehash :: "('k \<Rightarrow> u64) \<Rightarrow> u64 \<Rightarrow> ('k \<times> 'v) list \<Rightarrow> ('k \<times> 'v) list list \<Rightarrow> ('k \<times> 'v) list list option" where
  "rehash hash bits [] bs = Some bs"
| "rehash hash bits (e # es) bs =
     (let h = unat (hash_bits (hash (fst e)) bits) in
      if h < length bs then rehash hash bits es (bs[h := hashmap_add_entry (bs ! h) e]) else None)"

definition hashmap_grow :: "bool \<Rightarrow> ('k, 'v) hashmap \<Rightarrow> (int \<times> ('k, 'v) hashmap) option" where
  "hashmap_grow ok m =
     (let b = cap_bits m + 1;
          new_cap_bits = (if b < HASHMAP_MIN_CAP_BITS then HASHMAP_MIN_CAP_BITS else b);
          new_cap = push_bit (unat new_cap_bits mod 64) 1 in
      if \<not> ok then Some (- ENOMEM, m)
      else do {
        es \<leftarrow> hashmap__for_each_entry m;
        bs \<leftarrow> rehash (hash_fn m) new_cap_bits es (replicate (unat new_cap) []);
        _ \<leftarrow> free_buckets (buckets m);
        Some (0, m\<lparr>cap := new_cap, cap_bits := new_cap_bits, buckets := Buckets bs\<rparr>) })"

text \<open>The position in its chain, and the entry.\<close>

fun find_chain :: "('k \<Rightarrow> 'k \<Rightarrow> bool) \<Rightarrow> 'k \<Rightarrow> ('k \<times> 'v) list \<Rightarrow> (nat \<times> 'k \<times> 'v) option" where
  "find_chain eq key [] = None"
| "find_chain eq key (e # es) =
     (if eq (fst e) key then Some (0, e) else map_option (\<lambda>(i, x). (Suc i, x)) (find_chain eq key es))"

definition hashmap_find_entry :: "('k, 'v) hashmap \<Rightarrow> 'k \<Rightarrow> nat \<Rightarrow> (nat \<times> 'k \<times> 'v) option option" where
  "hashmap_find_entry m key h =
     (case buckets m of
        NullB \<Rightarrow> Some None
      | FreedB \<Rightarrow> None
      | Buckets bs \<Rightarrow> if h < length bs then Some (find_chain (equal_fn m) key (bs ! h)) else None)"

definition key_bucket :: "('k, 'v) hashmap \<Rightarrow> 'k \<Rightarrow> nat" where
  "key_bucket m key = unat (hash_bits (hash_fn m key) (cap_bits m))"

text \<open>Replace the chain \<open>h\<close>.\<close>

definition set_chain :: "nat \<Rightarrow> (('k \<times> 'v) list \<Rightarrow> ('k \<times> 'v) list) \<Rightarrow> ('k, 'v) hashmap \<Rightarrow> ('k, 'v) hashmap option" where
  "set_chain h f m =
     (case buckets m of
        Buckets bs \<Rightarrow> if h < length bs then Some (m\<lparr>buckets := Buckets (bs[h := f (bs ! h)])\<rparr>) else None
      | _ \<Rightarrow> None)"

text \<open>From the test for growth on; \<open>calloc_ok\<close> and \<open>malloc_ok\<close> say which allocations succeed.\<close>

definition insert_new :: "bool \<Rightarrow> bool \<Rightarrow> ('k, 'v) hashmap \<Rightarrow> 'k \<Rightarrow> 'v \<Rightarrow> (int \<times> ('k, 'v) hashmap) option" where
  "insert_new calloc_ok malloc_ok m key v =
     do { (err, m) \<leftarrow> (if hashmap_needs_to_grow m then hashmap_grow calloc_ok m else Some (0, m));
          if err \<noteq> 0 then Some (err, m)
          else if \<not> malloc_ok then Some (- ENOMEM, m)
          else do {
            m \<leftarrow> set_chain (key_bucket m key) (\<lambda>c. hashmap_add_entry c (key, v)) m;
            Some (0, m\<lparr>sz := sz m + 1\<rparr>) } }"

text \<open>The result, what \<open>*old_key\<close> and \<open>*old_value\<close> get (\<open>None\<close> for NULL), and the map.\<close>

definition hashmap__insert ::
    "bool \<Rightarrow> bool \<Rightarrow> ('k, 'v) hashmap \<Rightarrow> 'k \<Rightarrow> 'v \<Rightarrow> hashmap_insert_strategy \<Rightarrow> (int \<times> ('k \<times> 'v) option \<times> ('k, 'v) hashmap) option" where
  "hashmap__insert calloc_ok malloc_ok m key v strategy =
     do { found \<leftarrow> (if strategy \<noteq> HASHMAP_APPEND then hashmap_find_entry m key (key_bucket m key) else Some None);
          case found of
            Some (i, e) \<Rightarrow>
              if strategy = HASHMAP_SET \<or> strategy = HASHMAP_UPDATE
              then do { m \<leftarrow> set_chain (key_bucket m key) (\<lambda>c. c[i := (key, v)]) m; Some (0, Some e, m) }
              else Some (- EEXIST, Some e, m)
          | None \<Rightarrow>
              if strategy = HASHMAP_UPDATE then Some (- ENOENT, None, m)
              else do { (err, m) \<leftarrow> insert_new calloc_ok malloc_ok m key v; Some (err, None, m) } }"

definition hashmap__find :: "('k, 'v) hashmap \<Rightarrow> 'k \<Rightarrow> 'v option option" where
  "hashmap__find m key = do { found \<leftarrow> hashmap_find_entry m key (key_bucket m key); Some (map_option (\<lambda>(i, e). snd e) found) }"

definition hashmap__delete :: "('k, 'v) hashmap \<Rightarrow> 'k \<Rightarrow> (bool \<times> ('k \<times> 'v) option \<times> ('k, 'v) hashmap) option" where
  "hashmap__delete m key =
     do { found \<leftarrow> hashmap_find_entry m key (key_bucket m key);
          case found of
            None \<Rightarrow> Some (False, None, m)
          | Some (i, e) \<Rightarrow> do {
              m \<leftarrow> set_chain (key_bucket m key) (\<lambda>c. hashmap_del_entry c i) m;
              Some (True, Some e, m\<lparr>sz := sz m - 1\<rparr>) } }"

definition hashmap__add where
  "hashmap__add calloc_ok malloc_ok m key v = hashmap__insert calloc_ok malloc_ok m key v HASHMAP_ADD"

definition hashmap__set where
  "hashmap__set calloc_ok malloc_ok m key v = hashmap__insert calloc_ok malloc_ok m key v HASHMAP_SET"

definition hashmap__update where
  "hashmap__update calloc_ok malloc_ok m key v = hashmap__insert calloc_ok malloc_ok m key v HASHMAP_UPDATE"

definition hashmap__append where
  "hashmap__append calloc_ok malloc_ok m key v = hashmap__insert calloc_ok malloc_ok m key v HASHMAP_APPEND"

text \<open>The entries \<open>hashmap__for_each_key_entry\<close> visits.\<close>

definition hashmap__for_each_key_entry :: "('k, 'v) hashmap \<Rightarrow> 'k \<Rightarrow> ('k \<times> 'v) list option" where
  "hashmap__for_each_key_entry m key =
     (case buckets m of
        NullB \<Rightarrow> Some []
      | FreedB \<Rightarrow> None
      | Buckets bs \<Rightarrow>
          if key_bucket m key < length bs then Some (filter (\<lambda>e. equal_fn m (fst e) key) (bs ! key_bucket m key)) else None)"

text \<open>The functions the BTF code passes; \<open>char\<close> is signed.\<close>

definition btf_dedup_identity_hash_fn :: "u64 \<Rightarrow> u64" where "btf_dedup_identity_hash_fn key = key"
definition btf_dedup_collision_hash_fn :: "u64 \<Rightarrow> u64" where "btf_dedup_collision_hash_fn key = 0"
definition btf_dedup_equal_fn :: "u64 \<Rightarrow> u64 \<Rightarrow> bool" where "btf_dedup_equal_fn k1 k2 \<longleftrightarrow> k1 = k2"

definition str_hash_fn :: "bytes \<Rightarrow> u64" where "str_hash_fn s = foldl (\<lambda>h c. h * 31 + scast c) 0 s"
definition str_equal_fn :: "bytes \<Rightarrow> bytes \<Rightarrow> bool" where "str_equal_fn a b \<longleftrightarrow> a = b"

text \<open>\<open>btf_dump_name_dups\<close>, with the map.\<close>

definition btf_dump_name_dups :: "bool \<Rightarrow> bool \<Rightarrow> (bytes, u64) hashmap \<Rightarrow> bytes \<Rightarrow> (u64 \<times> (bytes, u64) hashmap) option" where
  "btf_dump_name_dups calloc_ok malloc_ok m name =
     do { v \<leftarrow> hashmap__find m name;
          let dup_cnt = (case v of None \<Rightarrow> 0 | Some n \<Rightarrow> n) + 1;
          (_, _, m) \<leftarrow> hashmap__set calloc_ok malloc_ok m name dup_cnt;
          Some (dup_cnt, m) }"

section \<open>Invariant\<close>

definition entries :: "('k, 'v) hashmap \<Rightarrow> ('k \<times> 'v) list" where
  "entries m = (case buckets m of Buckets bs \<Rightarrow> concat bs | _ \<Rightarrow> [])"

definition chains_ok :: "('k \<Rightarrow> u64) \<Rightarrow> u64 \<Rightarrow> ('k \<times> 'v) list list \<Rightarrow> bool" where
  "chains_ok hash b bs \<longleftrightarrow> (\<forall>i < length bs. \<forall>e \<in> set (bs ! i). unat (hash_bits (hash (fst e)) b) = i)"

text \<open>An array of a power of two of chains, each entry in the chain of its key, and the number of entries in \<open>sz\<close>.\<close>

definition table_ok :: "('k, 'v) hashmap \<Rightarrow> bool" where
  "table_ok m \<longleftrightarrow>
     (case buckets m of
        NullB \<Rightarrow> cap m = 0 \<and> cap_bits m = 0
      | FreedB \<Rightarrow> False
      | Buckets bs \<Rightarrow> 2 \<le> unat (cap_bits m) \<and> unat (cap_bits m) < 64 \<and> unat (cap m) = 2 ^ unat (cap_bits m) \<and>
                     length bs = 2 ^ unat (cap_bits m) \<and> chains_ok (hash_fn m) (cap_bits m) bs)"

definition hm_ok :: "('k, 'v) hashmap \<Rightarrow> bool" where
  "hm_ok m \<longleftrightarrow> table_ok m \<and> unat (sz m) = length (entries m)"

text \<open>The entries of a key, in the order of their chain, and the one \<open>hashmap__find\<close> gets.\<close>

definition matches :: "('k, 'v) hashmap \<Rightarrow> 'k \<Rightarrow> ('k \<times> 'v) list" where
  "matches m k = filter (\<lambda>e. equal_fn m (fst e) k) (entries m)"

lemma hash_bits_less: "0 < unat b \<Longrightarrow> unat b < 64 \<Longrightarrow> unat (hash_bits h b) < 2 ^ unat b"
proof -
  assume b: "0 < unat b" "unat b < 64"
  have w: "unat (h * 11400714819323198485) < 2 ^ 64" using unsigned_less [of "h * 11400714819323198485", where 'a = nat] by simp
  then have "take_bit 64 (unat (h * 11400714819323198485)) = unat (h * 11400714819323198485)" by (simp only: take_bit_nat_eq_self)
  then have "unat (hash_bits h b) = unat (h * 11400714819323198485) div 2 ^ (64 - unat b)"
    using b by (simp add: hash_bits_def unsigned_drop_bit_eq flip: drop_bit_eq_div)
  moreover from w have "unat (h * 11400714819323198485) < 2 ^ (64 - unat b) * 2 ^ unat b"
    using b(2) by (simp only: power_add [symmetric]) simp
  ultimately show ?thesis by (simp add: less_mult_imp_div_less mult.commute)
qed

lemma concat_upd:
  assumes "h < length bs"
  shows "mset (concat (bs[h := c])) + mset (bs ! h) = mset (concat bs) + mset c"
    and "length (concat (bs[h := c])) + length (bs ! h) = length (concat bs) + length c"
proof -
  have "bs = take h bs @ bs ! h # drop (Suc h) bs" using assms by (rule id_take_nth_drop)
  then have "concat bs = concat (take h bs) @ bs ! h @ concat (drop (Suc h) bs)"
    by (metis concat.simps(2) concat_append)
  moreover have "concat (bs[h := c]) = concat (take h bs) @ c @ concat (drop (Suc h) bs)"
    using assms by (simp add: upd_conv_take_nth_drop)
  ultimately show "mset (concat (bs[h := c])) + mset (bs ! h) = mset (concat bs) + mset c"
    "length (concat (bs[h := c])) + length (bs ! h) = length (concat bs) + length c" by simp_all
qed

lemma chains_ok_upd:
  "chains_ok hash b bs \<Longrightarrow> \<forall>e \<in> set c. unat (hash_bits (hash (fst e)) b) = h \<Longrightarrow> chains_ok hash b (bs[h := c])"
  unfolding chains_ok_def length_list_update by (metis nth_list_update_eq nth_list_update_neq)

lemma find_chain_Some:
  "find_chain eq key c = Some (i, e) \<Longrightarrow>
     \<exists>xs ys. c = xs @ e # ys \<and> length xs = i \<and> eq (fst e) key \<and> (\<forall>x \<in> set xs. \<not> eq (fst x) key)"
proof (induction c arbitrary: i)
  case (Cons a c)
  show ?case
  proof (cases "eq (fst a) key")
    case False
    then obtain j where j: "find_chain eq key c = Some (j, e)" "i = Suc j" using Cons.prems by auto
    from Cons.IH [OF j(1)] obtain xs ys where "c = xs @ e # ys" "length xs = j" "eq (fst e) key" "\<forall>x \<in> set xs. \<not> eq (fst x) key"
      by blast
    then show ?thesis using False j(2) by (intro exI [of _ "a # xs"] exI [of _ ys]) simp
  qed (use Cons.prems in auto)
qed simp

lemma find_chain_eq:
  "find_chain eq key c = (case filter (\<lambda>e. eq (fst e) key) c of [] \<Rightarrow> None | e # _ \<Rightarrow> Some (length (takeWhile (\<lambda>e. \<not> eq (fst e) key) c), e))"
  by (induction c) (auto split: list.splits)

section \<open>Keys\<close>

text \<open>
  What the map asks of the functions of its caller: an equivalence, and equal hashes for equal keys. An
  entry is then in the chain of every key it is equal to.
\<close>

locale key_laws =
  fixes hash :: "'k \<Rightarrow> u64" and eq :: "'k \<Rightarrow> 'k \<Rightarrow> bool"
  assumes eq_refl: "eq k k"
    and eq_sym: "eq k1 k2 \<Longrightarrow> eq k2 k1"
    and eq_trans: "eq k1 k2 \<Longrightarrow> eq k2 k3 \<Longrightarrow> eq k1 k3"
    and eq_hash: "eq k1 k2 \<Longrightarrow> hash k1 = hash k2"
begin

lemma filter_chain:
  assumes "chains_ok hash b bs" and "h < length bs" and "h = unat (hash_bits (hash k) b)"
  shows "filter (\<lambda>e. eq (fst e) k) (concat bs) = filter (\<lambda>e. eq (fst e) k) (bs ! h)"
proof -
  have other: "filter (\<lambda>e. eq (fst e) k) (bs ! i) = []" if "i < length bs" "i \<noteq> h" for i
    using assms(1,3) that eq_hash by (fastforce simp: chains_ok_def filter_empty_conv)
  have "\<forall>c \<in> set (take h bs) \<union> set (drop (Suc h) bs). filter (\<lambda>e. eq (fst e) k) c = []"
    using assms(2) other by (auto simp: in_set_conv_nth)
  then have none: "concat (map (filter (\<lambda>e. eq (fst e) k)) (take h bs)) = []"
    "concat (map (filter (\<lambda>e. eq (fst e) k)) (drop (Suc h) bs)) = []" by (auto simp: concat_eq_Nil_conv)
  have "bs = take h bs @ bs ! h # drop (Suc h) bs" using assms(2) by (rule id_take_nth_drop)
  then have "filter (\<lambda>e. eq (fst e) k) (concat bs) = concat (map (filter (\<lambda>e. eq (fst e) k)) (take h bs @ bs ! h # drop (Suc h) bs))"
    by (metis filter_concat)
  then show ?thesis using none by simp
qed

text \<open>Rehashing keeps the entries, and turns the order of those of a key around.\<close>

lemma rehash_ok:
  assumes "chains_ok hash b bs" and "length bs = 2 ^ unat b" and "0 < unat b" and "unat b < 64"
  shows "\<exists>bs'. rehash hash b es bs = Some bs' \<and> length bs' = length bs \<and> chains_ok hash b bs' \<and>
    mset (concat bs') = mset es + mset (concat bs) \<and>
    (\<forall>k. filter (\<lambda>e. eq (fst e) k) (concat bs') = rev (filter (\<lambda>e. eq (fst e) k) es) @ filter (\<lambda>e. eq (fst e) k) (concat bs))"
  using assms(1,2)
proof (induction es arbitrary: bs)
  case (Cons e es)
  let ?h = "unat (hash_bits (hash (fst e)) b)"
  let ?bs = "bs[?h := hashmap_add_entry (bs ! ?h) e]"
  have h: "?h < length bs" using hash_bits_less [OF assms(3,4)] Cons.prems(2) by simp
  have ok: "chains_ok hash b ?bs"
    using Cons.prems(1) h by (intro chains_ok_upd) (auto simp: hashmap_add_entry_def chains_ok_def)
  have m: "mset (concat ?bs) = add_mset e (mset (concat bs))"
    using concat_upd(1) [OF h, of "hashmap_add_entry (bs ! ?h) e"] by (simp add: hashmap_add_entry_def)
  have f: "filter (\<lambda>x. eq (fst x) k) (concat ?bs) = filter (\<lambda>x. eq (fst x) k) [e] @ filter (\<lambda>x. eq (fst x) k) (concat bs)" for k
  proof -
    have i: "unat (hash_bits (hash k) b) < length bs" using hash_bits_less [OF assms(3,4)] Cons.prems(2) by simp
    show ?thesis
      using filter_chain [OF ok _ refl, of k] filter_chain [OF Cons.prems(1) i refl] i h eq_hash [of "fst e" k]
      by (auto simp: hashmap_add_entry_def nth_list_update split: if_splits)
  qed
  show ?case using Cons.IH [OF ok] Cons.prems(2) h m f by (auto simp: Let_def)
qed simp

text \<open>A table for these functions.\<close>

definition tab :: "('k, 'v) hashmap \<Rightarrow> bool" where
  "tab m \<longleftrightarrow> hash_fn m = hash \<and> equal_fn m = eq \<and> hm_ok m"

lemma tab_bucket:
  assumes "tab m" and "buckets m = Buckets bs"
  shows "key_bucket m k < length bs" and "matches m k = filter (\<lambda>e. eq (fst e) k) (bs ! key_bucket m k)"
proof -
  have m: "hash_fn m = hash" "equal_fn m = eq" "2 \<le> unat (cap_bits m)" "unat (cap_bits m) < 64" "length bs = 2 ^ unat (cap_bits m)"
    "chains_ok hash (cap_bits m) bs"
    using assms by (auto simp: tab_def hm_ok_def table_ok_def)
  then show l: "key_bucket m k < length bs" using hash_bits_less [of "cap_bits m"] by (simp add: key_bucket_def)
  show "matches m k = filter (\<lambda>e. eq (fst e) k) (bs ! key_bucket m k)"
    using filter_chain [OF m(6) l] m(1,2) assms(2) by (simp add: matches_def entries_def key_bucket_def)
qed

lemma tab_empty: "tab m \<Longrightarrow> buckets m = NullB \<Longrightarrow> matches m k = []"
  by (simp add: matches_def entries_def)

lemma matches_eq:
  assumes "tab m" and "eq key k"
  shows "matches m k = matches m key"
proof -
  have "eq x k \<longleftrightarrow> eq x key" for x using assms(2) eq_trans eq_sym by blast
  then show ?thesis using assms(1) by (simp add: matches_def tab_def)
qed

lemma tab_cases:
  assumes "tab m"
  obtains "buckets m = NullB" "cap m = 0" "cap_bits m = 0" "sz m = 0" | bs where "buckets m = Buckets bs"
  using assms by (cases "buckets m") (auto simp: tab_def hm_ok_def table_ok_def entries_def unat_eq_zero)

text \<open>Searching.\<close>

definition found :: "('k, 'v) hashmap \<Rightarrow> 'k \<Rightarrow> ('k \<times> 'v) option" where
  "found m k = (case matches m k of [] \<Rightarrow> None | e # _ \<Rightarrow> Some e)"

lemma find_entry_tab:
  assumes "tab m"
  shows "\<exists>r. hashmap_find_entry m k (key_bucket m k) = Some r \<and> map_option snd r = found m k"
  using assms
proof (cases rule: tab_cases)
  case 1
  then show ?thesis using assms by (simp add: hashmap_find_entry_def found_def tab_empty)
next
  case (2 bs)
  have "equal_fn m = eq" using assms by (simp add: tab_def)
  then show ?thesis using 2 tab_bucket [OF assms 2, of k]
    by (auto simp: hashmap_find_entry_def found_def find_chain_eq split: list.splits)
qed

lemma find_tab: "tab m \<Longrightarrow> hashmap__find m k = Some (map_option snd (found m k))"
  using find_entry_tab [of m k]
  by (auto simp: hashmap__find_def option.map_comp comp_def case_prod_unfold dest!: arg_cong [of _ _ "map_option snd"])

lemma key_entries_tab:
  assumes "tab m"
  shows "hashmap__for_each_key_entry m k = Some (matches m k)"
  using assms
proof (cases rule: tab_cases)
  case 1
  then show ?thesis using assms by (simp add: hashmap__for_each_key_entry_def tab_empty)
next
  case (2 bs)
  then show ?thesis using tab_bucket [OF assms 2, of k] assms by (simp add: hashmap__for_each_key_entry_def tab_def)
qed

text \<open>Replacing the chain of a key.\<close>

lemma set_chain_tab:
  assumes "tab m" and "buckets m = Buckets bs" and "\<forall>e \<in> set (f (bs ! key_bucket m key)). hash (fst e) = hash key \<or> e \<in> set (bs ! key_bucket m key)"
    and "length (f (bs ! key_bucket m key)) + length (entries m) < 2 ^ 64"
    and "n = word_of_nat (length (entries m) - length (bs ! key_bucket m key) + length (f (bs ! key_bucket m key)))"
  shows "\<exists>m'. set_chain (key_bucket m key) f m = Some m' \<and> sz m' = sz m \<and> tab (m'\<lparr>sz := n\<rparr>) \<and>
    (\<forall>k. matches (m'\<lparr>sz := n\<rparr>) k =
       (if key_bucket m k = key_bucket m key then filter (\<lambda>e. eq (fst e) k) (f (bs ! key_bucket m key)) else matches m k))"
proof -
  let ?h = "key_bucket m key"
  let ?m = "m\<lparr>buckets := Buckets (bs[?h := f (bs ! ?h)])\<rparr>"
  have h: "key_bucket m k < length bs" for k by (rule tab_bucket(1) [OF assms(1,2)])
  have m: "hash_fn m = hash" "equal_fn m = eq" "hm_ok m" using assms(1) by (simp_all add: tab_def)
  have c: "chains_ok hash (cap_bits m) bs" using m assms(2) by (simp add: hm_ok_def table_ok_def)
  then have "\<forall>e \<in> set (f (bs ! ?h)). unat (hash_bits (hash (fst e)) (cap_bits m)) = ?h"
    using assms(3) h m(1) unfolding chains_ok_def key_bucket_def by metis
  then have ok: "chains_ok hash (cap_bits m) (bs[?h := f (bs ! ?h)])" by (rule chains_ok_upd [OF c])
  have "length (entries ?m) = length (entries m) - length (bs ! ?h) + length (f (bs ! ?h))"
    using concat_upd(2) [OF h [of key], of "f (bs ! ?h)"] concat_upd(2) [OF h [of key], of "[]"] assms(2) by (simp add: entries_def)
  moreover have "unat n = length (entries m) - length (bs ! ?h) + length (f (bs ! ?h))"
    unfolding assms(5) unat_of_nat by (rule mod_less) (use assms(4) in simp)
  ultimately have tab': "tab (?m\<lparr>sz := n\<rparr>)" using m ok assms(2) by (simp add: tab_def hm_ok_def table_ok_def entries_def)
  have "matches (?m\<lparr>sz := n\<rparr>) k =
       (if key_bucket m k = ?h then filter (\<lambda>e. eq (fst e) k) (f (bs ! ?h)) else matches m k)" for k
    using tab_bucket(2) [OF tab', of _ k] tab_bucket(2) [OF assms(1,2), of k] h
    by (simp add: key_bucket_def [of "hashmap.sz_update _ _"] key_bucket_def [of "m\<lparr>buckets := _, sz := _\<rparr>"] flip: key_bucket_def)
  then show ?thesis using tab' h assms(2) by (auto simp: set_chain_def)
qed

text \<open>Growing, below \<open>2 ^ 60\<close> entries: a process has no memory for more.\<close>

lemma grow_bits:
  assumes "tab m" and "unat (sz m) < 2 ^ 60" and "hashmap_needs_to_grow m"
  defines "b \<equiv> if cap_bits m + 1 < HASHMAP_MIN_CAP_BITS then HASHMAP_MIN_CAP_BITS else cap_bits m + 1"
  shows "2 \<le> unat b" and "unat b < 64"
proof -
  have "2 \<le> unat b \<and> unat b < 64" using assms(1)
  proof (cases rule: tab_cases)
    case 1
    then show ?thesis by (simp add: b_def HASHMAP_MIN_CAP_BITS_def)
  next
    case (2 bs)
    then have c: "2 \<le> unat (cap_bits m)" "unat (cap m) = 2 ^ unat (cap_bits m)" "unat (cap_bits m) < 64"
      using assms(1) by (auto simp: tab_def hm_ok_def table_ok_def)
    have "unat ((sz m + 1) * 4) = (unat (sz m) + 1) * 4" using assms(2) by (simp add: unat_word_ariths)
    then have s: "unat ((sz m + 1) * 4 div 3) = (unat (sz m) + 1) * 4 div 3" by (simp add: unat_div)
    have "cap m \<noteq> 0" using c(2) by auto
    then have "2 ^ unat (cap_bits m) < (unat (sz m) + 1) * 4 div 3"
      using assms(3) s c(2) by (auto simp: hashmap_needs_to_grow_def word_less_nat_alt)
    also have "\<dots> < 2 ^ 62" using assms(2) by simp
    finally have "(2 :: nat) ^ unat (cap_bits m) < 2 ^ 62" .
    then have l: "unat (cap_bits m) < 62" by (rule power_less_imp_less_exp [rotated]) simp
    then have "unat (cap_bits m + 1) = unat (cap_bits m) + 1" by (simp add: unat_word_ariths)
    then show ?thesis using c(1) l by (simp add: b_def HASHMAP_MIN_CAP_BITS_def word_less_nat_alt)
  qed
  then show "2 \<le> unat b" "unat b < 64" by simp_all
qed

lemma for_each_tab: "tab m \<Longrightarrow> hashmap__for_each_entry m = Some (entries m)"
  by (cases "buckets m") (auto simp: hashmap__for_each_entry_def entries_def tab_def hm_ok_def table_ok_def)

lemma grow_tab:
  assumes "tab m" and "unat (sz m) < 2 ^ 60" and "hashmap_needs_to_grow m"
  shows "\<exists>m' bs. hashmap_grow True m = Some (0, m') \<and> tab m' \<and> buckets m' = Buckets bs \<and> sz m' = sz m \<and>
    mset (entries m') = mset (entries m) \<and> (\<forall>k. matches m' k = rev (matches m k))"
proof -
  define b where "b = (if cap_bits m + 1 < HASHMAP_MIN_CAP_BITS then HASHMAP_MIN_CAP_BITS else cap_bits m + 1)"
  have b: "2 \<le> unat b" "unat b < 64" using grow_bits [OF assms] by (simp_all add: b_def)
  have cap: "unat (push_bit (unat b mod 64) 1 :: u64) = 2 ^ unat b"
  proof -
    have "(2 :: nat) ^ unat b < 2 ^ 64" using b(2) by (intro power_strict_increasing) simp_all
    then have "take_bit 64 ((2 :: nat) ^ unat b) = 2 ^ unat b" by (simp only: take_bit_nat_eq_self)
    moreover have "unat (push_bit (unat b) 1 :: u64) = take_bit 64 (push_bit (unat b) 1)"
      using unsigned_push_bit_eq [of "unat b" "1 :: u64", where 'a = nat] by (simp del: push_bit_of_1)
    ultimately show ?thesis using b(2) by simp
  qed
  have m: "hash_fn m = hash" "equal_fn m = eq" "hm_ok m" using assms(1) by (simp_all add: tab_def)
  have z: "chains_ok hash b (replicate (2 ^ unat b) [])" "length (replicate (2 ^ unat b) []) = 2 ^ unat b"
    by (simp_all add: chains_ok_def)
  obtain bs where bs: "rehash hash b (entries m) (replicate (2 ^ unat b) []) = Some bs" "length bs = 2 ^ unat b" "chains_ok hash b bs"
    "mset (concat bs) = mset (entries m)"
    "\<And>k. filter (\<lambda>e. eq (fst e) k) (concat bs) = rev (filter (\<lambda>e. eq (fst e) k) (entries m))"
    using rehash_ok [OF z _ b(2), of "entries m"] b(1) by auto
  obtain fb where "free_buckets (buckets m) = Some fb"
    using assms(1) by (cases rule: tab_cases) (auto simp: free_buckets_def)
  then have g: "hashmap_grow True m = Some (0, m\<lparr>cap := push_bit (unat b mod 64) 1, cap_bits := b, buckets := Buckets bs\<rparr>)"
    using bs(1) cap m(1) for_each_tab [OF assms(1)] by (simp add: hashmap_grow_def Let_def flip: b_def)
  have "length (concat bs) = length (entries m)" using bs(4) by (rule mset_eq_length)
  then have "tab (m\<lparr>cap := push_bit (unat b mod 64) 1, cap_bits := b, buckets := Buckets bs\<rparr>)"
    using m b cap bs(2,3) by (simp add: tab_def hm_ok_def table_ok_def entries_def)
  moreover have "entries (m\<lparr>cap := push_bit (unat b mod 64) 1, cap_bits := b, buckets := Buckets bs\<rparr>) = concat bs"
    by (simp add: entries_def)
  ultimately show ?thesis using g bs(4,5) m(2) by (simp add: matches_def)
qed

text \<open>The operations, by what they do to the entries of each key.\<close>

lemma chain_le: "tab m \<Longrightarrow> buckets m = Buckets bs \<Longrightarrow> length (bs ! key_bucket m key) \<le> length (entries m)"
  using concat_upd(2) [of "key_bucket m key" bs "[]"] tab_bucket(1) [of m bs key] by (simp add: entries_def)

lemma add_tab:
  assumes "tab m" and "buckets m = Buckets bs" and "unat (sz m) < 2 ^ 61"
  shows "\<exists>m'. set_chain (key_bucket m key) (\<lambda>c. hashmap_add_entry c (key, v)) m = Some m' \<and> sz m' = sz m \<and> tab (m'\<lparr>sz := sz m + 1\<rparr>) \<and>
    (\<forall>k. matches (m'\<lparr>sz := sz m + 1\<rparr>) k = (if eq key k then [(key, v)] else []) @ matches m k)"
proof -
  have s: "unat (sz m) = length (entries m)" "hash_fn m = hash" using assms(1) by (simp_all add: tab_def hm_ok_def)
  note l = chain_le [OF assms(1,2), of key]
  have n: "sz m + 1 = word_of_nat (length (entries m) - length (bs ! key_bucket m key) + length (hashmap_add_entry (bs ! key_bucket m key) (key, v)))"
  proof -
    have "sz m = word_of_nat (length (entries m))" by (simp flip: s(1))
    moreover have "length (entries m) - length (bs ! key_bucket m key) + length (hashmap_add_entry (bs ! key_bucket m key) (key, v)) =
        Suc (length (entries m))" using l by (simp add: hashmap_add_entry_def)
    ultimately show ?thesis by (simp add: add.commute)
  qed
  have "key_bucket m k = key_bucket m key" if "eq key k" for k using eq_hash [OF that] s(2) by (simp add: key_bucket_def)
  then show ?thesis
    using set_chain_tab [where f = "\<lambda>c. hashmap_add_entry c (key, v)", OF assms(1,2) _ _ n] l s(1) assms(3) tab_bucket(2) [OF assms(1,2)]
    by (fastforce simp: hashmap_add_entry_def)
qed

lemma found_split:
  assumes "tab m" and "buckets m = Buckets bs" and "hashmap_find_entry m key (key_bucket m key) = Some (Some (i, e))"
  obtains xs ys where "bs ! key_bucket m key = xs @ e # ys" "length xs = i" "eq (fst e) key" "\<forall>x \<in> set xs. \<not> eq (fst x) key"
  using assms tab_bucket(1) [OF assms(1,2), of key] find_chain_Some [of eq key "bs ! key_bucket m key" i e]
  by (auto simp: hashmap_find_entry_def tab_def)

lemma replace_tab:
  assumes "tab m" and "buckets m = Buckets bs" and "hashmap_find_entry m key (key_bucket m key) = Some (Some (i, e))"
    and "unat (sz m) < 2 ^ 61" and "es = [] \<or> es = [(key, v)]" and "\<And>xs ys. length xs = i \<Longrightarrow> f (xs @ e # ys) = xs @ es @ ys"
    and "n = sz m + word_of_nat (length es) - 1"
  shows "\<exists>m'. set_chain (key_bucket m key) f m = Some m' \<and> sz m' = sz m \<and> tab (m'\<lparr>sz := n\<rparr>) \<and>
    (\<forall>k. matches (m'\<lparr>sz := n\<rparr>) k = (if eq key k then es @ tl (matches m k) else matches m k))"
proof -
  obtain xs ys where c: "bs ! key_bucket m key = xs @ e # ys" "length xs = i" "eq (fst e) key" "\<forall>x \<in> set xs. \<not> eq (fst x) key"
    by (rule found_split [OF assms(1-3)])
  have s: "unat (sz m) = length (entries m)" "hash_fn m = hash" using assms(1) by (simp_all add: tab_def hm_ok_def)
  note l = chain_le [OF assms(1,2), of key]
  have f: "f (bs ! key_bucket m key) = xs @ es @ ys" using assms(6) c(1,2) by simp
  have w: "n = word_of_nat (length (entries m) - length (bs ! key_bucket m key) + length (f (bs ! key_bucket m key)))"
  proof -
    have "length (entries m) - length (bs ! key_bucket m key) + length (f (bs ! key_bucket m key)) = length (entries m) + length es - 1"
      using l f c(1) by simp
    moreover have "1 \<le> length (entries m)" using l c(1) by simp
    moreover have "sz m = word_of_nat (length (entries m))" by (simp flip: s(1))
    ultimately show ?thesis by (simp add: assms(7) of_nat_diff)
  qed
  have bk: "key_bucket m k = key_bucket m key" if "eq key k" for k using eq_hash [OF that] s(2) by (simp add: key_bucket_def)
  have "\<not> eq (fst x) k" if "eq key k" "x \<in> set xs" for x k using c(4) that eq_trans eq_sym by blast
  moreover have "eq (fst e) k \<longleftrightarrow> eq key k" for k using c(3) eq_trans eq_sym by blast
  ultimately have fl: "filter (\<lambda>x. eq (fst x) k) (xs @ es @ ys) =
      (if eq key k then es @ tl (filter (\<lambda>x. eq (fst x) k) (bs ! key_bucket m key)) else filter (\<lambda>x. eq (fst x) k) (bs ! key_bucket m key))" for k
    using assms(5) c(1) by (auto simp: filter_empty_conv)
  have e: "\<forall>x \<in> set (f (bs ! key_bucket m key)). hash (fst x) = hash key \<or> x \<in> set (bs ! key_bucket m key)"
    using f assms(5) c(1) by auto
  have "length (f (bs ! key_bucket m key)) + length (entries m) < 2 ^ 64" using f c(1) l s(1) assms(4,5) by auto
  with set_chain_tab [where f = f, OF assms(1,2) e _ w] show ?thesis
    using tab_bucket(2) [OF assms(1,2)] bk by (auto simp: fl [folded f])
qed

text \<open>The order of the entries of a key after an insertion that may have grown the table.\<close>

definition reorder :: "bool \<Rightarrow> ('k, 'v) hashmap \<Rightarrow> 'e list \<Rightarrow> 'e list" where
  "reorder calloc_ok m = (if calloc_ok \<and> hashmap_needs_to_grow m then rev else id)"

lemma insert_new_tab:
  assumes "tab m" and "unat (sz m) < 2 ^ 60"
  shows "\<exists>err m'. insert_new calloc_ok malloc_ok m key v = Some (err, m') \<and> tab m' \<and>
    (err = 0 \<and> sz m' = sz m + 1 \<and> (\<forall>k. matches m' k = (if eq key k then [(key, v)] else []) @ reorder calloc_ok m (matches m k)) \<or>
     err = - ENOMEM \<and> \<not> (calloc_ok \<and> malloc_ok) \<and> sz m' = sz m \<and> (\<forall>k. matches m' k = reorder calloc_ok m (matches m k)))"
proof -
  have "(\<exists>m1 bs. (if hashmap_needs_to_grow m then hashmap_grow calloc_ok m else Some (0, m)) = Some (0, m1) \<and>
      tab m1 \<and> buckets m1 = Buckets bs \<and> sz m1 = sz m \<and> (\<forall>k. matches m1 k = reorder calloc_ok m (matches m k))) \<or>
    \<not> calloc_ok \<and> hashmap_needs_to_grow m \<and> hashmap_grow calloc_ok m = Some (- ENOMEM, m)"
  proof (cases "hashmap_needs_to_grow m")
    case True
    then show ?thesis using grow_tab [OF assms True] by (cases calloc_ok) (auto simp: reorder_def hashmap_grow_def Let_def)
  next
    case False
    then have "cap m \<noteq> 0" by (simp add: hashmap_needs_to_grow_def)
    with assms(1) obtain bs where "buckets m = Buckets bs" by (auto elim: tab_cases)
    then show ?thesis using False assms(1) by (simp add: reorder_def)
  qed
  then show ?thesis
  proof (elim disjE exE conjE)
    fix m1 bs
    assume m1: "(if hashmap_needs_to_grow m then hashmap_grow calloc_ok m else Some (0, m)) = Some (0, m1)" "tab m1"
      "buckets m1 = Buckets bs" "sz m1 = sz m" "\<forall>k. matches m1 k = reorder calloc_ok m (matches m k)"
    show ?thesis
    proof (cases malloc_ok)
      case True
      obtain m2 where "set_chain (key_bucket m1 key) (\<lambda>c. hashmap_add_entry c (key, v)) m1 = Some m2" "tab (m2\<lparr>sz := sz m1 + 1\<rparr>)" "sz m2 = sz m1"
        "\<forall>k. matches (m2\<lparr>sz := sz m1 + 1\<rparr>) k = (if eq key k then [(key, v)] else []) @ matches m1 k"
        using add_tab [OF m1(2,3), of key v] m1(4) assms(2) by auto
      then show ?thesis using m1 True by (auto simp: insert_new_def)
    next
      case False
      then show ?thesis using m1 by (simp add: insert_new_def)
    qed
  next
    assume "\<not> calloc_ok" "hashmap_needs_to_grow m" "hashmap_grow calloc_ok m = Some (- ENOMEM, m)"
    then show ?thesis using assms(1) by (simp add: insert_new_def reorder_def ENOMEM_def)
  qed
qed

lemma found_buckets: "tab m \<Longrightarrow> hashmap_find_entry m key h = Some (Some x) \<Longrightarrow> \<exists>bs. buckets m = Buckets bs"
  by (cases "buckets m") (simp_all add: hashmap_find_entry_def)

lemma delete_tab:
  assumes "tab m" and "unat (sz m) < 2 ^ 60"
  shows "\<exists>m'. hashmap__delete m key = Some (found m key \<noteq> None, found m key, m') \<and> tab m' \<and>
    (\<forall>k. matches m' k = (if eq key k then tl (matches m k) else matches m k)) \<and>
    sz m' = (if found m key = None then sz m else sz m - 1)"
proof -
  obtain r where r: "hashmap_find_entry m key (key_bucket m key) = Some r" "map_option snd r = found m key"
    using find_entry_tab [OF assms(1)] by blast
  show ?thesis
  proof (cases r)
    case None
    then have "matches m key = []" using r(2) by (simp add: found_def split: list.splits)
    then show ?thesis using None r assms(1) by (auto simp: hashmap__delete_def matches_eq)
  next
    case (Some ie)
    then obtain i e where ie: "r = Some (i, e)" by (cases ie) simp
    obtain bs where bs: "buckets m = Buckets bs" using found_buckets [OF assms(1)] r(1) ie by blast
    have "hashmap_del_entry (xs @ e # ys) i = xs @ [] @ ys" if "length xs = i" for xs ys
      using that by (auto simp: hashmap_del_entry_def)
    from replace_tab [OF assms(1) bs r(1) [unfolded ie], where f = "\<lambda>c. hashmap_del_entry c i" and es = "[]", OF _ _ this] assms(2)
    obtain m' where "set_chain (key_bucket m key) (\<lambda>c. hashmap_del_entry c i) m = Some m'" "sz m' = sz m" "tab (m'\<lparr>sz := sz m - 1\<rparr>)"
      "\<forall>k. matches (m'\<lparr>sz := sz m - 1\<rparr>) k = (if eq key k then tl (matches m k) else matches m k)" by auto
    moreover have "found m key = Some e" using r(2) ie by simp
    ultimately show ?thesis using r(1) ie by (auto simp: hashmap__delete_def)
  qed
qed

lemma insert_tab:
  assumes "tab m" and "unat (sz m) < 2 ^ 60"
  shows "\<exists>err old m'. hashmap__insert calloc_ok malloc_ok m key v strategy = Some (err, old, m') \<and> tab m' \<and> unat (sz m') \<le> unat (sz m) + 1 \<and>
    (if strategy \<noteq> HASHMAP_APPEND \<and> found m key \<noteq> None then
       old = found m key \<and>
       (if strategy = HASHMAP_ADD then err = - EEXIST \<and> m' = m
        else err = 0 \<and> (\<forall>k. matches m' k = (if eq key k then (key, v) # tl (matches m k) else matches m k)))
     else if strategy = HASHMAP_UPDATE then err = - ENOENT \<and> old = None \<and> m' = m
     else old = None \<and>
       (err = 0 \<and> (\<forall>k. matches m' k = (if eq key k then [(key, v)] else []) @ reorder calloc_ok m (matches m k)) \<or>
        err = - ENOMEM \<and> \<not> (calloc_ok \<and> malloc_ok) \<and> (\<forall>k. matches m' k = reorder calloc_ok m (matches m k))))"
proof -
  obtain r where r: "hashmap_find_entry m key (key_bucket m key) = Some r" "map_option snd r = found m key"
    using find_entry_tab [OF assms(1)] by blast
  have up: "unat (sz m + 1) = unat (sz m) + 1" using assms(2) by (simp add: unat_word_ariths)
  show ?thesis
  proof (cases "strategy \<noteq> HASHMAP_APPEND \<and> r \<noteq> None")
    case True
    then obtain i e where ie: "r = Some (i, e)" by auto
    obtain bs where bs: "buckets m = Buckets bs" using found_buckets [OF assms(1)] r(1) ie by blast
    have "(xs @ e # ys)[i := (key, v)] = xs @ [(key, v)] @ ys" if "length xs = i" for xs ys
      using that by auto
    from replace_tab [OF assms(1) bs r(1) [unfolded ie], where f = "\<lambda>c. c[i := (key, v)]" and es = "[(key, v)]" and n = "sz m", OF _ _ this] assms(2)
    obtain m' where m': "set_chain (key_bucket m key) (\<lambda>c. c[i := (key, v)]) m = Some m'" "sz m' = sz m" "tab (m'\<lparr>sz := sz m\<rparr>)"
      "\<forall>k. matches (m'\<lparr>sz := sz m\<rparr>) k = (if eq key k then (key, v) # tl (matches m k) else matches m k)" by auto
    have same: "m'\<lparr>sz := sz m\<rparr> = m'" using m'(2) by simp
    have "found m key = Some e" using r(2) ie by simp
    then show ?thesis using True m'(1,2) m'(3,4) [unfolded same] r(1) ie assms(1) by (cases strategy) (auto simp: hashmap__insert_def)
  next
    case False
    then have n: "\<not> (strategy \<noteq> HASHMAP_APPEND \<and> found m key \<noteq> None)" using r(2) by auto
    show ?thesis
    proof (cases "strategy = HASHMAP_UPDATE")
      case True
      then have "r = None" using False by (cases r) auto
      then show ?thesis using True n r(1) assms(1) by (auto simp: hashmap__insert_def)
    next
      case upd: False
      obtain err m' where "insert_new calloc_ok malloc_ok m key v = Some (err, m')" "tab m'"
        "err = 0 \<and> sz m' = sz m + 1 \<and> (\<forall>k. matches m' k = (if eq key k then [(key, v)] else []) @ reorder calloc_ok m (matches m k)) \<or>
         err = - ENOMEM \<and> \<not> (calloc_ok \<and> malloc_ok) \<and> sz m' = sz m \<and> (\<forall>k. matches m' k = reorder calloc_ok m (matches m k))"
        using insert_new_tab [OF assms, of calloc_ok malloc_ok key v] by blast
      moreover from this have "unat (sz m') \<le> unat (sz m) + 1" using up by auto
      moreover have "hashmap__insert calloc_ok malloc_ok m key v strategy = Some (err, None, m')"
        using calculation(1) False upd r(1) by (cases r) (auto simp: hashmap__insert_def)
      ultimately show ?thesis using n upd by (simp only: if_False simp_thms) blast
    qed
  qed
qed

end

interpretation dedup: key_laws btf_dedup_identity_hash_fn btf_dedup_equal_fn
  by unfold_locales (auto simp: btf_dedup_equal_fn_def)

interpretation dedup_collide: key_laws btf_dedup_collision_hash_fn btf_dedup_equal_fn
  by unfold_locales (auto simp: btf_dedup_equal_fn_def)

interpretation names: key_laws str_hash_fn str_equal_fn
  by unfold_locales (auto simp: str_equal_fn_def)

section \<open>Specification\<close>

text \<open>
  A map from keys to the key and value last stored. The operations that need memory may fail without
  effect, but only when one of the allocations of the call does.
\<close>

datatype ('k, 'v) hop = Insert 'k 'v hashmap_insert_strategy bool bool | Delete 'k

inductive map_step ::
    "('k \<Rightarrow> 'k \<Rightarrow> bool) \<Rightarrow> ('k \<Rightarrow> ('k \<times> 'v) option) \<Rightarrow> ('k, 'v) hop \<Rightarrow> int \<times> ('k \<times> 'v) option \<Rightarrow> ('k \<Rightarrow> ('k \<times> 'v) option) \<Rightarrow> bool"
  for eq where
  replace: "s k = Some e \<Longrightarrow> strategy \<in> {HASHMAP_SET, HASHMAP_UPDATE} \<Longrightarrow>
     map_step eq s (Insert k v strategy c a) (0, Some e) (\<lambda>k'. if eq k k' then Some (k, v) else s k')"
| exists: "s k = Some e \<Longrightarrow> map_step eq s (Insert k v HASHMAP_ADD c a) (- EEXIST, Some e) s"
| missing: "s k = None \<Longrightarrow> map_step eq s (Insert k v HASHMAP_UPDATE c a) (- ENOENT, None) s"
| new: "s k = None \<Longrightarrow> strategy \<in> {HASHMAP_SET, HASHMAP_ADD} \<Longrightarrow>
     map_step eq s (Insert k v strategy c a) (0, None) (\<lambda>k'. if eq k k' then Some (k, v) else s k')"
| no_memory: "s k = None \<Longrightarrow> strategy \<in> {HASHMAP_SET, HASHMAP_ADD} \<Longrightarrow> \<not> (c \<and> a) \<Longrightarrow>
     map_step eq s (Insert k v strategy c a) (- ENOMEM, None) s"
| delete: "s k = Some e \<Longrightarrow> map_step eq s (Delete k) (1, Some e) (\<lambda>k'. if eq k k' then None else s k')"
| delete_missing: "s k = None \<Longrightarrow> map_step eq s (Delete k) (0, None) s"

inductive map_run ::
    "('k \<Rightarrow> 'k \<Rightarrow> bool) \<Rightarrow> ('k \<Rightarrow> ('k \<times> 'v) option) \<Rightarrow> ('k, 'v) hop list \<Rightarrow> (int \<times> ('k \<times> 'v) option) list \<Rightarrow> ('k \<Rightarrow> ('k \<times> 'v) option) \<Rightarrow> bool"
  for eq where
  stop: "map_run eq s [] [] s"
| step: "map_step eq s op r s' \<Longrightarrow> map_run eq s' ops rs s'' \<Longrightarrow> map_run eq s (op # ops) (r # rs) s''"

fun hm_step :: "('k, 'v) hashmap \<Rightarrow> ('k, 'v) hop \<Rightarrow> ((int \<times> ('k \<times> 'v) option) \<times> ('k, 'v) hashmap) option" where
  "hm_step m (Insert k v strategy c a) = do { (err, old, m) \<leftarrow> hashmap__insert c a m k v strategy; Some ((err, old), m) }"
| "hm_step m (Delete k) = do { (b, old, m) \<leftarrow> hashmap__delete m k; Some ((of_bool b, old), m) }"

fun hm_run :: "('k, 'v) hashmap \<Rightarrow> ('k, 'v) hop list \<Rightarrow> ((int \<times> ('k \<times> 'v) option) list \<times> ('k, 'v) hashmap) option" where
  "hm_run m [] = Some ([], m)"
| "hm_run m (op # ops) = do { (r, m) \<leftarrow> hm_step m op; (rs, m) \<leftarrow> hm_run m ops; Some (r # rs, m) }"

fun unique_op :: "('k, 'v) hop \<Rightarrow> bool" where
  "unique_op (Insert _ _ strategy _ _) \<longleftrightarrow> strategy \<noteq> HASHMAP_APPEND"
| "unique_op (Delete _) \<longleftrightarrow> True"

context key_laws
begin

text \<open>Without \<open>HASHMAP_APPEND\<close> every key has at most one entry.\<close>

definition single :: "('k, 'v) hashmap \<Rightarrow> bool" where
  "single m \<longleftrightarrow> tab m \<and> (\<forall>k. length (matches m k) \<le> 1)"

lemma short_list: "length xs \<le> 1 \<Longrightarrow> reorder c m xs = xs \<and> tl xs = []"
  by (cases xs) (auto simp: reorder_def)

lemma single_update:
  assumes "single m" and "tab m'" and "\<forall>k. matches m' k = (if eq key k then es else matches m k)" and "length es \<le> 1"
  shows "single m'" and "found m' = (\<lambda>k. if eq key k then (case es of [] \<Rightarrow> None | e # _ \<Rightarrow> Some e) else found m k)"
  using assms by (auto simp: single_def found_def)

lemma insert_refines:
  assumes "single m" and "unat (sz m) < 2 ^ 60" and "strategy \<noteq> HASHMAP_APPEND"
  shows "\<exists>err old m'. hashmap__insert c a m key v strategy = Some (err, old, m') \<and> single m' \<and> unat (sz m') \<le> unat (sz m) + 1 \<and>
    map_step eq (found m) (Insert key v strategy c a) (err, old) (found m')"
proof -
  have tab: "tab m" and short: "reorder c m (matches m k) = matches m k" "tl (matches m k) = []" for k
    using assms(1) short_list by (auto simp: single_def)
  obtain err old m' where m': "hashmap__insert c a m key v strategy = Some (err, old, m')" "tab m'" "unat (sz m') \<le> unat (sz m) + 1"
    and eff: "if found m key \<noteq> None then
       old = found m key \<and>
       (if strategy = HASHMAP_ADD then err = - EEXIST \<and> m' = m
        else err = 0 \<and> (\<forall>k. matches m' k = (if eq key k then [(key, v)] else matches m k)))
     else if strategy = HASHMAP_UPDATE then err = - ENOENT \<and> old = None \<and> m' = m
     else old = None \<and>
       (err = 0 \<and> (\<forall>k. matches m' k = (if eq key k then [(key, v)] else []) @ matches m k) \<or>
        err = - ENOMEM \<and> \<not> (c \<and> a) \<and> (\<forall>k. matches m' k = matches m k))"
    using insert_tab [OF tab assms(2), of c a key v strategy, unfolded short]
    by (simp only: assms(3) not_False_eq_True simp_thms) blast
  note upd = single_update [OF assms(1) m'(2), of key "[(key, v)]", unfolded list.case]
  have "single m' \<and> map_step eq (found m) (Insert key v strategy c a) (err, old) (found m')"
  proof (cases "found m key")
    case None
    then have e: "matches m k = []" if "eq key k" for k using matches_eq [OF tab that] by (simp add: found_def split: list.splits)
    show ?thesis
    proof (cases "strategy = HASHMAP_UPDATE")
      case True
      then show ?thesis using None eff assms(1) by (auto intro: map_step.missing)
    next
      case False
      then have st: "strategy \<in> {HASHMAP_SET, HASHMAP_ADD}" using assms(3) by (cases strategy) auto
      have "(if eq key k then [(key, v)] else []) @ matches m k = (if eq key k then [(key, v)] else matches m k)" for k using e by simp
      with eff None False have "old = None \<and> (err = 0 \<and> (\<forall>k. matches m' k = (if eq key k then [(key, v)] else matches m k)) \<or>
        err = - ENOMEM \<and> \<not> (c \<and> a) \<and> (\<forall>k. matches m' k = matches m k))" by simp
      then consider
          "err = 0" "old = None" "\<forall>k. matches m' k = (if eq key k then [(key, v)] else matches m k)"
        | "err = - ENOMEM" "old = None" "\<not> (c \<and> a)" "\<forall>k. matches m' k = matches m k"
        by blast
      then show ?thesis
      proof cases
        case 1
        then show ?thesis using upd map_step.new [of "found m" key, OF None st] by simp
      next
        case 2
        then have "found m' = found m" "single m'" using assms(1) m'(2) by (auto simp: found_def single_def)
        then show ?thesis using 2 map_step.no_memory [of "found m" key, OF None st] by simp
      qed
    qed
  next
    case (Some e)
    show ?thesis
    proof (cases "strategy = HASHMAP_ADD")
      case True
      then show ?thesis using Some eff assms(1) by (auto intro: map_step.exists)
    next
      case False
      then have st: "strategy \<in> {HASHMAP_SET, HASHMAP_UPDATE}" using assms(3) by (cases strategy) auto
      then show ?thesis using Some eff False upd map_step.replace [of "found m" key, OF Some st] by simp
    qed
  qed
  then show ?thesis using m' by blast
qed

lemma delete_refines:
  assumes "single m" and "unat (sz m) < 2 ^ 60"
  shows "\<exists>b old m'. hashmap__delete m key = Some (b, old, m') \<and> single m' \<and> unat (sz m') \<le> unat (sz m) + 1 \<and>
    map_step eq (found m) (Delete key) (of_bool b, old) (found m')"
proof -
  have tab: "tab m" and short: "tl (matches m k) = []" for k
    using assms(1) short_list by (auto simp: single_def)
  obtain m' where m': "hashmap__delete m key = Some (found m key \<noteq> None, found m key, m')" "tab m'"
    "\<forall>k. matches m' k = (if eq key k then [] else matches m k)" "sz m' = (if found m key = None then sz m else sz m - 1)"
    using delete_tab [OF tab assms(2), of key] short by auto
  have f: "found m' = (\<lambda>k. if eq key k then None else found m k)" "single m'"
    using single_update [OF assms(1) m'(2,3)] by auto
  show ?thesis
  proof (cases "found m key")
    case None
    have "found m k = None" if "eq key k" for k using matches_eq [OF tab that] None by (simp add: found_def)
    then have "found m' = found m" using f(1) by auto
    then show ?thesis using None m' f(2) map_step.delete_missing [of "found m" key]
      by (intro exI [of _ False] exI [of _ None] exI [of _ m']) simp
  next
    case (Some e)
    have "matches m key \<noteq> []" using Some by (auto simp: found_def)
    then have "sz m \<noteq> 0" using tab by (auto simp: tab_def hm_ok_def matches_def)
    then have "unat (sz m - 1) \<le> unat (sz m) + 1" by (simp add: unat_minus_one)
    then show ?thesis using Some m' f map_step.delete [of "found m" key, OF Some]
      by (intro exI [of _ True] exI [of _ "Some e"] exI [of _ m']) simp
  qed
qed

lemma hm_step_refines:
  assumes "single m" and "unat (sz m) < 2 ^ 60" and "unique_op op"
  shows "\<exists>r m'. hm_step m op = Some (r, m') \<and> single m' \<and> unat (sz m') \<le> unat (sz m) + 1 \<and> map_step eq (found m) op r (found m')"
proof (cases op)
  case (Insert key v strategy c a)
  then have "strategy \<noteq> HASHMAP_APPEND" using assms(3) by simp
  from insert_refines [OF assms(1,2) this, of c a key v] obtain err old m' where "hashmap__insert c a m key v strategy = Some (err, old, m')"
    "single m'" "unat (sz m') \<le> unat (sz m) + 1" "map_step eq (found m) (Insert key v strategy c a) (err, old) (found m')" by blast
  then show ?thesis using Insert by (intro exI [of _ "(err, old)"] exI [of _ m']) simp
next
  case (Delete key)
  from delete_refines [OF assms(1,2), of key] obtain b old m' where "hashmap__delete m key = Some (b, old, m')"
    "single m'" "unat (sz m') \<le> unat (sz m) + 1" "map_step eq (found m) (Delete key) (of_bool b, old) (found m')" by blast
  then show ?thesis using Delete by (intro exI [of _ "(of_bool b, old)"] exI [of _ m']) simp
qed

lemma hm_run_refines:
  assumes "single m" and "unat (sz m) + length ops \<le> 2 ^ 60" and "\<forall>op \<in> set ops. unique_op op"
  shows "\<exists>rs m'. hm_run m ops = Some (rs, m') \<and> single m' \<and> map_run eq (found m) ops rs (found m')"
  using assms
proof (induction ops arbitrary: m)
  case (Cons op ops)
  have "unat (sz m) < 2 ^ 60" "unique_op op" using Cons.prems(2,3) by simp_all
  then obtain r m1 where m1: "hm_step m op = Some (r, m1)" "single m1" "unat (sz m1) \<le> unat (sz m) + 1" "map_step eq (found m) op r (found m1)"
    using hm_step_refines [OF Cons.prems(1)] by blast
  have "unat (sz m1) + length ops \<le> 2 ^ 60" "\<forall>op \<in> set ops. unique_op op" using m1(3) Cons.prems(2,3) by simp_all
  then obtain rs m' where "hm_run m1 ops = Some (rs, m')" "single m'" "map_run eq (found m1) ops rs (found m')"
    using Cons.IH [OF m1(2)] by blast
  then show ?case using m1 by (auto intro: map_run.step)
qed (auto intro: map_run.stop)

text \<open>Appending makes a multimap.\<close>

lemma append_tab:
  assumes "tab m" and "unat (sz m) < 2 ^ 60"
  shows "\<exists>m'. hashmap__append True True m key v = Some (0, None, m') \<and> tab m' \<and> unat (sz m') = unat (sz m) + 1 \<and>
    (\<forall>k. mset (matches m' k) = mset (filter (\<lambda>e. eq (fst e) k) [(key, v)]) + mset (matches m k))"
proof -
  obtain m' where m': "insert_new True True m key v = Some (0, m')" "tab m'" "sz m' = sz m + 1"
    "\<forall>k. matches m' k = (if eq key k then [(key, v)] else []) @ reorder True m (matches m k)"
    using insert_new_tab [OF assms, of True True key v] by auto
  have "unat (sz m') = unat (sz m) + 1" using assms(2) m'(3) by (simp add: unat_word_ariths)
  moreover have "mset (reorder True m (matches m k)) = mset (matches m k)" for k by (simp add: reorder_def)
  ultimately show ?thesis using m' by (simp add: hashmap__append_def hashmap__insert_def)
qed

end

lemma init_tab: "key_laws hash eq \<Longrightarrow> key_laws.tab hash eq (hashmap__init hash eq)"
  by (simp add: key_laws.tab_def hm_ok_def table_ok_def hashmap__init_def entries_def)

lemma init_matches: "matches (hashmap__init hash eq) k = []"
  by (simp add: matches_def entries_def hashmap__init_def)

text \<open>The calls of \<open>btf_dedup_table_add\<close>, which appends a type under its hash.\<close>

definition btf_dedup_table_add :: "bool \<Rightarrow> bool \<Rightarrow> (u64, u64) hashmap \<Rightarrow> u64 \<Rightarrow> u32 \<Rightarrow> (int \<times> (u64, u64) hashmap) option" where
  "btf_dedup_table_add c a table hash type_id = do { (err, _, m) \<leftarrow> hashmap__append c a table hash (ucast type_id); Some (err, m) }"

fun add_types :: "(u64, u64) hashmap \<Rightarrow> (u64 \<times> u32) list \<Rightarrow> (u64, u64) hashmap option" where
  "add_types m [] = Some m"
| "add_types m ((h, t) # ts) = do { (err, m) \<leftarrow> btf_dedup_table_add True True m h t; if err = 0 then add_types m ts else None }"

text \<open>The candidates that \<open>for_each_dedup_cand\<close> visits are all types that were added under the hash.\<close>

lemma dedup_candidates:
  assumes "length ts \<le> 2 ^ 60"
  shows "\<exists>m es. add_types (hashmap__init btf_dedup_identity_hash_fn btf_dedup_equal_fn) ts = Some m \<and>
    hashmap__for_each_key_entry m h = Some es \<and> mset (map snd es) = mset (map (ucast \<circ> snd) (filter (\<lambda>t. fst t = h) ts)) \<and>
    unat (hashmap__size m) = length ts"
proof -
  let ?e = "\<lambda>t :: u64 \<times> u32. (fst t, ucast (snd t) :: u64)"
  have run: "\<exists>m'. add_types m ts = Some m' \<and> dedup.tab m' \<and> unat (sz m') = unat (sz m) + length ts \<and>
      (\<forall>k. mset (matches m' k) = mset (filter (\<lambda>e. fst e = k) (map ?e ts)) + mset (matches m k))"
    if "dedup.tab m" "unat (sz m) + length ts \<le> 2 ^ 60" for m :: "(u64, u64) hashmap"
    using that
  proof (induction ts arbitrary: m)
    case (Cons t ts)
    obtain h i where t: "t = (h, i)" by (cases t)
    have "unat (sz m) < 2 ^ 60" using Cons.prems(2) by simp
    from dedup.append_tab [OF Cons.prems(1) this, of h "ucast i"] obtain m1 where m1:
      "hashmap__append True True m h (ucast i) = Some (0, None, m1)" "dedup.tab m1" "unat (sz m1) = unat (sz m) + 1"
      "\<forall>k. mset (matches m1 k) = mset (filter (\<lambda>e. fst e = k) [(h, ucast i)]) + mset (matches m k)"
      unfolding btf_dedup_equal_fn_def by blast
    with Cons.IH [OF m1(2)] Cons.prems(2) obtain m' where "add_types m1 ts = Some m'" "dedup.tab m'" "unat (sz m') = unat (sz m1) + length ts"
      "\<forall>k. mset (matches m' k) = mset (filter (\<lambda>e. fst e = k) (map ?e ts)) + mset (matches m1 k)" by auto
    then show ?case using m1 by (intro exI [of _ m']) (auto simp: t btf_dedup_table_add_def)
  qed simp
  let ?m = "hashmap__init btf_dedup_identity_hash_fn btf_dedup_equal_fn :: (u64, u64) hashmap"
  have "dedup.tab ?m" by (rule init_tab) (rule dedup.key_laws_axioms)
  then obtain m where m: "add_types ?m ts = Some m" "dedup.tab m" "unat (sz m) = length ts"
    "mset (matches m h) = mset (filter (\<lambda>e. fst e = h) (map ?e ts))"
    using run [of ?m] assms by (auto simp: hashmap__init_def matches_def entries_def)
  have "mset (map snd (matches m h)) = image_mset snd (mset (filter (\<lambda>e. fst e = h) (map ?e ts)))" using m(4) by (simp add: mset_map)
  also have "\<dots> = mset (map snd (filter (\<lambda>e. fst e = h) (map ?e ts)))" by (simp only: mset_map)
  also have "map snd (filter (\<lambda>e. fst e = h) (map ?e ts)) = map (ucast \<circ> snd) (filter (\<lambda>t. fst t = h) ts)"
    by (simp add: filter_map comp_def)
  finally show ?thesis using m dedup.key_entries_tab [OF m(2), of h] by (auto simp: hashmap__size_def)
qed

section \<open>Properties\<close>

text \<open>
  C25: The hash map of libbpf implements a map: for any hash function that respects the caller's
  equality, any sequence of additions, updates and deletions and any failures of allocation, every
  call returns without an access outside the buckets and with the result, the old key and the old
  value of the specification, and \<open>hashmap__find\<close> then gets exactly the values of its final state.
\<close>

theorem hashmap_refines_map:
  fixes ops :: "('k, 'v) hop list"
  assumes "key_laws hash eq" and "\<forall>op \<in> set ops. unique_op op" and "length ops \<le> 2 ^ 60"
  shows "\<exists>rs m s. hm_run (hashmap__init hash eq) ops = Some (rs, m) \<and> map_run eq (\<lambda>_. None) ops rs s \<and>
    (\<forall>k. hashmap__find m k = Some (map_option snd (s k)))"
proof -
  let ?m = "hashmap__init hash eq :: ('k, 'v) hashmap"
  have m: "key_laws.single hash eq ?m" "unat (sz ?m) + length ops \<le> 2 ^ 60"
    using init_tab [OF assms(1)] assms(3) by (simp_all add: key_laws.single_def [OF assms(1)] init_matches) (simp add: hashmap__init_def)
  have "key_laws.found ?m = (\<lambda>_. None)" by (simp add: key_laws.found_def [OF assms(1)] init_matches fun_eq_iff)
  with key_laws.hm_run_refines [OF assms(1) m assms(2)] key_laws.find_tab [OF assms(1)]
  show ?thesis unfolding key_laws.single_def [OF assms(1)] by metis
qed

inductive_cases map_runE: "map_run eq s (op # ops) rs s'"
inductive_cases map_run_NilE: "map_run eq s [] rs s'"
inductive_cases map_setE: "map_step eq s (Insert k v HASHMAP_SET True True) r s'"
inductive_cases map_deleteE: "map_step eq s (Delete k) r s'"

theorem hashmap_refines_map_witness:
  "\<exists>rs m. hm_run (hashmap__init str_hash_fn str_equal_fn)
      [Insert [97] (1 :: u64) HASHMAP_SET True True, Insert [98] 2 HASHMAP_SET True True, Delete [97]] = Some (rs, m) \<and>
     hashmap__find m [97] = Some None \<and> hashmap__find m [98] = Some (Some 2)"
  using hashmap_refines_map [OF names.key_laws_axioms,
      of "[Insert [97] (1 :: u64) HASHMAP_SET True True, Insert [98] 2 HASHMAP_SET True True, Delete [97]]"]
  by (auto simp: str_equal_fn_def elim!: map_runE map_run_NilE map_setE map_deleteE)

text \<open>
  \<open>btf_dump_name_dups\<close> numbers the occurrences of each name, which makes the names of a dump distinct.
\<close>

fun name_dups :: "(bytes, u64) hashmap \<Rightarrow> bytes list \<Rightarrow> (u64 list \<times> (bytes, u64) hashmap) option" where
  "name_dups m [] = Some ([], m)"
| "name_dups m (n # ns) = do { (d, m) \<leftarrow> btf_dump_name_dups True True m n; (ds, m) \<leftarrow> name_dups m ns; Some (d # ds, m) }"

definition counted :: "bytes list \<Rightarrow> (bytes, u64) hashmap \<Rightarrow> bool" where
  "counted ns m \<longleftrightarrow> names.single m \<and> unat (sz m) \<le> length ns \<and>
     (\<forall>n. map_option snd (names.found m n) = (if n \<in> set ns then Some (word_of_nat (count (mset ns) n)) else None))"

lemma name_dups_step:
  assumes "counted ns m" and "length ns < 2 ^ 60"
  shows "\<exists>m'. btf_dump_name_dups True True m n = Some (word_of_nat (Suc (count (mset ns) n)), m') \<and> counted (n # ns) m'"
proof -
  have m: "names.single m" "unat (sz m) < 2 ^ 60" "names.tab m" using assms by (auto simp: counted_def names.single_def)
  let ?d = "word_of_nat (Suc (count (mset ns) n)) :: u64"
  have "hashmap__find m n = Some (if n \<in> set ns then Some (word_of_nat (count (mset ns) n)) else None)"
    using names.find_tab [OF m(3), of n] assms(1) by (simp add: counted_def)
  then have d: "(case (the (hashmap__find m n)) of None \<Rightarrow> 0 | Some c \<Rightarrow> c) + 1 = ?d" "hashmap__find m n \<noteq> None"
    using count_mset_0_iff [of ns n, THEN iffD2] by (auto simp: add.commute simp del: count_mset_0_iff)
  obtain err old m' where m': "hashmap__insert True True m n ?d HASHMAP_SET = Some (err, old, m')" "names.single m'"
    "unat (sz m') \<le> unat (sz m) + 1" "map_step str_equal_fn (names.found m) (Insert n ?d HASHMAP_SET True True) (err, old) (names.found m')"
    using names.insert_refines [OF m(1,2), of HASHMAP_SET True True n ?d] by auto
  from m'(4) have f: "names.found m' = (\<lambda>k. if str_equal_fn n k then Some (n, ?d) else names.found m k)"
    by (auto elim!: map_setE)
  have q: "map_option snd (names.found m k) = (if k \<in> set ns then Some (word_of_nat (count (mset ns) k)) else None)" for k
    using assms(1) unfolding counted_def by blast
  have "map_option snd (names.found m' k) = (if k \<in> set (n # ns) then Some (word_of_nat (count (mset (n # ns)) k)) else None)" for k
    unfolding f by (cases "k = n") (simp_all add: q str_equal_fn_def)
  then have "counted (n # ns) m'" using m'(2,3) assms(1) by (simp add: counted_def)
  moreover have "btf_dump_name_dups True True m n = Some (?d, m')"
    using d m'(1) by (auto simp: btf_dump_name_dups_def hashmap__set_def Let_def add.commute)
  ultimately show ?thesis by blast
qed

lemma name_dups_counts:
  "counted ns0 m \<Longrightarrow> length ns0 + length ns \<le> 2 ^ 60 \<Longrightarrow>
     \<exists>m'. name_dups m ns = Some (map (\<lambda>i. word_of_nat (Suc (count (mset (rev (take i ns) @ ns0)) (ns ! i)))) [0..<length ns], m') \<and>
       counted (rev ns @ ns0) m'"
proof (induction ns arbitrary: ns0 m)
  case (Cons n ns)
  obtain m1 where m1: "btf_dump_name_dups True True m n = Some (word_of_nat (Suc (count (mset ns0) n)), m1)" "counted (n # ns0) m1"
    using name_dups_step [OF Cons.prems(1)] Cons.prems(2) by auto
  with Cons.IH [OF m1(2)] Cons.prems(2) show ?case by (auto simp: upt_conv_Cons map_Suc_upt [symmetric] simp del: upt_Suc)
qed simp

text \<open>
  Clearing leaves the pointer to the freed array behind: every later search reads freed memory.
\<close>

lemma find_after_clear:
  "buckets m = Buckets bs \<Longrightarrow> \<exists>m'. hashmap__clear m = Some m' \<and> hashmap__find m' key = None \<and> hashmap__clear m' = None"
  by (simp add: hashmap__clear_def free_buckets_def hashmap__find_def hashmap_find_entry_def)

text \<open>
  When the table grows, the entry found for a key with several ones is the oldest and not the last one
  inserted, as \<open>hashmap.h\<close> promises.
\<close>

lemma grow_finds_oldest:
  assumes "key_laws (hash_fn m) (equal_fn m)" and "hm_ok m" and "unat (sz m) < 2 ^ 60" and "hashmap_needs_to_grow m"
    and "matches m k = [(k2, v2), (k1, v1)]"
  shows "hashmap__find m k = Some (Some v2) \<and> (\<exists>m'. hashmap_grow True m = Some (0, m') \<and> hashmap__find m' k = Some (Some v1))"
proof -
  have tab: "key_laws.tab (hash_fn m) (equal_fn m) m" using assms(2) by (simp add: key_laws.tab_def [OF assms(1)])
  obtain m' where "hashmap_grow True m = Some (0, m')" "key_laws.tab (hash_fn m) (equal_fn m) m'" "matches m' k = rev (matches m k)"
    using key_laws.grow_tab [OF assms(1) tab assms(3,4)] by blast
  then show ?thesis using assms(5) key_laws.find_tab [OF assms(1) tab, of k] key_laws.find_tab [OF assms(1), of m' k]
    by (simp add: key_laws.found_def [OF assms(1)])
qed

end
