(* ===== verification/Spec2Isabelle.thy ===== *)
theory Spec2Isabelle
  imports Vtl_Apps Stream_Unnumbered Stream_Partial Hooked_Apps Hooker_Threads Vtl_Ui Net_Monitor Libbpf_Xsk_Socket Libbpf_Hashmap
begin

text \<open>
  Verification of the Virtual Transport Layer (VTL), a transport layer whose protocol functions
  ("grafts") are eBPF programs that the launcher puts into the kernel at run time.

  \<^bold>\<open>The program.\<close> An application opens a VTL socket with \<open>vtl_init\<close> and calls \<open>vtl_send_data\<close> and
  \<open>vtl_recv_data\<close> (\<open>service_api/\<close>). The data bearer (\<open>dbr/\<close>) builds IPv4 + VTL packets and sends them
  through a raw socket that the control bearer (\<open>cbr/\<close>) has set up. On the way out an egress graft
  attached to traffic control (\<open>XTFsPool/store/egress_*\<close>) fills the VTL header, saves the packet and
  retransmits it; its listener function sees the returning ACK and NACK packets and shares pinned maps
  with it. On the way in an ingress graft attached to XDP (\<open>XTFsPool/store/ingress_*\<close>) checks the
  packet and passes it to an AF_XDP socket, from whose rings the data bearer takes, reorders and delivers
  it. Legacy TCP applications are taken in by the hooker: eBPF programs (\<open>hooker_progs.c\<close>) redirect
  their messages to the hooker daemon (\<open>hooker/hooker.c\<close>), which relays them over another transport to the
  daemon of the other host (\<open>hooker/hooker_backup_client.c\<close> for the side that connects).
  The launcher (\<open>launcher/launcher.c\<close>) reads graft object files, creates their maps, patches the
  descriptors into the instructions and loads and attaches the programs.

  \<^bold>\<open>Theories and sources.\<close>
    \<^item> \<open>VTL_Prelude\<close>: words, byte strings, checked loads and stores (\<open>ld\<close>, \<open>st\<close>), array maps.
    \<^item> \<open>VTL_Wire\<close>: \<open>include/vtl.h\<close>; header fields (locales \<open>wire_field\<close> and \<open>field_pair\<close>), \<open>vtl_csum\<close>.
    \<^item> \<open>VTL_Bpf\<close>: socket buffers, kernel helpers as parameters, the contract of ACK listeners as the
      locale \<open>ack_listener\<close>, interpreted for all four retransmitting grafts.
    \<^item> \<open>Graft_Cano\<close>, \<open>Graft_StopWait\<close>, \<open>Graft_GoBackN\<close>, \<open>Graft_SelectiveRepeat\<close>, \<open>Graft_Partial\<close>: one graft
      each (\<open>_tf_tc_egress\<close>, \<open>_listener_tf\<close>, \<open>xdp_sock_prog\<close>); \<open>Graft_Window\<close>: what the egress functions of
      the last three have in common.
    \<^item> \<open>Hooker_Progs\<close>: the sockops, redirector and XDP programs of \<open>hooker_progs.c\<close> and the listener of
      \<open>hooker_test_progs.c\<close>; \<open>Hooker_Daemon\<close>: \<open>hooker/hooker.c\<close> with \<open>main\<close>; its relay loops and those of the
      other daemons are instances of the locales \<open>relay_loop\<close> and \<open>text_relay\<close>.
    \<^item> \<open>Hooker_Client\<close>: \<open>hooker_backup_client.c\<close>. \<open>Hooker_Threads\<close>: \<open>hooker_backup.c\<close>, whose two threads are
      interleaved call by call (\<open>hkb_step\<close>, \<open>hkb_run\<close>). \<open>Hooked_Apps\<close>: \<open>tests/legacy_server.c\<close> and
      \<open>tests/legacy_client.c\<close>, composed with the eBPF programs and the daemons of both hosts.
    \<^item> \<open>Common_Util\<close>: \<open>include/common/util.c\<close>. \<open>Xsk_Rings\<close>: the ring functions of \<open>bpf/xsk.h\<close>, the frame pool
      (locale \<open>frame_pool\<close>) and the set-up in \<open>xsk_user_helpers.c\<close>.
    \<^item> \<open>Dbr_Send\<close>, \<open>Dbr_Receive\<close>, \<open>Dbr_Ring\<close>: \<open>dbr/dbr.c\<close>. \<open>Cbr\<close>: \<open>cbr/cbr.c\<close>. \<open>Service_Api\<close>:
      \<open>service_api/service_api.c\<close>.
    \<^item> \<open>Launcher_Elf\<close>, \<open>Launcher\<close>: \<open>launcher/launcher.c\<close>; reading the object file and relocating, then
      creating maps and loading programs. \<open>Attach_Helpers\<close>: \<open>include/common/tc_user_helpers.c\<close> and
      \<open>xdp_user_helpers.c\<close>, through which the launcher attaches and detaches.
    \<^item> \<open>Vtl_Ui\<close>: the orchestrator \<open>ui/vtl_ui.c\<close> over the launcher. \<open>Net_Monitor\<close>:
      \<open>net_monitor/net_monitor.c\<close>, the shell commands it builds and the readings it takes from them.
    \<^item> \<open>Stream_Transfer\<close>: two hosts joined by a link; \<open>vtl_send_data\<close>, the egress and ingress grafts and
      \<open>vtl_recv_data\<close> composed once for every graft (record \<open>graft\<close>). The locales \<open>in_order_receiver\<close> and
      \<open>window_sender\<close> state what a stream of messages needs of the two sides, and are interpreted for
      go-back-N and selective repeat. \<open>Stream_Unacked\<close> (locale \<open>unacked_sender\<close>) has the same composition
      when no ACK returns, \<open>Stream_Unnumbered\<close> (locale \<open>unnumbered_graft\<close>) the grafts that do not number
      their packets, \<open>Stream_Partial\<close> the partial-reliability graft (\<open>window_sender\<close> for full-size messages).
    \<^item> \<open>Vtl_Apps\<close>: the server and client of \<open>tests/vtl_apps\<close> over the service interface and that composition.
    \<^item> The parts of the bundled libbpf (\<open>lib/libbpf/src\<close>) below the AF_XDP socket of the control bearer.
      \<open>Libbpf_Sys\<close>: system calls as a trace that a kernel, a parameter, answers; weakest preconditions; the
      descriptors, mappings and blocks a process holds after a trace. \<open>Libbpf_Nlattr\<close>: \<open>nlattr.c\<close>.
      \<open>Libbpf_Netlink\<close>, \<open>Libbpf_Link\<close> (locale \<open>dump_handler\<close>): \<open>netlink.c\<close>. \<open>Libbpf_Bpf\<close>: \<open>bpf.c\<close>. \<open>Xsk_Prog\<close>: the
      instructions of the default XDP program and an interpreter for them. \<open>Libbpf_Xsk\<close>,
      \<open>Libbpf_Xsk_Socket\<close>: UMEM and socket of \<open>xsk.c\<close>. \<open>Libbpf_Hashmap\<close>: \<open>hashmap.c\<close>, with what it asks of its
      callers as the locale \<open>key_laws\<close>, interpreted for the hash functions of \<open>btf.c\<close> and \<open>btf_dump.c\<close>.

  \<^bold>\<open>How the model reads.\<close> C structures are records, global and static variables and pinned maps are state
  that is passed explicitly, and every return, including the error returns, is a branch. A packet is a
  list of bytes, and an access outside of it is \<open>None\<close> (grafts) or a value of a fault type (user space):
  theorems that conclude \<open>Some\<close> or \<open>Inr\<close> therefore include memory safety. Sequence numbers, lengths and
  ring indices keep their width as words. Calls with an effect outside the program (retransmissions,
  timers, \<open>sendto\<close>, program loading) are recorded in order. The frames that arrive while a sender waits in
  its timer are a function of the number of the wait, so every interleaving of the listener with the
  sender's rounds is covered.

  \<^bold>\<open>Loops.\<close> Loops with a bound in the source (the transmission and scanning loops, bounded by \<open>RETX_MAX\<close> and
  \<open>WND_SIZE\<close>, the checksum loop, the purge loop) are functions with a termination proof by a measure. The
  retry loop of the fill ring is a partial function with value \<open>None\<close> when it does not end, and
  \<open>dbr_recv_returns\<close> proves that it ends. The endless loops of the hooker daemon and its wait for the
  pinned map run over a finite list of the results of their system calls; the statements hold for all
  such lists. The receive loop of the netlink client and the retries of program loading are partial
  functions too: the first is shown to return for every dump in finitely many datagrams
  (\<open>bpf_get_link_xdp_id_attached\<close>), the second unless the kernel answers \<open>EAGAIN\<close> for ever
  (\<open>bpf_load_program_xattr_terminates\<close>). No fuel is used.

  \<^bold>\<open>Assumptions.\<close> Kernel helpers, system calls, name resolution, allocation and libelf are parameters.
  The named hypotheses \<open>change_tail_ok\<close>, \<open>store_bytes_ok\<close>, \<open>adjust_tail_ok\<close>, \<open>inet_pton_ok\<close> and \<open>xdp_kernel_ok\<close>
  state their documented behaviour, and the witnesses instantiate them (\<open>doc_kern\<close>, \<open>doc_host\<close>, \<open>sample_lenv\<close>,
  \<open>hk_env_ok\<close>).

  \<^bold>\<open>What is shown.\<close>
    \<^item> Delivery: over go-back-N and selective repeat with timely ACKs, a whole stream of messages reaches
      the receiving application unchanged, in order and once (\<open>gbn_transfer_delivers\<close>,
      \<open>sr_transfer_delivers\<close>), so that the client of the test application writes the server's file
      (\<open>vtl_file_transfer\<close>); the receiver accepts exactly the next intact packet, and the data bearer
      delivers in order from any arrival order within a window.
    \<^item> Partial reliability: messages of full size arrive once and in order when at most two ACKs of the
      window are missing (\<open>pr_transfer_delivers\<close>), messages of fewer than 362 bytes never arrive
      (\<open>pr_short_messages_lost\<close>).
    \<^item> Delivery without ACKs: messages shorter than a full payload still arrive exactly once
      (\<open>gbn_short_messages_once\<close>), a window of full messages arrives \<open>RETX_MAX\<close> + 1 times
      (\<open>gbn_full_windows_repeated\<close>).
    \<^item> Retransmission: every round resends from the first gap (go-back-N), the slots that timed out
      (selective repeat), or all but the tolerated losses (partial reliability); a resent frame is equal
      to the first one; all senders keep their maps well-formed.
    \<^item> The hooker: the invariant of its maps in every reachable state, redirection in both directions,
      safety of the option parser; a hooked download between two legacy applications delivers the file
      (\<open>hooked_download\<close>), and every interleaving of the daemon's threads gives the two sequential loops
      (\<open>hkb_threads_refine_loops\<close>).
    \<^item> The launcher: relocation patches exactly the map loads, map definitions are read back as written,
      the descriptor tables agree, the bounds of the program table (also over
      whole sessions of the orchestrator), and that attaching replaces what is on
      the XDP hook and detaching empties it.
    \<^item> The AF_XDP path through libbpf: the attribute parser stays inside its buffer, the program attached to
      an interface is found in any dump of the links, a socket is entered in the map of that program under
      its queue (\<open>xsk_setup_registers\<close>), the UMEM it is created on has exactly the fill ring that the data
      bearer needs (\<open>umem_feeds_socket\<close>), and no mapping or block is left by errors or by deletion; the default program
      does what the C program in its comment does; the hash map refines a map.
    \<^item> Where the code departs from its intention, theorems that show it: the checksum that leaves out the
      last byte, negotiation that cannot succeed, duplicates that are delivered again, NACKed packets that
      are not resent, frames that leak, a sender whose messages are lost after a restart, grafts without
      sequence numbers of which the application sees only the first message, a client buffer that
      is overrun, a relay buffer that a full message overruns, application data that goes to whoever sent
      the last datagram.

  \<^bold>\<open>Not modelled.\<close> The tests and examples other than \<open>vtl_apps\<close> and the legacy applications, the test grafts (the text of the canonical
  grafts), the object loader and the type information of the
  vendored libbpf (\<open>libbpf.c\<close>, \<open>btf.c\<close>, \<open>btf_dump.c\<close> but for the callers of the hash map), the dumps of traffic control
  in \<open>netlink.c\<close>, the queries and test runs in \<open>bpf.c\<close>, kernel headers, and time measurement and log
  output everywhere. Floating-point numbers that the monitor prints are a type parameter.
\<close>

section \<open>Negotiation across the components\<close>


text \<open>
  An answer to a negotiation cannot be recognised. The receiver's answer leaves through its own
  canonical egress graft, which overwrites the packet type with DATA or NEGO; whatever type
  \<open>vtl_validate\<close> chose, the sender's listener records N_IDLE for it.
\<close>

theorem negotiation_answer_is_lost:
  assumes "vtl_frame (skb_data s)"
  shows "\<exists>k. cano_egress s = Some (TC_ACT_SHOT, k, [NicTx (skb_ifindex s + 1) k]) \<and>
    cano_listener (skb_data k) [st0] = Some (XDP_DROP, [N_IDLE])"
proof -
  obtain g where g: "vtlh_gid (skb_data s) = Some g" using safe_vtlh_fields(1) [OF assms] by (auto elim: safeE)
  obtain k where k: "cano_egress s = Some (TC_ACT_SHOT, k, [NicTx (skb_ifindex s + 1) k])"
    "vtlh_pkt_type (skb_data k) = Some (pkt_code (if g = -1 then DATA else NEGO))" "vtl_frame (skb_data k)"
    by (rule cano_egress_frame [OF assms g]) blast
  then show ?thesis by (simp add: cano_listener_def with_vtl_hdr_frame map_update_ok)
qed

section \<open>The windowed grafts and the bearers\<close>

text \<open>
  A restarted sender is shut out. Opening the raw socket resets the sender's sequence number but
  nothing resets the receiver's: when the go-back-N receiver expects another number than 0, the first
  packet of the new connection is rejected and its counter stays where it is, so every retransmission
  is rejected too.
\<close>

theorem restarted_sender_is_rejected:
  assumes "win_ok w" and "change_tail_ok K" and "adjust_tail_ok K"
    and "cbr_create_raw_sock E domain proto w = (fd, w')" and "0 \<le> fd" and "0 \<le> get_map_fd E ''NUM_SEQ_MAP''"
    and "gbn_send_first K s w' = Some (Inr t)" and "unat (skb_len s) = length (skb_data s)"
    and "length (skb_data s) \<le> ON_WIRE_SIZE" and "vtlh_payload_len (skb_data s) = Some plen"
    and "VTL_END + plen \<le> length (skb_data s)" and "a \<noteq> 0"
  shows "\<exists>q. gbn_ingress K xsks i (skb_data (tx_skb t)) [a] = Some (XDP_TX, q, [a]) \<and> is_nack q"
proof -
  let ?p = "skb_data (tx_skb t)"
  have w': "win_ok w'" by (rule cbr_create_raw_sock_ok [OF assms(1,4)])
  have z: "num_seq_map w' ! 0 = 0"
    using assms(1,4-6) by (auto simp: cbr_create_raw_sock_def win_ok_def Let_def map_update_ok split: if_splits)
  note f = win_send_first_frame [OF w' assms(2) assms(7) [unfolded gbn_send_first_def] assms(8,9)]
  have p: "vtl_frame ?p" "vtlh_payload_len ?p = Some plen" "csum_fits ?p plen" "vtlh_seq_num ?p = Some 0"
    "VTL_END + plen \<le> length ?p"
    using f(1-3,8) assms(10,11) z by (auto simp: sealed_def)
  have "plen \<le> VTL_DATA_SIZE" using assms(9,11) by (simp add: VTL_END_def VTL_DATA_SIZE_def ON_WIRE_SIZE_def)
  moreover have "\<not> (intact ?p \<and> 0 = unat a)" using assms(12) by (auto simp: unsigned_eq_0_iff)
  ultimately show ?thesis
    using gbn_nack [OF assms(3) p(1,2,3,5) _ p(4), of a] by metis
qed

text \<open>
  The selective-repeat receiver forwards what the bearer cannot hold. The graft checks the checksum
  but not the sequence number: an intact frame numbered 16 or more is redirected to the socket, and
  \<open>__process_packet\<close> then indexes its reorder buffer of 16 slots with that number.
\<close>

theorem sr_forwards_out_of_window:
  assumes "sealed p" and "vtlh_seq_num p = Some n" and "WIN_SIZE \<le> n" and "xsk_bound xsks i"
    and "next_num ds < WIN_SIZE" and "has_rx args" and "has_vtlh args"
  shows "sr_ingress K xsks i p = Some (k_redirect_map K i, p) \<and>
    process_packet args calloc_ok p ds rx = Inl OutOfBounds"
proof
  obtain plen where p: "vtl_frame p" "vtlh_payload_len p = Some plen" "csum_fits p plen"
    "vtlh_checksum p = Some (unat (xor_bytes (covered p plen)))"
    using assms(1) by (auto simp: sealed_def)
  show "sr_ingress K xsks i p = Some (k_redirect_map K i, p)"
    using p assms(4) by (simp add: sr_ingress_def with_vtl_hdr_frame vtl_csum_eq)
  show "process_packet args calloc_ok p ds rx = Inl OutOfBounds"
    using p(1) assms by (auto simp: process_packet_def vtl_frame_def Let_def)
qed

section \<open>Instances\<close>


theorem negotiation_answer_is_lost_witness:
  "\<exists>k. cano_egress nego_skb = Some (TC_ACT_SHOT, k, [NicTx 4 k]) \<and>
     cano_listener (skb_data k) [N_REFUSE] = Some (XDP_DROP, [N_IDLE])"
proof -
  have "vtl_frame (skb_data nego_skb)" by code_simp
  from negotiation_answer_is_lost [OF this, of N_REFUSE] show ?thesis by (simp add: nego_skb_def)
qed

theorem restarted_sender_is_rejected_witness:
  "\<exists>w' t q. cbr_create_raw_sock sample_env AF_INET IPPROTO_RAW (sample_maps 5) = (3, w') \<and>
     gbn_send_first doc_kern sample_skb w' = Some (Inr t) \<and>
     gbn_ingress doc_kern [True] 0 (skb_data (tx_skb t)) [5] = Some (XDP_TX, q, [5]) \<and> is_nack q"
proof -
  have w: "win_ok (sample_maps 5)" by (rule sample_maps_ok) simp
  obtain w' where c: "cbr_create_raw_sock sample_env AF_INET IPPROTO_RAW (sample_maps 5) = (3, w')"
    by (simp add: cbr_create_raw_sock_def get_map_fd_def sample_env_def Let_def)
  have w': "win_ok w'" by (rule cbr_create_raw_sock_ok [OF w c])
  have h: "unat (skb_len sample_skb) = length (skb_data sample_skb)" "length (skb_data sample_skb) \<le> ON_WIRE_SIZE"
    "VTL_END + 3 \<le> length (skb_data sample_skb)" "(word_of_nat 3 :: u32) \<noteq> word_of_nat VTL_DATA_SIZE"
    by code_simp+
  obtain t where t: "gbn_send_first doc_kern sample_skb w' = Some (Inr t)"
    using win_send_first_sends [OF w' doc_kern_change_tail_ok sample_skb_ok(1,2,3), of IDLE] h(4)
    unfolding gbn_send_first_def by blast
  have g: "0 \<le> get_map_fd sample_env ''NUM_SEQ_MAP''" by (simp add: get_map_fd_def sample_env_def)
  have a: "(5 :: u16) \<noteq> 0" by simp
  show ?thesis
    using restarted_sender_is_rejected [OF w doc_kern_change_tail_ok doc_kern_adjust_tail_ok c _ g t h(1,2) sample_skb_ok(2) h(3) a,
        of "[True]" 0] c t by auto
qed

text \<open>An intact frame with sequence number 20.\<close>

theorem sr_forwards_out_of_window_witness:
  "sr_ingress doc_kern [True] 0 (sealed_frame[52 := 20]) = Some (XDP_REDIRECT, sealed_frame[52 := 20]) \<and>
   process_packet dbr_args (\<lambda>_. True) (sealed_frame[52 := 20]) dbr_init \<lparr>rx_data = [], cnt_pkts = 0, cnt_bytes = 0\<rparr> =
     Inl OutOfBounds"
proof -
  let ?p = "sealed_frame[52 := 20]"
  have "vtl_frame ?p \<and> vtlh_pkt_type ?p = Some (pkt_code DATA) \<and> vtlh_payload_len ?p = Some 3 \<and>
      csum_fits ?p 3 \<and> vtlh_checksum ?p = Some (unat (xor_bytes (covered ?p 3)))"
    by code_simp
  then have p: "sealed ?p" by (auto simp: sealed_def)
  have h: "vtlh_seq_num ?p = Some 20" "WIN_SIZE \<le> 20" "xsk_bound [True] 0" "next_num dbr_init < WIN_SIZE"
    "has_rx dbr_args" "has_vtlh dbr_args" "k_redirect_map doc_kern 0 = XDP_REDIRECT"
    by code_simp+
  show ?thesis
    using sr_forwards_out_of_window [OF p h(1-6), of doc_kern] h(7) by simp
qed

end
